(* ===== verification/Prelude.thy ===== *)
theory Prelude
  imports Main "HOL-Library.Word"
begin

text \<open>
  Shared vocabulary of the development: Go's \<^verbatim>\<open>int64\<close> (a mathematical integer whose
  arithmetic is written with \<open>wrap64\<close> wherever the code computes with it), \<^verbatim>\<open>time.Time\<close>
  (an instant in nanoseconds and the offset of its location), the collections of rewrite rules
  the component theories fill, and generic lemmas on lists.
\<close>

named_theorems query_elims \<open>inversion of a successful statement\<close>
named_theorems query_mono \<open>no statement moves a sequence backwards\<close>
named_theorems query_run \<open>evaluation of a statement on a healthy connection\<close>

section \<open>Machine integers\<close>

type_synonym int64 = int

abbreviation MaxInt64 :: int64 where
  "MaxInt64 \<equiv> 9223372036854775807"

abbreviation MinInt64 :: int64 where
  "MinInt64 \<equiv> - 9223372036854775808"

definition in_int64 :: "int \<Rightarrow> bool" where
  "in_int64 x \<longleftrightarrow> MinInt64 \<le> x \<and> x \<le> MaxInt64"

text \<open>The value a 64-bit two's complement register holds after a computation gave \<open>x\<close>.\<close>

definition wrap64 :: "int \<Rightarrow> int64" where
  "wrap64 x = sint (word_of_int x :: 64 word)"

definition sub64 :: "int64 \<Rightarrow> int64 \<Rightarrow> int64" where
  "sub64 a b = wrap64 (a - b)"

definition neg64 :: "int64 \<Rightarrow> int64" where
  "neg64 a = wrap64 (- a)"

lemma wrap64_signed_take_bit: "wrap64 x = signed_take_bit 63 x"
  by (simp add: wrap64_def sint_sbintrunc')

lemma wrap64_mod: "wrap64 x = (x + 2 ^ 63) mod 2 ^ 64 - 2 ^ 63"
  by (simp add: wrap64_signed_take_bit signed_take_bit_eq_take_bit_shift take_bit_eq_mod)

lemma wrap64_code [code]:
  "wrap64 x = (x + 9223372036854775808) mod 18446744073709551616 - 9223372036854775808"
  by (simp add: wrap64_mod)

lemma wrap64_id [simp]: "in_int64 x \<Longrightarrow> wrap64 x = x"
  by (simp add: in_int64_def wrap64_mod)

lemma wrap64_in_int64 [simp, intro]: "in_int64 (wrap64 x)"
  unfolding in_int64_def wrap64_mod
  using pos_mod_bound [of "2 ^ 64" "x + 2 ^ 63"] pos_mod_sign [of "2 ^ 64" "x + 2 ^ 63"] by simp

lemma in_int64_pos: "0 < x \<Longrightarrow> x \<le> MaxInt64 \<Longrightarrow> in_int64 x"
  by (simp add: in_int64_def)

lemma neg64_id [simp]: "0 < x \<Longrightarrow> in_int64 x \<Longrightarrow> neg64 x = - x"
  unfolding neg64_def by (rule wrap64_id) (simp add: in_int64_def)

lemma sub64_id: "in_int64 (a - b) \<Longrightarrow> sub64 a b = a - b"
  by (simp add: sub64_def)

text \<open>
  Subtracting a positive amount can only wrap below the range, and then lands at or above zero:
  the register looks solvent although the true difference is far below zero.
\<close>

lemma sub64_wraps:
  assumes "in_int64 a" "in_int64 b" "0 < b" "a - b < MinInt64"
  shows "sub64 a b = a - b + 2 ^ 64"
proof -
  have "(a - b + 2 ^ 63) mod 2 ^ 64 = (a - b + 2 ^ 63 + 2 ^ 64) mod (2 ^ 64)"
    by (rule mod_add_self2 [symmetric])
  also have "\<dots> = a - b + 2 ^ 63 + 2 ^ 64"
    using assms by (intro mod_pos_pos_trivial) (auto simp: in_int64_def)
  finally show ?thesis
    by (simp add: sub64_def wrap64_mod)
qed

section \<open>Instants\<close>

text \<open>
  \<^verbatim>\<open>time.Time\<close> as the code uses it: nanoseconds since the Unix epoch and the offset, in
  seconds east of UTC, of the location the value is displayed in.
\<close>

record time =
  unix_nanos :: int
  zone_secs :: int

section \<open>Lists\<close>

lemma find_SomeD: "find P xs = Some x \<Longrightarrow> P x \<and> x \<in> set xs"
  by (induction xs) (auto split: if_splits)

lemma find_NoneD: "find P xs = None \<Longrightarrow> x \<in> set xs \<Longrightarrow> \<not> P x"
  by (simp add: find_None_iff)

lemma find_eq_SomeI:
  assumes "x \<in> set xs" "P x" "\<And>y. y \<in> set xs \<Longrightarrow> P y \<Longrightarrow> y = x"
  shows "find P xs = Some x"
proof (cases "find P xs")
  case None
  with assms(1,2) show ?thesis by (auto dest: find_NoneD)
next
  case (Some y)
  with assms(3) show ?thesis by (auto dest: find_SomeD)
qed

lemma find_append: "find P (xs @ ys) = (case find P xs of None \<Rightarrow> find P ys | Some x \<Rightarrow> Some x)"
  by (induction xs) auto

text \<open>In a list whose keys are distinct, the key finds its own row.\<close>

lemma find_key:
  assumes "distinct (map k xs)" "x \<in> set xs"
  shows "find (\<lambda>y. k y = k x) xs = Some x"
  using assms by (intro find_eq_SomeI) (auto simp: distinct_map inj_on_def)

lemma sum_list_concat_map:
  "sum_list (concat (map f xs)) = (\<Sum>x\<leftarrow>xs. sum_list (f x :: int list))"
  by (induction xs) simp_all

end
