(* ===== verification/Go_Errors.thy ===== *)
theory Go_Errors
  imports Prelude
begin

text \<open>
  The error values of the program. Every package's sentinel errors (\<^verbatim>\<open>errors.New\<close>) are one
  datatype; \<open>go_error\<close> is the interface value an operation returns: a sentinel, an error the
  database driver or another library reported (only its text is known), an error made on the spot by
  \<^verbatim>\<open>errors.New\<close> or \<^verbatim>\<open>fmt.Errorf\<close>, or an error wrapped by
  \<^verbatim>\<open>fmt.Errorf\<close> with \<^verbatim>\<open>%w\<close>. Operations return \<open>'a result\<close>, \<open>Inl\<close> being the non-nil
  error.
\<close>

text \<open>Sentinels of \<^verbatim>\<open>internal/storage/storage.go\<close>.\<close>

datatype storage_error = ErrNotFound | ErrDuplicateKey

text \<open>Sentinels of \<^verbatim>\<open>internal/service/service.go\<close>.\<close>

datatype service_error =
    ErrNotEnough
  | ErrInvalidAmount
  | ErrSameAccount
  | ErrCurrencyMismatch
  | ErrSourceAccountNotFound
  | ErrDestinationAccountNotFound
  | ErrTransactionNotFound
  | ErrTransactionsMismatch
  | ErrSystemAccountNotAllowed
  | ErrInvalidDepositDestination
  | ErrInvalidWithdrawSource
  | ErrSystemAccountNotFound
  | ErrReverseIncompletedTx
  | ErrReverseReversalTx
  | ErrAccountNotFound

text \<open>The sentinel of \<^verbatim>\<open>internal/relay/relay.go\<close>.\<close>

datatype relay_error = ErrOutboxLocked

datatype go_error =
    StorageError storage_error
  | ServiceError service_error
  | RelayError relay_error
  | DriverError string
  | JsonError string
  | TextError string
  | Wrapped string go_error

type_synonym 'a result = "go_error + 'a"

text \<open>\<^verbatim>\<open>errors.Is\<close>: the target is the error itself or one it wraps.\<close>

fun errors_Is :: "go_error \<Rightarrow> go_error \<Rightarrow> bool" where
  "errors_Is (Wrapped msg e) t = (Wrapped msg e = t \<or> errors_Is e t)"
| "errors_Is e t = (e = t)"

fun storage_error_text :: "storage_error \<Rightarrow> string" where
  "storage_error_text ErrNotFound = ''record not found''"
| "storage_error_text ErrDuplicateKey = ''duplicate idempotency key''"

fun service_error_text :: "service_error \<Rightarrow> string" where
  "service_error_text ErrNotEnough = ''not enough balance to write off this amount''"
| "service_error_text ErrInvalidAmount = ''invalid amount''"
| "service_error_text ErrSameAccount = ''transfer to the same account''"
| "service_error_text ErrCurrencyMismatch = ''the currencies of the accounts do not match''"
| "service_error_text ErrSourceAccountNotFound = ''source account not found''"
| "service_error_text ErrDestinationAccountNotFound = ''destination account not found''"
| "service_error_text ErrTransactionNotFound = ''transaction not found''"
| "service_error_text ErrTransactionsMismatch =
     ''values in the transaction with the same idempotencyKey have changed''"
| "service_error_text ErrSystemAccountNotAllowed = ''the transfer takes place only between users''"
| "service_error_text ErrInvalidDepositDestination =
     ''destination account in deposit operation must be user type''"
| "service_error_text ErrInvalidWithdrawSource =
     ''source account in withdraw operation must be user type''"
| "service_error_text ErrSystemAccountNotFound =
     ''the system account not found. Must be one of: ATM, BANK''"
| "service_error_text ErrReverseIncompletedTx =
     ''it is not possible to reverse the incompleted transaction''"
| "service_error_text ErrReverseReversalTx =
     ''it is not possible to reverse the transaction of type '' @ [CHR 0x27] @ ''reversal'' @ [CHR 0x27]"
| "service_error_text ErrAccountNotFound = ''account not found''"

text \<open>The method \<^verbatim>\<open>Error()\<close>.\<close>

fun error_text :: "go_error \<Rightarrow> string" where
  "error_text (StorageError e) = storage_error_text e"
| "error_text (ServiceError e) = service_error_text e"
| "error_text (RelayError ErrOutboxLocked) = ''outbox table is locked''"
| "error_text (DriverError m) = m"
| "error_text (JsonError m) = m"
| "error_text (TextError m) = m"
| "error_text (Wrapped m e) = m @ '': '' @ error_text e"

lemma errors_Is_refl [simp]: "errors_Is e e"
  by (cases e) simp_all

lemma errors_Is_DriverError [simp]: "errors_Is (DriverError m) t \<longleftrightarrow> t = DriverError m"
  by auto

end
