(* ===== verification/Go_Text.thy ===== *)
theory Go_Text
  imports Prelude
begin

text \<open>
  The text conversions of Go's standard library that the program relies on, on byte strings
  (\<open>string\<close> is a list of bytes, as a Go string is): \<^verbatim>\<open>strconv.FormatInt\<close> and
  \<^verbatim>\<open>strconv.ParseInt\<close> in base 10 with 64 bits, the RFC 3339 text of a \<^verbatim>\<open>time.Time\<close> and the
  quoting of a string by \<^verbatim>\<open>encoding/json\<close>.
\<close>

section \<open>Decimal numbers\<close>

definition digit_char :: "int \<Rightarrow> char" where
  "digit_char d = char_of (48 + d)"

definition digit_value :: "char \<Rightarrow> int option" where
  "digit_value c = (let n = of_char c in if 48 \<le> n \<and> n \<le> 57 then Some (n - 48) else None)"

function dec_text :: "int \<Rightarrow> string" where
  "dec_text n = (if n < 10 then [digit_char n] else dec_text (n div 10) @ [digit_char (n mod 10)])"
  by pat_completeness auto
termination
  by (relation "measure nat") auto

declare dec_text.simps [simp del]

text \<open>\<^verbatim>\<open>strconv.FormatInt(i, 10)\<close>\<close>

definition FormatInt :: "int64 \<Rightarrow> string" where
  "FormatInt i = (if i < 0 then CHR ''-'' # dec_text (- i) else dec_text i)"

text \<open>
  \<^verbatim>\<open>strconv.ParseInt(s, 10, 64)\<close>: an optional sign and at least one digit, \<^verbatim>\<open>ErrSyntax\<close>
  otherwise; a value outside the 64-bit range is \<^verbatim>\<open>ErrRange\<close>.
\<close>

datatype num_error = ErrSyntax | ErrRange

fun digits_value :: "int \<Rightarrow> string \<Rightarrow> int option" where
  "digits_value acc [] = Some acc"
| "digits_value acc (c # cs) =
     (case digit_value c of None \<Rightarrow> None | Some d \<Rightarrow> digits_value (10 * acc + d) cs)"

definition parse_digits :: "string \<Rightarrow> int option" where
  "parse_digits s = (if s = [] then None else digits_value 0 s)"

fun split_sign :: "string \<Rightarrow> bool \<times> string" where
  "split_sign [] = (False, [])"
| "split_sign (c # cs) =
     (if c = CHR ''-'' then (True, cs) else if c = CHR ''+'' then (False, cs) else (False, c # cs))"

definition ParseInt :: "string \<Rightarrow> num_error + int64" where
  "ParseInt s =
     (let (neg, ds) = split_sign s
      in case parse_digits ds of
           None \<Rightarrow> Inl ErrSyntax
         | Some n \<Rightarrow> (let i = (if neg then - n else n)
                      in if in_int64 i then Inr i else Inl ErrRange))"

lemma of_char_digit_char: "0 \<le> d \<Longrightarrow> d < 10 \<Longrightarrow> of_char (digit_char d) = 48 + d"
  by (simp add: digit_char_def of_char_of)

lemma digit_value_digit_char [simp]: "0 \<le> d \<Longrightarrow> d < 10 \<Longrightarrow> digit_value (digit_char d) = Some d"
  by (simp add: digit_value_def of_char_digit_char)

lemma dec_text_nonempty [simp]: "dec_text n \<noteq> []"
  by (subst dec_text.simps) simp

lemma digits_value_append:
  "digits_value acc (xs @ ys) = (case digits_value acc xs of None \<Rightarrow> None | Some n \<Rightarrow> digits_value n ys)"
  by (induction xs arbitrary: acc) (auto split: option.splits)

lemma digits_value_dec_text: "0 \<le> n \<Longrightarrow> digits_value 0 (dec_text n) = Some n"
proof (induction n rule: dec_text.induct)
  case (1 n)
  show ?case
  proof (cases "n < 10")
    case True
    with 1 show ?thesis by (subst dec_text.simps) simp
  next
    case False
    with 1 have "digits_value 0 (dec_text (n div 10)) = Some (n div 10)" by simp
    with False show ?thesis
      by (subst dec_text.simps) (simp add: digits_value_append)
  qed
qed

lemma parse_digits_dec_text [simp]: "0 \<le> n \<Longrightarrow> parse_digits (dec_text n) = Some n"
  by (simp add: parse_digits_def digits_value_dec_text)

lemma dec_text_digits:
  "0 \<le> n \<Longrightarrow> c \<in> set (dec_text n) \<Longrightarrow> 48 \<le> (of_char c :: int) \<and> (of_char c :: int) \<le> 57"
proof (induction n rule: dec_text.induct)
  case (1 n)
  show ?case
  proof (cases "n < 10")
    case True
    then have "dec_text n = [digit_char n]" by (subst dec_text.simps) simp
    with 1 True show ?thesis by (simp add: of_char_digit_char)
  next
    case False
    then have "dec_text n = dec_text (n div 10) @ [digit_char (n mod 10)]"
      by (subst dec_text.simps) simp
    with 1 False show ?thesis by (auto simp: of_char_digit_char)
  qed
qed

lemma split_sign_dec_text: "0 \<le> n \<Longrightarrow> split_sign (dec_text n) = (False, dec_text n)"
  using dec_text_digits [of n "hd (dec_text n)"] by (cases "dec_text n") auto

lemma ParseInt_FormatInt: "in_int64 i \<Longrightarrow> ParseInt (FormatInt i) = Inr i"
  by (simp add: ParseInt_def FormatInt_def split_sign_dec_text)

lemma FormatInt_inj: "in_int64 i \<Longrightarrow> in_int64 j \<Longrightarrow> FormatInt i = FormatInt j \<longleftrightarrow> i = j"
  by (metis ParseInt_FormatInt sum.inject(2))

section \<open>Instants as text\<close>

text \<open>
  The proleptic Gregorian calendar: \<open>civil_of_day\<close> gives year, month and day of the month of
  the day number counted from 1970-01-01.
\<close>

definition civil_of_day :: "int \<Rightarrow> int \<times> int \<times> int" where
  "civil_of_day n =
     (let z = n + 719468;
          era = z div 146097;
          doe = z mod 146097;
          yoe = (doe - doe div 1460 + doe div 36524 - doe div 146096) div 365;
          doy = doe - (365 * yoe + yoe div 4 - yoe div 100);
          mp = (5 * doy + 2) div 153;
          d = doy - (153 * mp + 2) div 5 + 1;
          m = (if mp < 10 then mp + 3 else mp - 9)
      in (yoe + era * 400 + (if m \<le> 2 then 1 else 0), m, d))"

text \<open>Zero-padded decimal of a fixed width.\<close>

definition padded :: "nat \<Rightarrow> int \<Rightarrow> string" where
  "padded w i = (let t = dec_text i in replicate (w - length t) (CHR ''0'') @ t)"

definition fraction_text :: "int \<Rightarrow> string" where
  "fraction_text ns =
     (if ns = 0 then []
      else CHR ''.'' # rev (dropWhile (\<lambda>c. c = CHR ''0'') (rev (padded 9 ns))))"

text \<open>
  \<^verbatim>\<open>Time.MarshalJSON\<close> without its quotes: RFC 3339 with the fraction's trailing zeros removed,
  an error for a year outside 0 to 9999 or a zone offset of 24 hours or more.
\<close>

definition rfc3339 :: "time \<Rightarrow> string + string" where
  "rfc3339 t =
     (let local = unix_nanos t + zone_secs t * 1000000000;
          secs = local div 1000000000;
          nanos = local mod 1000000000;
          (y, m, d) = civil_of_day (secs div 86400);
          sod = secs mod 86400;
          zone = zone_secs t;
          zmin = \<bar>zone\<bar> div 60
      in if y < 0 \<or> 9999 < y then Inl ''year outside of range [0,9999]''
         else if 24 \<le> zmin div 60 then Inl ''timezone hour outside of range [0,23]''
         else Inr (padded 4 y @ ''-'' @ padded 2 m @ ''-'' @ padded 2 d @ ''T''
                @ padded 2 (sod div 3600) @ '':'' @ padded 2 (sod div 60 mod 60) @ '':''
                @ padded 2 (sod mod 60) @ fraction_text nanos
                @ (if zone = 0 then ''Z''
                   else (if zone < 0 then ''-'' else ''+'')
                        @ padded 2 (zmin div 60) @ '':'' @ padded 2 (zmin mod 60))))"

section \<open>JSON strings\<close>

text \<open>
  The length of the well-formed UTF-8 sequence a byte string starts with, \<open>None\<close> if it starts
  with none (Go's \<^verbatim>\<open>utf8.DecodeRune\<close> then reports \<^verbatim>\<open>RuneError\<close> of width 1).
\<close>

definition cont_byte :: "char \<Rightarrow> bool" where
  "cont_byte c = (let n = (of_char c :: int) in 128 \<le> n \<and> n \<le> 191)"

fun utf8_width :: "string \<Rightarrow> nat option" where
  "utf8_width [] = None"
| "utf8_width (a # s) =
     (let n = (of_char a :: int) in
      if n < 128 then Some 1
      else case s of
        [] \<Rightarrow> None
      | b # s' \<Rightarrow>
          (let k = (of_char b :: int) in
           if 194 \<le> n \<and> n \<le> 223 then (if cont_byte b then Some 2 else None)
           else case s' of
             [] \<Rightarrow> None
           | c # s'' \<Rightarrow>
               if 224 \<le> n \<and> n \<le> 239 then
                 (if cont_byte c \<and> cont_byte b \<and> (n = 224 \<longrightarrow> 160 \<le> k) \<and> (n = 237 \<longrightarrow> k \<le> 159)
                  then Some 3 else None)
               else case s'' of
                 [] \<Rightarrow> None
               | d # _ \<Rightarrow>
                   if 240 \<le> n \<and> n \<le> 244 \<and> cont_byte b \<and> cont_byte c \<and> cont_byte d
                      \<and> (n = 240 \<longrightarrow> 144 \<le> k) \<and> (n = 244 \<longrightarrow> k \<le> 143)
                   then Some 4 else None))"

definition hex_char :: "int \<Rightarrow> char" where
  "hex_char d = (if d < 10 then char_of (48 + d) else char_of (87 + d))"

definition u_escape :: "string \<Rightarrow> string" where
  "u_escape ds = CHR 0x5C # CHR ''u'' # ds"

text \<open>
  One ASCII byte inside a JSON string as \<^verbatim>\<open>encoding/json\<close> writes it with HTML escaping on (the
  default of \<^verbatim>\<open>json.Marshal\<close>).
\<close>

definition json_ascii :: "char \<Rightarrow> string" where
  "json_ascii c =
     (let n = (of_char c :: int) in
      if c = CHR 0x22 \<or> c = CHR 0x5C then [CHR 0x5C, c]
      else if n = 8 then [CHR 0x5C, CHR ''b'']
      else if n = 9 then [CHR 0x5C, CHR ''t'']
      else if n = 10 then [CHR 0x5C, CHR ''n'']
      else if n = 12 then [CHR 0x5C, CHR ''f'']
      else if n = 13 then [CHR 0x5C, CHR ''r'']
      else if n < 32 \<or> c = CHR 0x3C \<or> c = CHR 0x3E \<or> c = CHR 0x26
      then u_escape [CHR ''0'', CHR ''0'', hex_char (n div 16), hex_char (n mod 16)]
      else [c])"

text \<open>Invalid UTF-8 becomes U+FFFD; U+2028 and U+2029 are escaped; other text is copied.\<close>

fun json_body :: "string \<Rightarrow> string" where
  "json_body [] = []"
| "json_body (c # cs) =
     (if (of_char c :: int) < 128 then json_ascii c @ json_body cs
      else case utf8_width (c # cs) of
             None \<Rightarrow> u_escape ''fffd'' @ json_body cs
           | Some w \<Rightarrow>
               (let r = c # take (w - 1) cs in
                (if r = [CHR 0xE2, CHR 0x80, CHR 0xA8] then u_escape ''2028''
                 else if r = [CHR 0xE2, CHR 0x80, CHR 0xA9] then u_escape ''2029'' else r)
                @ json_body (drop (w - 1) cs)))"

definition json_string :: "string \<Rightarrow> string" where
  "json_string s = CHR 0x22 # json_body s @ [CHR 0x22]"

text \<open>An object from its rendered members, in the order given.\<close>

fun json_members :: "(string \<times> string) list \<Rightarrow> string" where
  "json_members [] = []"
| "json_members [(k, v)] = json_string k @ '':'' @ v"
| "json_members ((k, v) # ms) = json_string k @ '':'' @ v @ '','' @ json_members ms"

definition json_object :: "(string \<times> string) list \<Rightarrow> string" where
  "json_object ms = ''{'' @ json_members ms @ ''}''"

end
