(* ===== verification/Events.thy ===== *)
theory Events
  imports Go_Errors Go_Text
begin

text \<open>
  \<^verbatim>\<open>internal/events/events.go\<close>: the payload of an outbox event, its partition key and its
  JSON text (the struct's tags: the field names, and \<^verbatim>\<open>omitempty\<close> on the pointer field).
\<close>

definition EntryTypePosted :: string where
  "EntryTypePosted = ''entry.posted''"

record entry_posted =
  ev_AccountID :: int64
  ev_TransactionID :: int64
  ev_TransactionType :: string
  ev_Amount :: int64
  ev_Currency :: string
  ev_CounterpartyID :: int64
  ev_ReversalOf :: "int64 option"
  ev_OccurredAt :: time

definition Key :: "entry_posted \<Rightarrow> string" where
  "Key e = FormatInt (ev_AccountID e)"

text \<open>The members of the JSON object, in the order of the struct's fields.\<close>

definition entry_members :: "entry_posted \<Rightarrow> string \<Rightarrow> (string \<times> string) list" where
  "entry_members e occurred =
     [(''account_id'', FormatInt (ev_AccountID e)),
      (''transaction_id'', FormatInt (ev_TransactionID e)),
      (''transaction_type'', json_string (ev_TransactionType e)),
      (''amount'', FormatInt (ev_Amount e)),
      (''currency'', json_string (ev_Currency e)),
      (''counterparty_id'', FormatInt (ev_CounterpartyID e))]
     @ (case ev_ReversalOf e of None \<Rightarrow> [] | Some i \<Rightarrow> [(''reversal_of'', FormatInt i)])
     @ [(''occurred_at'', json_string occurred)]"

text \<open>\<^verbatim>\<open>json.Marshal\<close> of the payload fails only on the time.\<close>

definition marshal_entry :: "entry_posted \<Rightarrow> string result" where
  "marshal_entry e =
     (case rfc3339 (ev_OccurredAt e) of
        Inl msg \<Rightarrow> Inl (JsonError msg)
      | Inr t \<Rightarrow> Inr (json_object (entry_members e t)))"

lemma Key_inj:
  "in_int64 (ev_AccountID e) \<Longrightarrow> in_int64 (ev_AccountID e') \<Longrightarrow>
   Key e = Key e' \<longleftrightarrow> ev_AccountID e = ev_AccountID e'"
  by (simp add: Key_def FormatInt_inj)

end
