(* ===== verification/Schema.thy ===== *)
theory Schema
  imports Events
begin

text \<open>
  The database: the rows of the tables the migrations create (\<^verbatim>\<open>migrations/*.up.sql\<close>), the
  tables in insertion order, and the three sequences behind the \<^verbatim>\<open>BIGSERIAL\<close> columns. Accounts
  are only ever written by migrations, never by the Go code. The Go structs the queries scan into
  (\<^verbatim>\<open>internal/storage/storage.go\<close>) are separate records.
\<close>

section \<open>Tables\<close>

record account_row =
  a_id :: int64
  a_owner :: string
  a_currency :: string
  a_type :: string
  a_code :: "string option"
  a_created_at :: time

record transaction_row =
  t_id :: int64
  t_idempotency_key :: string
  t_status :: string
  t_created_at :: time
  t_source_id :: int64
  t_destination_id :: int64
  t_amount :: int64
  t_type :: string
  t_reversal_of :: "int64 option"

record ledger_entry_row =
  l_id :: int64
  l_transaction_id :: int64
  l_account_id :: int64
  l_amount :: int64
  l_created_at :: time

record outbox_row =
  o_id :: int64
  o_event_id :: string
  o_event_type :: string
  o_partition_key :: string
  o_payload :: string
  o_created_at :: time
  o_published_at :: "time option"

text \<open>A sequence holds the last value it handed out.\<close>

record db =
  accounts :: "account_row list"
  transactions :: "transaction_row list"
  ledger_entries :: "ledger_entry_row list"
  outbox :: "outbox_row list"
  transactions_seq :: int64
  ledger_entries_seq :: int64
  outbox_seq :: int64

section \<open>The structs of \<^verbatim>\<open>internal/storage/storage.go\<close>\<close>

record transaction =
  tx_ID :: int64
  tx_SourceID :: int64
  tx_DestinationID :: int64
  tx_Amount :: int64
  tx_IdempotencyKey :: string
  tx_Status :: string
  tx_Type :: string
  tx_ReversalOf :: "int64 option"
  tx_CreatedAt :: time

record account =
  acc_ID :: int64
  acc_Owner :: string
  acc_Currency :: string
  acc_Type :: string
  acc_Code :: string
  acc_CreatedAt :: time

record ledger_entry =
  le_ID :: int64
  le_TransactionID :: int64
  le_Amount :: int64
  le_CreatedAt :: time
  le_SourceID :: int64
  le_DestinationID :: int64
  le_Type :: string
  le_ReversalOf :: "int64 option"

record outbox_event =
  oe_ID :: int64
  oe_EventID :: string
  oe_EventType :: string
  oe_PartitionKey :: string
  oe_Payload :: string

section \<open>Reading the tables\<close>

definition account_of :: "db \<Rightarrow> int64 \<Rightarrow> account_row option" where
  "account_of d i = find (\<lambda>a. a_id a = i) (accounts d)"

definition transaction_of :: "db \<Rightarrow> int64 \<Rightarrow> transaction_row option" where
  "transaction_of d i = find (\<lambda>t. t_id t = i) (transactions d)"

definition keyed :: "db \<Rightarrow> string \<Rightarrow> transaction_row option" where
  "keyed d k = find (\<lambda>t. t_idempotency_key t = k) (transactions d)"

text \<open>The exact sum of an account's entries, a mathematical integer (SQL's \<^verbatim>\<open>numeric\<close>).\<close>

definition balance_of :: "db \<Rightarrow> int64 \<Rightarrow> int" where
  "balance_of d i = (\<Sum>l\<leftarrow>filter (\<lambda>l. l_account_id l = i) (ledger_entries d). l_amount l)"

text \<open>The tables alone: what a rollback restores. Sequences are outside transactions.\<close>

definition same_tables :: "db \<Rightarrow> db \<Rightarrow> bool" where
  "same_tables d d' \<longleftrightarrow>
     accounts d' = accounts d \<and> transactions d' = transactions d \<and>
     ledger_entries d' = ledger_entries d \<and> outbox d' = outbox d"

definition seq_le :: "db \<Rightarrow> db \<Rightarrow> bool" where
  "seq_le d d' \<longleftrightarrow>
     transactions_seq d \<le> transactions_seq d' \<and>
     ledger_entries_seq d \<le> ledger_entries_seq d' \<and> outbox_seq d \<le> outbox_seq d'"

definition restore :: "db \<Rightarrow> db \<Rightarrow> db" where
  "restore d d' = d\<lparr>transactions_seq := transactions_seq d',
                    ledger_entries_seq := ledger_entries_seq d', outbox_seq := outbox_seq d'\<rparr>"

lemma seq_le_refl [simp, intro]: "seq_le d d"
  by (simp add: seq_le_def)

lemma seq_le_trans: "seq_le a b \<Longrightarrow> seq_le b c \<Longrightarrow> seq_le a c"
  by (auto simp: seq_le_def)

lemma same_tables_refl [simp, intro]: "same_tables d d"
  by (simp add: same_tables_def)

lemma same_tables_trans: "same_tables a b \<Longrightarrow> same_tables b c \<Longrightarrow> same_tables a c"
  by (simp add: same_tables_def)

lemma same_tables_restore [simp, intro]: "same_tables d (restore d d')"
  by (simp add: same_tables_def restore_def)

lemma seq_le_restore [simp]: "seq_le d (restore d d') \<longleftrightarrow> seq_le d d'"
  by (simp add: seq_le_def restore_def)

lemma restore_self [simp]: "restore d d = d"
  by (simp add: restore_def)

lemma account_of_same_tables: "same_tables d d' \<Longrightarrow> account_of d' = account_of d"
  by (simp add: same_tables_def account_of_def fun_eq_iff)

lemma balance_of_same_tables: "same_tables d d' \<Longrightarrow> balance_of d' = balance_of d"
  by (simp add: same_tables_def balance_of_def fun_eq_iff)

lemma transaction_of_SomeD: "transaction_of d i = Some t \<Longrightarrow> t \<in> set (transactions d) \<and> t_id t = i"
  by (auto simp: transaction_of_def dest: find_SomeD)

lemma keyed_SomeD: "keyed d k = Some t \<Longrightarrow> t \<in> set (transactions d) \<and> t_idempotency_key t = k"
  by (auto simp: keyed_def dest: find_SomeD)

lemma account_of_SomeD: "account_of d i = Some a \<Longrightarrow> a \<in> set (accounts d) \<and> a_id a = i"
  by (auto simp: account_of_def dest: find_SomeD)

end
