(* ===== verification/Session.thy ===== *)
theory Session
  imports Schema
begin

text \<open>
  One database transaction as the Go code sees it: a connection that executes statements one
  after another. A statement may fail with an error of the driver (a lost connection, an expired
  context, a server error), which the environment decides by the statement's number; the code's
  reaction to every such failure is part of the model. The session also keeps, in order, the
  resources it has had to lock, so that lock ordering is a property of the operations.
\<close>

section \<open>The environment of a transaction\<close>

text \<open>
  What the program cannot know beforehand. A commit either happens, or fails with nothing applied,
  or is reported as failed although the server applied it (\<^verbatim>\<open>commitTimeout\<close> expired first).
  \<open>gen_uuid\<close> is PostgreSQL's \<^verbatim>\<open>gen_random_uuid\<close> for the row with that id, \<open>jsonb_text\<close> is the
  text PostgreSQL later returns for a document given as \<^verbatim>\<open>JSONB\<close> input (\<open>None\<close> if it refuses the
  input), and \<open>advisory_lock_free\<close> is whether no other relay holds the outbox lock.
\<close>

datatype commit_outcome = Commit_applied | Commit_failed string | Commit_unknown string

record env =
  stmt_fault :: "nat \<Rightarrow> string option"
  begin_fault :: "string option"
  commit_outcome :: commit_outcome
  tx_now :: time
  gen_uuid :: "int64 \<Rightarrow> string"
  jsonb_text :: "string \<Rightarrow> string option"
  advisory_lock_free :: bool

definition healthy :: "env \<Rightarrow> bool" where
  "healthy e \<longleftrightarrow> stmt_fault e = (\<lambda>_. None) \<and> begin_fault e = None \<and> commit_outcome e = Commit_applied"

text \<open>
  What a session may have to wait for: row locks, and the unique keys of uncommitted rows. A row is
  locked \<^verbatim>\<open>FOR UPDATE\<close> (\<open>TxRow\<close>, \<open>AccountRow\<close>), by an update of columns no key uses (\<open>TxUpdate\<close>, the
  mode \<^verbatim>\<open>FOR NO KEY UPDATE\<close>), or by a foreign key that refers to it (\<open>TxShare\<close>, \<open>AccountShare\<close>, the mode
  \<^verbatim>\<open>FOR KEY SHARE\<close>).
\<close>

datatype resource =
    TxRow int64
  | TxUpdate int64
  | TxShare int64
  | AccountRow int64
  | AccountShare int64
  | IdempotencyKey string
  | ReversalKey int64

text \<open>The row or the key, whatever the mode.\<close>

fun place :: "resource \<Rightarrow> nat \<times> int \<times> string" where
  "place (TxRow i) = (0, i, [])"
| "place (TxUpdate i) = (0, i, [])"
| "place (TxShare i) = (0, i, [])"
| "place (AccountRow i) = (1, i, [])"
| "place (AccountShare i) = (1, i, [])"
| "place (IdempotencyKey k) = (2, 0, k)"
| "place (ReversalKey i) = (3, i, [])"

fun strength :: "resource \<Rightarrow> nat" where
  "strength (TxShare i) = 0"
| "strength (AccountShare i) = 0"
| "strength (TxUpdate i) = 1"
| "strength _ = 2"

text \<open>A session that holds \<open>h\<close> need not ask for \<open>r\<close>.\<close>

definition dominates :: "resource \<Rightarrow> resource \<Rightarrow> bool" where
  "dominates h r \<longleftrightarrow> place h = place r \<and> strength r \<le> strength h"

text \<open>
  Two sessions cannot hold both: PostgreSQL's table of conflicting row locks. Foreign keys share a
  row with each other and with an update that leaves its key alone, but not with \<^verbatim>\<open>FOR UPDATE\<close>.
\<close>

definition conflicts :: "resource \<Rightarrow> resource \<Rightarrow> bool" where
  "conflicts h r \<longleftrightarrow> place h = place r \<and> 2 \<le> strength h + strength r"

lemma dominates_refl [simp]: "dominates r r"
  by (simp add: dominates_def)

lemma conflicts_place: "conflicts h r \<Longrightarrow> place h = place r"
  by (simp add: conflicts_def)

record session =
  s_db :: db
  s_stmts :: nat
  s_locks :: "resource list"

definition fresh_session :: "db \<Rightarrow> session" where
  "fresh_session d = \<lparr>s_db = d, s_stmts = 0, s_locks = []\<rparr>"

section \<open>Statements and their composition\<close>

text \<open>
  The combinators work on any state \<open>'s\<close>; a \<open>query\<close> is an action on a session.
\<close>

type_synonym ('s, 'a) action = "'s \<Rightarrow> 'a result \<times> 's"

type_synonym 'a query = "(session, 'a) action"

definition ret :: "'a \<Rightarrow> ('s, 'a) action" where
  "ret a s = (Inr a, s)"

definition throw :: "go_error \<Rightarrow> ('s, 'a) action" where
  "throw e s = (Inl e, s)"

text \<open>\<^verbatim>\<open>x, err := m; if err != nil { return err }\<close>\<close>

definition bindQ :: "('s, 'a) action \<Rightarrow> ('a \<Rightarrow> ('s, 'b) action) \<Rightarrow> ('s, 'b) action" where
  "bindQ m f s = (case m s of (Inl e, s') \<Rightarrow> (Inl e, s') | (Inr a, s') \<Rightarrow> f a s')"

text \<open>\<^verbatim>\<open>x, err := m; if err != nil { return h(err) }\<close>\<close>

definition onErr :: "('s, 'a) action \<Rightarrow> (go_error \<Rightarrow> ('s, 'a) action) \<Rightarrow> ('s, 'a) action" where
  "onErr m h s = (case m s of (Inl e, s') \<Rightarrow> h e s' | (Inr a, s') \<Rightarrow> (Inr a, s'))"

text \<open>A statement: the environment may make it fail, with no effect on the tables.\<close>

definition exec_sql :: "env \<Rightarrow> (db \<Rightarrow> 'a result \<times> db) \<Rightarrow> 'a query" where
  "exec_sql env f s =
     (let s1 = s\<lparr>s_stmts := Suc (s_stmts s)\<rparr>
      in case stmt_fault env (s_stmts s) of
           Some msg \<Rightarrow> (Inl (DriverError msg), s1)
         | None \<Rightarrow> (case f (s_db s) of (r, d) \<Rightarrow> (r, s1\<lparr>s_db := d\<rparr>)))"

text \<open>A \<^verbatim>\<open>SELECT\<close>.\<close>

definition read_sql :: "env \<Rightarrow> (db \<Rightarrow> 'a result) \<Rightarrow> 'a query" where
  "read_sql env f = exec_sql env (\<lambda>d. (f d, d))"

definition acquire :: "resource \<Rightarrow> unit query" where
  "acquire r s =
     (Inr (), if list_ex (\<lambda>h. dominates h r) (s_locks s) then s else s\<lparr>s_locks := s_locks s @ [r]\<rparr>)"

section \<open>Successful runs, inverted\<close>

lemma ret_InrE [query_elims]:
  "ret a s = (Inr b, s') \<Longrightarrow> (b = a \<Longrightarrow> s' = s \<Longrightarrow> P) \<Longrightarrow> P"
  by (auto simp: ret_def)

lemma throw_InrE [query_elims]: "throw e s = (Inr b, s') \<Longrightarrow> P"
  by (simp add: throw_def)

lemma bindQ_InrE [query_elims]:
  assumes "bindQ m f s = (Inr b, s')"
  obtains a s1 where "m s = (Inr a, s1)" "f a s1 = (Inr b, s')"
  using assms by (auto simp: bindQ_def split: prod.splits sum.splits)

lemma onErr_InrE:
  assumes "onErr m h s = (Inr b, s')"
  obtains "m s = (Inr b, s')"
    | e s1 where "m s = (Inl e, s1)" "h e s1 = (Inr b, s')"
  using assms by (auto simp: onErr_def split: prod.splits sum.splits)

lemma exec_sql_InrD: "exec_sql env f s = (Inr b, s') \<Longrightarrow> f (s_db s) = (Inr b, s_db s')"
  by (auto simp: exec_sql_def Let_def split: option.splits prod.splits)

lemma read_sql_InrD:
  "read_sql env f s = (Inr b, s') \<Longrightarrow> f (s_db s) = Inr b \<and> s_db s' = s_db s"
  by (auto simp: read_sql_def exec_sql_def Let_def split: option.splits)

lemma read_sql_InrE:
  assumes "read_sql env f s = (Inr b, s')"
  obtains "f (s_db s) = Inr b" "s_db s' = s_db s"
  using read_sql_InrD [OF assms] by blast

lemma acquire_InrE [query_elims]:
  assumes "acquire r s = (Inr b, s')"
  obtains "s_db s' = s_db s"
  using assms by (auto simp: acquire_def split: if_splits)

section \<open>Sequences never go back\<close>

definition seq_mono :: "'a query \<Rightarrow> bool" where
  "seq_mono m \<longleftrightarrow> (\<forall>s. seq_le (s_db s) (s_db (snd (m s))))"

lemma seq_monoI: "(\<And>s r s'. m s = (r, s') \<Longrightarrow> seq_le (s_db s) (s_db s')) \<Longrightarrow> seq_mono m"
  by (metis prod.collapse seq_mono_def)

lemma seq_monoD: "seq_mono m \<Longrightarrow> m s = (r, s') \<Longrightarrow> seq_le (s_db s) (s_db s')"
  by (metis seq_mono_def snd_conv)

lemma seq_mono_ret [query_mono]: "seq_mono (ret a)"
  by (simp add: seq_mono_def ret_def)

lemma seq_mono_throw [query_mono]: "seq_mono (throw e)"
  by (simp add: seq_mono_def throw_def)

lemma seq_mono_acquire [query_mono]: "seq_mono (acquire r)"
  by (simp add: seq_mono_def acquire_def)

lemma seq_mono_bindQ [query_mono]:
  assumes "seq_mono m" "\<And>a. seq_mono (f a)"
  shows "seq_mono (bindQ m f)"
proof (rule seq_monoI)
  fix s r s'
  assume run: "bindQ m f s = (r, s')"
  obtain r1 s1 where m: "m s = (r1, s1)" by (cases "m s")
  have 1: "seq_le (s_db s) (s_db s1)" using assms(1) m by (rule seq_monoD)
  show "seq_le (s_db s) (s_db s')"
  proof (cases r1)
    case (Inl e)
    with run m 1 show ?thesis by (simp add: bindQ_def)
  next
    case (Inr a)
    with run m have "f a s1 = (r, s')" by (simp add: bindQ_def)
    then have "seq_le (s_db s1) (s_db s')" using assms(2) by (rule seq_monoD [rotated])
    with 1 show ?thesis by (rule seq_le_trans)
  qed
qed

lemma seq_mono_onErr [query_mono]:
  assumes "seq_mono m" "\<And>e. seq_mono (h e)"
  shows "seq_mono (onErr m h)"
proof (rule seq_monoI)
  fix s r s'
  assume run: "onErr m h s = (r, s')"
  obtain r1 s1 where m: "m s = (r1, s1)" by (cases "m s")
  have 1: "seq_le (s_db s) (s_db s1)" using assms(1) m by (rule seq_monoD)
  show "seq_le (s_db s) (s_db s')"
  proof (cases r1)
    case (Inr a)
    with run m 1 show ?thesis by (simp add: onErr_def)
  next
    case (Inl e)
    with run m have "h e s1 = (r, s')" by (simp add: onErr_def)
    then have "seq_le (s_db s1) (s_db s')" using assms(2) by (rule seq_monoD [rotated])
    with 1 show ?thesis by (rule seq_le_trans)
  qed
qed

lemma seq_mono_if [query_mono]: "seq_mono m \<Longrightarrow> seq_mono m' \<Longrightarrow> seq_mono (if b then m else m')"
  by simp

lemma seq_mono_exec_sql:
  assumes "\<And>d. seq_le d (snd (f d))"
  shows "seq_mono (exec_sql env f)"
  using assms
  by (auto simp: seq_mono_def exec_sql_def Let_def split: option.splits prod.splits)
    (metis snd_conv)

section \<open>Runs on a healthy connection\<close>

lemma exec_sql_healthy [query_run]:
  "healthy env \<Longrightarrow> exec_sql env f s =
     (case f (s_db s) of (r, d) \<Rightarrow> (r, s\<lparr>s_stmts := Suc (s_stmts s), s_db := d\<rparr>))"
  by (simp add: exec_sql_def healthy_def)

lemma read_sql_healthy [query_run]:
  "healthy env \<Longrightarrow> read_sql env f s = (f (s_db s), s\<lparr>s_stmts := Suc (s_stmts s)\<rparr>)"
  by (simp add: read_sql_def exec_sql_healthy)

lemma bindQ_run [query_run]:
  "m s = (Inr a, s1) \<Longrightarrow> bindQ m f s = f a s1"
  "m s = (Inl e, s1) \<Longrightarrow> bindQ m f s = (Inl e, s1)"
  by (simp_all add: bindQ_def)

lemma onErr_run [query_run]:
  "m s = (Inr a, s1) \<Longrightarrow> onErr m h s = (Inr a, s1)"
  "m s = (Inl e, s1) \<Longrightarrow> onErr m h s = h e s1"
  by (simp_all add: onErr_def)

end
