(* ===== verification/Storage.thy ===== *)
theory Storage
  imports Session
begin

text \<open>
  The queries of \<^verbatim>\<open>internal/storage/querier.go\<close>: each definition is the method's SQL statement on
  the tables, the constraints of the migrations included, and the Go code around it. Locks are
  acquired where the statement takes them, in the mode it takes them (\<^verbatim>\<open>FOR UPDATE\<close>, an update, a
  unique key, the key share lock of a foreign key).
\<close>

section \<open>Accounts\<close>

definition scan_account :: "account_row \<Rightarrow> account" where
  "scan_account a =
     \<lparr>acc_ID = a_id a, acc_Owner = a_owner a, acc_Currency = a_currency a, acc_Type = a_type a,
      acc_Code = (case a_code a of None \<Rightarrow> '''' | Some c \<Rightarrow> c), acc_CreatedAt = a_created_at a\<rparr>"

definition select_account :: "env \<Rightarrow> (account_row \<Rightarrow> bool) \<Rightarrow> account query" where
  "select_account env P =
     read_sql env (\<lambda>d. case find P (accounts d) of
        None \<Rightarrow> Inl (StorageError ErrNotFound)
      | Some a \<Rightarrow> Inr (scan_account a))"

definition GetAccount :: "env \<Rightarrow> int64 \<Rightarrow> account query" where
  "GetAccount env accountID = select_account env (\<lambda>a. a_id a = accountID)"

definition GetAccountForUpdate :: "env \<Rightarrow> int64 \<Rightarrow> account query" where
  "GetAccountForUpdate env accountID =
     bindQ (select_account env (\<lambda>a. a_id a = accountID)) (\<lambda>a.
     bindQ (acquire (AccountRow accountID)) (\<lambda>_. ret a))"

definition GetSystemAccountByCode :: "env \<Rightarrow> string \<Rightarrow> account query" where
  "GetSystemAccountByCode env code = select_account env (\<lambda>a. a_code a = Some code)"

text \<open>
  \<^verbatim>\<open>SUM(bigint)\<close> is exact; scanning it into an \<^verbatim>\<open>int64\<close> fails outside the range.
\<close>

definition GetAccountBalance :: "env \<Rightarrow> int64 \<Rightarrow> int64 query" where
  "GetAccountBalance env accountID =
     read_sql env (\<lambda>d.
       let b = balance_of d accountID
       in if in_int64 b then Inr b else Inl (DriverError ''cannot scan numeric into *int64''))"

section \<open>Transactions\<close>

definition scan_transaction :: "transaction_row \<Rightarrow> transaction" where
  "scan_transaction t =
     \<lparr>tx_ID = t_id t, tx_SourceID = t_source_id t, tx_DestinationID = t_destination_id t,
      tx_Amount = t_amount t, tx_IdempotencyKey = t_idempotency_key t, tx_Status = t_status t,
      tx_Type = t_type t, tx_ReversalOf = t_reversal_of t, tx_CreatedAt = t_created_at t\<rparr>"

definition transaction_types :: "string list" where
  "transaction_types = [''transfer'', ''deposit'', ''withdrawal'', ''reversal'']"

definition status_values :: "string list" where
  "status_values = [''pending'', ''completed'', ''failed'', ''reversed'']"

text \<open>The row the \<^verbatim>\<open>INSERT\<close> of \<^verbatim>\<open>CreateTransaction\<close> adds when it adds one.\<close>

definition inserted_transaction :: "env \<Rightarrow> transaction \<Rightarrow> int64 \<Rightarrow> transaction_row" where
  "inserted_transaction env t i =
     \<lparr>t_id = i, t_idempotency_key = tx_IdempotencyKey t, t_status = ''completed'',
      t_created_at = tx_now env, t_source_id = tx_SourceID t,
      t_destination_id = tx_DestinationID t, t_amount = tx_Amount t, t_type = tx_Type t,
      t_reversal_of = tx_ReversalOf t\<rparr>"

definition reversal_taken :: "db \<Rightarrow> transaction \<Rightarrow> bool" where
  "reversal_taken d t =
     (case tx_ReversalOf t of
        None \<Rightarrow> False
      | Some i \<Rightarrow> list_ex (\<lambda>r. t_reversal_of r = Some i) (transactions d))"

definition missing_reference :: "db \<Rightarrow> transaction \<Rightarrow> bool" where
  "missing_reference d t =
     (account_of d (tx_SourceID t) = None \<or> account_of d (tx_DestinationID t) = None \<or>
      (case tx_ReversalOf t of None \<Rightarrow> False | Some i \<Rightarrow> transaction_of d i = None))"

text \<open>
  The sequence moves first, whatever happens next. The check constraints are tested before the
  arbiter of \<^verbatim>\<open>ON CONFLICT (idempotency_key) DO NOTHING\<close>; the other unique indexes when the row is
  stored, the foreign keys at the end of the statement.
\<close>

definition insert_transaction :: "env \<Rightarrow> transaction \<Rightarrow> db \<Rightarrow> transaction_row result \<times> db" where
  "insert_transaction env t d =
     (let i = transactions_seq d + 1;
          d1 = d\<lparr>transactions_seq := i\<rparr>;
          row = inserted_transaction env t i
      in if MaxInt64 < i then (Inl (DriverError ''nextval: transactions_id_seq is exhausted''), d)
         else if \<not> 0 < tx_Amount t
         then (Inl (DriverError ''violates check constraint transactions_amount_check''), d1)
         else if tx_Type t \<notin> set transaction_types
         then (Inl (DriverError ''violates check constraint transactions_type_check''), d1)
         else if keyed d (tx_IdempotencyKey t) \<noteq> None then (Inl (StorageError ErrDuplicateKey), d1)
         else if transaction_of d i \<noteq> None
         then (Inl (DriverError ''violates unique constraint transactions_pkey''), d1)
         else if reversal_taken d t
         then (Inl (DriverError ''violates unique constraint unique_reversal_of''), d1)
         else if missing_reference d t
         then (Inl (DriverError ''violates foreign key constraint''), d1)
         else (Inr row, d1\<lparr>transactions := transactions d @ [row]\<rparr>))"

text \<open>
  The locks of a stored row: its key in \<^verbatim>\<open>unique_reversal_of\<close>, and the key share locks of its foreign
  keys.
\<close>

definition lock_references :: "transaction \<Rightarrow> unit query" where
  "lock_references t =
     bindQ (case tx_ReversalOf t of None \<Rightarrow> ret () | Some i \<Rightarrow> acquire (ReversalKey i)) (\<lambda>_.
     bindQ (acquire (AccountShare (tx_SourceID t))) (\<lambda>_.
     bindQ (acquire (AccountShare (tx_DestinationID t))) (\<lambda>_.
     case tx_ReversalOf t of None \<Rightarrow> ret () | Some i \<Rightarrow> acquire (TxShare i))))"

definition CreateTransaction :: "env \<Rightarrow> transaction \<Rightarrow> transaction query" where
  "CreateTransaction env t =
     bindQ (acquire (IdempotencyKey (tx_IdempotencyKey t))) (\<lambda>_.
     bindQ (exec_sql env (insert_transaction env t)) (\<lambda>row.
     bindQ (lock_references t) (\<lambda>_.
     ret (t\<lparr>tx_Status := ''completed'', tx_ID := t_id row, tx_CreatedAt := t_created_at row\<rparr>))))"

definition GetTransaction :: "env \<Rightarrow> string \<Rightarrow> transaction query" where
  "GetTransaction env idempotencyKey =
     read_sql env (\<lambda>d. case keyed d idempotencyKey of
        None \<Rightarrow> Inl (StorageError ErrNotFound)
      | Some t \<Rightarrow> Inr (scan_transaction t))"

definition GetTransactionByID :: "env \<Rightarrow> int64 \<Rightarrow> transaction query" where
  "GetTransactionByID env transactionID =
     bindQ (read_sql env (\<lambda>d. case transaction_of d transactionID of
        None \<Rightarrow> Inl (StorageError ErrNotFound)
      | Some t \<Rightarrow> Inr (scan_transaction t))) (\<lambda>t.
     bindQ (acquire (TxRow transactionID)) (\<lambda>_. ret t))"

definition set_status :: "int64 \<Rightarrow> string \<Rightarrow> transaction_row \<Rightarrow> transaction_row" where
  "set_status i status t =
     (if t_id t = i \<and> t_status t = ''completed'' then t\<lparr>t_status := status\<rparr> else t)"

text \<open>The rows the update affects.\<close>

definition update_status :: "int64 \<Rightarrow> string \<Rightarrow> db \<Rightarrow> int result \<times> db" where
  "update_status i status d =
     (let n = length (filter (\<lambda>t. t_id t = i \<and> t_status t = ''completed'') (transactions d))
      in if 0 < n \<and> status \<notin> set status_values
         then (Inl (DriverError ''violates check constraint transactions_status_check''), d)
         else (Inr (int n), d\<lparr>transactions := map (set_status i status) (transactions d)\<rparr>))"

text \<open>
  The command tag is inspected before the error: a statement that failed has the empty tag, so
  every failure of it is reported as \<^verbatim>\<open>ErrNotFound\<close>.
\<close>

definition UpdateTransactionStatus :: "env \<Rightarrow> int64 \<Rightarrow> string \<Rightarrow> unit query" where
  "UpdateTransactionStatus env transactionID status =
     bindQ (acquire (TxUpdate transactionID)) (\<lambda>_.
     bindQ (onErr (exec_sql env (update_status transactionID status))
              (\<lambda>err. throw (StorageError ErrNotFound))) (\<lambda>rowsAffected.
     if rowsAffected = 0 then throw (StorageError ErrNotFound) else ret ()))"

section \<open>Ledger entries\<close>

definition insert_ledger_entry ::
  "env \<Rightarrow> int64 \<Rightarrow> int64 \<Rightarrow> int64 \<Rightarrow> db \<Rightarrow> unit result \<times> db" where
  "insert_ledger_entry env transactionID accountID amount d =
     (let i = ledger_entries_seq d + 1;
          d1 = d\<lparr>ledger_entries_seq := i\<rparr>;
          row = \<lparr>l_id = i, l_transaction_id = transactionID, l_account_id = accountID,
                 l_amount = amount, l_created_at = tx_now env\<rparr>
      in if MaxInt64 < i then (Inl (DriverError ''nextval: ledger_entries_id_seq is exhausted''), d)
         else if i \<in> l_id ` set (ledger_entries d)
         then (Inl (DriverError ''violates unique constraint ledger_entries_pkey''), d1)
         else if transaction_of d transactionID = None \<or> account_of d accountID = None
         then (Inl (DriverError ''violates foreign key constraint''), d1)
         else (Inr (), d1\<lparr>ledger_entries := ledger_entries d @ [row]\<rparr>))"

text \<open>
  The key share lock of the account. The other foreign key's is on the transaction the session has
  inserted itself, a row no other session can see before the commit.
\<close>

definition CreateLedgerEntry :: "env \<Rightarrow> int64 \<Rightarrow> int64 \<Rightarrow> int64 \<Rightarrow> unit query" where
  "CreateLedgerEntry env transactionID accountID amount =
     bindQ (exec_sql env (insert_ledger_entry env transactionID accountID amount)) (\<lambda>_.
     acquire (AccountShare accountID))"

definition scan_history :: "ledger_entry_row \<Rightarrow> transaction_row \<Rightarrow> ledger_entry" where
  "scan_history l t =
     \<lparr>le_ID = l_id l, le_TransactionID = t_id t, le_Amount = l_amount l,
      le_CreatedAt = l_created_at l, le_SourceID = t_source_id t,
      le_DestinationID = t_destination_id t, le_Type = t_type t, le_ReversalOf = t_reversal_of t\<rparr>"

text \<open>The entries of the account below the cursor, joined with their transactions.\<close>

definition history_rows :: "int64 \<Rightarrow> int64 \<Rightarrow> db \<Rightarrow> ledger_entry list" where
  "history_rows accountID before d =
     concat (map (\<lambda>l. map (scan_history l) (filter (\<lambda>t. l_transaction_id l = t_id t) (transactions d)))
               (filter (\<lambda>l. l_account_id l = accountID \<and> l_id l < before) (ledger_entries d)))"

definition GetAccountHistory :: "env \<Rightarrow> int64 \<Rightarrow> int64 \<Rightarrow> int64 \<Rightarrow> ledger_entry list query" where
  "GetAccountHistory env accountID limit before =
     (let before' = (if before = 0 then MaxInt64 else before)
      in read_sql env (\<lambda>d.
           if limit < 0 then Inl (DriverError ''LIMIT must not be negative'')
           else Inr (take (nat limit) (rev (sort_key le_ID (history_rows accountID before' d))))))"

section \<open>The outbox\<close>

definition insert_outbox_event ::
  "env \<Rightarrow> string \<Rightarrow> string \<Rightarrow> string \<Rightarrow> db \<Rightarrow> unit result \<times> db" where
  "insert_outbox_event env eventType partitionKey js d =
     (let i = outbox_seq d + 1;
          d1 = d\<lparr>outbox_seq := i\<rparr>
      in case jsonb_text env js of
           None \<Rightarrow> (Inl (DriverError ''invalid input syntax for type json''), d)
         | Some doc \<Rightarrow>
             if MaxInt64 < i then (Inl (DriverError ''nextval: outbox_id_seq is exhausted''), d)
             else if i \<in> o_id ` set (outbox d)
             then (Inl (DriverError ''violates unique constraint outbox_pkey''), d1)
             else if gen_uuid env i \<in> o_event_id ` set (outbox d)
             then (Inl (DriverError ''violates unique constraint outbox_event_id_key''), d1)
             else (Inr (), d1\<lparr>outbox := outbox d @
                    [\<lparr>o_id = i, o_event_id = gen_uuid env i, o_event_type = eventType,
                      o_partition_key = partitionKey, o_payload = doc,
                      o_created_at = tx_now env, o_published_at = None\<rparr>]\<rparr>))"

definition CreateOutboxEvent :: "env \<Rightarrow> string \<Rightarrow> string \<Rightarrow> entry_posted \<Rightarrow> unit query" where
  "CreateOutboxEvent env eventType partitionKey payload =
     (case marshal_entry payload of
        Inl err \<Rightarrow> throw (Wrapped ''marshal event payload'' err)
      | Inr js \<Rightarrow> exec_sql env (insert_outbox_event env eventType partitionKey js))"

definition TryLockOutbox :: "env \<Rightarrow> bool query" where
  "TryLockOutbox env = read_sql env (\<lambda>d. Inr (advisory_lock_free env))"

definition scan_outbox :: "outbox_row \<Rightarrow> outbox_event" where
  "scan_outbox r =
     \<lparr>oe_ID = o_id r, oe_EventID = o_event_id r, oe_EventType = o_event_type r,
      oe_PartitionKey = o_partition_key r, oe_Payload = o_payload r\<rparr>"

definition unpublished :: "db \<Rightarrow> outbox_row list" where
  "unpublished d = sort_key o_id (filter (\<lambda>r. o_published_at r = None) (outbox d))"

definition GetUnpublishedOutboxEvents :: "env \<Rightarrow> int64 \<Rightarrow> outbox_event list query" where
  "GetUnpublishedOutboxEvents env limit =
     read_sql env (\<lambda>d.
       if limit < 0 then Inl (DriverError ''LIMIT must not be negative'')
       else Inr (map scan_outbox (take (nat limit) (unpublished d))))"

definition mark_published :: "time \<Rightarrow> int64 list \<Rightarrow> outbox_row \<Rightarrow> outbox_row" where
  "mark_published now ids r = (if o_id r \<in> set ids then r\<lparr>o_published_at := Some now\<rparr> else r)"

definition MarkOutboxEventsPublished :: "env \<Rightarrow> int64 list \<Rightarrow> unit query" where
  "MarkOutboxEventsPublished env ids =
     exec_sql env (\<lambda>d. (Inr (), d\<lparr>outbox := map (mark_published (tx_now env) ids) (outbox d)\<rparr>))"

text \<open>The age of the unpublished row with the least id, in nanoseconds; 0 when there is none.\<close>

definition OldestUnpublishedOutboxAge :: "env \<Rightarrow> int query" where
  "OldestUnpublishedOutboxAge env =
     read_sql env (\<lambda>d.
       Inr (case unpublished d of
              [] \<Rightarrow> 0
            | r # _ \<Rightarrow> unix_nanos (tx_now env) - unix_nanos (o_created_at r)))"

end
