(* ===== verification/Transaction.thy ===== *)
theory Transaction
  imports Storage
begin

text \<open>
  \<^verbatim>\<open>Storage.WithTx\<close> of \<^verbatim>\<open>internal/storage/storage.go\<close>: begin, run the function on a session,
  commit when it returned nil, roll back otherwise. The function is given with the variable it
  captures: it returns the value it leaves there (\<open>None\<close> for nil) and its error. Everything a
  caller can observe is the captured value, the error \<^verbatim>\<open>WithTx\<close> returns and the database
  afterwards.
\<close>

type_synonym ('s, 'c) closure_on = "'s \<Rightarrow> ('c option \<times> go_error option) \<times> 's"

type_synonym 'c closure = "(session, 'c) closure_on"

definition WithTx :: "env \<Rightarrow> 'c closure \<Rightarrow> db \<Rightarrow> ('c option \<times> go_error option) \<times> db" where
  "WithTx env fn d =
     (case begin_fault env of
        Some msg \<Rightarrow> ((None, Some (DriverError msg)), d)
      | None \<Rightarrow>
          (case fn (fresh_session d) of
             ((res, Some err), s) \<Rightarrow> ((res, Some err), restore d (s_db s))
           | ((res, None), s) \<Rightarrow>
               (case commit_outcome env of
                  Commit_applied \<Rightarrow> ((res, None), s_db s)
                | Commit_failed msg \<Rightarrow> ((res, Some (DriverError msg)), restore d (s_db s))
                | Commit_unknown msg \<Rightarrow> ((res, Some (DriverError msg)), s_db s))))"

text \<open>The closure that stores the result of a query in the captured variable on success only.\<close>

definition capture :: "('s, 'c) action \<Rightarrow> ('s, 'c) closure_on" where
  "capture m s = (case m s of
     (Inl err, s') \<Rightarrow> ((None, Some err), s')
   | (Inr r, s') \<Rightarrow> ((Some r, None), s'))"

section \<open>What a caller may rely on\<close>

text \<open>
  The possible outcomes: either the tables are untouched and there is an error, or the closure
  returned nil and its effect is in the database, reported as a success or as a failed commit.
\<close>

lemma WithTx_cases [consumes 1, case_names rolled_back committed sequences]:
  assumes "WithTx env fn d = ((res, err), d')"
    and "\<And>s :: session. seq_le d (s_db s) \<Longrightarrow> d' = restore d (s_db s) \<Longrightarrow> err \<noteq> None \<Longrightarrow> P"
    and "\<And>s. fn (fresh_session d) = ((res, None), s) \<Longrightarrow> d' = s_db s \<Longrightarrow>
           err = None \<or> (\<exists>msg. err = Some (DriverError msg)) \<Longrightarrow> P"
    and "\<And>r s. fn (fresh_session d) = (r, s) \<Longrightarrow> seq_le d (s_db s)"
  shows P
proof (cases "begin_fault env")
  case (Some msg)
  with assms(1) have "d' = restore d (s_db (fresh_session d))" "err \<noteq> None"
    by (auto simp: WithTx_def fresh_session_def)
  then show P by (intro assms(2) [of "fresh_session d"]) (auto simp: fresh_session_def)
next
  case None
  obtain r0 e0 s where fn: "fn (fresh_session d) = ((r0, e0), s)"
    by (cases "fn (fresh_session d)") auto
  have le: "seq_le d (s_db s)" using fn by (rule assms(4))
  show P
  proof (cases e0)
    case (Some e)
    with None fn assms(1) le show P by (auto simp: WithTx_def intro!: assms(2) [of s])
  next
    case e0: None
    show P
    proof (cases "commit_outcome env")
      case Commit_applied
      with None fn e0 assms(1) show P by (auto simp: WithTx_def intro!: assms(3) [of s])
    next
      case (Commit_failed msg)
      with None fn e0 assms(1) le show P by (auto simp: WithTx_def intro!: assms(2) [of s])
    next
      case (Commit_unknown msg)
      with None fn e0 assms(1) show P by (auto simp: WithTx_def intro!: assms(3) [of s])
    qed
  qed
qed

lemma WithTx_healthy [query_run]:
  "healthy env \<Longrightarrow> fn (fresh_session d) = ((res, None), s) \<Longrightarrow> WithTx env fn d = ((res, None), s_db s)"
  "healthy env \<Longrightarrow> fn (fresh_session d) = ((res, Some err), s) \<Longrightarrow>
     WithTx env fn d = ((res, Some err), restore d (s_db s))"
  by (simp_all add: WithTx_def healthy_def)

lemma WithTx_error_applied:
  "WithTx env fn d = ((res, Some err), d') \<Longrightarrow> (\<forall>msg. commit_outcome env \<noteq> Commit_unknown msg) \<Longrightarrow>
   same_tables d d'"
  by (auto simp: WithTx_def split: option.splits prod.splits commit_outcome.splits)

lemma capture_run [query_run]:
  "m s = (Inr r, s') \<Longrightarrow> capture m s = ((Some r, None), s')"
  "m s = (Inl err, s') \<Longrightarrow> capture m s = ((None, Some err), s')"
  by (simp_all add: capture_def)

lemma capture_NoneD: "capture m s = ((res, None), s') \<Longrightarrow> \<exists>r. res = Some r \<and> m s = (Inr r, s')"
  by (auto simp: capture_def split: prod.splits sum.splits)

lemma capture_seq: "seq_mono m \<Longrightarrow> capture m s = (r, s') \<Longrightarrow> seq_le (s_db s) (s_db s')"
  by (cases "m s") (auto simp: capture_def dest: seq_monoD split: sum.splits)

end
