(* ===== verification/Querier.thy ===== *)
theory Querier
  imports Transaction
begin

text \<open>
  The interface \<^verbatim>\<open>storage.Querier\<close>. The functions of the service and of the relay are given one and know
  nothing of the session behind it. \<open>queries\<close> implements it on one undisturbed session; the theory
  \<open>Interference\<close> implements it on a session whose statements other transactions come between.
\<close>

section \<open>The interface\<close>

record 's querier =
  q_GetAccount :: "int64 \<Rightarrow> ('s, account) action"
  q_GetAccountForUpdate :: "int64 \<Rightarrow> ('s, account) action"
  q_GetAccountBalance :: "int64 \<Rightarrow> ('s, int64) action"
  q_GetAccountHistory :: "int64 \<Rightarrow> int64 \<Rightarrow> int64 \<Rightarrow> ('s, ledger_entry list) action"
  q_GetSystemAccountByCode :: "string \<Rightarrow> ('s, account) action"
  q_CreateTransaction :: "transaction \<Rightarrow> ('s, transaction) action"
  q_GetTransaction :: "string \<Rightarrow> ('s, transaction) action"
  q_GetTransactionByID :: "int64 \<Rightarrow> ('s, transaction) action"
  q_CreateLedgerEntry :: "int64 \<Rightarrow> int64 \<Rightarrow> int64 \<Rightarrow> ('s, unit) action"
  q_UpdateTransactionStatus :: "int64 \<Rightarrow> string \<Rightarrow> ('s, unit) action"
  q_CreateOutboxEvent :: "string \<Rightarrow> string \<Rightarrow> entry_posted \<Rightarrow> ('s, unit) action"
  q_TryLockOutbox :: "('s, bool) action"
  q_GetUnpublishedOutboxEvents :: "int64 \<Rightarrow> ('s, outbox_event list) action"
  q_MarkOutboxEventsPublished :: "int64 list \<Rightarrow> ('s, unit) action"
  q_OldestUnpublishedOutboxAge :: "('s, int) action"

text \<open>The type \<^verbatim>\<open>queries\<close> on one session.\<close>

definition queries :: "env \<Rightarrow> session querier" where
  "queries env =
     \<lparr>q_GetAccount = GetAccount env, q_GetAccountForUpdate = GetAccountForUpdate env,
      q_GetAccountBalance = GetAccountBalance env, q_GetAccountHistory = GetAccountHistory env,
      q_GetSystemAccountByCode = GetSystemAccountByCode env,
      q_CreateTransaction = CreateTransaction env, q_GetTransaction = GetTransaction env,
      q_GetTransactionByID = GetTransactionByID env, q_CreateLedgerEntry = CreateLedgerEntry env,
      q_UpdateTransactionStatus = UpdateTransactionStatus env,
      q_CreateOutboxEvent = CreateOutboxEvent env, q_TryLockOutbox = TryLockOutbox env,
      q_GetUnpublishedOutboxEvents = GetUnpublishedOutboxEvents env,
      q_MarkOutboxEventsPublished = MarkOutboxEventsPublished env,
      q_OldestUnpublishedOutboxAge = OldestUnpublishedOutboxAge env\<rparr>"

lemma queries_sel [simp]:
  "q_GetAccount (queries env) = GetAccount env"
  "q_GetAccountForUpdate (queries env) = GetAccountForUpdate env"
  "q_GetAccountBalance (queries env) = GetAccountBalance env"
  "q_GetAccountHistory (queries env) = GetAccountHistory env"
  "q_GetSystemAccountByCode (queries env) = GetSystemAccountByCode env"
  "q_CreateTransaction (queries env) = CreateTransaction env"
  "q_GetTransaction (queries env) = GetTransaction env"
  "q_GetTransactionByID (queries env) = GetTransactionByID env"
  "q_CreateLedgerEntry (queries env) = CreateLedgerEntry env"
  "q_UpdateTransactionStatus (queries env) = UpdateTransactionStatus env"
  "q_CreateOutboxEvent (queries env) = CreateOutboxEvent env"
  "q_TryLockOutbox (queries env) = TryLockOutbox env"
  "q_GetUnpublishedOutboxEvents (queries env) = GetUnpublishedOutboxEvents env"
  "q_MarkOutboxEventsPublished (queries env) = MarkOutboxEventsPublished env"
  "q_OldestUnpublishedOutboxAge (queries env) = OldestUnpublishedOutboxAge env"
  by (simp_all add: queries_def)

end
