(* ===== verification/Service.thy ===== *)
theory Service
  imports Querier
begin

text \<open>
  \<^verbatim>\<open>internal/service/service.go\<close>: the ledger's operations. The exported methods return the pair
  of a result (\<open>None\<close> for a nil pointer) and an error, and the database afterwards; the environment
  of their transaction is a parameter.
\<close>

section \<open>Constants and data\<close>

definition TxTypeWithdrawal :: string where "TxTypeWithdrawal = ''withdrawal''"
definition TxTypeDeposit :: string where "TxTypeDeposit = ''deposit''"
definition TxTypeTransfer :: string where "TxTypeTransfer = ''transfer''"
definition TxTypeReversal :: string where "TxTypeReversal = ''reversal''"

definition MaxLimit :: int64 where "MaxLimit = 999"

definition accountTypeUser :: string where "accountTypeUser = ''user''"
definition accountTypeSystem :: string where "accountTypeSystem = ''system''"

definition txStatusCompleted :: string where "txStatusCompleted = ''completed''"
definition txStatusReversed :: string where "txStatusReversed = ''reversed''"

definition defaultLimit :: int64 where "defaultLimit = 10"

record transfer_params =
  p_From :: int64
  p_To :: int64
  p_Amount :: int64
  p_Type :: string
  p_IdempotencyKey :: string
  p_ReversalOf :: "int64 option"

record result_t =
  r_TransactionID :: int64
  r_SourceID :: int64
  r_DestinationID :: int64
  r_Amount :: int64
  r_IdempotencyKey :: string
  r_Status :: string
  r_Type :: string
  r_CreatedAt :: time
  r_ReversalOf :: "int64 option"
  r_Replayed :: bool

record statement_entry =
  se_EntryID :: int64
  se_TransactionID :: int64
  se_Amount :: int64
  se_CounterpartyID :: int64
  se_Type :: string
  se_CreatedAt :: time
  se_ReversalOf :: "int64 option"

record statement =
  st_Entries :: "statement_entry list"
  st_NextCursor :: int64

record account_balance =
  ab_AccountID :: int64
  ab_Currency :: string
  ab_Balance :: int64

definition newResult :: "transaction \<Rightarrow> result_t" where
  "newResult t =
     \<lparr>r_TransactionID = tx_ID t, r_SourceID = tx_SourceID t, r_DestinationID = tx_DestinationID t,
      r_Amount = tx_Amount t, r_IdempotencyKey = tx_IdempotencyKey t, r_Status = tx_Status t,
      r_Type = tx_Type t, r_CreatedAt = tx_CreatedAt t, r_ReversalOf = tx_ReversalOf t,
      r_Replayed = False\<rparr>"

definition compareTransactions :: "transaction \<Rightarrow> transaction \<Rightarrow> bool" where
  "compareTransactions cur prev \<longleftrightarrow>
     tx_SourceID cur = tx_SourceID prev \<and> tx_DestinationID cur = tx_DestinationID prev \<and>
     tx_Amount cur = tx_Amount prev"

section \<open>The transfer core\<close>

text \<open>\<^verbatim>\<open>if errors.Is(err, storage.ErrNotFound) { return e }; return err\<close>\<close>

definition not_found_as :: "service_error \<Rightarrow> go_error \<Rightarrow> ('s, 'a) action" where
  "not_found_as e err =
     (if errors_Is err (StorageError ErrNotFound) then throw (ServiceError e) else throw err)"

definition lock_account :: "'s querier \<Rightarrow> int64 \<Rightarrow> int64 \<Rightarrow> ('s, account) action" where
  "lock_account q i from =
     onErr (q_GetAccountForUpdate q i) (\<lambda>err.
       if errors_Is err (StorageError ErrNotFound)
       then throw (ServiceError (if i = from then ErrSourceAccountNotFound
                                 else ErrDestinationAccountNotFound))
       else throw (Wrapped (''lock account '' @ FormatInt i) err))"

text \<open>The transaction the core asks the storage to create, zero values in the other fields.\<close>

definition requested :: "transfer_params \<Rightarrow> transaction" where
  "requested p =
     \<lparr>tx_ID = 0, tx_SourceID = p_From p, tx_DestinationID = p_To p, tx_Amount = p_Amount p,
      tx_IdempotencyKey = p_IdempotencyKey p, tx_Status = '''', tx_Type = p_Type p,
      tx_ReversalOf = p_ReversalOf p, tx_CreatedAt = \<lparr>unix_nanos = 0, zone_secs = 0\<rparr>\<rparr>"

definition debit_event :: "transfer_params \<Rightarrow> transaction \<Rightarrow> string \<Rightarrow> entry_posted" where
  "debit_event p created currency =
     \<lparr>ev_AccountID = p_From p, ev_TransactionID = tx_ID created,
      ev_TransactionType = tx_Type created, ev_Amount = neg64 (p_Amount p),
      ev_Currency = currency, ev_CounterpartyID = p_To p,
      ev_ReversalOf = tx_ReversalOf created, ev_OccurredAt = tx_CreatedAt created\<rparr>"

definition credit_event :: "transfer_params \<Rightarrow> transaction \<Rightarrow> string \<Rightarrow> entry_posted" where
  "credit_event p created currency =
     \<lparr>ev_AccountID = p_To p, ev_TransactionID = tx_ID created,
      ev_TransactionType = tx_Type created, ev_Amount = p_Amount p,
      ev_Currency = currency, ev_CounterpartyID = p_From p,
      ev_ReversalOf = tx_ReversalOf created, ev_OccurredAt = tx_CreatedAt created\<rparr>"

text \<open>
  After \<^verbatim>\<open>CreateTransaction\<close> reported a duplicate key: replay the earlier transaction if the
  arguments match.
\<close>

definition replay :: "'s querier \<Rightarrow> transfer_params \<Rightarrow> ('s, result_t) action" where
  "replay q p =
     bindQ (q_GetTransaction q (p_IdempotencyKey p)) (\<lambda>prevTransaction.
     if compareTransactions (requested p) prevTransaction
     then ret ((newResult prevTransaction)\<lparr>r_Replayed := True\<rparr>)
     else throw (ServiceError ErrTransactionsMismatch))"

text \<open>The two entries, then the two events.\<close>

definition write_entries ::
  "'s querier \<Rightarrow> transfer_params \<Rightarrow> account \<Rightarrow> account \<Rightarrow> transaction \<Rightarrow> ('s, result_t) action" where
  "write_entries q p sourceAccount destinationAccount created =
     (let debit = debit_event p created (acc_Currency sourceAccount);
          credit = credit_event p created (acc_Currency destinationAccount)
      in
     bindQ (q_CreateLedgerEntry q (tx_ID created) (p_From p) (neg64 (p_Amount p))) (\<lambda>_.
     bindQ (q_CreateLedgerEntry q (tx_ID created) (p_To p) (p_Amount p)) (\<lambda>_.
     bindQ (q_CreateOutboxEvent q EntryTypePosted (Key credit) credit) (\<lambda>_.
     bindQ (q_CreateOutboxEvent q EntryTypePosted (Key debit) debit) (\<lambda>_.
     ret (newResult created))))))"

text \<open>After the transaction row exists: the balance check, then the writes.\<close>

definition post_entries ::
  "'s querier \<Rightarrow> transfer_params \<Rightarrow> account \<Rightarrow> account \<Rightarrow> transaction \<Rightarrow> ('s, result_t) action" where
  "post_entries q p sourceAccount destinationAccount created =
     bindQ (q_GetAccountBalance q (p_From p)) (\<lambda>balanceFrom.
     if sub64 balanceFrom (p_Amount p) < 0 \<and>
        \<not> (acc_Type sourceAccount = accountTypeSystem \<or> p_Type p = TxTypeReversal)
     then throw (ServiceError ErrNotEnough)
     else write_entries q p sourceAccount destinationAccount created)"

text \<open>With both accounts locked: create the transaction, or replay the one that has the key.\<close>

definition post_or_replay :: "'s querier \<Rightarrow> transfer_params \<Rightarrow> account \<Rightarrow> account \<Rightarrow> ('s, result_t) action" where
  "post_or_replay q p sourceAccount destinationAccount s =
     (case q_CreateTransaction q (requested p) s of
        (Inl err, s') \<Rightarrow>
          if errors_Is err (StorageError ErrDuplicateKey) then replay q p s' else (Inl err, s')
      | (Inr created, s') \<Rightarrow> post_entries q p sourceAccount destinationAccount created s')"

text \<open>\<^verbatim>\<open>(*Service).transfer\<close>: lock both accounts in the order of their ids, then post.\<close>

definition transfer :: "'s querier \<Rightarrow> transfer_params \<Rightarrow> ('s, result_t) action" where
  "transfer q p =
     (let first = min (p_From p) (p_To p); second = max (p_From p) (p_To p)
      in
     bindQ (lock_account q first (p_From p)) (\<lambda>firstAccount.
     bindQ (lock_account q second (p_From p)) (\<lambda>secondAccount.
     let (sourceAccount, destinationAccount) =
       (if first \<noteq> p_From p then (secondAccount, firstAccount) else (firstAccount, secondAccount))
     in
     if acc_Currency sourceAccount \<noteq> acc_Currency destinationAccount
     then throw (ServiceError ErrCurrencyMismatch)
     else post_or_replay q p sourceAccount destinationAccount)))"

section \<open>The operations\<close>

definition transfer_closure ::
  "'s querier \<Rightarrow> int64 \<Rightarrow> int64 \<Rightarrow> int64 \<Rightarrow> string \<Rightarrow> ('s, result_t) action" where
  "transfer_closure q fromAccountID toAccountID amount idempotencyKey =
     bindQ (onErr (q_GetAccount q fromAccountID) (not_found_as ErrSourceAccountNotFound)) (\<lambda>fromAccount.
     bindQ (onErr (q_GetAccount q toAccountID) (not_found_as ErrDestinationAccountNotFound)) (\<lambda>toAccount.
     if acc_Type fromAccount \<noteq> accountTypeUser \<or> acc_Type toAccount \<noteq> accountTypeUser
     then throw (ServiceError ErrSystemAccountNotAllowed)
     else transfer q \<lparr>p_From = fromAccountID, p_To = toAccountID, p_Amount = amount,
                        p_Type = TxTypeTransfer, p_IdempotencyKey = idempotencyKey,
                        p_ReversalOf = None\<rparr>))"

type_synonym outcome = "(result_t option \<times> go_error option) \<times> db"

definition Transfer :: "env \<Rightarrow> int64 \<Rightarrow> int64 \<Rightarrow> int64 \<Rightarrow> string \<Rightarrow> db \<Rightarrow> outcome" where
  "Transfer env fromAccountID toAccountID amount idempotencyKey d =
     (if amount \<le> 0 then ((None, Some (ServiceError ErrInvalidAmount)), d)
      else if fromAccountID = toAccountID then ((None, Some (ServiceError ErrSameAccount)), d)
      else WithTx env
             (capture (transfer_closure (queries env) fromAccountID toAccountID amount idempotencyKey)) d)"

definition deposit_closure ::
  "'s querier \<Rightarrow> int64 \<Rightarrow> int64 \<Rightarrow> string \<Rightarrow> string \<Rightarrow> ('s, result_t) action" where
  "deposit_closure q destinationID amount source idempotencyKey =
     bindQ (onErr (q_GetAccount q destinationID) (not_found_as ErrDestinationAccountNotFound)) (\<lambda>account.
     if acc_Type account \<noteq> accountTypeUser then throw (ServiceError ErrInvalidDepositDestination)
     else
     bindQ (onErr (q_GetSystemAccountByCode q (source @ ''_IN_'' @ acc_Currency account))
              (not_found_as ErrSystemAccountNotFound)) (\<lambda>sysAccount.
     if acc_Type sysAccount \<noteq> accountTypeSystem then throw (ServiceError ErrSystemAccountNotFound)
     else if acc_ID account = acc_ID sysAccount then throw (ServiceError ErrSameAccount)
     else transfer q \<lparr>p_From = acc_ID sysAccount, p_To = destinationID, p_Amount = amount,
                        p_Type = TxTypeDeposit, p_IdempotencyKey = idempotencyKey,
                        p_ReversalOf = None\<rparr>))"

definition Deposit :: "env \<Rightarrow> int64 \<Rightarrow> int64 \<Rightarrow> string \<Rightarrow> string \<Rightarrow> db \<Rightarrow> outcome" where
  "Deposit env destinationID amount source idempotencyKey d =
     (if amount \<le> 0 then ((None, Some (ServiceError ErrInvalidAmount)), d)
      else WithTx env (capture (deposit_closure (queries env) destinationID amount source idempotencyKey)) d)"

definition withdraw_closure ::
  "'s querier \<Rightarrow> int64 \<Rightarrow> int64 \<Rightarrow> string \<Rightarrow> string \<Rightarrow> ('s, result_t) action" where
  "withdraw_closure q sourceID amount destination idempotencyKey =
     bindQ (onErr (q_GetAccount q sourceID) (not_found_as ErrSourceAccountNotFound)) (\<lambda>account.
     if acc_Type account \<noteq> accountTypeUser then throw (ServiceError ErrInvalidWithdrawSource)
     else
     bindQ (onErr (q_GetSystemAccountByCode q (destination @ ''_OUT_'' @ acc_Currency account))
              (not_found_as ErrSystemAccountNotFound)) (\<lambda>sysAccount.
     if acc_Type sysAccount \<noteq> accountTypeSystem then throw (ServiceError ErrSystemAccountNotFound)
     else if acc_ID account = acc_ID sysAccount then throw (ServiceError ErrSameAccount)
     else transfer q \<lparr>p_From = sourceID, p_To = acc_ID sysAccount, p_Amount = amount,
                        p_Type = TxTypeWithdrawal, p_IdempotencyKey = idempotencyKey,
                        p_ReversalOf = None\<rparr>))"

definition Withdraw :: "env \<Rightarrow> int64 \<Rightarrow> int64 \<Rightarrow> string \<Rightarrow> string \<Rightarrow> db \<Rightarrow> outcome" where
  "Withdraw env sourceID amount destination idempotencyKey d =
     (if amount \<le> 0 then ((None, Some (ServiceError ErrInvalidAmount)), d)
      else WithTx env (capture (withdraw_closure (queries env) sourceID amount destination idempotencyKey)) d)"

text \<open>The checks \<^verbatim>\<open>Reverse\<close> makes on the transaction it has locked.\<close>

definition reversible :: "'s querier \<Rightarrow> int64 \<Rightarrow> ('s, transaction) action" where
  "reversible q transactionID =
     bindQ (onErr (q_GetTransactionByID q transactionID) (not_found_as ErrTransactionNotFound)) (\<lambda>tx.
     if tx_Status tx \<noteq> txStatusCompleted then throw (ServiceError ErrReverseIncompletedTx)
     else if tx_Type tx = TxTypeReversal then throw (ServiceError ErrReverseReversalTx)
     else ret tx)"

definition reversal_params :: "transaction \<Rightarrow> string \<Rightarrow> transfer_params" where
  "reversal_params tx idempotencyKey =
     \<lparr>p_From = tx_DestinationID tx, p_To = tx_SourceID tx, p_Amount = tx_Amount tx,
      p_Type = TxTypeReversal, p_IdempotencyKey = idempotencyKey, p_ReversalOf = Some (tx_ID tx)\<rparr>"

text \<open>
  \<^verbatim>\<open>Reverse\<close> assigns the captured result before it marks the reversed transaction: if that last
  step fails, the result stays there beside the error.
\<close>

definition reverse_closure :: "'s querier \<Rightarrow> int64 \<Rightarrow> string \<Rightarrow> ('s, result_t) closure_on" where
  "reverse_closure q transactionID idempotencyKey s =
     (case bindQ (reversible q transactionID) (\<lambda>tx. transfer q (reversal_params tx idempotencyKey)) s of
        (Inl err, s') \<Rightarrow> ((None, Some err), s')
      | (Inr res, s') \<Rightarrow>
          (case q_UpdateTransactionStatus q transactionID txStatusReversed s' of
             (Inl err, s'') \<Rightarrow> ((Some res, Some err), s'')
           | (Inr _, s'') \<Rightarrow> ((Some res, None), s'')))"

definition Reverse :: "env \<Rightarrow> int64 \<Rightarrow> string \<Rightarrow> db \<Rightarrow> outcome" where
  "Reverse env transactionID idempotencyKey d =
     WithTx env (reverse_closure (queries env) transactionID idempotencyKey) d"

section \<open>Reading\<close>

definition account_balance_closure :: "'s querier \<Rightarrow> int64 \<Rightarrow> ('s, account_balance) action" where
  "account_balance_closure q accountID =
     bindQ (onErr (q_GetAccount q accountID) (not_found_as ErrAccountNotFound)) (\<lambda>account.
     bindQ (q_GetAccountBalance q accountID) (\<lambda>balance.
     ret \<lparr>ab_AccountID = acc_ID account, ab_Currency = acc_Currency account, ab_Balance = balance\<rparr>))"

text \<open>The reading operations return an error or a value; what their closure captures is the zero value
  until it is assigned.\<close>

definition AccountBalance :: "env \<Rightarrow> int64 \<Rightarrow> db \<Rightarrow> account_balance result \<times> db" where
  "AccountBalance env accountID d =
     (case WithTx env (capture (account_balance_closure (queries env) accountID)) d of
        ((_, Some err), d') \<Rightarrow> (Inl err, d')
      | ((b, None), d') \<Rightarrow>
          (Inr (case b of
                  Some b \<Rightarrow> b
                | None \<Rightarrow> \<lparr>ab_AccountID = 0, ab_Currency = '''', ab_Balance = 0\<rparr>), d'))"

definition clamp_limit :: "int64 \<Rightarrow> int64" where
  "clamp_limit limit =
     (let limit = (if limit \<le> 0 then defaultLimit else limit)
      in if MaxLimit < limit then MaxLimit else limit)"

definition statement_entry_of :: "ledger_entry \<Rightarrow> statement_entry" where
  "statement_entry_of e =
     \<lparr>se_EntryID = le_ID e, se_TransactionID = le_TransactionID e, se_Amount = le_Amount e,
      se_CounterpartyID = (if 0 < le_Amount e then le_SourceID e else le_DestinationID e),
      se_Type = le_Type e, se_CreatedAt = le_CreatedAt e, se_ReversalOf = le_ReversalOf e\<rparr>"

definition next_cursor :: "int64 \<Rightarrow> ledger_entry list \<Rightarrow> int64" where
  "next_cursor limit entries =
     (if int (length entries) < limit then 0
      else if entries = [] then 0 else le_ID (last entries))"

definition history_closure ::
  "'s querier \<Rightarrow> int64 \<Rightarrow> int64 \<Rightarrow> int64 \<Rightarrow> ('s, ledger_entry list) action" where
  "history_closure q accountID limit before =
     bindQ (onErr (q_GetAccount q accountID) (not_found_as ErrAccountNotFound)) (\<lambda>_.
     q_GetAccountHistory q accountID limit before)"

definition AccountTransactionsHistory ::
  "env \<Rightarrow> int64 \<Rightarrow> int64 \<Rightarrow> int64 \<Rightarrow> db \<Rightarrow> statement result \<times> db" where
  "AccountTransactionsHistory env accountID limit before d =
     (let limit = clamp_limit limit
      in case WithTx env (capture (history_closure (queries env) accountID limit before)) d of
           ((_, Some err), d') \<Rightarrow> (Inl err, d')
         | ((read, None), d') \<Rightarrow>
             (let ledgerEntries = (case read of None \<Rightarrow> [] | Some es \<Rightarrow> es)
              in (Inr \<lparr>st_Entries = map statement_entry_of ledgerEntries,
                       st_NextCursor = next_cursor limit ledgerEntries\<rparr>, d')))"

section \<open>On one session\<close>

text \<open>What the functions above do when the interface is \<open>queries\<close>.\<close>

lemmas lock_account_queries = lock_account_def [of "queries env" for env, unfolded queries_sel]
lemmas replay_queries = replay_def [of "queries env" for env, unfolded queries_sel]
lemmas write_entries_queries = write_entries_def [of "queries env" for env, unfolded queries_sel]
lemmas post_entries_queries = post_entries_def [of "queries env" for env, unfolded queries_sel]
lemmas post_or_replay_queries = post_or_replay_def [of "queries env" for env, unfolded queries_sel]
lemmas transfer_queries = transfer_def [of "queries env" for env, unfolded queries_sel]
lemmas transfer_closure_queries = transfer_closure_def [of "queries env" for env, unfolded queries_sel]
lemmas deposit_closure_queries = deposit_closure_def [of "queries env" for env, unfolded queries_sel]
lemmas withdraw_closure_queries = withdraw_closure_def [of "queries env" for env, unfolded queries_sel]
lemmas reversible_queries = reversible_def [of "queries env" for env, unfolded queries_sel]
lemmas reverse_closure_queries = reverse_closure_def [of "queries env" for env, unfolded queries_sel]
lemmas account_balance_closure_queries = account_balance_closure_def [of "queries env" for env, unfolded queries_sel]
lemmas history_closure_queries = history_closure_def [of "queries env" for env, unfolded queries_sel]

end
