(* ===== verification/Storage_Facts.thy ===== *)
theory Storage_Facts
  imports Transaction
begin

text \<open>
  The library of facts about the statements: for each, what a successful run has read and written
  (collected in \<open>query_elims\<close>), that it never moves a sequence back (\<open>query_mono\<close>), and that the
  reading statements leave the database alone.
\<close>

section \<open>Reading statements\<close>

text \<open>A query that never writes.\<close>

definition read_only :: "'a query \<Rightarrow> bool" where
  "read_only m \<longleftrightarrow> (\<forall>s. s_db (snd (m s)) = s_db s)"

named_theorems query_reads \<open>queries that never write\<close>

lemma read_onlyD: "read_only m \<Longrightarrow> m s = (r, s') \<Longrightarrow> s_db s' = s_db s"
  by (metis read_only_def snd_conv)

lemma read_only_seq_mono: "read_only m \<Longrightarrow> seq_mono m"
  by (simp add: read_only_def seq_mono_def)

lemma read_only_read_sql [query_reads]: "read_only (read_sql env f)"
  by (simp add: read_only_def read_sql_def exec_sql_def Let_def split: option.splits)

lemma read_only_ret [query_reads]: "read_only (ret a)"
  by (simp add: read_only_def ret_def)

lemma read_only_throw [query_reads]: "read_only (throw e)"
  by (simp add: read_only_def throw_def)

lemma read_only_acquire [query_reads]: "read_only (acquire r)"
  by (simp add: read_only_def acquire_def)

lemma read_only_if [query_reads]: "read_only m \<Longrightarrow> read_only m' \<Longrightarrow> read_only (if b then m else m')"
  by simp

lemma read_only_bindQ [query_reads]:
  "read_only m \<Longrightarrow> (\<And>a. read_only (f a)) \<Longrightarrow> read_only (bindQ m f)"
  by (auto simp: read_only_def bindQ_def split: prod.splits sum.splits) (metis snd_conv)+

lemma read_only_onErr [query_reads]:
  "read_only m \<Longrightarrow> (\<And>e. read_only (h e)) \<Longrightarrow> read_only (onErr m h)"
  by (auto simp: read_only_def onErr_def split: prod.splits sum.splits) (metis snd_conv)+

lemma read_only_select_account [query_reads]: "read_only (select_account env P)"
  unfolding select_account_def by (intro query_reads)

lemma read_only_GetAccount [query_reads]: "read_only (GetAccount env i)"
  unfolding GetAccount_def by (rule query_reads)

lemma read_only_GetSystemAccountByCode [query_reads]: "read_only (GetSystemAccountByCode env c)"
  unfolding GetSystemAccountByCode_def by (rule query_reads)

lemma read_only_GetAccountForUpdate [query_reads]: "read_only (GetAccountForUpdate env i)"
  unfolding GetAccountForUpdate_def by (intro query_reads)

lemma read_only_GetAccountBalance [query_reads]: "read_only (GetAccountBalance env i)"
  unfolding GetAccountBalance_def by (intro query_reads)

lemma read_only_GetTransaction [query_reads]: "read_only (GetTransaction env k)"
  unfolding GetTransaction_def by (intro query_reads)

lemma read_only_GetTransactionByID [query_reads]: "read_only (GetTransactionByID env i)"
  unfolding GetTransactionByID_def by (intro query_reads)

lemma read_only_GetAccountHistory [query_reads]: "read_only (GetAccountHistory env i lim before)"
  unfolding GetAccountHistory_def Let_def by (intro query_reads)

lemma read_only_TryLockOutbox [query_reads]: "read_only (TryLockOutbox env)"
  unfolding TryLockOutbox_def by (intro query_reads)

lemma read_only_GetUnpublishedOutboxEvents [query_reads]:
  "read_only (GetUnpublishedOutboxEvents env lim)"
  unfolding GetUnpublishedOutboxEvents_def by (intro query_reads)

lemma read_only_OldestUnpublishedOutboxAge [query_reads]:
  "read_only (OldestUnpublishedOutboxAge env)"
  unfolding OldestUnpublishedOutboxAge_def by (intro query_reads)

section \<open>Writing statements and the sequences\<close>

lemmas reads_seq_mono [query_mono] =
  read_only_GetAccount [THEN read_only_seq_mono]
  read_only_GetAccountForUpdate [THEN read_only_seq_mono]
  read_only_GetSystemAccountByCode [THEN read_only_seq_mono]
  read_only_GetAccountBalance [THEN read_only_seq_mono]
  read_only_GetTransaction [THEN read_only_seq_mono]
  read_only_GetTransactionByID [THEN read_only_seq_mono]
  read_only_GetAccountHistory [THEN read_only_seq_mono]
  read_only_TryLockOutbox [THEN read_only_seq_mono]
  read_only_GetUnpublishedOutboxEvents [THEN read_only_seq_mono]
  read_only_OldestUnpublishedOutboxAge [THEN read_only_seq_mono]

lemma seq_mono_lock_references [query_mono]: "seq_mono (lock_references t)"
  unfolding lock_references_def by (cases "tx_ReversalOf t") (simp_all, (intro query_mono)+)

lemma seq_mono_CreateTransaction [query_mono]: "seq_mono (CreateTransaction env t)"
  unfolding CreateTransaction_def
  by (intro query_mono seq_mono_exec_sql) (simp add: insert_transaction_def Let_def seq_le_def)

lemma seq_mono_CreateLedgerEntry [query_mono]: "seq_mono (CreateLedgerEntry env i a n)"
  unfolding CreateLedgerEntry_def
  by (intro query_mono seq_mono_exec_sql) (simp add: insert_ledger_entry_def Let_def seq_le_def)

lemma seq_mono_CreateOutboxEvent [query_mono]: "seq_mono (CreateOutboxEvent env ty k e)"
proof (cases "marshal_entry e")
  case (Inl err)
  then show ?thesis by (simp add: CreateOutboxEvent_def query_mono)
next
  case (Inr js)
  have "seq_mono (exec_sql env (insert_outbox_event env ty k js))"
    by (rule seq_mono_exec_sql) (simp add: insert_outbox_event_def Let_def seq_le_def split: option.splits)
  with Inr show ?thesis by (simp add: CreateOutboxEvent_def)
qed

lemma seq_mono_UpdateTransactionStatus [query_mono]: "seq_mono (UpdateTransactionStatus env i st)"
  unfolding UpdateTransactionStatus_def
  by (intro query_mono seq_mono_exec_sql) (simp add: update_status_def Let_def seq_le_def)

lemma seq_mono_MarkOutboxEventsPublished [query_mono]:
  "seq_mono (MarkOutboxEventsPublished env ids)"
  unfolding MarkOutboxEventsPublished_def by (rule seq_mono_exec_sql) (simp add: seq_le_def)

section \<open>Successful statements\<close>

lemma select_account_InrE:
  assumes "select_account env P s = (Inr a, s')"
  obtains row where "find P (accounts (s_db s)) = Some row" "a = scan_account row" "s_db s' = s_db s"
  using assms by (auto simp: select_account_def split: option.splits elim!: read_sql_InrE)

lemma GetAccount_InrE [query_elims]:
  assumes "GetAccount env i s = (Inr a, s')"
  obtains row where "account_of (s_db s) i = Some row" "a = scan_account row" "s_db s' = s_db s"
  using assms unfolding GetAccount_def account_of_def by (elim select_account_InrE)

lemma GetAccountForUpdate_InrE [query_elims]:
  assumes "GetAccountForUpdate env i s = (Inr a, s')"
  obtains row where "account_of (s_db s) i = Some row" "a = scan_account row" "s_db s' = s_db s"
  using assms unfolding GetAccountForUpdate_def account_of_def
  by (elim select_account_InrE query_elims) auto

lemma GetSystemAccountByCode_InrE [query_elims]:
  assumes "GetSystemAccountByCode env c s = (Inr a, s')"
  obtains row where "row \<in> set (accounts (s_db s))" "a_code row = Some c"
    "a = scan_account row" "s_db s' = s_db s"
  using assms unfolding GetSystemAccountByCode_def
  by (elim select_account_InrE) (auto dest: find_SomeD)

lemma GetAccountBalance_InrE [query_elims]:
  assumes "GetAccountBalance env i s = (Inr b, s')"
  obtains "b = balance_of (s_db s) i" "in_int64 b" "s_db s' = s_db s"
  using assms by (auto simp: GetAccountBalance_def Let_def split: if_splits elim!: read_sql_InrE)

lemma GetTransaction_InrE [query_elims]:
  assumes "GetTransaction env k s = (Inr t, s')"
  obtains row where "keyed (s_db s) k = Some row" "t = scan_transaction row" "s_db s' = s_db s"
  using assms by (auto simp: GetTransaction_def split: option.splits elim!: read_sql_InrE)

lemma GetTransactionByID_InrE [query_elims]:
  assumes "GetTransactionByID env i s = (Inr t, s')"
  obtains row where "transaction_of (s_db s) i = Some row" "t = scan_transaction row"
    "s_db s' = s_db s"
  using assms
  by (auto simp: GetTransactionByID_def split: option.splits elim!: query_elims read_sql_InrE)

text \<open>What a successful insert of a transaction knows and does.\<close>

lemma CreateTransaction_InrE:
  assumes "CreateTransaction env t s = (Inr c, s')"
  obtains "keyed (s_db s) (tx_IdempotencyKey t) = None" "\<not> reversal_taken (s_db s) t"
    "\<not> missing_reference (s_db s) t" "0 < tx_Amount t" "tx_Type t \<in> set transaction_types"
    "c = t\<lparr>tx_Status := ''completed'', tx_ID := transactions_seq (s_db s) + 1,
           tx_CreatedAt := tx_now env\<rparr>"
    "transactions_seq (s_db s) + 1 \<le> MaxInt64"
    "s_db s' = (s_db s)\<lparr>transactions_seq := transactions_seq (s_db s) + 1,
        transactions := transactions (s_db s) @
          [inserted_transaction env t (transactions_seq (s_db s) + 1)]\<rparr>"
proof -
  have refs: "s_db s2 = s_db s1" if "lock_references t s1 = (Inr u, s2)" for s1 s2 u
    using that by (auto simp: lock_references_def elim!: query_elims split: option.splits)
  obtain row where ins: "insert_transaction env t (s_db s) = (Inr row, s_db s')"
    and c: "c = t\<lparr>tx_Status := ''completed'', tx_ID := t_id row, tx_CreatedAt := t_created_at row\<rparr>"
    using assms unfolding CreateTransaction_def
    by (auto elim!: query_elims dest!: exec_sql_InrD refs)
  show ?thesis
    by (rule that; use ins c in \<open>force simp: insert_transaction_def Let_def
        inserted_transaction_def split: if_splits\<close>)
qed

lemma CreateLedgerEntry_InrE [query_elims]:
  assumes "CreateLedgerEntry env i a n s = (Inr u, s')"
  obtains "account_of (s_db s) a \<noteq> None" "transaction_of (s_db s) i \<noteq> None"
    "ledger_entries_seq (s_db s) + 1 \<le> MaxInt64"
    "s_db s' = (s_db s)\<lparr>ledger_entries_seq := ledger_entries_seq (s_db s) + 1,
        ledger_entries := ledger_entries (s_db s) @
          [\<lparr>l_id = ledger_entries_seq (s_db s) + 1, l_transaction_id = i, l_account_id = a,
            l_amount = n, l_created_at = tx_now env\<rparr>]\<rparr>"
proof -
  have "insert_ledger_entry env i a n (s_db s) = (Inr u, s_db s')"
    using assms unfolding CreateLedgerEntry_def by (auto elim!: query_elims dest!: exec_sql_InrD)
  then show ?thesis
    by (auto simp: insert_ledger_entry_def Let_def split: if_splits intro!: that)
qed

text \<open>The outbox row as inserted.\<close>

definition new_outbox_row :: "env \<Rightarrow> string \<Rightarrow> string \<Rightarrow> string \<Rightarrow> int64 \<Rightarrow> outbox_row" where
  "new_outbox_row env ty k doc i =
     \<lparr>o_id = i, o_event_id = gen_uuid env i, o_event_type = ty, o_partition_key = k,
      o_payload = doc, o_created_at = tx_now env, o_published_at = None\<rparr>"

lemma CreateOutboxEvent_InrE [query_elims]:
  assumes "CreateOutboxEvent env ty k e s = (Inr u, s')"
  obtains js doc where "marshal_entry e = Inr js" "jsonb_text env js = Some doc"
    "outbox_seq (s_db s) + 1 \<le> MaxInt64"
    "gen_uuid env (outbox_seq (s_db s) + 1) \<notin> o_event_id ` set (outbox (s_db s))"
    "s_db s' = (s_db s)\<lparr>outbox_seq := outbox_seq (s_db s) + 1,
        outbox := outbox (s_db s) @ [new_outbox_row env ty k doc (outbox_seq (s_db s) + 1)]\<rparr>"
  using assms unfolding CreateOutboxEvent_def
  by (cases "marshal_entry e")
    (auto simp: insert_outbox_event_def Let_def new_outbox_row_def split: if_splits option.splits
       elim!: query_elims dest!: exec_sql_InrD intro: that)

lemma UpdateTransactionStatus_InrE [query_elims]:
  assumes "UpdateTransactionStatus env i st s = (Inr u, s')"
  obtains t where "t \<in> set (transactions (s_db s))" "t_id t = i" "t_status t = ''completed''"
    "s_db s' = (s_db s)\<lparr>transactions := map (set_status i st) (transactions (s_db s))\<rparr>"
proof -
  obtain n s1 where n: "update_status i st (s_db s) = (Inr n, s_db s')" "n \<noteq> 0"
    using assms unfolding UpdateTransactionStatus_def
    by (auto elim!: query_elims onErr_InrE dest!: exec_sql_InrD split: if_splits)
  then have "filter (\<lambda>t. t_id t = i \<and> t_status t = ''completed'') (transactions (s_db s)) \<noteq> []"
    by (auto simp: update_status_def Let_def split: if_splits)
  then obtain t where "t \<in> set (transactions (s_db s))" "t_id t = i" "t_status t = ''completed''"
    by (auto simp: filter_empty_conv)
  with n show ?thesis
    by (auto simp: update_status_def Let_def split: if_splits intro!: that)
qed

lemma MarkOutboxEventsPublished_InrE [query_elims]:
  assumes "MarkOutboxEventsPublished env ids s = (Inr u, s')"
  obtains "s_db s' = (s_db s)\<lparr>outbox := map (mark_published (tx_now env) ids) (outbox (s_db s))\<rparr>"
  using assms by (auto simp: MarkOutboxEventsPublished_def dest!: exec_sql_InrD)

end
