(* ===== verification/Service_Facts.thy ===== *)
theory Service_Facts
  imports Service Storage_Facts
begin

text \<open>
  What a successful run of the service's transfer core has checked and done: it either replays an
  earlier transaction and leaves the tables alone, or appends one transaction, two entries and two
  events. Every operation's properties rest on this case distinction.
\<close>

section \<open>The effect of a posted transfer\<close>

definition new_entry :: "env \<Rightarrow> int64 \<Rightarrow> int64 \<Rightarrow> int64 \<Rightarrow> int64 \<Rightarrow> ledger_entry_row" where
  "new_entry env i tx acc n =
     \<lparr>l_id = i, l_transaction_id = tx, l_account_id = acc, l_amount = n, l_created_at = tx_now env\<rparr>"

definition new_transaction :: "env \<Rightarrow> transfer_params \<Rightarrow> db \<Rightarrow> transaction_row" where
  "new_transaction env p d = inserted_transaction env (requested p) (transactions_seq d + 1)"

text \<open>The database after posting, given the two documents the outbox stores.\<close>

definition posted_db :: "env \<Rightarrow> transfer_params \<Rightarrow> string \<Rightarrow> string \<Rightarrow> db \<Rightarrow> db" where
  "posted_db env p doc1 doc2 d =
     d\<lparr>transactions_seq := transactions_seq d + 1,
       transactions := transactions d @ [new_transaction env p d],
       ledger_entries_seq := ledger_entries_seq d + 2,
       ledger_entries := ledger_entries d @
         [new_entry env (ledger_entries_seq d + 1) (transactions_seq d + 1) (p_From p) (neg64 (p_Amount p)),
          new_entry env (ledger_entries_seq d + 2) (transactions_seq d + 1) (p_To p) (p_Amount p)],
       outbox_seq := outbox_seq d + 2,
       outbox := outbox d @
         [new_outbox_row env EntryTypePosted (FormatInt (p_To p)) doc1 (outbox_seq d + 1),
          new_outbox_row env EntryTypePosted (FormatInt (p_From p)) doc2 (outbox_seq d + 2)]\<rparr>"

definition created_transaction :: "env \<Rightarrow> transfer_params \<Rightarrow> db \<Rightarrow> transaction" where
  "created_transaction env p d = scan_transaction (new_transaction env p d)"

text \<open>The document the outbox stores for an event.\<close>

definition event_stored :: "env \<Rightarrow> entry_posted \<Rightarrow> string \<Rightarrow> bool" where
  "event_stored env e doc \<longleftrightarrow> (\<exists>js. marshal_entry e = Inr js \<and> jsonb_text env js = Some doc)"

text \<open>The conditions under which a transfer posts.\<close>

record posting =
  src_row :: account_row
  dst_row :: account_row
  credit_doc :: string
  debit_doc :: string

definition posts :: "env \<Rightarrow> transfer_params \<Rightarrow> db \<Rightarrow> posting \<Rightarrow> bool" where
  "posts env p d w \<longleftrightarrow>
     account_of d (p_From p) = Some (src_row w) \<and> account_of d (p_To p) = Some (dst_row w) \<and>
     a_currency (src_row w) = a_currency (dst_row w) \<and>
     keyed d (p_IdempotencyKey p) = None \<and>
     \<not> reversal_taken d (requested p) \<and> \<not> missing_reference d (requested p) \<and>
     0 < p_Amount p \<and> p_Type p \<in> set transaction_types \<and>
     in_int64 (balance_of d (p_From p)) \<and>
     (0 \<le> sub64 (balance_of d (p_From p)) (p_Amount p) \<or>
        a_type (src_row w) = accountTypeSystem \<or> p_Type p = TxTypeReversal) \<and>
     event_stored env (credit_event p (created_transaction env p d) (a_currency (dst_row w))) (credit_doc w) \<and>
     event_stored env (debit_event p (created_transaction env p d) (a_currency (src_row w))) (debit_doc w) \<and>
     gen_uuid env (outbox_seq d + 1) \<notin> o_event_id ` set (outbox d) \<and>
     gen_uuid env (outbox_seq d + 2) \<notin> o_event_id ` set (outbox d) \<and>
     gen_uuid env (outbox_seq d + 2) \<noteq> gen_uuid env (outbox_seq d + 1) \<and>
     transactions_seq d + 1 \<le> MaxInt64 \<and> ledger_entries_seq d + 2 \<le> MaxInt64 \<and>
     outbox_seq d + 2 \<le> MaxInt64"

text \<open>The transaction an idempotency key replays.\<close>

definition replays :: "transfer_params \<Rightarrow> db \<Rightarrow> transaction_row \<Rightarrow> bool" where
  "replays p d t \<longleftrightarrow>
     keyed d (p_IdempotencyKey p) = Some t \<and>
     t_source_id t = p_From p \<and> t_destination_id t = p_To p \<and> t_amount t = p_Amount p"

definition replayed_result :: "transaction_row \<Rightarrow> result_t" where
  "replayed_result t = (newResult (scan_transaction t))\<lparr>r_Replayed := True\<rparr>"

section \<open>Inverting the transfer core\<close>

lemma not_found_as_InrE [query_elims]: "not_found_as e err s = (Inr a, s') \<Longrightarrow> P"
  by (simp add: not_found_as_def throw_def split: if_splits)

lemma onErr_not_found_InrE [query_elims]:
  assumes "onErr m (not_found_as e) s = (Inr a, s')"
  obtains "m s = (Inr a, s')"
  using assms by (elim onErr_InrE) (auto elim: not_found_as_InrE)

lemma lock_account_InrE [query_elims]:
  assumes "lock_account (queries env) i from s = (Inr a, s')"
  obtains row where "account_of (s_db s) i = Some row" "a = scan_account row" "s_db s' = s_db s"
proof -
  have "GetAccountForUpdate env i s = (Inr a, s')"
    using assms unfolding lock_account_queries
    by (elim onErr_InrE) (auto simp: throw_def split: if_splits)
  then show ?thesis by (elim GetAccountForUpdate_InrE) (rule that)
qed

lemma CreateTransaction_error:
  assumes "CreateTransaction env t s = (Inl err, s')"
  shows "same_tables (s_db s) (s_db s')"
proof -
  have refs: "\<exists>s2. lock_references t s1 = (Inr (), s2)" for s1
    by (auto simp: lock_references_def bindQ_def acquire_def ret_def split: option.splits)
  have ins: "same_tables d d'" if "insert_transaction env t d = (Inl err, d')" for d d'
    using that by (auto simp: insert_transaction_def Let_def same_tables_def split: if_splits)
  obtain s1 where s1: "acquire (IdempotencyKey (tx_IdempotencyKey t)) s = (Inr (), s1)" "s_db s1 = s_db s"
    by (auto simp: acquire_def)
  with assms have step: "bindQ (exec_sql env (insert_transaction env t)) (\<lambda>row.
     bindQ (lock_references t) (\<lambda>_.
     ret (t\<lparr>tx_Status := ''completed'', tx_ID := t_id row, tx_CreatedAt := t_created_at row\<rparr>))) s1
     = (Inl err, s')"
    by (simp add: CreateTransaction_def bindQ_def)
  show ?thesis
  proof (cases "exec_sql env (insert_transaction env t) s1")
    case (Pair r s2)
    show ?thesis
    proof (cases r)
      case (Inl e)
      with Pair step have eq: "e = err" "s2 = s'" by (simp_all add: bindQ_def)
      with Pair Inl s1(2) show ?thesis
        by (auto simp: exec_sql_def Let_def split: option.splits prod.splits intro: ins)
    next
      case (Inr row)
      with Pair step refs [of s2] show ?thesis by (auto simp: bindQ_def ret_def)
    qed
  qed
qed

lemma replay_InrE:
  assumes "replay (queries env) p s = (Inr r, s')"
  obtains t where "replays p (s_db s) t" "r = replayed_result t" "s_db s' = s_db s"
proof -
  obtain t s1 where t: "keyed (s_db s) (p_IdempotencyKey p) = Some t" "s_db s1 = s_db s"
    and rest: "(if compareTransactions (requested p) (scan_transaction t)
       then ret (replayed_result t) else throw (ServiceError ErrTransactionsMismatch)) s1 = (Inr r, s')"
    using assms unfolding replay_queries replayed_result_def by (elim query_elims) auto
  then have "compareTransactions (requested p) (scan_transaction t)" "r = replayed_result t" "s' = s1"
    by (auto simp: ret_def throw_def split: if_splits)
  with t show ?thesis
    by (intro that [of t])
      (auto simp: replays_def compareTransactions_def requested_def scan_transaction_def)
qed

text \<open>Posting the entries and the events, step by step.\<close>

definition entries_posted ::
  "env \<Rightarrow> transfer_params \<Rightarrow> int64 \<Rightarrow> string \<Rightarrow> string \<Rightarrow> db \<Rightarrow> db" where
  "entries_posted env p i doc1 doc2 d =
     d\<lparr>ledger_entries_seq := ledger_entries_seq d + 2,
       ledger_entries := ledger_entries d @
         [new_entry env (ledger_entries_seq d + 1) i (p_From p) (neg64 (p_Amount p)),
          new_entry env (ledger_entries_seq d + 2) i (p_To p) (p_Amount p)],
       outbox_seq := outbox_seq d + 2,
       outbox := outbox d @
         [new_outbox_row env EntryTypePosted (FormatInt (p_To p)) doc1 (outbox_seq d + 1),
          new_outbox_row env EntryTypePosted (FormatInt (p_From p)) doc2 (outbox_seq d + 2)]\<rparr>"

lemma Key_credit_event [simp]: "Key (credit_event p t c) = FormatInt (p_To p)"
  by (simp add: Key_def credit_event_def)

lemma Key_debit_event [simp]: "Key (debit_event p t c) = FormatInt (p_From p)"
  by (simp add: Key_def debit_event_def)

lemma two_entries_InrE:
  assumes e1: "CreateLedgerEntry env i a n s = (Inr (), s1)"
    and e2: "CreateLedgerEntry env i b m s1 = (Inr (), s2)"
  obtains "ledger_entries_seq (s_db s) + 2 \<le> MaxInt64"
    "s_db s2 = (s_db s)\<lparr>ledger_entries_seq := ledger_entries_seq (s_db s) + 2,
       ledger_entries := ledger_entries (s_db s) @
         [new_entry env (ledger_entries_seq (s_db s) + 1) i a n,
          new_entry env (ledger_entries_seq (s_db s) + 2) i b m]\<rparr>"
  using e1
proof (rule CreateLedgerEntry_InrE)
  assume d1: "s_db s1 = (s_db s)\<lparr>ledger_entries_seq := ledger_entries_seq (s_db s) + 1,
      ledger_entries := ledger_entries (s_db s) @
        [\<lparr>l_id = ledger_entries_seq (s_db s) + 1, l_transaction_id = i, l_account_id = a,
          l_amount = n, l_created_at = tx_now env\<rparr>]\<rparr>"
  from e2 show thesis
    by (rule CreateLedgerEntry_InrE) (rule that; simp add: d1 new_entry_def)
qed

lemma two_events_InrE:
  assumes o1: "CreateOutboxEvent env ty k e s = (Inr (), s1)"
    and o2: "CreateOutboxEvent env ty k' e' s1 = (Inr (), s2)"
  obtains doc doc' where "event_stored env e doc" "event_stored env e' doc'"
    "gen_uuid env (outbox_seq (s_db s) + 1) \<notin> o_event_id ` set (outbox (s_db s))"
    "gen_uuid env (outbox_seq (s_db s) + 2) \<notin> o_event_id ` set (outbox (s_db s))"
    "gen_uuid env (outbox_seq (s_db s) + 2) \<noteq> gen_uuid env (outbox_seq (s_db s) + 1)"
    "outbox_seq (s_db s) + 2 \<le> MaxInt64"
    "s_db s2 = (s_db s)\<lparr>outbox_seq := outbox_seq (s_db s) + 2,
       outbox := outbox (s_db s) @ [new_outbox_row env ty k doc (outbox_seq (s_db s) + 1),
                                    new_outbox_row env ty k' doc' (outbox_seq (s_db s) + 2)]\<rparr>"
  using o1
proof (rule CreateOutboxEvent_InrE)
  fix js doc
  assume e: "marshal_entry e = Inr js" "jsonb_text env js = Some doc"
    and u: "gen_uuid env (outbox_seq (s_db s) + 1) \<notin> o_event_id ` set (outbox (s_db s))"
    and d1: "s_db s1 = (s_db s)\<lparr>outbox_seq := outbox_seq (s_db s) + 1,
      outbox := outbox (s_db s) @ [new_outbox_row env ty k doc (outbox_seq (s_db s) + 1)]\<rparr>"
  from o2 show thesis
  proof (rule CreateOutboxEvent_InrE)
    fix js' doc'
    assume e': "marshal_entry e' = Inr js'" "jsonb_text env js' = Some doc'"
      and le: "outbox_seq (s_db s1) + 1 \<le> MaxInt64"
      and u': "gen_uuid env (outbox_seq (s_db s1) + 1) \<notin> o_event_id ` set (outbox (s_db s1))"
      and d2: "s_db s2 = (s_db s1)\<lparr>outbox_seq := outbox_seq (s_db s1) + 1,
        outbox := outbox (s_db s1) @ [new_outbox_row env ty k' doc' (outbox_seq (s_db s1) + 1)]\<rparr>"
    show thesis
      by (rule that [of doc doc'])
        (use e e' u u' le in \<open>simp_all add: event_stored_def d1 d2 new_outbox_row_def
           add.commute [of 2 "outbox_seq (s_db s)"]\<close>)
  qed
qed

lemma write_entries_InrE:
  assumes "write_entries (queries env) p sa da created s = (Inr r, s')"
  obtains doc1 doc2 where
    "event_stored env (credit_event p created (acc_Currency da)) doc1"
    "event_stored env (debit_event p created (acc_Currency sa)) doc2"
    "gen_uuid env (outbox_seq (s_db s) + 1) \<notin> o_event_id ` set (outbox (s_db s))"
    "gen_uuid env (outbox_seq (s_db s) + 2) \<notin> o_event_id ` set (outbox (s_db s))"
    "gen_uuid env (outbox_seq (s_db s) + 2) \<noteq> gen_uuid env (outbox_seq (s_db s) + 1)"
    "ledger_entries_seq (s_db s) + 2 \<le> MaxInt64" "outbox_seq (s_db s) + 2 \<le> MaxInt64"
    "s_db s' = entries_posted env p (tx_ID created) doc1 doc2 (s_db s)" "r = newResult created"
proof -
  obtain s2 s3 s4 where
    e1: "CreateLedgerEntry env (tx_ID created) (p_From p) (neg64 (p_Amount p)) s = (Inr (), s2)" and
    e2: "CreateLedgerEntry env (tx_ID created) (p_To p) (p_Amount p) s2 = (Inr (), s3)" and
    o1: "CreateOutboxEvent env EntryTypePosted (FormatInt (p_To p))
           (credit_event p created (acc_Currency da)) s3 = (Inr (), s4)" and
    o2: "CreateOutboxEvent env EntryTypePosted (FormatInt (p_From p))
           (debit_event p created (acc_Currency sa)) s4 = (Inr (), s')" and
    r: "r = newResult created"
    using assms unfolding write_entries_queries Let_def Key_credit_event Key_debit_event
    by (elim bindQ_InrE ret_InrE) (metis (full_types) old.unit.exhaust)
  from e1 e2 show thesis
  proof (rule two_entries_InrE)
    assume le: "ledger_entries_seq (s_db s) + 2 \<le> MaxInt64"
      and d3: "s_db s3 = (s_db s)\<lparr>ledger_entries_seq := ledger_entries_seq (s_db s) + 2,
       ledger_entries := ledger_entries (s_db s) @
         [new_entry env (ledger_entries_seq (s_db s) + 1) (tx_ID created) (p_From p) (neg64 (p_Amount p)),
          new_entry env (ledger_entries_seq (s_db s) + 2) (tx_ID created) (p_To p) (p_Amount p)]\<rparr>"
    from o1 o2 show thesis
      by (rule two_events_InrE) (rule that; simp add: d3 le r entries_posted_def)
  qed
qed

lemma post_entries_InrE:
  assumes "post_entries (queries env) p sa da created s = (Inr r, s')"
  obtains s1 where "write_entries (queries env) p sa da created s1 = (Inr r, s')" "s_db s1 = s_db s"
    "in_int64 (balance_of (s_db s) (p_From p))"
    "0 \<le> sub64 (balance_of (s_db s) (p_From p)) (p_Amount p) \<or>
       acc_Type sa = accountTypeSystem \<or> p_Type p = TxTypeReversal"
proof -
  obtain bal s1 where "GetAccountBalance env (p_From p) s = (Inr bal, s1)"
    and rest: "(if sub64 bal (p_Amount p) < 0 \<and>
        \<not> (acc_Type sa = accountTypeSystem \<or> p_Type p = TxTypeReversal)
      then throw (ServiceError ErrNotEnough) else write_entries (queries env) p sa da created) s1 = (Inr r, s')"
    using assms unfolding post_entries_queries by (rule bindQ_InrE)
  then have b: "bal = balance_of (s_db s) (p_From p)" "in_int64 bal" "s_db s1 = s_db s"
    by (auto elim: GetAccountBalance_InrE)
  with rest that [of s1] show thesis by (auto simp: throw_def split: if_splits)
qed

lemma created_transaction_eq:
  "(requested p)\<lparr>tx_Status := ''completed'', tx_ID := transactions_seq d + 1,
      tx_CreatedAt := tx_now env\<rparr> = created_transaction env p d"
  by (simp add: created_transaction_def scan_transaction_def new_transaction_def
      inserted_transaction_def requested_def)

lemma tx_ID_created [simp]: "tx_ID (created_transaction env p d) = transactions_seq d + 1"
  by (simp add: created_transaction_def scan_transaction_def new_transaction_def inserted_transaction_def)

text \<open>With both accounts known, the run replays or posts.\<close>

lemma post_or_replay_InrE:
  assumes run: "post_or_replay (queries env) p (scan_account a) (scan_account b) s = (Inr r, s')"
    and ab: "account_of (s_db s) (p_From p) = Some a" "account_of (s_db s) (p_To p) = Some b"
      "a_currency a = a_currency b"
    and replayed: "\<And>t. replays p (s_db s) t \<Longrightarrow> r = replayed_result t \<Longrightarrow>
        same_tables (s_db s) (s_db s') \<Longrightarrow> P"
    and posted: "\<And>w. posts env p (s_db s) w \<Longrightarrow>
        s_db s' = posted_db env p (credit_doc w) (debit_doc w) (s_db s) \<Longrightarrow>
        r = newResult (created_transaction env p (s_db s)) \<Longrightarrow> P"
  shows P
proof (cases "CreateTransaction env (requested p) s")
  case (Pair res s1)
  show P
  proof (cases res)
    case (Inl err)
    with run Pair have "replay (queries env) p s1 = (Inr r, s')" by (simp add: post_or_replay_queries split: if_splits)
    then obtain t where t: "replays p (s_db s1) t" "r = replayed_result t" "s_db s' = s_db s1"
      by (rule replay_InrE)
    have same: "same_tables (s_db s) (s_db s1)"
      using CreateTransaction_error Pair Inl by metis
    then have "replays p (s_db s) t"
      using t(1) by (simp add: replays_def keyed_def same_tables_def)
    then show P using t(2,3) same by (intro replayed) simp_all
  next
    case (Inr created)
    with Pair have "CreateTransaction env (requested p) s = (Inr created, s1)" by simp
    then show P
    proof (rule CreateTransaction_InrE)
      let ?d = "s_db s"
      assume c: "keyed ?d (tx_IdempotencyKey (requested p)) = None"
        "\<not> reversal_taken ?d (requested p)" "\<not> missing_reference ?d (requested p)"
        "0 < tx_Amount (requested p)" "tx_Type (requested p) \<in> set transaction_types"
        "transactions_seq ?d + 1 \<le> MaxInt64"
        and created: "created = (requested p)\<lparr>tx_Status := ''completed'',
           tx_ID := transactions_seq ?d + 1, tx_CreatedAt := tx_now env\<rparr>"
        and d1: "s_db s1 = ?d\<lparr>transactions_seq := transactions_seq ?d + 1,
           transactions := transactions ?d @
             [inserted_transaction env (requested p) (transactions_seq ?d + 1)]\<rparr>"
      have bal: "balance_of (s_db s1) = balance_of ?d" by (simp add: d1 balance_of_def fun_eq_iff)
      from run Pair Inr have
        "post_entries (queries env) p (scan_account a) (scan_account b) created s1 = (Inr r, s')"
        by (simp add: post_or_replay_queries)
      then obtain s2 where
        w: "write_entries (queries env) p (scan_account a) (scan_account b) created s2 = (Inr r, s')"
        and d2: "s_db s2 = s_db s1" and b: "in_int64 (balance_of ?d (p_From p))"
          "0 \<le> sub64 (balance_of ?d (p_From p)) (p_Amount p) \<or>
             a_type a = accountTypeSystem \<or> p_Type p = TxTypeReversal"
        by (rule post_entries_InrE) (simp add: bal scan_account_def)
      from w show P
      proof (rule write_entries_InrE)
        fix doc1 doc2
        let ?w = "\<lparr>src_row = a, dst_row = b, credit_doc = doc1, debit_doc = doc2\<rparr>"
        assume e: "event_stored env (credit_event p created (acc_Currency (scan_account b))) doc1"
          "event_stored env (debit_event p created (acc_Currency (scan_account a))) doc2"
          "gen_uuid env (outbox_seq (s_db s2) + 1) \<notin> o_event_id ` set (outbox (s_db s2))"
          "gen_uuid env (outbox_seq (s_db s2) + 2) \<notin> o_event_id ` set (outbox (s_db s2))"
          "gen_uuid env (outbox_seq (s_db s2) + 2) \<noteq> gen_uuid env (outbox_seq (s_db s2) + 1)"
          "ledger_entries_seq (s_db s2) + 2 \<le> MaxInt64" "outbox_seq (s_db s2) + 2 \<le> MaxInt64"
          and d': "s_db s' = entries_posted env p (tx_ID created) doc1 doc2 (s_db s2)"
          and r: "r = newResult created"
        show P
        proof (rule posted [of ?w])
          show "posts env p ?d ?w"
            using ab b c e unfolding created created_transaction_eq
            by (simp add: posts_def d1 d2 requested_def scan_account_def)
          show "s_db s' = posted_db env p (credit_doc ?w) (debit_doc ?w) ?d"
            unfolding d' by (simp add: created entries_posted_def posted_db_def d1 d2 new_transaction_def)
          show "r = newResult (created_transaction env p ?d)"
            unfolding r created created_transaction_eq ..
        qed
      qed
    qed
  qed
qed

lemma transfer_InrE [consumes 1, case_names replayed posted]:
  assumes run: "transfer (queries env) p s = (Inr r, s')"
    and replayed: "\<And>t. replays p (s_db s) t \<Longrightarrow> r = replayed_result t \<Longrightarrow>
        same_tables (s_db s) (s_db s') \<Longrightarrow> P"
    and posted: "\<And>w. posts env p (s_db s) w \<Longrightarrow>
        s_db s' = posted_db env p (credit_doc w) (debit_doc w) (s_db s) \<Longrightarrow>
        r = newResult (created_transaction env p (s_db s)) \<Longrightarrow> P"
  shows P
proof -
  let ?first = "min (p_From p) (p_To p)" and ?second = "max (p_From p) (p_To p)"
  obtain a1 s1 a2 s2 where
    l1: "lock_account (queries env) ?first (p_From p) s = (Inr a1, s1)" and
    l2: "lock_account (queries env) ?second (p_From p) s1 = (Inr a2, s2)" and
    rest: "(case (if ?first \<noteq> p_From p then (a2, a1) else (a1, a2)) of (sa, da) \<Rightarrow>
        if acc_Currency sa \<noteq> acc_Currency da then throw (ServiceError ErrCurrencyMismatch)
        else post_or_replay (queries env) p sa da) s2 = (Inr r, s')"
    using run unfolding transfer_queries Let_def by (elim bindQ_InrE) blast
  from l1 obtain r1 where r1: "account_of (s_db s) ?first = Some r1" "a1 = scan_account r1"
    "s_db s1 = s_db s" by (rule lock_account_InrE)
  from l2 r1 obtain r2 where r2: "account_of (s_db s) ?second = Some r2" "a2 = scan_account r2"
    "s_db s2 = s_db s" by (metis lock_account_InrE)
  define a where "a = (if ?first \<noteq> p_From p then r2 else r1)"
  define b where "b = (if ?first \<noteq> p_From p then r1 else r2)"
  have ab: "account_of (s_db s) (p_From p) = Some a" "account_of (s_db s) (p_To p) = Some b"
    using r1 r2 by (auto simp: a_def b_def min_def max_def split: if_splits)
  have "(if ?first \<noteq> p_From p then (a2, a1) else (a1, a2)) = (scan_account a, scan_account b)"
    by (simp add: r1 r2 a_def b_def)
  with rest have "(if acc_Currency (scan_account a) \<noteq> acc_Currency (scan_account b)
      then throw (ServiceError ErrCurrencyMismatch)
      else post_or_replay (queries env) p (scan_account a) (scan_account b)) s2 = (Inr r, s')"
    by (simp only: case_prod_conv)
  then have cur: "a_currency a = a_currency b"
    and go: "post_or_replay (queries env) p (scan_account a) (scan_account b) s2 = (Inr r, s')"
    by (auto simp: throw_def scan_account_def split: if_splits)
  note same = r2(3) [symmetric]
  show P
    by (rule post_or_replay_InrE [OF go ab [unfolded same] cur
          replayed [unfolded same] posted [unfolded same]])
qed

end
