(* ===== verification/Ledger.thy ===== *)
theory Ledger
  imports Service_Facts
begin

text \<open>
  The ledger's invariant and its preservation: identities are unique and handed out by the
  sequences, every transaction is exactly one pair of opposite entries in the order of the
  transactions (double entry), references resolve, idempotency keys are unique, and reversals
  point at the transactions they reverse. The operations keep it under every environment: faults,
  failed commits and commits whose outcome the client does not learn.
\<close>

section \<open>The invariant\<close>

text \<open>The entries a transaction stands for.\<close>

definition tx_postings :: "transaction_row \<Rightarrow> (int64 \<times> int64 \<times> int) list" where
  "tx_postings t =
     [(t_id t, t_source_id t, - t_amount t), (t_id t, t_destination_id t, t_amount t)]"

definition posting_of :: "ledger_entry_row \<Rightarrow> int64 \<times> int64 \<times> int" where
  "posting_of l = (l_transaction_id l, l_account_id l, l_amount l)"

definition double_entry :: "db \<Rightarrow> bool" where
  "double_entry d \<longleftrightarrow>
     map posting_of (ledger_entries d) = concat (map tx_postings (transactions d))"

definition ids_below :: "int64 list \<Rightarrow> int64 \<Rightarrow> bool" where
  "ids_below is n \<longleftrightarrow> sorted_wrt (<) is \<and> (\<forall>i \<in> set is. 0 < i \<and> i \<le> n) \<and> 0 \<le> n"

definition ids_ok :: "db \<Rightarrow> bool" where
  "ids_ok d \<longleftrightarrow>
     ids_below (map t_id (transactions d)) (transactions_seq d) \<and>
     ids_below (map l_id (ledger_entries d)) (ledger_entries_seq d) \<and>
     ids_below (map o_id (outbox d)) (outbox_seq d) \<and>
     distinct (map a_id (accounts d))"

definition tx_ok :: "db \<Rightarrow> transaction_row \<Rightarrow> bool" where
  "tx_ok d t \<longleftrightarrow>
     0 < t_amount t \<and> in_int64 (t_amount t) \<and> t_source_id t \<noteq> t_destination_id t \<and>
     account_of d (t_source_id t) \<noteq> None \<and> account_of d (t_destination_id t) \<noteq> None \<and>
     map_option a_currency (account_of d (t_source_id t)) =
       map_option a_currency (account_of d (t_destination_id t)) \<and>
     t_status t \<in> {txStatusCompleted, txStatusReversed} \<and>
     t_type t \<in> set transaction_types \<and>
     (t_type t = TxTypeReversal \<longleftrightarrow> t_reversal_of t \<noteq> None)"

definition keys_ok :: "db \<Rightarrow> bool" where
  "keys_ok d \<longleftrightarrow> distinct (map t_idempotency_key (transactions d))"

text \<open>\<open>r\<close> is a transaction in the opposite direction of \<open>t\<close>, made to reverse it.\<close>

definition reverses :: "transaction_row \<Rightarrow> transaction_row \<Rightarrow> bool" where
  "reverses r t \<longleftrightarrow>
     t_reversal_of r = Some (t_id t) \<and> t_type t \<noteq> TxTypeReversal \<and>
     t_source_id r = t_destination_id t \<and> t_destination_id r = t_source_id t \<and>
     t_amount r = t_amount t"

definition reversal_links :: "db \<Rightarrow> bool" where
  "reversal_links d \<longleftrightarrow>
     (\<forall>r \<in> set (transactions d). t_reversal_of r \<noteq> None \<longrightarrow>
        (\<exists>t \<in> set (transactions d). reverses r t)) \<and>
     distinct (filter (\<lambda>x. x \<noteq> None) (map t_reversal_of (transactions d)))"

definition reversal_marks :: "db \<Rightarrow> bool" where
  "reversal_marks d \<longleftrightarrow>
     (\<forall>r \<in> set (transactions d). \<forall>t \<in> set (transactions d).
        t_reversal_of r = Some (t_id t) \<longrightarrow> t_status t = txStatusReversed)"

definition ledger_base :: "db \<Rightarrow> bool" where
  "ledger_base d \<longleftrightarrow>
     double_entry d \<and> ids_ok d \<and> keys_ok d \<and> (\<forall>t \<in> set (transactions d). tx_ok d t) \<and>
     reversal_links d"

definition ledger_inv :: "db \<Rightarrow> bool" where
  "ledger_inv d \<longleftrightarrow> ledger_base d \<and> reversal_marks d"

section \<open>Consequences\<close>

lemma ids_below_snoc:
  "ids_below is n \<Longrightarrow> n < i \<Longrightarrow> ids_below (is @ [i]) i"
  by (auto simp: ids_below_def sorted_wrt_append)

lemma ids_below_mono: "ids_below is n \<Longrightarrow> n \<le> m \<Longrightarrow> ids_below is m"
  by (auto simp: ids_below_def)

lemma ids_below_distinct: "ids_below is n \<Longrightarrow> distinct is"
  by (auto simp: ids_below_def strict_sorted_iff)

lemma ids_below_fresh: "ids_below is n \<Longrightarrow> n < i \<Longrightarrow> i \<notin> set is"
  by (auto simp: ids_below_def)

text \<open>A transaction is found by its id and by its key.\<close>

lemma transaction_of_member:
  "ids_ok d \<Longrightarrow> t \<in> set (transactions d) \<Longrightarrow> transaction_of d (t_id t) = Some t"
  unfolding transaction_of_def ids_ok_def by (intro find_key) (auto dest: ids_below_distinct)

lemma keyed_member:
  "keys_ok d \<Longrightarrow> t \<in> set (transactions d) \<Longrightarrow> keyed d (t_idempotency_key t) = Some t"
  unfolding keyed_def keys_ok_def by (intro find_key)

lemma account_of_member: "ids_ok d \<Longrightarrow> a \<in> set (accounts d) \<Longrightarrow> account_of d (a_id a) = Some a"
  unfolding account_of_def ids_ok_def by (intro find_key) auto

text \<open>The balance of an account as the transactions determine it.\<close>

definition net_effect :: "int64 \<Rightarrow> transaction_row \<Rightarrow> int" where
  "net_effect i t = (if t_destination_id t = i then t_amount t else 0)
     - (if t_source_id t = i then t_amount t else 0)"

definition posting_sum :: "int64 \<Rightarrow> (int64 \<times> int64 \<times> int) list \<Rightarrow> int" where
  "posting_sum i ps = (\<Sum>(t, a, n)\<leftarrow>ps. if a = i then n else 0)"

lemma balance_of_postings: "balance_of d i = posting_sum i (map posting_of (ledger_entries d))"
proof -
  have "(\<Sum>l\<leftarrow>filter (\<lambda>l. l_account_id l = i) ls. l_amount l) = posting_sum i (map posting_of ls)" for ls
    by (induction ls) (auto simp: posting_sum_def posting_of_def)
  then show ?thesis by (simp add: balance_of_def)
qed

lemma posting_sum_append [simp]: "posting_sum i (ps @ qs) = posting_sum i ps + posting_sum i qs"
  by (simp add: posting_sum_def)

lemma posting_sum_tx [simp]: "posting_sum i (tx_postings t) = net_effect i t"
  by (simp add: posting_sum_def tx_postings_def net_effect_def)

lemma balance_of_transactions:
  assumes "double_entry d"
  shows "balance_of d i = (\<Sum>t\<leftarrow>transactions d. net_effect i t)"
proof -
  have "posting_sum i (concat (map tx_postings ts)) = (\<Sum>t\<leftarrow>ts. net_effect i t)" for ts
    by (induction ts) (simp_all add: posting_sum_def [of i "[]"])
  with assms show ?thesis by (simp add: balance_of_postings double_entry_def)
qed

lemma entries_sum_zero:
  assumes "double_entry d"
  shows "(\<Sum>l\<leftarrow>ledger_entries d. l_amount l) = 0"
proof -
  have zero: "(\<Sum>p\<leftarrow>concat (map tx_postings ts). snd (snd p)) = 0" for ts
    by (induction ts) (simp_all add: tx_postings_def)
  have "(\<Sum>l\<leftarrow>ledger_entries d. l_amount l) = (\<Sum>p\<leftarrow>map posting_of (ledger_entries d). snd (snd p))"
    by (simp add: comp_def posting_of_def)
  also have "\<dots> = (\<Sum>p\<leftarrow>concat (map tx_postings (transactions d)). snd (snd p))"
    using assms by (simp only: double_entry_def)
  also have "\<dots> = 0"
    by (rule zero)
  finally show ?thesis .
qed

text \<open>The balances of all accounts cancel.\<close>

lemma sum_list_zero: "(\<And>x. x \<in> set xs \<Longrightarrow> f x = (0::int)) \<Longrightarrow> (\<Sum>x\<leftarrow>xs. f x) = 0"
  by (induction xs) auto

lemma sum_list_if_single:
  "distinct (map k xs) \<Longrightarrow> x \<in> set xs \<Longrightarrow> (\<Sum>y\<leftarrow>xs. if k x = k y then (n::int) else 0) = n"
proof (induction xs)
  case (Cons z zs)
  show ?case
  proof (cases "k x = k z")
    case True
    with Cons.prems have "k x \<notin> k ` set zs" by auto
    then have "(\<Sum>y\<leftarrow>zs. if k x = k y then n else 0) = 0"
      by (intro sum_list_zero) auto
    with True show ?thesis by simp
  next
    case False
    with Cons show ?thesis by auto
  qed
qed simp

lemma net_effects_cancel:
  assumes "tx_ok d t" "distinct (map a_id (accounts d))"
  shows "(\<Sum>a\<leftarrow>accounts d. net_effect (a_id a) t) = 0"
proof -
  have member: "\<exists>a \<in> set (accounts d). i = a_id a" if "account_of d i \<noteq> None" for i
    using that by (auto dest: account_of_SomeD)
  from assms(1) have "account_of d (t_source_id t) \<noteq> None" "account_of d (t_destination_id t) \<noteq> None"
    by (simp_all add: tx_ok_def)
  then obtain a b where ab: "a \<in> set (accounts d)" "t_source_id t = a_id a"
    "b \<in> set (accounts d)" "t_destination_id t = a_id b"
    using member by metis
  have "(\<Sum>x\<leftarrow>accounts d. net_effect (a_id x) t) =
      (\<Sum>x\<leftarrow>accounts d. if a_id b = a_id x then t_amount t else 0)
      - (\<Sum>x\<leftarrow>accounts d. if a_id a = a_id x then t_amount t else 0)"
    by (simp add: net_effect_def ab sum_list_subtractf)
  with ab assms(2) show ?thesis by (simp add: sum_list_if_single)
qed

lemma sum_list_swap: "(\<Sum>x\<leftarrow>xs. \<Sum>y\<leftarrow>ys. f x y) = (\<Sum>y\<leftarrow>ys. \<Sum>x\<leftarrow>xs. (f x y :: int))"
  by (induction xs) (simp_all add: sum_list_addf)

lemma balances_sum_zero:
  assumes "ledger_base d"
  shows "(\<Sum>a\<leftarrow>accounts d. balance_of d (a_id a)) = 0"
proof -
  have "(\<Sum>a\<leftarrow>accounts d. balance_of d (a_id a)) =
      (\<Sum>t\<leftarrow>transactions d. \<Sum>a\<leftarrow>accounts d. net_effect (a_id a) t)"
    using assms sum_list_swap by (simp add: balance_of_transactions ledger_base_def)
  also have "\<dots> = 0"
    by (rule sum_list_zero, rule net_effects_cancel) (use assms in \<open>auto simp: ledger_base_def ids_ok_def\<close>)
  finally show ?thesis .
qed

section \<open>Preservation\<close>

lemma double_entry_posted:
  assumes "double_entry d" "0 < p_Amount p" "in_int64 (p_Amount p)"
  shows "double_entry (posted_db env p doc1 doc2 d)"
  using assms
  by (simp add: double_entry_def posted_db_def tx_postings_def posting_of_def new_entry_def
      new_transaction_def inserted_transaction_def requested_def)

lemma ids_ok_posted: "ids_ok d \<Longrightarrow> ids_ok (posted_db env p doc1 doc2 d)"
  by (simp add: ids_ok_def posted_db_def new_transaction_def inserted_transaction_def new_entry_def
      new_outbox_row_def ids_below_def sorted_wrt_append) fastforce

lemma account_of_posted [simp]: "account_of (posted_db env p doc1 doc2 d) = account_of d"
  by (simp add: account_of_def posted_db_def fun_eq_iff)

lemma transactions_posted [simp]:
  "transactions (posted_db env p doc1 doc2 d) = transactions d @ [new_transaction env p d]"
  by (simp add: posted_db_def)

lemma keyed_NoneD: "keyed d k = None \<Longrightarrow> k \<notin> t_idempotency_key ` set (transactions d)"
  by (auto simp: keyed_def find_None_iff)

lemma keys_ok_posted: "keys_ok d \<Longrightarrow> posts env p d w \<Longrightarrow> keys_ok (posted_db env p doc1 doc2 d)"
  by (auto simp: keys_ok_def posts_def new_transaction_def inserted_transaction_def requested_def
      dest: keyed_NoneD)

lemma tx_ok_posted:
  "tx_ok (posted_db env p doc1 doc2 d) t = tx_ok d t"
  by (simp add: tx_ok_def)

lemma tx_ok_new:
  assumes "posts env p d w" "p_From p \<noteq> p_To p" "in_int64 (p_Amount p)"
    "p_Type p = TxTypeReversal \<longleftrightarrow> p_ReversalOf p \<noteq> None"
  shows "tx_ok d (new_transaction env p d)"
  using assms
  by (simp add: tx_ok_def posts_def new_transaction_def inserted_transaction_def requested_def
      txStatusCompleted_def)

text \<open>Adding a transaction that is no reversal, or the first reversal of one it can reverse.\<close>

lemma reversal_links_posted:
  assumes links: "reversal_links d" and "posts env p d w"
    and target: "p_ReversalOf p = None \<or>
      (\<exists>t \<in> set (transactions d). reverses (new_transaction env p d) t)"
  shows "reversal_links (posted_db env p doc1 doc2 d)"
proof -
  have rev: "t_reversal_of (new_transaction env p d) = p_ReversalOf p"
    by (simp add: new_transaction_def inserted_transaction_def requested_def)
  have "p_ReversalOf p \<notin> t_reversal_of ` set (transactions d)" if "p_ReversalOf p \<noteq> None"
    using assms(2) that
    by (auto simp: posts_def reversal_taken_def requested_def list_ex_iff image_iff)
  with links target show ?thesis
    by (auto simp: reversal_links_def rev)
qed

lemma ledger_base_posted:
  assumes "ledger_base d" "posts env p d w" "p_From p \<noteq> p_To p" "in_int64 (p_Amount p)"
    "p_Type p = TxTypeReversal \<longleftrightarrow> p_ReversalOf p \<noteq> None"
    "p_ReversalOf p = None \<or> (\<exists>t \<in> set (transactions d). reverses (new_transaction env p d) t)"
  shows "ledger_base (posted_db env p doc1 doc2 d)"
proof -
  have "0 < p_Amount p" using assms(2) by (simp add: posts_def)
  then show ?thesis
    using assms tx_ok_new [OF assms(2-5)]
    by (auto simp: ledger_base_def tx_ok_posted intro: double_entry_posted ids_ok_posted
        keys_ok_posted reversal_links_posted)
qed

text \<open>Only the tables and lower bounds on the sequences matter to the invariant.\<close>

lemma ledger_base_same_tables:
  assumes "ledger_base d" "same_tables d d'" "seq_le d d'"
  shows "ledger_base d'"
proof -
  have "tx_ok d' t = tx_ok d t" for t
    using assms(2) by (simp add: tx_ok_def account_of_same_tables)
  with assms show ?thesis
    by (auto simp: ledger_base_def same_tables_def seq_le_def double_entry_def ids_ok_def keys_ok_def
        reversal_links_def intro: ids_below_mono)
qed

lemma ledger_inv_same_tables:
  "ledger_inv d \<Longrightarrow> same_tables d d' \<Longrightarrow> seq_le d d' \<Longrightarrow> ledger_inv d'"
  by (auto simp: ledger_inv_def reversal_marks_def same_tables_def
      intro: ledger_base_same_tables [of d d', unfolded same_tables_def])

text \<open>Marking a transaction changes no posting, reference or link.\<close>

definition marked :: "int64 \<Rightarrow> db \<Rightarrow> db" where
  "marked i d = d\<lparr>transactions := map (set_status i txStatusReversed) (transactions d)\<rparr>"

lemma set_status_sel [simp]:
  "t_id (set_status i st t) = t_id t"
  "t_idempotency_key (set_status i st t) = t_idempotency_key t"
  "t_source_id (set_status i st t) = t_source_id t"
  "t_destination_id (set_status i st t) = t_destination_id t"
  "t_amount (set_status i st t) = t_amount t"
  "t_type (set_status i st t) = t_type t"
  "t_reversal_of (set_status i st t) = t_reversal_of t"
  by (simp_all add: set_status_def)

lemma marked_sel [simp]:
  "transactions (marked i d) = map (set_status i txStatusReversed) (transactions d)"
  "ledger_entries (marked i d) = ledger_entries d" "accounts (marked i d) = accounts d"
  "outbox (marked i d) = outbox d" "account_of (marked i d) = account_of d"
  "transactions_seq (marked i d) = transactions_seq d"
  "ledger_entries_seq (marked i d) = ledger_entries_seq d"
  "outbox_seq (marked i d) = outbox_seq d"
  by (simp_all add: marked_def account_of_def fun_eq_iff)

lemma tx_ok_marked: "tx_ok d t \<Longrightarrow> tx_ok (marked i d) (set_status i txStatusReversed t)"
  by (simp add: tx_ok_def) (simp add: set_status_def)

lemma tx_postings_set_status [simp]: "tx_postings (set_status i st t) = tx_postings t"
  by (simp add: tx_postings_def)

lemma reverses_set_status [simp]:
  "reverses (set_status i st r) (set_status j st' t) = reverses r t"
  by (simp add: reverses_def)

lemma ledger_base_marked: "ledger_base d \<Longrightarrow> ledger_base (marked i d)"
  by (auto simp: ledger_base_def double_entry_def ids_ok_def keys_ok_def reversal_links_def
      comp_def intro: tx_ok_marked)

text \<open>
  The marks hold again once the target of the newest reversal is marked.
\<close>

lemma reversal_marks_marked:
  assumes "\<And>r t. r \<in> set (transactions d) \<Longrightarrow> t \<in> set (transactions d) \<Longrightarrow>
      t_reversal_of r = Some (t_id t) \<Longrightarrow> t_id t \<noteq> i \<Longrightarrow> t_status t = txStatusReversed"
    and "\<And>t. t \<in> set (transactions d) \<Longrightarrow> tx_ok d t"
  shows "reversal_marks (marked i d)"
  unfolding reversal_marks_def
proof (intro ballI impI)
  fix r t
  assume "r \<in> set (transactions (marked i d))" "t \<in> set (transactions (marked i d))"
    and rev: "t_reversal_of r = Some (t_id t)"
  then obtain r0 t0 where 0: "r0 \<in> set (transactions d)" "t0 \<in> set (transactions d)"
    and r: "r = set_status i txStatusReversed r0" and t: "t = set_status i txStatusReversed t0"
    by auto
  show "t_status t = txStatusReversed"
  proof (cases "t_id t0 = i")
    case True
    with assms(2) [OF 0(2)] t show ?thesis
      by (auto simp: tx_ok_def set_status_def txStatusCompleted_def txStatusReversed_def)
  next
    case False
    with assms(1) [OF 0] rev r t have "t_status t0 = txStatusReversed" by simp
    with t show ?thesis by (simp add: set_status_def)
  qed
qed

end
