(* ===== verification/Operations.thy ===== *)
theory Operations
  imports Ledger
begin

text \<open>
  The four money operations as one family of requests: what a committed request has done, and that
  every request keeps the ledger's invariant whatever its environment did.
\<close>

datatype request =
    Transfer_req int64 int64 int64 string
  | Deposit_req int64 int64 string string
  | Withdraw_req int64 int64 string string
  | Reverse_req int64 string

fun serve :: "env \<Rightarrow> request \<Rightarrow> db \<Rightarrow> outcome" where
  "serve env (Transfer_req from to amount key) d = Transfer env from to amount key d"
| "serve env (Deposit_req dest amount source key) d = Deposit env dest amount source key d"
| "serve env (Withdraw_req source amount dest key) d = Withdraw env source amount dest key d"
| "serve env (Reverse_req txid key) d = Reverse env txid key d"

text \<open>The amounts of a request are Go \<^verbatim>\<open>int64\<close> values.\<close>

fun typed :: "request \<Rightarrow> bool" where
  "typed (Transfer_req from to amount key) = in_int64 amount"
| "typed (Deposit_req dest amount source key) = in_int64 amount"
| "typed (Withdraw_req source amount dest key) = in_int64 amount"
| "typed (Reverse_req txid key) = True"

section \<open>Sequences\<close>

lemma seq_mono_not_found_as [query_mono]: "seq_mono (not_found_as e err)"
  unfolding not_found_as_def by (intro query_mono)

lemma seq_mono_lock_account [query_mono]: "seq_mono (lock_account (queries env) i from)"
  unfolding lock_account_queries by (intro query_mono)

lemma seq_mono_replay [query_mono]: "seq_mono (replay (queries env) p)"
  unfolding replay_queries by (intro query_mono)

lemma seq_mono_write_entries [query_mono]: "seq_mono (write_entries (queries env) p sa da c)"
  unfolding write_entries_queries Let_def by (intro query_mono)

lemma seq_mono_post_entries [query_mono]: "seq_mono (post_entries (queries env) p sa da c)"
  unfolding post_entries_queries by (intro query_mono)

lemma seq_mono_post_or_replay [query_mono]: "seq_mono (post_or_replay (queries env) p sa da)"
proof (rule seq_monoI)
  fix s r s'
  assume run: "post_or_replay (queries env) p sa da s = (r, s')"
  obtain c s1 where ct: "CreateTransaction env (requested p) s = (c, s1)" by fastforce
  have 1: "seq_le (s_db s) (s_db s1)" using seq_mono_CreateTransaction ct by (rule seq_monoD)
  have 2: "seq_le (s_db s1) (s_db s')"
  proof (cases c)
    case (Inl err)
    with run ct show ?thesis
      by (auto simp: post_or_replay_queries split: if_splits intro: seq_monoD [OF seq_mono_replay])
  next
    case (Inr created)
    with run ct show ?thesis
      by (auto simp: post_or_replay_queries intro: seq_monoD [OF seq_mono_post_entries])
  qed
  from 1 2 show "seq_le (s_db s) (s_db s')" by (rule seq_le_trans)
qed

lemma seq_mono_transfer [query_mono]: "seq_mono (transfer (queries env) p)"
  unfolding transfer_queries Let_def by (intro query_mono) (auto split: prod.split intro!: query_mono)

lemma seq_mono_transfer_closure [query_mono]: "seq_mono (transfer_closure (queries env) f t a k)"
  unfolding transfer_closure_queries by (intro query_mono)

lemma seq_mono_deposit_closure [query_mono]: "seq_mono (deposit_closure (queries env) i a src k)"
  unfolding deposit_closure_queries by (intro query_mono)

lemma seq_mono_withdraw_closure [query_mono]: "seq_mono (withdraw_closure (queries env) i a dst k)"
  unfolding withdraw_closure_queries by (intro query_mono)

lemma seq_mono_reversible [query_mono]: "seq_mono (reversible (queries env) i)"
  unfolding reversible_queries by (intro query_mono)

lemma reverse_closure_seq:
  assumes "reverse_closure (queries env) i k s = (r, s')"
  shows "seq_le (s_db s) (s_db s')"
proof -
  let ?m = "bindQ (reversible (queries env) i) (\<lambda>tx. transfer (queries env) (reversal_params tx k))"
  have m: "seq_mono ?m" by (intro query_mono)
  obtain c s1 where run: "?m s = (c, s1)" by fastforce
  then have 1: "seq_le (s_db s) (s_db s1)" by (rule seq_monoD [OF m])
  have "seq_le (s_db s1) (s_db s')"
    using assms run
    by (auto simp: reverse_closure_queries split: sum.splits prod.splits
        intro: seq_monoD [OF seq_mono_UpdateTransactionStatus])
  with 1 show ?thesis by (rule seq_le_trans)
qed

section \<open>Committed operations\<close>

lemma transfer_closure_InrE:
  assumes "transfer_closure (queries env) from to amount key s = (Inr r, s')"
  obtains a b s1 where "account_of (s_db s) from = Some a" "account_of (s_db s) to = Some b"
    "a_type a = accountTypeUser" "a_type b = accountTypeUser" "s_db s1 = s_db s"
    "transfer (queries env) \<lparr>p_From = from, p_To = to, p_Amount = amount, p_Type = TxTypeTransfer,
       p_IdempotencyKey = key, p_ReversalOf = None\<rparr> s1 = (Inr r, s')"
proof -
  obtain fa s1 ta s2 where
    "GetAccount env from s = (Inr fa, s1)" "GetAccount env to s1 = (Inr ta, s2)" and
    rest: "(if acc_Type fa \<noteq> accountTypeUser \<or> acc_Type ta \<noteq> accountTypeUser
      then throw (ServiceError ErrSystemAccountNotAllowed)
      else transfer (queries env) \<lparr>p_From = from, p_To = to, p_Amount = amount, p_Type = TxTypeTransfer,
        p_IdempotencyKey = key, p_ReversalOf = None\<rparr>) s2 = (Inr r, s')"
    using assms unfolding transfer_closure_queries
    by (elim bindQ_InrE onErr_not_found_InrE) blast
  then obtain a b where "account_of (s_db s) from = Some a" "fa = scan_account a"
    "account_of (s_db s) to = Some b" "ta = scan_account b" "s_db s2 = s_db s"
    by (metis GetAccount_InrE)
  with rest that [of a b s2] show thesis by (auto simp: throw_def scan_account_def split: if_splits)
qed

lemma deposit_closure_InrE:
  assumes "deposit_closure (queries env) dest amount source key s = (Inr r, s')"
  obtains a y s1 where "account_of (s_db s) dest = Some a" "a_type a = accountTypeUser"
    "y \<in> set (accounts (s_db s))" "a_code y = Some (source @ ''_IN_'' @ a_currency a)"
    "a_type y = accountTypeSystem" "a_id y \<noteq> dest" "s_db s1 = s_db s"
    "transfer (queries env) \<lparr>p_From = a_id y, p_To = dest, p_Amount = amount, p_Type = TxTypeDeposit,
       p_IdempotencyKey = key, p_ReversalOf = None\<rparr> s1 = (Inr r, s')"
proof -
  obtain da s1 where da: "GetAccount env dest s = (Inr da, s1)" and
    rest: "(if acc_Type da \<noteq> accountTypeUser then throw (ServiceError ErrInvalidDepositDestination)
     else
     bindQ (onErr (GetSystemAccountByCode env (source @ ''_IN_'' @ acc_Currency da))
              (not_found_as ErrSystemAccountNotFound)) (\<lambda>y.
     if acc_Type y \<noteq> accountTypeSystem then throw (ServiceError ErrSystemAccountNotFound)
     else if acc_ID da = acc_ID y then throw (ServiceError ErrSameAccount)
     else transfer (queries env) \<lparr>p_From = acc_ID y, p_To = dest, p_Amount = amount,
         p_Type = TxTypeDeposit, p_IdempotencyKey = key, p_ReversalOf = None\<rparr>)) s1 = (Inr r, s')"
    using assms unfolding deposit_closure_queries by (elim bindQ_InrE onErr_not_found_InrE)
  from da obtain a where a: "account_of (s_db s) dest = Some a" "da = scan_account a" "s_db s1 = s_db s"
    by (rule GetAccount_InrE)
  from rest obtain ya s2 where user: "acc_Type da = accountTypeUser" and
    ya: "GetSystemAccountByCode env (source @ ''_IN_'' @ acc_Currency da) s1 = (Inr ya, s2)" and
    rest2: "(if acc_Type ya \<noteq> accountTypeSystem then throw (ServiceError ErrSystemAccountNotFound)
     else if acc_ID da = acc_ID ya then throw (ServiceError ErrSameAccount)
     else transfer (queries env) \<lparr>p_From = acc_ID ya, p_To = dest, p_Amount = amount,
         p_Type = TxTypeDeposit, p_IdempotencyKey = key, p_ReversalOf = None\<rparr>) s2 = (Inr r, s')"
    by (auto simp: throw_def split: if_splits elim!: bindQ_InrE onErr_not_found_InrE)
  from ya obtain y where "y \<in> set (accounts (s_db s))" "ya = scan_account y" "s_db s2 = s_db s"
    "a_code y = Some (source @ ''_IN_'' @ a_currency a)"
    using a by (auto simp: scan_account_def elim!: GetSystemAccountByCode_InrE)
  with rest2 user a that [of a y s2] show thesis
    by (auto simp: throw_def scan_account_def dest: account_of_SomeD split: if_splits)
qed

lemma withdraw_closure_InrE:
  assumes "withdraw_closure (queries env) source amount dest key s = (Inr r, s')"
  obtains a y s1 where "account_of (s_db s) source = Some a" "a_type a = accountTypeUser"
    "y \<in> set (accounts (s_db s))" "a_code y = Some (dest @ ''_OUT_'' @ a_currency a)"
    "a_type y = accountTypeSystem" "a_id y \<noteq> source" "s_db s1 = s_db s"
    "transfer (queries env) \<lparr>p_From = source, p_To = a_id y, p_Amount = amount, p_Type = TxTypeWithdrawal,
       p_IdempotencyKey = key, p_ReversalOf = None\<rparr> s1 = (Inr r, s')"
proof -
  obtain da s1 where da: "GetAccount env source s = (Inr da, s1)" and
    rest: "(if acc_Type da \<noteq> accountTypeUser then throw (ServiceError ErrInvalidWithdrawSource)
     else
     bindQ (onErr (GetSystemAccountByCode env (dest @ ''_OUT_'' @ acc_Currency da))
              (not_found_as ErrSystemAccountNotFound)) (\<lambda>y.
     if acc_Type y \<noteq> accountTypeSystem then throw (ServiceError ErrSystemAccountNotFound)
     else if acc_ID da = acc_ID y then throw (ServiceError ErrSameAccount)
     else transfer (queries env) \<lparr>p_From = source, p_To = acc_ID y, p_Amount = amount,
         p_Type = TxTypeWithdrawal, p_IdempotencyKey = key, p_ReversalOf = None\<rparr>)) s1 = (Inr r, s')"
    using assms unfolding withdraw_closure_queries by (elim bindQ_InrE onErr_not_found_InrE)
  from da obtain a where a: "account_of (s_db s) source = Some a" "da = scan_account a" "s_db s1 = s_db s"
    by (rule GetAccount_InrE)
  from rest obtain ya s2 where user: "acc_Type da = accountTypeUser" and
    ya: "GetSystemAccountByCode env (dest @ ''_OUT_'' @ acc_Currency da) s1 = (Inr ya, s2)" and
    rest2: "(if acc_Type ya \<noteq> accountTypeSystem then throw (ServiceError ErrSystemAccountNotFound)
     else if acc_ID da = acc_ID ya then throw (ServiceError ErrSameAccount)
     else transfer (queries env) \<lparr>p_From = source, p_To = acc_ID ya, p_Amount = amount,
         p_Type = TxTypeWithdrawal, p_IdempotencyKey = key, p_ReversalOf = None\<rparr>) s2 = (Inr r, s')"
    by (auto simp: throw_def split: if_splits elim!: bindQ_InrE onErr_not_found_InrE)
  from ya obtain y where "y \<in> set (accounts (s_db s))" "ya = scan_account y" "s_db s2 = s_db s"
    "a_code y = Some (dest @ ''_OUT_'' @ a_currency a)"
    using a by (auto simp: scan_account_def elim!: GetSystemAccountByCode_InrE)
  with rest2 user a that [of a y s2] show thesis
    by (auto simp: throw_def scan_account_def dest: account_of_SomeD split: if_splits)
qed

lemma reversible_InrE:
  assumes "reversible (queries env) i s = (Inr tx, s')"
  obtains t where "transaction_of (s_db s) i = Some t" "tx = scan_transaction t"
    "t_status t = txStatusCompleted" "t_type t \<noteq> TxTypeReversal" "s_db s' = s_db s"
proof -
  obtain tx' s1 where "GetTransactionByID env i s = (Inr tx', s1)" and
    rest: "(if tx_Status tx' \<noteq> txStatusCompleted then throw (ServiceError ErrReverseIncompletedTx)
     else if tx_Type tx' = TxTypeReversal then throw (ServiceError ErrReverseReversalTx)
     else ret tx') s1 = (Inr tx, s')"
    using assms unfolding reversible_queries by (elim bindQ_InrE onErr_not_found_InrE)
  then obtain t where "transaction_of (s_db s) i = Some t" "tx' = scan_transaction t" "s_db s1 = s_db s"
    by (auto elim: GetTransactionByID_InrE)
  with rest that [of t] show thesis
    by (auto simp: throw_def ret_def scan_transaction_def split: if_splits)
qed

text \<open>A committed reversal ran the core on the swapped accounts and marked its target.\<close>

lemma reverse_closure_NoneE:
  assumes "reverse_closure (queries env) i key s = ((res, None), s')"
  obtains t s1 s2 r where "transaction_of (s_db s) i = Some t" "t_status t = txStatusCompleted"
    "t_type t \<noteq> TxTypeReversal" "s_db s1 = s_db s"
    "transfer (queries env) (reversal_params (scan_transaction t) key) s1 = (Inr r, s2)"
    "res = Some r" "s_db s' = marked i (s_db s2)"
proof -
  obtain r s2 u where
    run: "bindQ (reversible (queries env) i) (\<lambda>tx. transfer (queries env) (reversal_params tx key)) s = (Inr r, s2)"
    and upd: "UpdateTransactionStatus env i txStatusReversed s2 = (Inr u, s')" and "res = Some r"
    using assms by (auto simp: reverse_closure_queries split: sum.splits prod.splits)
  from run obtain tx s1 where rv: "reversible (queries env) i s = (Inr tx, s1)"
    and tr: "transfer (queries env) (reversal_params tx key) s1 = (Inr r, s2)" by (rule bindQ_InrE)
  from upd have "s_db s' = marked i (s_db s2)"
    unfolding marked_def by (rule UpdateTransactionStatus_InrE)
  with rv tr \<open>res = Some r\<close> show thesis
    by (auto elim!: reversible_InrE intro: that)
qed

section \<open>The outcomes of a request\<close>

text \<open>The transfer a request stands for in a database that admits it.\<close>

fun stands_for :: "request \<Rightarrow> db \<Rightarrow> transfer_params \<Rightarrow> bool" where
  "stands_for (Transfer_req from to amount key) d p \<longleftrightarrow>
     0 < amount \<and> from \<noteq> to \<and>
     map_option a_type (account_of d from) = Some accountTypeUser \<and>
     map_option a_type (account_of d to) = Some accountTypeUser \<and>
     p = \<lparr>p_From = from, p_To = to, p_Amount = amount, p_Type = TxTypeTransfer,
          p_IdempotencyKey = key, p_ReversalOf = None\<rparr>"
| "stands_for (Deposit_req dest amount source key) d p \<longleftrightarrow>
     0 < amount \<and> map_option a_type (account_of d dest) = Some accountTypeUser \<and>
     p_From p \<noteq> dest \<and>
     (\<exists>y \<in> set (accounts d). a_type y = accountTypeSystem \<and> a_id y = p_From p \<and>
        a_code y = map_option (\<lambda>a. source @ ''_IN_'' @ a_currency a) (account_of d dest)) \<and>
     p = \<lparr>p_From = p_From p, p_To = dest, p_Amount = amount, p_Type = TxTypeDeposit,
          p_IdempotencyKey = key, p_ReversalOf = None\<rparr>"
| "stands_for (Withdraw_req source amount dest key) d p \<longleftrightarrow>
     0 < amount \<and> map_option a_type (account_of d source) = Some accountTypeUser \<and>
     p_To p \<noteq> source \<and>
     (\<exists>y \<in> set (accounts d). a_type y = accountTypeSystem \<and> a_id y = p_To p \<and>
        a_code y = map_option (\<lambda>a. dest @ ''_OUT_'' @ a_currency a) (account_of d source)) \<and>
     p = \<lparr>p_From = source, p_To = p_To p, p_Amount = amount, p_Type = TxTypeWithdrawal,
          p_IdempotencyKey = key, p_ReversalOf = None\<rparr>"
| "stands_for (Reverse_req txid key) d p \<longleftrightarrow>
     (\<exists>t. transaction_of d txid = Some t \<and> t_status t = txStatusCompleted \<and>
        t_type t \<noteq> TxTypeReversal \<and> p = reversal_params (scan_transaction t) key)"

text \<open>What a request does besides the transfer it stands for.\<close>

fun finish :: "request \<Rightarrow> db \<Rightarrow> db" where
  "finish (Reverse_req txid key) d = marked txid d"
| "finish (Transfer_req from to amount key) d = d"
| "finish (Deposit_req dest amount source key) d = d"
| "finish (Withdraw_req source amount dest key) d = d"

definition reported :: "go_error option \<Rightarrow> bool" where
  "reported err \<longleftrightarrow> err = None \<or> (\<exists>msg. err = Some (DriverError msg))"

text \<open>
  A request left the tables alone and failed, replayed an earlier transaction, or posted the
  transfer it stands for; the last two may still be reported as a failed commit.
\<close>

definition unchanged :: "db \<Rightarrow> outcome \<Rightarrow> bool" where
  "unchanged d out \<longleftrightarrow>
     same_tables d (snd out) \<and> seq_le d (snd out) \<and> snd (fst out) \<noteq> None"

definition did_replay :: "request \<Rightarrow> db \<Rightarrow> outcome \<Rightarrow> transfer_params \<Rightarrow> transaction_row \<Rightarrow> bool" where
  "did_replay req d out p t \<longleftrightarrow>
     stands_for req d p \<and> replays p d t \<and> fst (fst out) = Some (replayed_result t) \<and>
     reported (snd (fst out)) \<and>
     (\<exists>d1. same_tables d d1 \<and> seq_le d d1 \<and> snd out = finish req d1)"

definition did_post :: "env \<Rightarrow> request \<Rightarrow> db \<Rightarrow> outcome \<Rightarrow> transfer_params \<Rightarrow> posting \<Rightarrow> bool" where
  "did_post env req d out p w \<longleftrightarrow>
     stands_for req d p \<and> posts env p d w \<and>
     fst (fst out) = Some (newResult (created_transaction env p d)) \<and> reported (snd (fst out)) \<and>
     snd out = finish req (posted_db env p (credit_doc w) (debit_doc w) d)"

lemma capture_outcome:
  assumes run: "WithTx env (capture m) d = out" and m: "seq_mono m"
    and inr: "\<And>r s'. m (fresh_session d) = (Inr r, s') \<Longrightarrow>
       \<exists>p s1. s_db s1 = d \<and> transfer (queries env) p s1 = (Inr r, s') \<and> stands_for req d p"
    and fin: "finish req = (\<lambda>d. d)"
  shows "unchanged d out \<or> (\<exists>p t. did_replay req d out p t) \<or> (\<exists>p w. did_post env req d out p w)"
proof -
  obtain res err d' where out: "out = ((res, err), d')" by (metis prod.collapse)
  from run [unfolded out] show ?thesis
  proof (cases rule: WithTx_cases)
    case (rolled_back s)
    then show ?thesis by (simp add: unchanged_def out)
  next
    case (committed s)
    from capture_NoneD [OF committed(1)] obtain r where r: "res = Some r" "m (fresh_session d) = (Inr r, s)"
      by blast
    with inr obtain p s1 where s1: "s_db s1 = d" "transfer (queries env) p s1 = (Inr r, s)" and st: "stands_for req d p"
      by blast
    have le: "seq_le d d'"
      using seq_monoD [OF seq_mono_transfer s1(2)] s1(1) committed(2) by simp
    from s1(2) show ?thesis
    proof (cases rule: transfer_InrE)
      case (replayed t)
      then have "did_replay req d out p t"
        using st committed r le s1(1) by (auto simp: did_replay_def out reported_def fin)
      then show ?thesis by blast
    next
      case (posted w)
      then have "did_post env req d out p w"
        using st committed r s1(1) by (auto simp: did_post_def out reported_def fin)
      then show ?thesis by blast
    qed
  next
      case (sequences r s)
    then show ?case using capture_seq [OF m, of "fresh_session d" r s] by (simp add: fresh_session_def)
  qed
qed

lemma reverse_outcome:
  assumes run: "Reverse env txid key d = out"
  shows "unchanged d out \<or> (\<exists>p t. did_replay (Reverse_req txid key) d out p t) \<or>
    (\<exists>p w. did_post env (Reverse_req txid key) d out p w)"
proof -
  obtain res err d' where out: "out = ((res, err), d')" by (metis prod.collapse)
  from run [unfolded out Reverse_def] show ?thesis
  proof (cases rule: WithTx_cases)
    case (rolled_back s)
    then show ?thesis by (simp add: unchanged_def out)
  next
    case (committed s)
    from committed(1) obtain t s1 s2 r where r: "transaction_of d txid = Some t"
      "t_status t = txStatusCompleted" "t_type t \<noteq> TxTypeReversal" "s_db s1 = d"
      "transfer (queries env) (reversal_params (scan_transaction t) key) s1 = (Inr r, s2)"
      "res = Some r" "s_db s = marked txid (s_db s2)"
      by (rule reverse_closure_NoneE) (simp_all add: fresh_session_def)
    have le: "seq_le d (s_db s2)" using seq_monoD [OF seq_mono_transfer r(5)] r(4) by simp
    let ?p = "reversal_params (scan_transaction t) key"
    have st: "stands_for (Reverse_req txid key) d ?p" using r(1-3) by simp
    from r(5) show ?thesis
    proof (cases rule: transfer_InrE)
      case (replayed t')
      then have "did_replay (Reverse_req txid key) d out ?p t'"
        using st committed(2,3) r(4,6,7) le by (auto simp: did_replay_def out reported_def)
      then show ?thesis by blast
    next
      case (posted w)
      then have "did_post env (Reverse_req txid key) d out ?p w"
        using st committed(2,3) r(4,6,7) by (auto simp: did_post_def out reported_def)
      then show ?thesis by blast
    qed
  next
    case (sequences r s)
    then show ?case using reverse_closure_seq [of env txid key "fresh_session d" r s] by (simp add: fresh_session_def)
  qed
qed

lemma serve_outcome:
  assumes "serve env req d = out"
  shows "unchanged d out \<or> (\<exists>p t. did_replay req d out p t) \<or> (\<exists>p w. did_post env req d out p w)"
proof (cases req)
  case (Transfer_req a b amount key)
  show ?thesis
  proof (cases "amount \<le> 0 \<or> a = b")
    case True
    with assms Transfer_req show ?thesis by (auto simp: Transfer_def unchanged_def)
  next
    case False
    with assms Transfer_req
    have run: "WithTx env (capture (transfer_closure (queries env) a b amount key)) d = out"
      by (simp add: Transfer_def)
    show ?thesis
      by (rule capture_outcome [OF run seq_mono_transfer_closure])
        (use False Transfer_req in \<open>auto simp: fresh_session_def elim!: transfer_closure_InrE\<close>)
  qed
next
  case (Deposit_req dest amount source key)
  show ?thesis
  proof (cases "amount \<le> 0")
    case True
    with assms Deposit_req show ?thesis by (auto simp: Deposit_def unchanged_def)
  next
    case False
    with assms Deposit_req
    have run: "WithTx env (capture (deposit_closure (queries env) dest amount source key)) d = out"
      by (simp add: Deposit_def)
    show ?thesis
      by (rule capture_outcome [OF run seq_mono_deposit_closure])
        (use False Deposit_req in \<open>fastforce simp: fresh_session_def elim!: deposit_closure_InrE\<close>)+
  qed
next
  case (Withdraw_req source amount dest key)
  show ?thesis
  proof (cases "amount \<le> 0")
    case True
    with assms Withdraw_req show ?thesis by (auto simp: Withdraw_def unchanged_def)
  next
    case False
    with assms Withdraw_req
    have run: "WithTx env (capture (withdraw_closure (queries env) source amount dest key)) d = out"
      by (simp add: Withdraw_def)
    show ?thesis
      by (rule capture_outcome [OF run seq_mono_withdraw_closure])
        (use False Withdraw_req in \<open>fastforce simp: fresh_session_def elim!: withdraw_closure_InrE\<close>)+
  qed
next
  case (Reverse_req txid key)
  show ?thesis
    unfolding Reverse_req by (rule reverse_outcome [of env]) (use assms Reverse_req in simp)
qed

text \<open>The same as an elimination rule.\<close>

lemma serve_cases [consumes 1, case_names unchanged replayed posted]:
  assumes "serve env req d = ((res, err), d')"
    and "same_tables d d' \<Longrightarrow> seq_le d d' \<Longrightarrow> err \<noteq> None \<Longrightarrow> P"
    and "\<And>p t d1. stands_for req d p \<Longrightarrow> replays p d t \<Longrightarrow> same_tables d d1 \<Longrightarrow> seq_le d d1 \<Longrightarrow>
      d' = finish req d1 \<Longrightarrow> res = Some (replayed_result t) \<Longrightarrow> reported err \<Longrightarrow> P"
    and "\<And>p w. stands_for req d p \<Longrightarrow> posts env p d w \<Longrightarrow>
      d' = finish req (posted_db env p (credit_doc w) (debit_doc w) d) \<Longrightarrow>
      res = Some (newResult (created_transaction env p d)) \<Longrightarrow> reported err \<Longrightarrow> P"
  shows P
  using serve_outcome [OF assms(1)] assms(2-)
  by (auto simp: unchanged_def did_replay_def did_post_def)

section \<open>The invariant is kept\<close>

text \<open>Every transfer a request stands for satisfies what the invariant asks of a new transaction.\<close>

lemma new_transaction_sel [simp]:
  "t_id (new_transaction env p d) = transactions_seq d + 1"
  "t_source_id (new_transaction env p d) = p_From p"
  "t_destination_id (new_transaction env p d) = p_To p"
  "t_amount (new_transaction env p d) = p_Amount p"
  "t_type (new_transaction env p d) = p_Type p"
  "t_reversal_of (new_transaction env p d) = p_ReversalOf p"
  "t_idempotency_key (new_transaction env p d) = p_IdempotencyKey p"
  "t_status (new_transaction env p d) = txStatusCompleted"
  "t_created_at (new_transaction env p d) = tx_now env"
  by (simp_all add: new_transaction_def inserted_transaction_def requested_def txStatusCompleted_def)

lemmas tx_type_defs = TxTypeTransfer_def TxTypeDeposit_def TxTypeWithdrawal_def TxTypeReversal_def

definition well_formed :: "db \<Rightarrow> transfer_params \<Rightarrow> bool" where
  "well_formed d p \<longleftrightarrow>
     p_From p \<noteq> p_To p \<and> in_int64 (p_Amount p) \<and>
     (p_Type p = TxTypeReversal \<longleftrightarrow> p_ReversalOf p \<noteq> None) \<and>
     (p_ReversalOf p = None \<or>
       (\<exists>t \<in> set (transactions d). \<forall>env. reverses (new_transaction env p d) t))"

lemma stands_for_well_formed_ok:
  assumes ok: "\<forall>t \<in> set (transactions d). tx_ok d t" and ty: "typed req" and st: "stands_for req d p"
  shows "well_formed d p"
proof (cases req)
  case (Transfer_req a b amount key)
  with ty st show ?thesis by (auto simp: well_formed_def tx_type_defs)
next
  case (Deposit_req a b amount key)
  with ty st show ?thesis by (cases p) (auto simp: well_formed_def tx_type_defs)
next
  case (Withdraw_req a b amount key)
  with ty st show ?thesis by (cases p) (auto simp: well_formed_def tx_type_defs)
next
  case (Reverse_req txid key)
  with st obtain t where t: "transaction_of d txid = Some t" "t_type t \<noteq> TxTypeReversal"
    and p: "p = reversal_params (scan_transaction t) key" by auto
  then have mem: "t \<in> set (transactions d)" by (auto dest: transaction_of_SomeD)
  with ok have "tx_ok d t" by blast
  with t p mem show ?thesis
    by (auto simp: well_formed_def reversal_params_def scan_transaction_def tx_ok_def reverses_def)
qed

lemma stands_for_well_formed:
  assumes "ledger_base d" "typed req" "stands_for req d p"
  shows "well_formed d p"
  using assms by (intro stands_for_well_formed_ok [of d req]) (simp_all add: ledger_base_def)

lemma ledger_base_finish: "ledger_base d \<Longrightarrow> ledger_base (finish req d)"
  by (cases req) (simp_all add: ledger_base_marked)

lemma reversal_marks_finish:
  assumes marks: "\<And>r t. r \<in> set (transactions d) \<Longrightarrow> t \<in> set (transactions d) \<Longrightarrow>
      t_reversal_of r = Some (t_id t) \<Longrightarrow> (\<forall>key. req \<noteq> Reverse_req (t_id t) key) \<Longrightarrow>
      t_status t = txStatusReversed"
    and ok: "\<And>t. t \<in> set (transactions d) \<Longrightarrow> tx_ok d t"
  shows "reversal_marks (finish req d)"
proof (cases req)
  case (Reverse_req txid key)
  have "reversal_marks (marked txid d)"
    using marks ok by (intro reversal_marks_marked) (auto simp: Reverse_req)
  then show ?thesis by (simp add: Reverse_req)
qed (use marks in \<open>auto simp: reversal_marks_def\<close>)

lemma posted_marks:
  assumes inv: "ledger_inv d" and st: "stands_for req d p" and ty: "typed req"
    and r: "r \<in> set (transactions (posted_db env p doc1 doc2 d))"
    and t: "t \<in> set (transactions (posted_db env p doc1 doc2 d))"
    and link: "t_reversal_of r = Some (t_id t)" and other: "\<forall>key. req \<noteq> Reverse_req (t_id t) key"
  shows "t_status t = txStatusReversed"
proof -
  have ids: "\<And>x. x \<in> set (transactions d) \<Longrightarrow> t_id x \<le> transactions_seq d"
    and links: "\<And>x. x \<in> set (transactions d) \<Longrightarrow> t_reversal_of x \<noteq> None \<Longrightarrow>
      \<exists>t \<in> set (transactions d). reverses x t"
    using inv by (auto simp: ledger_inv_def ledger_base_def ids_ok_def ids_below_def reversal_links_def)
  have old: "r \<in> set (transactions d)"
  proof (rule ccontr)
    assume "r \<notin> set (transactions d)"
    with r have r: "r = new_transaction env p d" by simp
    with link have p: "p_ReversalOf p = Some (t_id t)" by simp
    then obtain txid key where req: "req = Reverse_req txid key"
      using st by (cases req; cases p) auto
    with st p have "txid = t_id t"
      by (auto simp: reversal_params_def scan_transaction_def dest: transaction_of_SomeD)
    with other req show False by blast
  qed
  with links link ids have "t_id t \<le> transactions_seq d" by (fastforce simp: reverses_def)
  with t have "t \<in> set (transactions d)" by auto
  with inv old link show ?thesis by (auto simp: ledger_inv_def reversal_marks_def)
qed

lemma serve_keeps_inv:
  assumes inv: "ledger_inv d" and ty: "typed req" and run: "serve env req d = (out, d')"
  shows "ledger_inv d'"
proof -
  obtain res err where out: "out = (res, err)" by fastforce
  from run [unfolded out] show ?thesis
  proof (cases rule: serve_cases)
    case unchanged
    with inv show ?thesis by (blast intro: ledger_inv_same_tables)
  next
    case (replayed p t d1)
    then have inv1: "ledger_inv d1" using inv by (blast intro: ledger_inv_same_tables)
    then have "reversal_marks (finish req d1)"
      by (intro reversal_marks_finish) (auto simp: ledger_inv_def reversal_marks_def ledger_base_def)
    with inv1 replayed show ?thesis by (simp add: ledger_inv_def ledger_base_finish)
  next
    case (posted p w)
    let ?d = "posted_db env p (credit_doc w) (debit_doc w) d"
    have "well_formed d p"
      using inv ty posted(1) by (intro stands_for_well_formed) (auto simp: ledger_inv_def)
    then have base: "ledger_base ?d"
      using inv posted(2) by (intro ledger_base_posted) (auto simp: ledger_inv_def well_formed_def)
    have "reversal_marks (finish req ?d)"
    proof (rule reversal_marks_finish)
      show "tx_ok ?d t" if "t \<in> set (transactions ?d)" for t
        using base that by (auto simp: ledger_base_def)
    qed (rule posted_marks [OF inv posted(1) ty])
    with base posted show ?thesis by (simp add: ledger_inv_def ledger_base_finish)
  qed
qed

end
