(* ===== verification/Decision.thy ===== *)
theory Decision
  imports Operations
begin

text \<open>
  What an operation answers when nothing fails underneath it: a decision table over the tables it
  reads, and the proof that the code carries the decision out, error by error, in the code's order
  of checks.
\<close>

section \<open>Runs that cannot fail\<close>

text \<open>From every session on the database \<open>d\<close> the query returns \<open>r\<close> and leaves \<open>d'\<close>.\<close>

definition gives :: "'a query \<Rightarrow> db \<Rightarrow> 'a result \<Rightarrow> db \<Rightarrow> bool" where
  "gives m d r d' \<longleftrightarrow> (\<forall>s. s_db s = d \<longrightarrow> (\<exists>s'. m s = (r, s') \<and> s_db s' = d'))"

named_theorems gives_rules \<open>queries on a healthy connection\<close>

lemma gives_ret [gives_rules]: "gives (ret a) d (Inr a) d"
  by (simp add: gives_def ret_def)

lemma gives_throw [gives_rules]: "gives (throw e) d (Inl e) d"
  by (simp add: gives_def throw_def)

lemma gives_acquire [gives_rules]: "gives (acquire r) d (Inr ()) d"
  by (simp add: gives_def acquire_def)

lemma gives_bind: "gives m d (Inr a) d1 \<Longrightarrow> gives (f a) d1 r d2 \<Longrightarrow> gives (bindQ m f) d r d2"
  by (auto simp: gives_def bindQ_def)

lemma gives_bind_error: "gives m d (Inl e) d1 \<Longrightarrow> gives (bindQ m f) d (Inl e) d1"
  by (auto simp: gives_def bindQ_def)

lemma gives_onErr: "gives m d (Inr a) d1 \<Longrightarrow> gives (onErr m h) d (Inr a) d1"
  by (auto simp: gives_def onErr_def)

lemma gives_onErr_error: "gives m d (Inl e) d1 \<Longrightarrow> gives (h e) d1 r d2 \<Longrightarrow> gives (onErr m h) d r d2"
  by (auto simp: gives_def onErr_def)

lemma gives_exec_sql: "healthy env \<Longrightarrow> f d = (r, d') \<Longrightarrow> gives (exec_sql env f) d r d'"
  by (simp add: gives_def exec_sql_healthy)

lemma gives_read_sql: "healthy env \<Longrightarrow> f d = r \<Longrightarrow> gives (read_sql env f) d r d"
  by (simp add: gives_def read_sql_healthy)

lemma gives_if: "(b \<Longrightarrow> gives m d r d') \<Longrightarrow> (\<not> b \<Longrightarrow> gives m' d r d') \<Longrightarrow> gives (if b then m else m') d r d'"
  by simp

text \<open>A query's run inside \<^verbatim>\<open>WithTx\<close>.\<close>

lemma gives_WithTx:
  assumes "healthy env" "gives m d r d'"
  shows "WithTx env (capture m) d =
    (case r of Inr a \<Rightarrow> ((Some a, None), d') | Inl e \<Rightarrow> ((None, Some e), restore d d'))"
proof -
  have "s_db (fresh_session d) = d" by (simp add: fresh_session_def)
  with assms(2) obtain s' where run: "m (fresh_session d) = (r, s')" and db: "s_db s' = d'"
    unfolding gives_def by blast
  show ?thesis
  proof (cases r)
    case (Inl e)
    with run have "capture m (fresh_session d) = ((None, Some e), s')" by (simp add: capture_def)
    with assms(1) Inl db show ?thesis by (simp add: WithTx_healthy)
  next
    case (Inr a)
    with run have "capture m (fresh_session d) = ((Some a, None), s')" by (simp add: capture_def)
    with assms(1) Inr db show ?thesis by (simp add: WithTx_healthy)
  qed
qed

section \<open>The statements\<close>

lemma scan_account_sel [simp]:
  "acc_ID (scan_account a) = a_id a" "acc_Type (scan_account a) = a_type a"
  "acc_Currency (scan_account a) = a_currency a"
  by (simp_all add: scan_account_def)

lemma scan_transaction_sel [simp]:
  "tx_ID (scan_transaction t) = t_id t" "tx_Status (scan_transaction t) = t_status t"
  "tx_Type (scan_transaction t) = t_type t" "tx_SourceID (scan_transaction t) = t_source_id t"
  "tx_DestinationID (scan_transaction t) = t_destination_id t"
  "tx_Amount (scan_transaction t) = t_amount t" "tx_ReversalOf (scan_transaction t) = t_reversal_of t"
  "tx_IdempotencyKey (scan_transaction t) = t_idempotency_key t"
  "tx_CreatedAt (scan_transaction t) = t_created_at t"
  by (simp_all add: scan_transaction_def)

definition found :: "('r \<Rightarrow> 'a) \<Rightarrow> 'r option \<Rightarrow> 'a result" where
  "found scan x = (case x of None \<Rightarrow> Inl (StorageError ErrNotFound) | Some r \<Rightarrow> Inr (scan r))"

lemma found_simps [simp]:
  "found scan None = Inl (StorageError ErrNotFound)" "found scan (Some r) = Inr (scan r)"
  by (simp_all add: found_def)

lemma gives_GetAccount:
  "healthy env \<Longrightarrow> gives (GetAccount env i) d (found scan_account (account_of d i)) d"
  unfolding GetAccount_def select_account_def account_of_def found_def by (rule gives_read_sql) simp_all

definition coded :: "db \<Rightarrow> string \<Rightarrow> account_row option" where
  "coded d c = find (\<lambda>a. a_code a = Some c) (accounts d)"

lemma gives_GetSystemAccountByCode:
  "healthy env \<Longrightarrow> gives (GetSystemAccountByCode env c) d (found scan_account (coded d c)) d"
  unfolding GetSystemAccountByCode_def select_account_def found_def coded_def
  by (rule gives_read_sql) simp_all

lemma gives_GetTransaction:
  "healthy env \<Longrightarrow> gives (GetTransaction env k) d (found scan_transaction (keyed d k)) d"
  unfolding GetTransaction_def found_def by (rule gives_read_sql) simp_all

lemma gives_GetAccountBalance:
  "healthy env \<Longrightarrow> in_int64 (balance_of d i) \<Longrightarrow>
   gives (GetAccountBalance env i) d (Inr (balance_of d i)) d"
  unfolding GetAccountBalance_def by (rule gives_read_sql) (simp_all add: Let_def)

lemma gives_locked:
  assumes "gives m d (found scan x) d"
  shows "gives (bindQ m (\<lambda>a. bindQ (acquire r) (\<lambda>_. ret a))) d (found scan x) d"
proof (cases x)
  case None
  with assms show ?thesis by (simp add: gives_bind_error)
next
  case (Some a)
  with assms show ?thesis by (auto intro: gives_bind gives_rules)
qed

lemma gives_GetTransactionByID:
  "healthy env \<Longrightarrow> gives (GetTransactionByID env i) d (found scan_transaction (transaction_of d i)) d"
  unfolding GetTransactionByID_def
  by (rule gives_locked) (simp add: gives_read_sql found_def)

text \<open>A missing record is reported by the caller's name for it.\<close>

lemma gives_not_found_as:
  assumes "gives m d (found scan x) d"
  shows "gives (onErr m (not_found_as e)) d
    (case x of None \<Rightarrow> Inl (ServiceError e) | Some r \<Rightarrow> Inr (scan r)) d"
proof (cases x)
  case None
  with assms show ?thesis
    by (auto intro!: gives_onErr_error simp: not_found_as_def gives_throw)
next
  case (Some r)
  with assms show ?thesis by (auto intro: gives_onErr)
qed

definition missing_account :: "int64 \<Rightarrow> int64 \<Rightarrow> go_error" where
  "missing_account from i =
     ServiceError (if i = from then ErrSourceAccountNotFound else ErrDestinationAccountNotFound)"

lemma gives_lock_account:
  assumes "healthy env"
  shows "gives (lock_account (queries env) i from) d
     (case account_of d i of None \<Rightarrow> Inl (missing_account from i) | Some a \<Rightarrow> Inr (scan_account a)) d"
proof -
  have get: "gives (GetAccountForUpdate env i) d (found scan_account (account_of d i)) d"
    unfolding GetAccountForUpdate_def
    by (rule gives_locked) (rule gives_GetAccount [OF assms, unfolded GetAccount_def])
  show ?thesis
  proof (cases "account_of d i")
    case None
    with get show ?thesis unfolding lock_account_queries missing_account_def
      by (auto intro!: gives_onErr_error gives_throw)
  next
    case (Some a)
    with get show ?thesis unfolding lock_account_queries by (auto intro: gives_onErr)
  qed
qed

section \<open>Verdicts\<close>

text \<open>What the environment and the database must offer for no statement to fail.\<close>

text \<open>PostgreSQL accepts the documents the service writes about the accounts of the database.\<close>

definition takes_documents :: "env \<Rightarrow> db \<Rightarrow> bool" where
  "takes_documents env d \<longleftrightarrow>
     (\<forall>e js. ev_TransactionType e \<in> set transaction_types \<longrightarrow> ev_Currency e \<in> a_currency ` set (accounts d) \<longrightarrow>
        marshal_entry e = Inr js \<longrightarrow> jsonb_text env js \<noteq> None)"

definition ready :: "env \<Rightarrow> db \<Rightarrow> bool" where
  "ready env d \<longleftrightarrow>
     healthy env \<and> takes_documents env d \<and> (\<exists>x. rfc3339 (tx_now env) = Inr x) \<and>
     gen_uuid env (outbox_seq d + 1) \<notin> o_event_id ` set (outbox d) \<and>
     gen_uuid env (outbox_seq d + 2) \<notin> o_event_id ` set (outbox d) \<and>
     gen_uuid env (outbox_seq d + 2) \<noteq> gen_uuid env (outbox_seq d + 1) \<and>
     transactions_seq d + 1 \<le> MaxInt64 \<and> ledger_entries_seq d + 2 \<le> MaxInt64 \<and>
     outbox_seq d + 2 \<le> MaxInt64 \<and> (\<forall>i. in_int64 (balance_of d i)) \<and> ledger_inv d"

lemma readyD:
  assumes "ready env d"
  shows "healthy env" "in_int64 (balance_of d i)" "ledger_inv d" "ids_ok d"
    "transactions_seq d + 1 \<le> MaxInt64" "ledger_entries_seq d + 2 \<le> MaxInt64"
    "outbox_seq d + 2 \<le> MaxInt64"
    "gen_uuid env (outbox_seq d + 1) \<notin> o_event_id ` set (outbox d)"
    "gen_uuid env (outbox_seq d + 2) \<notin> o_event_id ` set (outbox d)"
    "gen_uuid env (outbox_seq d + 2) \<noteq> gen_uuid env (outbox_seq d + 1)"
  using assms by (simp_all add: ready_def ledger_inv_def ledger_base_def)

datatype verdict = Refuse go_error | Answer transaction_row | Post

definition matches :: "transfer_params \<Rightarrow> transaction_row \<Rightarrow> bool" where
  "matches p t \<longleftrightarrow>
     t_source_id t = p_From p \<and> t_destination_id t = p_To p \<and> t_amount t = p_Amount p"

definition short_of_funds :: "db \<Rightarrow> transfer_params \<Rightarrow> account_row \<Rightarrow> bool" where
  "short_of_funds d p a \<longleftrightarrow>
     sub64 (balance_of d (p_From p)) (p_Amount p) < 0 \<and>
     a_type a \<noteq> accountTypeSystem \<and> p_Type p \<noteq> TxTypeReversal"

definition keyed_verdict :: "db \<Rightarrow> transfer_params \<Rightarrow> account_row \<Rightarrow> verdict" where
  "keyed_verdict d p a =
     (case keyed d (p_IdempotencyKey p) of
        Some t \<Rightarrow> if matches p t then Answer t else Refuse (ServiceError ErrTransactionsMismatch)
      | None \<Rightarrow>
          if reversal_taken d (requested p)
          then Refuse (DriverError ''violates unique constraint unique_reversal_of'')
          else if short_of_funds d p a then Refuse (ServiceError ErrNotEnough) else Post)"

definition core_verdict :: "db \<Rightarrow> transfer_params \<Rightarrow> verdict" where
  "core_verdict d p =
     (case account_of d (min (p_From p) (p_To p)) of
        None \<Rightarrow> Refuse (missing_account (p_From p) (min (p_From p) (p_To p)))
      | Some a1 \<Rightarrow>
          (case account_of d (max (p_From p) (p_To p)) of
             None \<Rightarrow> Refuse (missing_account (p_From p) (max (p_From p) (p_To p)))
           | Some a2 \<Rightarrow>
               if a_currency a1 \<noteq> a_currency a2 then Refuse (ServiceError ErrCurrencyMismatch)
               else keyed_verdict d p (if p_From p \<le> p_To p then a1 else a2)))"

text \<open>The document the outbox stores for an event.\<close>

definition document :: "env \<Rightarrow> entry_posted \<Rightarrow> string" where
  "document env e =
     (case marshal_entry e of Inl _ \<Rightarrow> '''' | Inr js \<Rightarrow>
        (case jsonb_text env js of None \<Rightarrow> '''' | Some doc \<Rightarrow> doc))"

text \<open>Posting, with the currency both accounts have.\<close>

definition post :: "env \<Rightarrow> transfer_params \<Rightarrow> string \<Rightarrow> db \<Rightarrow> db" where
  "post env p currency d =
     posted_db env p (document env (credit_event p (created_transaction env p d) currency))
       (document env (debit_event p (created_transaction env p d) currency)) d"

section \<open>Writing\<close>

definition inserted :: "env \<Rightarrow> transfer_params \<Rightarrow> db \<Rightarrow> db" where
  "inserted env p d = d\<lparr>transactions_seq := transactions_seq d + 1,
     transactions := transactions d @ [new_transaction env p d]\<rparr>"

definition burned :: "db \<Rightarrow> db" where
  "burned d = d\<lparr>transactions_seq := transactions_seq d + 1\<rparr>"

definition entry_added :: "env \<Rightarrow> int64 \<Rightarrow> int64 \<Rightarrow> int64 \<Rightarrow> db \<Rightarrow> db" where
  "entry_added env i a n d = d\<lparr>ledger_entries_seq := ledger_entries_seq d + 1,
     ledger_entries := ledger_entries d @ [new_entry env (ledger_entries_seq d + 1) i a n]\<rparr>"

definition event_added :: "env \<Rightarrow> string \<Rightarrow> string \<Rightarrow> string \<Rightarrow> db \<Rightarrow> db" where
  "event_added env ty k doc d = d\<lparr>outbox_seq := outbox_seq d + 1,
     outbox := outbox d @ [new_outbox_row env ty k doc (outbox_seq d + 1)]\<rparr>"

lemma written_sel [simp]:
  "account_of (burned d) = account_of d" "keyed (burned d) = keyed d" "same_tables d (burned d)"
  "account_of (inserted env p d) = account_of d" "ledger_entries (inserted env p d) = ledger_entries d"
  "ledger_entries_seq (inserted env p d) = ledger_entries_seq d"
  "outbox (inserted env p d) = outbox d" "outbox_seq (inserted env p d) = outbox_seq d"
  "balance_of (inserted env p d) = balance_of d"
  "account_of (entry_added env i a n d) = account_of d"
  "transaction_of (entry_added env i a n d) = transaction_of d"
  "ledger_entries_seq (entry_added env i a n d) = ledger_entries_seq d + 1"
  "l_id ` set (ledger_entries (entry_added env i a n d)) =
     insert (ledger_entries_seq d + 1) (l_id ` set (ledger_entries d))"
  "outbox (entry_added env i a n d) = outbox d" "outbox_seq (entry_added env i a n d) = outbox_seq d"
  "outbox_seq (event_added env ty k doc d) = outbox_seq d + 1"
  "o_id ` set (outbox (event_added env ty k doc d)) = insert (outbox_seq d + 1) (o_id ` set (outbox d))"
  "o_event_id ` set (outbox (event_added env ty k doc d)) =
     insert (gen_uuid env (outbox_seq d + 1)) (o_event_id ` set (outbox d))"
  by (simp_all add: burned_def inserted_def entry_added_def event_added_def account_of_def keyed_def
      transaction_of_def same_tables_def balance_of_def new_entry_def new_outbox_row_def fun_eq_iff)

lemma posted_db_steps:
  "event_added env EntryTypePosted (FormatInt (p_From p)) doc2
     (event_added env EntryTypePosted (FormatInt (p_To p)) doc1
       (entry_added env (transactions_seq d + 1) (p_To p) (p_Amount p)
         (entry_added env (transactions_seq d + 1) (p_From p) (neg64 (p_Amount p)) (inserted env p d)))) =
   posted_db env p doc1 doc2 d"
  by (simp add: event_added_def entry_added_def inserted_def posted_db_def
      add.commute [of 2 "ledger_entries_seq d"] add.commute [of 2 "outbox_seq d"])

text \<open>The transfer is one the schema admits.\<close>

definition admissible :: "transfer_params \<Rightarrow> db \<Rightarrow> bool" where
  "admissible p d \<longleftrightarrow>
     0 < p_Amount p \<and> p_Type p \<in> set transaction_types \<and> p_From p \<noteq> p_To p \<and>
     (\<forall>i. p_ReversalOf p = Some i \<longrightarrow> transaction_of d i \<noteq> None)"

lemma ids_ok_fresh:
  assumes "ids_ok d"
  shows "transaction_of d (transactions_seq d + 1) = None"
    "ledger_entries_seq d + 1 \<notin> l_id ` set (ledger_entries d)"
    "ledger_entries_seq d + 2 \<notin> l_id ` set (ledger_entries d)"
    "outbox_seq d + 1 \<notin> o_id ` set (outbox d)" "outbox_seq d + 2 \<notin> o_id ` set (outbox d)"
  using assms by (fastforce simp: ids_ok_def ids_below_def transaction_of_def find_None_iff)+

lemma gives_lock_references: "gives (lock_references t) d (Inr ()) d"
  by (cases "tx_ReversalOf t")
    (auto simp: lock_references_def intro!: gives_bind gives_acquire gives_ret)

lemma insert_transaction_ready:
  assumes rd: "ready env d" and ok: "admissible p d"
    and acc: "account_of d (p_From p) \<noteq> None" "account_of d (p_To p) \<noteq> None"
  shows "insert_transaction env (requested p) d =
      (if keyed d (p_IdempotencyKey p) \<noteq> None then (Inl (StorageError ErrDuplicateKey), burned d)
       else if reversal_taken d (requested p)
       then (Inl (DriverError ''violates unique constraint unique_reversal_of''), burned d)
       else (Inr (new_transaction env p d), inserted env p d))"
proof -
  have fresh: "transaction_of d (transactions_seq d + 1) = None"
    using readyD(4) [OF rd] by (rule ids_ok_fresh)
  have refs: "\<not> missing_reference d (requested p)"
    using ok acc by (auto simp: missing_reference_def requested_def admissible_def split: option.splits)
  have sel: "tx_Amount (requested p) = p_Amount p" "tx_Type (requested p) = p_Type p"
    "tx_IdempotencyKey (requested p) = p_IdempotencyKey p"
    by (simp_all add: requested_def)
  show ?thesis
    using ok readyD(5) [OF rd] fresh refs
    by (simp add: insert_transaction_def Let_def burned_def inserted_def admissible_def
        new_transaction_def sel)
qed

lemma gives_CreateTransaction:
  assumes rd: "ready env d" and ok: "admissible p d"
    and acc: "account_of d (p_From p) \<noteq> None" "account_of d (p_To p) \<noteq> None"
  shows "gives (CreateTransaction env (requested p)) d
      (if keyed d (p_IdempotencyKey p) \<noteq> None then Inl (StorageError ErrDuplicateKey)
       else if reversal_taken d (requested p)
       then Inl (DriverError ''violates unique constraint unique_reversal_of'')
       else Inr (created_transaction env p d))
      (if keyed d (p_IdempotencyKey p) \<noteq> None \<or> reversal_taken d (requested p) then burned d
       else inserted env p d)"
proof -
  have ins: "gives (exec_sql env (insert_transaction env (requested p))) d
      (fst (insert_transaction env (requested p) d)) (snd (insert_transaction env (requested p) d))"
    using readyD(1) [OF rd] by (rule gives_exec_sql) simp
  note ins = ins [unfolded insert_transaction_ready [OF assms]]
  have made: "gives (bindQ (lock_references (requested p)) (\<lambda>_. ret (created_transaction env p d)))
      (inserted env p d) (Inr (created_transaction env p d)) (inserted env p d)"
    by (rule gives_bind [OF gives_lock_references gives_ret])
  show ?thesis
    unfolding CreateTransaction_def
    by (rule gives_bind [OF gives_acquire])
      (use ins made in \<open>auto intro: gives_bind_error gives_bind simp: created_transaction_eq [symmetric]
         split: if_splits\<close>)
qed

lemma gives_CreateLedgerEntry:
  assumes "healthy env" "ledger_entries_seq d + 1 \<le> MaxInt64"
    "ledger_entries_seq d + 1 \<notin> l_id ` set (ledger_entries d)"
    "transaction_of d i \<noteq> None" "account_of d a \<noteq> None"
  shows "gives (CreateLedgerEntry env i a n) d (Inr ()) (entry_added env i a n d)"
  unfolding CreateLedgerEntry_def
  by (rule gives_bind [OF gives_exec_sql gives_acquire])
    (use assms in \<open>auto simp: insert_ledger_entry_def entry_added_def new_entry_def Let_def\<close>)

lemma gives_CreateOutboxEvent:
  assumes "ready env d0" "ev_OccurredAt e = tx_now env" "outbox_seq d + 1 \<le> MaxInt64"
    "outbox_seq d + 1 \<notin> o_id ` set (outbox d)"
    "gen_uuid env (outbox_seq d + 1) \<notin> o_event_id ` set (outbox d)"
    "ev_TransactionType e \<in> set transaction_types" "ev_Currency e \<in> a_currency ` set (accounts d0)"
  shows "gives (CreateOutboxEvent env ty k e) d (Inr ()) (event_added env ty k (document env e) d)"
proof -
  from assms(1) obtain x where x: "rfc3339 (tx_now env) = Inr x" by (auto simp: ready_def)
  with assms(2) have m: "marshal_entry e = Inr (json_object (entry_members e x))"
    by (simp add: marshal_entry_def)
  from assms(1,6,7) m have "jsonb_text env (json_object (entry_members e x)) \<noteq> None"
    unfolding ready_def takes_documents_def by blast
  then obtain doc where doc: "jsonb_text env (json_object (entry_members e x)) = Some doc" by blast
  show ?thesis
    unfolding CreateOutboxEvent_def m sum.case(2)
    by (rule gives_exec_sql)
      (use assms readyD(1) doc in \<open>auto simp: insert_outbox_event_def event_added_def new_outbox_row_def
         document_def m Let_def\<close>)
qed

lemma created_transaction_at [simp]: "tx_CreatedAt (created_transaction env p d) = tx_now env"
  by (simp add: created_transaction_def scan_transaction_def)

lemma event_occurred [simp]:
  "ev_OccurredAt (credit_event p t c) = tx_CreatedAt t" "ev_OccurredAt (debit_event p t c) = tx_CreatedAt t"
  by (simp_all add: credit_event_def debit_event_def)

lemma event_fields:
  "ev_TransactionType (credit_event p (created_transaction env p d) c) = p_Type p"
  "ev_TransactionType (debit_event p (created_transaction env p d) c) = p_Type p"
  "ev_Currency (credit_event p t c) = c" "ev_Currency (debit_event p t c) = c"
  by (simp_all add: credit_event_def debit_event_def created_transaction_def scan_transaction_def new_transaction_def
      inserted_transaction_def requested_def)

lemma transaction_of_inserted:
  "ids_ok d \<Longrightarrow> transaction_of (inserted env p d) (transactions_seq d + 1) = Some (new_transaction env p d)"
  using ids_ok_fresh(1) [of d] by (simp add: transaction_of_def inserted_def find_append)

lemma gives_write_entries:
  assumes rd: "ready env d" and acc: "account_of d (p_From p) \<noteq> None" "account_of d (p_To p) \<noteq> None"
    and cur: "acc_Currency sa = c" "acc_Currency da = c" "c \<in> a_currency ` set (accounts d)"
    and ty: "p_Type p \<in> set transaction_types"
  shows "gives (write_entries (queries env) p sa da (created_transaction env p d)) (inserted env p d)
    (Inr (newResult (created_transaction env p d))) (post env p c d)"
proof -
  note fresh = ids_ok_fresh [OF readyD(4) [OF rd]]
  note rdD = readyD [OF rd]
  note comm = add.commute [of 2 "ledger_entries_seq d"] add.commute [of 2 "outbox_seq d"]
  let ?i = "transactions_seq d + 1" and ?t = "created_transaction env p d"
  let ?d1 = "inserted env p d"
  let ?d2 = "entry_added env ?i (p_From p) (neg64 (p_Amount p)) ?d1"
  let ?d3 = "entry_added env ?i (p_To p) (p_Amount p) ?d2"
  let ?d4 = "event_added env EntryTypePosted (FormatInt (p_To p)) (document env (credit_event p ?t c)) ?d3"
  have 1: "gives (CreateLedgerEntry env ?i (p_From p) (neg64 (p_Amount p))) ?d1 (Inr ()) ?d2"
    by (rule gives_CreateLedgerEntry)
      (use rdD fresh acc transaction_of_inserted [OF readyD(4) [OF rd]] in \<open>simp_all add: comm\<close>)
  have 2: "gives (CreateLedgerEntry env ?i (p_To p) (p_Amount p)) ?d2 (Inr ()) ?d3"
    by (rule gives_CreateLedgerEntry)
      (use rdD fresh acc transaction_of_inserted [OF readyD(4) [OF rd]] in \<open>simp_all add: comm\<close>)
  have 3: "gives (CreateOutboxEvent env EntryTypePosted (FormatInt (p_To p)) (credit_event p ?t c)) ?d3 (Inr ()) ?d4"
    by (rule gives_CreateOutboxEvent [OF rd]) (use rdD fresh cur(3) ty in \<open>simp_all add: comm event_fields\<close>)
  have 4: "gives (CreateOutboxEvent env EntryTypePosted (FormatInt (p_From p)) (debit_event p ?t c)) ?d4 (Inr ())
      (event_added env EntryTypePosted (FormatInt (p_From p)) (document env (debit_event p ?t c)) ?d4)"
    by (rule gives_CreateOutboxEvent [OF rd]) (use rdD fresh cur(3) ty in \<open>simp_all add: comm event_fields\<close>)
  have "gives (write_entries (queries env) p sa da ?t) ?d1 (Inr (newResult ?t))
      (event_added env EntryTypePosted (FormatInt (p_From p)) (document env (debit_event p ?t c)) ?d4)"
    unfolding write_entries_queries Let_def Key_credit_event Key_debit_event cur(1,2) tx_ID_created
    by (rule gives_bind [OF 1 gives_bind [OF 2 gives_bind [OF 3 gives_bind [OF 4 gives_ret]]]])
  then show ?thesis by (simp only: posted_db_steps post_def)
qed

definition currency_of :: "db \<Rightarrow> int64 \<Rightarrow> string" where
  "currency_of d i = (case account_of d i of None \<Rightarrow> '''' | Some a \<Rightarrow> a_currency a)"

text \<open>Carrying out a verdict; a refusal is rolled back by the caller.\<close>

definition carried_out ::
  "env \<Rightarrow> transfer_params \<Rightarrow> string \<Rightarrow> db \<Rightarrow> verdict \<Rightarrow> result_t result \<Rightarrow> db \<Rightarrow> bool" where
  "carried_out env p c d v r d' \<longleftrightarrow>
     (case v of
        Refuse e \<Rightarrow> r = Inl e
      | Answer t \<Rightarrow> r = Inr (replayed_result t) \<and> same_tables d d'
      | Post \<Rightarrow> r = Inr (newResult (created_transaction env p d)) \<and> d' = post env p c d)"

lemma gives_post_entries:
  assumes rd: "ready env d" and acc: "account_of d (p_From p) \<noteq> None" "account_of d (p_To p) \<noteq> None"
    and cur: "a_currency a = c" "a_currency b = c" "c \<in> a_currency ` set (accounts d)"
    and ty: "p_Type p \<in> set transaction_types"
  shows "gives (post_entries (queries env) p (scan_account a) (scan_account b) (created_transaction env p d)) (inserted env p d)
    (if short_of_funds d p a then Inl (ServiceError ErrNotEnough)
     else Inr (newResult (created_transaction env p d)))
    (if short_of_funds d p a then inserted env p d else post env p c d)"
proof -
  have bal: "gives (GetAccountBalance env (p_From p)) (inserted env p d) (Inr (balance_of d (p_From p)))
      (inserted env p d)"
    using gives_GetAccountBalance [of env "inserted env p d" "p_From p"] readyD [OF rd] by simp
  have w: "gives (write_entries (queries env) p (scan_account a) (scan_account b) (created_transaction env p d))
      (inserted env p d) (Inr (newResult (created_transaction env p d))) (post env p c d)"
    using rd acc _ _ cur(3) ty by (rule gives_write_entries) (simp_all add: cur(1,2) scan_account_def)
  show ?thesis
    unfolding post_entries_queries
    by (rule gives_bind [OF bal])
      (use w in \<open>auto simp: short_of_funds_def scan_account_def gives_throw\<close>)
qed

lemma gives_replay:
  assumes h: "healthy env" and t: "keyed d (p_IdempotencyKey p) = Some t"
  shows "gives (replay (queries env) p) d
    (if matches p t then Inr (replayed_result t) else Inl (ServiceError ErrTransactionsMismatch)) d"
proof -
  have "gives (GetTransaction env (p_IdempotencyKey p)) d (Inr (scan_transaction t)) d"
    using gives_GetTransaction [OF h, of "p_IdempotencyKey p" d] t by simp
  moreover have "compareTransactions (requested p) (scan_transaction t) \<longleftrightarrow> matches p t"
    by (auto simp: compareTransactions_def requested_def scan_transaction_def matches_def)
  ultimately show ?thesis
    unfolding replay_queries by (intro gives_bind) (auto simp: replayed_result_def gives_ret gives_throw)
qed

lemma gives_CreateTransaction_then:
  assumes ct: "gives (CreateTransaction env (requested p)) d c d1"
    and dup: "\<And>err. c = Inl err \<Longrightarrow> errors_Is err (StorageError ErrDuplicateKey) \<Longrightarrow> gives (replay (queries env) p) d1 r d2"
    and bad: "\<And>err. c = Inl err \<Longrightarrow> \<not> errors_Is err (StorageError ErrDuplicateKey) \<Longrightarrow> r = Inl err \<and> d2 = d1"
    and ok: "\<And>created. c = Inr created \<Longrightarrow> gives (post_entries (queries env) p sa da created) d1 r d2"
  shows "gives (post_or_replay (queries env) p sa da) d r d2"
  unfolding gives_def
proof (intro allI impI)
  fix s :: session
  assume "s_db s = d"
  with ct obtain s1 where s1: "CreateTransaction env (requested p) s = (c, s1)" "s_db s1 = d1"
    by (auto simp: gives_def)
  show "\<exists>s'. post_or_replay (queries env) p sa da s = (r, s') \<and> s_db s' = d2"
  proof (cases c)
    case (Inl err)
    with s1 dup bad show ?thesis
      by (cases "errors_Is err (StorageError ErrDuplicateKey)") (auto simp: post_or_replay_queries gives_def)
  next
    case (Inr created)
    with s1 ok show ?thesis by (auto simp: post_or_replay_queries gives_def)
  qed
qed

lemma gives_post_or_replay:
  assumes rd: "ready env d" and ok: "admissible p d"
    and ab: "account_of d (p_From p) = Some a" "account_of d (p_To p) = Some b"
      "a_currency a = a_currency b"
  shows "\<exists>r d'. gives (post_or_replay (queries env) p (scan_account a) (scan_account b)) d r d' \<and>
    carried_out env p (a_currency a) d (keyed_verdict d p a) r d'"
proof -
  have acc: "account_of d (p_From p) \<noteq> None" "account_of d (p_To p) \<noteq> None" using ab by simp_all
  have known: "a_currency a \<in> a_currency ` set (accounts d)" using ab(1) by (auto dest: account_of_SomeD)
  note ct = gives_CreateTransaction [OF rd ok acc]
  show ?thesis
  proof (cases "keyed d (p_IdempotencyKey p)")
    case (Some t)
    have "gives (replay (queries env) p) (burned d)
        (if matches p t then Inr (replayed_result t) else Inl (ServiceError ErrTransactionsMismatch)) (burned d)"
      using readyD(1) [OF rd] by (rule gives_replay) (simp add: Some)
    then have "gives (post_or_replay (queries env) p (scan_account a) (scan_account b)) d
        (if matches p t then Inr (replayed_result t) else Inl (ServiceError ErrTransactionsMismatch)) (burned d)"
      using Some by (intro gives_CreateTransaction_then [OF ct]) simp_all
    then show ?thesis
      by (intro exI conjI) (auto simp: carried_out_def keyed_verdict_def Some)
  next
    case None
    show ?thesis
    proof (cases "reversal_taken d (requested p)")
      case True
      with None have "gives (post_or_replay (queries env) p (scan_account a) (scan_account b)) d
          (Inl (DriverError ''violates unique constraint unique_reversal_of'')) (burned d)"
        by (intro gives_CreateTransaction_then [OF ct]) auto
      then show ?thesis
        by (intro exI conjI) (auto simp: carried_out_def keyed_verdict_def None True)
    next
      case False
      have "gives (post_or_replay (queries env) p (scan_account a) (scan_account b)) d
        (if short_of_funds d p a then Inl (ServiceError ErrNotEnough)
         else Inr (newResult (created_transaction env p d)))
        (if short_of_funds d p a then inserted env p d else post env p (a_currency a) d)"
        using gives_post_entries [OF rd acc refl, of b a] None False ab(3) known ok
        by (intro gives_CreateTransaction_then [OF ct]) (simp_all add: admissible_def)
      then show ?thesis
        by (intro exI conjI) (auto simp: carried_out_def keyed_verdict_def None False)
    qed
  qed
qed

lemma gives_transfer:
  assumes rd: "ready env d" and ok: "admissible p d"
  shows "\<exists>r d'. gives (transfer (queries env) p) d r d' \<and>
    carried_out env p (currency_of d (p_From p)) d (core_verdict d p) r d'"
proof -
  let ?first = "min (p_From p) (p_To p)" and ?second = "max (p_From p) (p_To p)"
  note lock = gives_lock_account [OF readyD(1) [OF rd], of _ "p_From p" d]
  show ?thesis
  proof (cases "account_of d ?first")
    case None
    then have "gives (transfer (queries env) p) d (Inl (missing_account (p_From p) ?first)) d"
      using lock [of ?first] unfolding transfer_queries Let_def by (simp add: gives_bind_error)
    then show ?thesis by (intro exI conjI) (auto simp: carried_out_def core_verdict_def None)
  next
    case a1: (Some a1)
    then have l1: "gives (lock_account (queries env) ?first (p_From p)) d (Inr (scan_account a1)) d"
      using lock [of ?first] by simp
    show ?thesis
    proof (cases "account_of d ?second")
      case None
      then have "gives (transfer (queries env) p) d (Inl (missing_account (p_From p) ?second)) d"
        using lock [of ?second] None unfolding transfer_queries Let_def
        by (intro gives_bind [OF l1], intro gives_bind_error) simp
      then show ?thesis by (intro exI conjI) (auto simp: carried_out_def core_verdict_def a1 None)
    next
      case a2: (Some a2)
      then have l2: "gives (lock_account (queries env) ?second (p_From p)) d (Inr (scan_account a2)) d"
        using lock [of ?second] by simp
      define a b where "a = (if p_From p \<le> p_To p then a1 else a2)"
        and "b = (if p_From p \<le> p_To p then a2 else a1)"
      have ab: "account_of d (p_From p) = Some a" "account_of d (p_To p) = Some b"
        using a1 a2 by (auto simp: a_def b_def min_def max_def split: if_splits)
      have pick: "(if ?first \<noteq> p_From p then (scan_account a2, scan_account a1)
          else (scan_account a1, scan_account a2)) = (scan_account a, scan_account b)"
        using ok by (auto simp: a_def b_def admissible_def min_def)
      have cv: "core_verdict d p = (if a_currency a \<noteq> a_currency b
          then Refuse (ServiceError ErrCurrencyMismatch) else keyed_verdict d p a)"
        by (auto simp: core_verdict_def a1 a2 a_def b_def)
      have step: "gives (transfer (queries env) p) d r d'"
        if "gives (if acc_Currency (scan_account a) \<noteq> acc_Currency (scan_account b)
          then throw (ServiceError ErrCurrencyMismatch)
          else post_or_replay (queries env) p (scan_account a) (scan_account b)) d r d'" for r d'
        unfolding transfer_queries Let_def
        by (rule gives_bind [OF l1 gives_bind [OF l2]]) (use that pick in simp)
      show ?thesis
      proof (cases "a_currency a = a_currency b")
        case False
        then have "gives (transfer (queries env) p) d (Inl (ServiceError ErrCurrencyMismatch)) d"
          by (intro step) (simp add: scan_account_def gives_throw)
        then show ?thesis by (intro exI conjI) (auto simp: carried_out_def cv False)
      next
        case True
        from gives_post_or_replay [OF rd ok ab True] obtain r d' where
          "gives (post_or_replay (queries env) p (scan_account a) (scan_account b)) d r d'"
          "carried_out env p (a_currency a) d (keyed_verdict d p a) r d'" by blast
        moreover have "currency_of d (p_From p) = a_currency a" by (simp add: currency_of_def ab)
        ultimately show ?thesis using step [of r d'] True by (auto simp: cv)
      qed
    qed
  qed
qed

section \<open>The operations\<close>

text \<open>The outcome of an operation settles a verdict: refused and replayed ones leave the tables alone.\<close>

definition settles ::
  "env \<Rightarrow> transfer_params \<Rightarrow> db \<Rightarrow> verdict \<Rightarrow> (db \<Rightarrow> db) \<Rightarrow> outcome \<Rightarrow> bool" where
  "settles env p d v extra out \<longleftrightarrow>
     (case v of
        Refuse e \<Rightarrow> fst out = (None, Some e) \<and> same_tables d (snd out)
      | Answer t \<Rightarrow> fst out = (Some (replayed_result t), None) \<and> same_tables (extra d) (snd out)
      | Post \<Rightarrow> out = ((Some (newResult (created_transaction env p d)), None),
                      extra (post env p (currency_of d (p_From p)) d)))"

definition transfer_verdict :: "db \<Rightarrow> transfer_params \<Rightarrow> verdict" where
  "transfer_verdict d p =
     (if p_Amount p \<le> 0 then Refuse (ServiceError ErrInvalidAmount)
      else if p_From p = p_To p then Refuse (ServiceError ErrSameAccount)
      else case account_of d (p_From p) of
        None \<Rightarrow> Refuse (ServiceError ErrSourceAccountNotFound)
      | Some a \<Rightarrow> (case account_of d (p_To p) of
          None \<Rightarrow> Refuse (ServiceError ErrDestinationAccountNotFound)
        | Some b \<Rightarrow>
            if a_type a \<noteq> accountTypeUser \<or> a_type b \<noteq> accountTypeUser
            then Refuse (ServiceError ErrSystemAccountNotAllowed)
            else core_verdict d p))"

text \<open>Deposits and withdrawals go through the system account of the code \<open>\<open>name\<close>_IN_\<open>currency\<close>\<close>.\<close>

definition system_counterpart :: "db \<Rightarrow> int64 \<Rightarrow> string \<Rightarrow> string \<Rightarrow> account_row option" where
  "system_counterpart d i name direction =
     (case account_of d i of None \<Rightarrow> None | Some a \<Rightarrow> coded d (name @ direction @ a_currency a))"

definition counterpart_id :: "db \<Rightarrow> int64 \<Rightarrow> string \<Rightarrow> string \<Rightarrow> int64" where
  "counterpart_id d i name direction =
     (case system_counterpart d i name direction of None \<Rightarrow> 0 | Some y \<Rightarrow> a_id y)"

definition system_verdict ::
  "db \<Rightarrow> transfer_params \<Rightarrow> int64 \<Rightarrow> string \<Rightarrow> string \<Rightarrow> service_error \<Rightarrow> service_error \<Rightarrow> verdict" where
  "system_verdict d p i name direction missing wrong =
     (if p_Amount p \<le> 0 then Refuse (ServiceError ErrInvalidAmount)
      else case account_of d i of
        None \<Rightarrow> Refuse (ServiceError missing)
      | Some a \<Rightarrow>
          if a_type a \<noteq> accountTypeUser then Refuse (ServiceError wrong)
          else (case system_counterpart d i name direction of
            None \<Rightarrow> Refuse (ServiceError ErrSystemAccountNotFound)
          | Some y \<Rightarrow>
              if a_type y \<noteq> accountTypeSystem then Refuse (ServiceError ErrSystemAccountNotFound)
              else if i = a_id y then Refuse (ServiceError ErrSameAccount)
              else core_verdict d p))"

definition reverse_verdict :: "db \<Rightarrow> int64 \<Rightarrow> string \<Rightarrow> verdict" where
  "reverse_verdict d txid key =
     (case transaction_of d txid of
        None \<Rightarrow> Refuse (ServiceError ErrTransactionNotFound)
      | Some t \<Rightarrow>
          if t_status t \<noteq> txStatusCompleted then Refuse (ServiceError ErrReverseIncompletedTx)
          else if t_type t = TxTypeReversal then Refuse (ServiceError ErrReverseReversalTx)
          else core_verdict d (reversal_params (scan_transaction t) key))"

lemma settle:
  assumes rd: "ready env d" and run: "gives m d r d'"
    and out: "carried_out env p (currency_of d (p_From p)) d v r d'"
  shows "settles env p d v (\<lambda>d. d) (WithTx env (capture m) d)"
  using out gives_WithTx [OF readyD(1) [OF rd] run]
  by (auto simp: carried_out_def settles_def split: verdict.splits)

lemma settle_error:
  assumes rd: "ready env d" and run: "gives m d (Inl e) d'"
  shows "settles env p d (Refuse e) (\<lambda>d. d) (WithTx env (capture m) d)"
  using gives_WithTx [OF readyD(1) [OF rd] run] by (simp add: settles_def)

lemma Transfer_settles:
  assumes rd: "ready env d"
    and p: "p = \<lparr>p_From = f, p_To = t, p_Amount = a, p_Type = TxTypeTransfer,
      p_IdempotencyKey = k, p_ReversalOf = None\<rparr>"
  shows "settles env p d (transfer_verdict d p) (\<lambda>d. d) (Transfer env f t a k d)"
proof (cases "a \<le> 0 \<or> f = t")
  case True
  then show ?thesis by (auto simp: Transfer_def transfer_verdict_def settles_def p)
next
  case False
  then have run: "Transfer env f t a k d = WithTx env (capture (transfer_closure (queries env) f t a k)) d"
    by (simp add: Transfer_def)
  note get = gives_GetAccount [OF readyD(1) [OF rd], THEN gives_not_found_as]
  have src: "gives (onErr (GetAccount env f) (not_found_as ErrSourceAccountNotFound)) d
      (case account_of d f of None \<Rightarrow> Inl (ServiceError ErrSourceAccountNotFound)
       | Some r \<Rightarrow> Inr (scan_account r)) d"
    and dst: "gives (onErr (GetAccount env t) (not_found_as ErrDestinationAccountNotFound)) d
      (case account_of d t of None \<Rightarrow> Inl (ServiceError ErrDestinationAccountNotFound)
       | Some r \<Rightarrow> Inr (scan_account r)) d"
    by (rule get)+
  show ?thesis
  proof (cases "account_of d f")
    case None
    with src have "gives (transfer_closure (queries env) f t a k) d (Inl (ServiceError ErrSourceAccountNotFound)) d"
      by (simp add: transfer_closure_queries gives_bind_error)
    with False None show ?thesis unfolding run by (simp add: settle_error [OF rd] transfer_verdict_def p)
  next
    case x: (Some x)
    with src have s1: "gives (onErr (GetAccount env f) (not_found_as ErrSourceAccountNotFound)) d
      (Inr (scan_account x)) d" by simp
    show ?thesis
    proof (cases "account_of d t")
      case None
      with dst have "gives (transfer_closure (queries env) f t a k) d (Inl (ServiceError ErrDestinationAccountNotFound)) d"
        unfolding transfer_closure_queries by (intro gives_bind [OF s1], intro gives_bind_error) simp
      with False x None show ?thesis unfolding run by (simp add: settle_error [OF rd] transfer_verdict_def p)
    next
      case y: (Some y)
      with dst have s2: "gives (onErr (GetAccount env t) (not_found_as ErrDestinationAccountNotFound)) d
        (Inr (scan_account y)) d" by simp
      have rest: "gives (transfer_closure (queries env) f t a k) d r d'"
        if "gives (if a_type x \<noteq> accountTypeUser \<or> a_type y \<noteq> accountTypeUser
          then throw (ServiceError ErrSystemAccountNotAllowed) else transfer (queries env) p) d r d'" for r d'
        unfolding transfer_closure_queries
        by (intro gives_bind [OF s1], intro gives_bind [OF s2]) (use that in \<open>simp only: scan_account_sel p\<close>)
      show ?thesis
      proof (cases "a_type x \<noteq> accountTypeUser \<or> a_type y \<noteq> accountTypeUser")
        case True
        then have "gives (transfer_closure (queries env) f t a k) d (Inl (ServiceError ErrSystemAccountNotAllowed)) d"
          by (intro rest) (simp add: gives_throw)
        with False x y True show ?thesis unfolding run
          by (simp add: settle_error [OF rd] transfer_verdict_def p)
      next
        case users: False
        have "admissible p d" using False by (simp add: admissible_def p transaction_types_def TxTypeTransfer_def)
        from gives_transfer [OF rd this] obtain r d' where
          g: "gives (transfer (queries env) p) d r d'"
          and c: "carried_out env p (currency_of d (p_From p)) d (core_verdict d p) r d'" by blast
        from g users have "gives (transfer_closure (queries env) f t a k) d r d'" by (intro rest) simp
        with c have "settles env p d (core_verdict d p) (\<lambda>d. d) (Transfer env f t a k d)"
          unfolding run by (intro settle [OF rd])
        with False x y users show ?thesis by (simp add: transfer_verdict_def p)
      qed
    qed
  qed
qed

text \<open>Deposits and withdrawals have one shape.\<close>

definition system_closure ::
  "env \<Rightarrow> int64 \<Rightarrow> string \<Rightarrow> string \<Rightarrow> service_error \<Rightarrow> service_error \<Rightarrow>
   (int64 \<Rightarrow> transfer_params) \<Rightarrow> result_t query" where
  "system_closure env i name direction missing wrong params =
     bindQ (onErr (GetAccount env i) (not_found_as missing)) (\<lambda>account.
     if acc_Type account \<noteq> accountTypeUser then throw (ServiceError wrong)
     else
     bindQ (onErr (GetSystemAccountByCode env (name @ direction @ acc_Currency account))
              (not_found_as ErrSystemAccountNotFound)) (\<lambda>sysAccount.
     if acc_Type sysAccount \<noteq> accountTypeSystem then throw (ServiceError ErrSystemAccountNotFound)
     else if acc_ID account = acc_ID sysAccount then throw (ServiceError ErrSameAccount)
     else transfer (queries env) (params (acc_ID sysAccount))))"

lemma deposit_closure_shape:
  "deposit_closure (queries env) i a name k =
     system_closure env i name ''_IN_'' ErrDestinationAccountNotFound ErrInvalidDepositDestination
       (\<lambda>y. \<lparr>p_From = y, p_To = i, p_Amount = a, p_Type = TxTypeDeposit,
             p_IdempotencyKey = k, p_ReversalOf = None\<rparr>)"
  by (simp add: deposit_closure_queries system_closure_def)

lemma withdraw_closure_shape:
  "withdraw_closure (queries env) i a name k =
     system_closure env i name ''_OUT_'' ErrSourceAccountNotFound ErrInvalidWithdrawSource
       (\<lambda>y. \<lparr>p_From = i, p_To = y, p_Amount = a, p_Type = TxTypeWithdrawal,
             p_IdempotencyKey = k, p_ReversalOf = None\<rparr>)"
  by (simp add: withdraw_closure_queries system_closure_def)

lemma system_closure_settles:
  assumes rd: "ready env d" and pos: "0 < p_Amount p"
    and p: "p = params (counterpart_id d i name direction)"
    and adm: "\<And>y. i \<noteq> y \<Longrightarrow> p = params y \<Longrightarrow> admissible p d"
  shows "settles env p d (system_verdict d p i name direction missing wrong) (\<lambda>d. d)
    (WithTx env (capture (system_closure env i name direction missing wrong params)) d)"
proof (cases "account_of d i")
  case None
  have "gives (onErr (GetAccount env i) (not_found_as missing)) d (Inl (ServiceError missing)) d"
    using gives_GetAccount [OF readyD(1) [OF rd], of i d, THEN gives_not_found_as, of missing] None by simp
  then have "gives (system_closure env i name direction missing wrong params) d (Inl (ServiceError missing)) d"
    unfolding system_closure_def by (rule gives_bind_error)
  then show ?thesis using pos None by (simp add: settle_error [OF rd] system_verdict_def)
next
  case a: (Some a)
  have s1: "gives (onErr (GetAccount env i) (not_found_as missing)) d (Inr (scan_account a)) d"
    using gives_GetAccount [OF readyD(1) [OF rd], of i d, THEN gives_not_found_as, of missing] a by simp
  have aid: "a_id a = i" using a by (simp add: account_of_SomeD)
  have sc: "system_counterpart d i name direction = coded d (name @ direction @ a_currency a)"
    by (simp add: system_counterpart_def a)
  show ?thesis
  proof (cases "a_type a = accountTypeUser")
    case False
    then have "gives (system_closure env i name direction missing wrong params) d (Inl (ServiceError wrong)) d"
      unfolding system_closure_def by (intro gives_bind [OF s1]) (simp add: gives_throw)
    then show ?thesis using pos a False by (simp add: settle_error [OF rd] system_verdict_def)
  next
    case user: True
    note get = gives_GetSystemAccountByCode [OF readyD(1) [OF rd],
        of "name @ direction @ a_currency a" d, THEN gives_not_found_as, of ErrSystemAccountNotFound]
    show ?thesis
    proof (cases "coded d (name @ direction @ a_currency a)")
      case None
      with get have "gives (system_closure env i name direction missing wrong params) d
          (Inl (ServiceError ErrSystemAccountNotFound)) d"
        unfolding system_closure_def
        by (intro gives_bind [OF s1]) (simp add: user gives_bind_error)
      then show ?thesis using pos a user None
        by (simp add: settle_error [OF rd] system_verdict_def sc)
    next
      case y: (Some y)
      with get have s2: "gives (onErr (GetSystemAccountByCode env (name @ direction @ a_currency a))
          (not_found_as ErrSystemAccountNotFound)) d (Inr (scan_account y)) d" by simp
      have py: "p = params (a_id y)" by (simp add: p counterpart_id_def sc y)
      have rest: "gives (system_closure env i name direction missing wrong params) d r d'"
        if "gives (if a_type y \<noteq> accountTypeSystem then throw (ServiceError ErrSystemAccountNotFound)
          else if i = a_id y then throw (ServiceError ErrSameAccount) else transfer (queries env) p) d r d'" for r d'
        unfolding system_closure_def
        by (intro gives_bind [OF s1], simp only: scan_account_sel user simp_thms if_False,
            intro gives_bind [OF s2]) (use that in \<open>simp only: scan_account_sel aid py\<close>)
      show ?thesis
      proof (cases "a_type y \<noteq> accountTypeSystem \<or> i = a_id y")
        case True
        then have "gives (system_closure env i name direction missing wrong params) d
          (Inl (ServiceError (if a_type y \<noteq> accountTypeSystem then ErrSystemAccountNotFound
            else ErrSameAccount))) d"
          by (intro rest) (auto intro: gives_throw)
        moreover have "system_verdict d p i name direction missing wrong = Refuse (ServiceError
            (if a_type y \<noteq> accountTypeSystem then ErrSystemAccountNotFound else ErrSameAccount))"
          using pos a user y True by (auto simp: system_verdict_def sc)
        ultimately show ?thesis by (simp only: settle_error [OF rd])
      next
        case False
        then have "admissible p d" using adm py by blast
        from gives_transfer [OF rd this] obtain r d' where
          g: "gives (transfer (queries env) p) d r d'"
          and c: "carried_out env p (currency_of d (p_From p)) d (core_verdict d p) r d'" by blast
        from g False have "gives (system_closure env i name direction missing wrong params) d r d'"
          by (intro rest) simp
        from settle [OF rd this c] show ?thesis using pos a user y False
          by (simp add: system_verdict_def sc)
      qed
    qed
  qed
qed

lemma Deposit_settles:
  assumes rd: "ready env d"
    and p: "p = \<lparr>p_From = counterpart_id d i name ''_IN_'', p_To = i, p_Amount = a, p_Type = TxTypeDeposit,
      p_IdempotencyKey = k, p_ReversalOf = None\<rparr>"
  shows "settles env p d
    (system_verdict d p i name ''_IN_'' ErrDestinationAccountNotFound ErrInvalidDepositDestination)
    (\<lambda>d. d) (Deposit env i a name k d)"
proof (cases "a \<le> 0")
  case True
  then show ?thesis by (simp add: Deposit_def system_verdict_def settles_def p)
next
  case False
  then have "Deposit env i a name k d = WithTx env (capture (deposit_closure (queries env) i a name k)) d"
    by (simp add: Deposit_def)
  then show ?thesis
    unfolding deposit_closure_shape
    by (simp only:) (rule system_closure_settles [OF rd],
        use False in \<open>auto simp: p admissible_def transaction_types_def TxTypeDeposit_def\<close>)
qed

lemma Withdraw_settles:
  assumes rd: "ready env d"
    and p: "p = \<lparr>p_From = i, p_To = counterpart_id d i name ''_OUT_'', p_Amount = a, p_Type = TxTypeWithdrawal,
      p_IdempotencyKey = k, p_ReversalOf = None\<rparr>"
  shows "settles env p d
    (system_verdict d p i name ''_OUT_'' ErrSourceAccountNotFound ErrInvalidWithdrawSource)
    (\<lambda>d. d) (Withdraw env i a name k d)"
proof (cases "a \<le> 0")
  case True
  then show ?thesis by (simp add: Withdraw_def system_verdict_def settles_def p)
next
  case False
  then have "Withdraw env i a name k d = WithTx env (capture (withdraw_closure (queries env) i a name k)) d"
    by (simp add: Withdraw_def)
  then show ?thesis
    unfolding withdraw_closure_shape
    by (simp only:) (rule system_closure_settles [OF rd],
        use False in \<open>auto simp: p admissible_def transaction_types_def TxTypeWithdrawal_def\<close>)
qed

section \<open>Reversal\<close>

lemma gives_reversible:
  assumes "healthy env"
  shows "gives (reversible (queries env) i) d
    (case transaction_of d i of None \<Rightarrow> Inl (ServiceError ErrTransactionNotFound)
     | Some t \<Rightarrow>
         if t_status t \<noteq> txStatusCompleted then Inl (ServiceError ErrReverseIncompletedTx)
         else if t_type t = TxTypeReversal then Inl (ServiceError ErrReverseReversalTx)
         else Inr (scan_transaction t)) d"
proof -
  note get = gives_GetTransactionByID [OF assms, of i d, THEN gives_not_found_as, of ErrTransactionNotFound]
  show ?thesis
  proof (cases "transaction_of d i")
    case None
    with get show ?thesis unfolding reversible_queries by (simp add: gives_bind_error)
  next
    case (Some t)
    with get have "gives (onErr (GetTransactionByID env i) (not_found_as ErrTransactionNotFound)) d
      (Inr (scan_transaction t)) d" by simp
    then show ?thesis unfolding reversible_queries Some
      by (auto intro!: gives_bind simp: gives_throw gives_ret)
  qed
qed

lemma gives_UpdateTransactionStatus:
  assumes h: "healthy env" and t: "t \<in> set (transactions d)" "t_id t = i" "t_status t = txStatusCompleted"
  shows "gives (UpdateTransactionStatus env i txStatusReversed) d (Inr ()) (marked i d)"
proof -
  let ?n = "length (filter (\<lambda>t. t_id t = i \<and> t_status t = ''completed'') (transactions d))"
  have n: "?n \<noteq> 0" using t by (auto simp: filter_empty_conv txStatusCompleted_def)
  have "update_status i txStatusReversed d = (Inr (int ?n), marked i d)"
    by (simp add: update_status_def Let_def marked_def txStatusReversed_def status_values_def)
  then have "gives (onErr (exec_sql env (update_status i txStatusReversed))
      (\<lambda>err. throw (StorageError ErrNotFound))) d (Inr (int ?n)) (marked i d)"
    by (intro gives_onErr gives_exec_sql [OF h])
  with n show ?thesis unfolding UpdateTransactionStatus_def
    by (intro gives_bind [OF gives_acquire], intro gives_bind) (auto simp: gives_ret)
qed

lemma reverse_WithTx:
  assumes h: "healthy env" and core: "gives (bindQ (reversible (queries env) i) (\<lambda>tx. transfer (queries env) (reversal_params tx k))) d r d1"
    and upd: "\<And>a. r = Inr a \<Longrightarrow> gives (UpdateTransactionStatus env i txStatusReversed) d1 (Inr ()) (marked i d1)"
  shows "Reverse env i k d =
    (case r of Inl e \<Rightarrow> ((None, Some e), restore d d1) | Inr a \<Rightarrow> ((Some a, None), marked i d1))"
proof -
  have "s_db (fresh_session d) = d" by (simp add: fresh_session_def)
  with core obtain s1 where run: "bindQ (reversible (queries env) i) (\<lambda>tx. transfer (queries env) (reversal_params tx k))
      (fresh_session d) = (r, s1)" and db: "s_db s1 = d1"
    unfolding gives_def by blast
  show ?thesis
  proof (cases r)
    case (Inl e)
    with run have "reverse_closure (queries env) i k (fresh_session d) = ((None, Some e), s1)"
      by (simp add: reverse_closure_queries)
    with h Inl db show ?thesis by (simp add: Reverse_def WithTx_healthy)
  next
    case (Inr a)
    from upd [OF Inr] db obtain s2 where "UpdateTransactionStatus env i txStatusReversed s1 = (Inr (), s2)"
      "s_db s2 = marked i d1" unfolding gives_def by blast
    with run Inr have "reverse_closure (queries env) i k (fresh_session d) = ((Some a, None), s2)"
      by (simp add: reverse_closure_queries)
    with h Inr \<open>s_db s2 = _\<close> show ?thesis by (simp add: Reverse_def WithTx_healthy)
  qed
qed

lemma Reverse_settles:
  assumes rd: "ready env d"
    and p: "\<And>t. transaction_of d i = Some t \<Longrightarrow> p = reversal_params (scan_transaction t) k"
  shows "settles env p d (reverse_verdict d i k) (marked i) (Reverse env i k d)"
proof -
  note rv = gives_reversible [OF readyD(1) [OF rd], of i d]
  have bad: "settles env p d (Refuse e) (marked i) (Reverse env i k d)"
    if "gives (reversible (queries env) i) d (Inl e) d" for e
    using reverse_WithTx [OF readyD(1) [OF rd] gives_bind_error [OF that], of k]
    by (simp add: settles_def)
  show ?thesis
  proof (cases "transaction_of d i")
    case None
    with rv bad show ?thesis by (simp add: reverse_verdict_def)
  next
    case (Some t)
    show ?thesis
    proof (cases "t_status t = txStatusCompleted \<and> t_type t \<noteq> TxTypeReversal")
      case False
      with rv bad Some show ?thesis by (auto simp: reverse_verdict_def)
    next
      case True
      with rv Some have r: "gives (reversible (queries env) i) d (Inr (scan_transaction t)) d" by simp
      have pt: "p = reversal_params (scan_transaction t) k" using Some by (rule p)
      have mem: "t \<in> set (transactions d)" "t_id t = i" using Some by (auto dest: transaction_of_SomeD)
      then have "tx_ok d t" using readyD(3) [OF rd] by (simp add: ledger_inv_def ledger_base_def)
      then have "admissible p d" using mem Some
        by (auto simp: admissible_def pt reversal_params_def tx_ok_def transaction_types_def TxTypeReversal_def)
      from gives_transfer [OF rd this] obtain r d1 where
        g: "gives (transfer (queries env) p) d r d1"
        and c: "carried_out env p (currency_of d (p_From p)) d (core_verdict d p) r d1" by blast
      have core: "gives (bindQ (reversible (queries env) i) (\<lambda>tx. transfer (queries env) (reversal_params tx k))) d r d1"
        using g [unfolded pt] by (rule gives_bind [OF \<open>gives (reversible (queries env) i) d (Inr (scan_transaction t)) d\<close>])
      have upd: "gives (UpdateTransactionStatus env i txStatusReversed) d1 (Inr ()) (marked i d1)"
        if "r = Inr a" for a
        using readyD(1) [OF rd] _ mem(2)
      proof (rule gives_UpdateTransactionStatus)
        show "t \<in> set (transactions d1)"
          using c that mem by (auto simp: carried_out_def post_def same_tables_def split: verdict.splits)
      qed (use True in simp)
      have "settles env p d (core_verdict d p) (marked i) (Reverse env i k d)"
        using reverse_WithTx [OF readyD(1) [OF rd] core upd] c
        by (auto simp: carried_out_def settles_def same_tables_def restore_def split: verdict.splits)
      with Some True show ?thesis by (simp add: reverse_verdict_def pt)
    qed
  qed
qed

end
