(* ===== verification/Effects.thy ===== *)
theory Effects
  imports Operations
begin

text \<open>
  The contract the money operations share, as a locale: an operation either fails and leaves the
  tables alone, replays an earlier transaction, or posts a transfer that stands for it. What
  follows for balances, solvency, retries and the outbox is proved once from the contract; the
  interpretation discharges it for the four operations of the service.
\<close>

section \<open>Balances after a posting\<close>

definition moved :: "transfer_params \<Rightarrow> (int64 \<Rightarrow> int) \<Rightarrow> int64 \<Rightarrow> int" where
  "moved p bal = bal(p_From p := bal (p_From p) - p_Amount p, p_To p := bal (p_To p) + p_Amount p)"

lemma balance_of_append:
  "balance_of (d\<lparr>ledger_entries := ledger_entries d @ ls\<rparr>) i =
     balance_of d i + (\<Sum>l\<leftarrow>filter (\<lambda>l. l_account_id l = i) ls. l_amount l)"
  by (simp add: balance_of_def)

lemma balance_of_cong: "ledger_entries d' = ledger_entries d \<Longrightarrow> balance_of d' = balance_of d"
  by (simp add: balance_of_def fun_eq_iff)

lemma balance_of_posted:
  assumes "p_From p \<noteq> p_To p" "0 < p_Amount p" "in_int64 (p_Amount p)"
  shows "balance_of (posted_db env p doc1 doc2 d) = moved p (balance_of d)"
proof -
  have "balance_of (posted_db env p doc1 doc2 d) i =
      balance_of d i + (\<Sum>l\<leftarrow>filter (\<lambda>l. l_account_id l = i)
        [new_entry env (ledger_entries_seq d + 1) (transactions_seq d + 1) (p_From p) (neg64 (p_Amount p)),
         new_entry env (ledger_entries_seq d + 2) (transactions_seq d + 1) (p_To p) (p_Amount p)]. l_amount l)"
    for i
    by (subst balance_of_append [symmetric], rule fun_cong [of _ _ i], rule balance_of_cong)
      (simp add: posted_db_def)
  with assms show ?thesis by (auto simp: new_entry_def moved_def)
qed

lemma finish_sel [simp]:
  "ledger_entries (finish req d) = ledger_entries d" "accounts (finish req d) = accounts d"
  "outbox (finish req d) = outbox d" "account_of (finish req d) = account_of d"
  "balance_of (finish req d) = balance_of d"
  by (cases req; simp add: balance_of_def fun_eq_iff)+

section \<open>The abstract ledger\<close>

text \<open>
  What a client may think of: a balance per account, and for each idempotency key the arguments it
  was first used with. The only thing that ever happens to it is a posting under a fresh key.
\<close>

record ledger_spec =
  sp_balance :: "int64 \<Rightarrow> int"
  sp_keys :: "string \<Rightarrow> (int64 \<times> int64 \<times> int64) option"

definition key_args :: "transaction_row \<Rightarrow> int64 \<times> int64 \<times> int64" where
  "key_args t = (t_source_id t, t_destination_id t, t_amount t)"

definition abs_ledger :: "db \<Rightarrow> ledger_spec" where
  "abs_ledger d = \<lparr>sp_balance = balance_of d, sp_keys = (\<lambda>k. map_option key_args (keyed d k))\<rparr>"

definition spec_post :: "transfer_params \<Rightarrow> ledger_spec \<Rightarrow> ledger_spec" where
  "spec_post p l =
     \<lparr>sp_balance = moved p (sp_balance l),
      sp_keys = (sp_keys l)(p_IdempotencyKey p \<mapsto> (p_From p, p_To p, p_Amount p))\<rparr>"

lemma abs_ledger_same_tables: "same_tables d d' \<Longrightarrow> abs_ledger d' = abs_ledger d"
  by (simp add: abs_ledger_def balance_of_same_tables) (simp add: same_tables_def keyed_def)

lemma find_map: "find P (map f xs) = map_option f (find (P \<circ> f) xs)"
  by (induction xs) auto

lemma keyed_marked: "map_option key_args (keyed (marked i d) k) = map_option key_args (keyed d k)"
proof -
  have "key_args \<circ> set_status i txStatusReversed = key_args" by (simp add: fun_eq_iff key_args_def)
  then show ?thesis by (simp add: keyed_def find_map option.map_comp comp_def [of _ "set_status i _"])
qed

lemma keyed_finish: "map_option key_args (keyed (finish req d) k) = map_option key_args (keyed d k)"
  by (cases req) (simp_all add: keyed_marked)

lemma keyed_posted:
  assumes "keyed d (p_IdempotencyKey p) = None"
  shows "keyed (posted_db env p doc1 doc2 d) =
    (keyed d)(p_IdempotencyKey p \<mapsto> new_transaction env p d)"
  using assms by (auto simp: keyed_def find_append fun_eq_iff split: option.splits dest!: find_SomeD)

section \<open>The contract\<close>

definition definite :: "env \<Rightarrow> bool" where
  "definite env \<longleftrightarrow> (\<forall>msg. commit_outcome env \<noteq> Commit_unknown msg)"

text \<open>The amounts of the transfers an operation may stand for are \<^verbatim>\<open>int64\<close> values.\<close>

definition bounded :: "(db \<Rightarrow> transfer_params \<Rightarrow> bool) \<Rightarrow> db \<Rightarrow> bool" where
  "bounded stands d \<longleftrightarrow> (\<forall>p. stands d p \<longrightarrow> in_int64 (p_Amount p))"

text \<open>A client that repeats an operation, each time in another environment.\<close>

fun attempts :: "(env \<Rightarrow> db \<Rightarrow> outcome) \<Rightarrow> env list \<Rightarrow> db \<Rightarrow> db" where
  "attempts op [] d = d"
| "attempts op (e # es) d = attempts op es (snd (op e d))"

fun succeeded :: "(env \<Rightarrow> db \<Rightarrow> outcome) \<Rightarrow> env list \<Rightarrow> db \<Rightarrow> bool" where
  "succeeded op [] d = False"
| "succeeded op (e # es) d = (snd (fst (op e d)) = None \<or> succeeded op es (snd (op e d)))"

locale money_operation =
  fixes op :: "env \<Rightarrow> db \<Rightarrow> outcome"
    and stands :: "db \<Rightarrow> transfer_params \<Rightarrow> bool"
    and after_post :: "db \<Rightarrow> db"
    and key :: string
  assumes outcome: "op env d = ((res, err), d') \<Longrightarrow>
      (same_tables d d' \<and> seq_le d d' \<and> err \<noteq> None) \<or>
      (\<exists>p t d1. stands d p \<and> replays p d t \<and> same_tables d d1 \<and> seq_le d d1 \<and>
         d' = after_post d1 \<and> res = Some (replayed_result t) \<and> reported err) \<or>
      (\<exists>p w. stands d p \<and> posts env p d w \<and> reported err \<and>
         d' = after_post (posted_db env p (credit_doc w) (debit_doc w) d) \<and>
         res = Some (newResult (created_transaction env p d)))"
    and definite_error: "op env d = ((res, Some e), d') \<Longrightarrow> definite env \<Longrightarrow> same_tables d d'"
    and stands_ok: "ledger_base d \<Longrightarrow> bounded stands d \<Longrightarrow> stands d p \<Longrightarrow> well_formed d p"
    and stands_key: "stands d p \<Longrightarrow> p_IdempotencyKey p = key"
    and stands_tables: "same_tables d d' \<Longrightarrow> stands d' p = stands d p"
    and keeps_inv: "op env d = (out, d') \<Longrightarrow> ledger_inv d \<Longrightarrow> bounded stands d \<Longrightarrow> ledger_inv d'"
    and after_post_sel: "ledger_entries (after_post d) = ledger_entries d"
      "accounts (after_post d) = accounts d" "outbox (after_post d) = outbox d"
      "map_option key_args (keyed (after_post d) k) = map_option key_args (keyed d k)"
begin

lemma balance_after_post [simp]: "balance_of (after_post d) = balance_of d"
  by (rule balance_of_cong) (rule after_post_sel)

lemma abs_after_post [simp]: "abs_ledger (after_post d) = abs_ledger d"
  by (simp add: abs_ledger_def after_post_sel(4))

lemma balance_of_post:
  assumes "ledger_base d" "bounded stands d" "stands d p" "posts env p d w"
  shows "balance_of (after_post (posted_db env p doc1 doc2 d)) = moved p (balance_of d)"
proof -
  from assms have "well_formed d p" by (intro stands_ok)
  with assms(4) show ?thesis
    by (simp add: balance_of_posted well_formed_def posts_def)
qed

lemma abs_of_post:
  assumes "ledger_base d" "bounded stands d" "stands d p" "posts env p d w"
  shows "abs_ledger (after_post (posted_db env p doc1 doc2 d)) = spec_post p (abs_ledger d)"
proof -
  have "keyed d (p_IdempotencyKey p) = None" using assms(4) by (simp add: posts_def)
  with balance_of_post [OF assms] show ?thesis
    by (auto simp: abs_ledger_def spec_post_def keyed_posted key_args_def after_post_sel fun_eq_iff)
qed

text \<open>Refinement: every run is a stutter or one posting under a fresh key.\<close>

lemma refines:
  assumes run: "op env d = ((res, err), d')" and inv: "ledger_base d" "bounded stands d"
  shows "abs_ledger d' = abs_ledger d \<or>
    (\<exists>p. stands d p \<and> sp_keys (abs_ledger d) (p_IdempotencyKey p) = None \<and>
       abs_ledger d' = spec_post p (abs_ledger d))"
  using outcome [OF run]
proof (elim disjE exE conjE)
  fix p w
  assume "stands d p" "posts env p d w" "d' = after_post (posted_db env p (credit_doc w) (debit_doc w) d)"
  moreover then have "sp_keys (abs_ledger d) (p_IdempotencyKey p) = None"
    by (simp add: posts_def abs_ledger_def)
  ultimately show ?thesis using abs_of_post inv by blast
qed (auto dest: abs_ledger_same_tables)

text \<open>A success that is no replay moved the amount, whatever the environment.\<close>

lemma fresh_success:
  assumes run: "op env d = ((Some r, None), d')" and fresh: "\<not> r_Replayed r"
  obtains p w where "stands d p" "posts env p d w"
    "d' = after_post (posted_db env p (credit_doc w) (debit_doc w) d)"
    "r = newResult (created_transaction env p d)"
  using outcome [OF run] fresh by (auto simp: replayed_result_def)

lemma replayed_success:
  assumes run: "op env d = ((Some r, None), d')" and rep: "r_Replayed r"
  obtains p t d1 where "stands d p" "replays p d t" "same_tables d d1" "seq_le d d1"
    "d' = after_post d1" "r = replayed_result t"
  using outcome [OF run] rep by (auto simp: newResult_def)

lemma fresh_success_moves:
  assumes "op env d = ((Some r, None), d')" "\<not> r_Replayed r" "ledger_base d" "bounded stands d"
  obtains p where "stands d p" "balance_of d' = moved p (balance_of d)"
  using assms(1,2) by (rule fresh_success) (use assms(3,4) in \<open>auto intro: that balance_of_post\<close>)

text \<open>No run, however it ends, moves anything but the amount of the transfer it stands for, once.\<close>

lemma moves_at_most_once:
  assumes run: "op env d = ((res, err), d')" and inv: "ledger_base d" "bounded stands d"
  shows "balance_of d' = balance_of d \<or> (\<exists>p. stands d p \<and> balance_of d' = moved p (balance_of d))"
  using outcome [OF run] inv
  by (auto simp: balance_of_same_tables dest: balance_of_post)

text \<open>
  The source of a posting stays at or above zero unless it is a system account or the posting a
  reversal, as long as it was at or above zero before.
\<close>

lemma posting_solvent:
  assumes w: "posts env p d w" and plain: "p_Type p \<noteq> TxTypeReversal"
    and user: "a_type (src_row w) \<noteq> accountTypeSystem" and pos: "0 \<le> balance_of d (p_From p)"
    and amt: "in_int64 (p_Amount p)"
  shows "p_Amount p \<le> balance_of d (p_From p)"
proof -
  have "0 < p_Amount p" "in_int64 (balance_of d (p_From p))"
    "0 \<le> sub64 (balance_of d (p_From p)) (p_Amount p)"
    using assms by (auto simp: posts_def)
  with pos amt show ?thesis
    by (subst (asm) sub64_id) (auto simp: in_int64_def)
qed

text \<open>Once the key is used, nothing more is posted.\<close>

lemma claimed_stutters:
  assumes run: "op env d = (out, d')" and inv: "ledger_inv d" "bounded stands d"
    and claimed: "sp_keys (abs_ledger d) key \<noteq> None"
  shows "abs_ledger d' = abs_ledger d"
proof -
  from inv have "ledger_base d" by (simp add: ledger_inv_def)
  with refines [of env d "fst out" "snd out" d'] run inv(2) claimed stands_key show ?thesis by fastforce
qed

lemma attempts_claimed:
  assumes "ledger_inv d" "\<And>d. ledger_base d \<Longrightarrow> bounded stands d" "sp_keys (abs_ledger d) key \<noteq> None"
  shows "abs_ledger (attempts op es d) = abs_ledger d"
  using assms(1,3)
proof (induction es arbitrary: d)
  case (Cons e es)
  obtain out d1 where run: "op e d = (out, d1)" by fastforce
  have bnd: "bounded stands d" using Cons.prems(1) assms(2) by (simp add: ledger_inv_def)
  have "abs_ledger d1 = abs_ledger d" using claimed_stutters [OF run Cons.prems(1) bnd Cons.prems(2)] .
  moreover have "ledger_inv d1" using keeps_inv [OF run Cons.prems(1) bnd] .
  ultimately show ?case using Cons.IH [of d1] Cons.prems(2) run by simp
qed simp

lemma at_most_once:
  assumes "ledger_inv d" "\<And>d. ledger_base d \<Longrightarrow> bounded stands d" "keyed d key = None"
  shows "(abs_ledger (attempts op es d) = abs_ledger d \<and> \<not> succeeded op es d) \<or>
    (\<exists>p. stands d p \<and> abs_ledger (attempts op es d) = spec_post p (abs_ledger d))"
  using assms(1,3)
proof (induction es arbitrary: d)
  case (Cons e es)
  obtain res err d1 where run: "op e d = ((res, err), d1)" by (metis prod.collapse)
  have base: "ledger_base d" using Cons.prems(1) by (simp add: ledger_inv_def)
  then have bnd: "bounded stands d" by (rule assms(2))
  have inv1: "ledger_inv d1" using keeps_inv [OF run Cons.prems(1) bnd] .
  from outcome [OF run] consider "same_tables d d1" "err \<noteq> None"
    | p t where "stands d p" "replays p d t"
    | p w where "stands d p" "posts e p d w"
        "d1 = after_post (posted_db e p (credit_doc w) (debit_doc w) d)"
    by blast
  then show ?case
  proof cases
    case 1
    then have "keyed d1 key = None" using Cons.prems(2) by (simp add: same_tables_def keyed_def)
    from Cons.IH [OF inv1 this] 1 show ?thesis
      by (simp add: run abs_ledger_same_tables stands_tables)
  next
    case 2
    then show ?thesis using stands_key [OF 2(1)] Cons.prems(2) by (simp add: replays_def)
  next
    case (3 p w)
    then have abs1: "abs_ledger d1 = spec_post p (abs_ledger d)" using abs_of_post [OF base bnd] by simp
    then have "sp_keys (abs_ledger d1) key \<noteq> None" using stands_key [OF 3(1)] by (simp add: spec_post_def)
    with attempts_claimed [OF inv1 assms(2)] abs1 3(1) run show ?thesis by auto
  qed
qed simp

end

lemma serve_definite_error:
  "serve env req d = ((res, Some e), d') \<Longrightarrow> definite env \<Longrightarrow> same_tables d d'"
  by (cases req)
    (auto simp: definite_def Transfer_def Deposit_def Withdraw_def Reverse_def split: if_splits
      dest: WithTx_error_applied)

lemma bounded_stands_for: "ledger_base d \<Longrightarrow> typed req \<Longrightarrow> bounded (stands_for req) d"
  unfolding bounded_def using stands_for_well_formed by (blast intro: well_formed_def [THEN iffD1, THEN conjunct2, THEN conjunct1])

lemma bounded_typed:
  assumes "bounded (stands_for req) d" "stands_for req d p"
  shows "typed req"
proof -
  from assms have "in_int64 (p_Amount p)" by (simp add: bounded_def)
  with assms(2) show ?thesis by (cases req; cases p) auto
qed

fun request_key :: "request \<Rightarrow> string" where
  "request_key (Transfer_req a b amount key) = key"
| "request_key (Deposit_req dest amount source key) = key"
| "request_key (Withdraw_req source amount dest key) = key"
| "request_key (Reverse_req txid key) = key"

lemma stands_for_key: "stands_for req d p \<Longrightarrow> p_IdempotencyKey p = request_key req"
  by (cases req; cases p) (auto simp: reversal_params_def)

lemma stands_for_tables: "same_tables d d' \<Longrightarrow> stands_for req d' p = stands_for req d p"
  by (cases req) (simp_all add: same_tables_def account_of_def transaction_of_def)

lemma serve_keeps_inv_bounded:
  assumes run: "serve env req d = (out, d')" and inv: "ledger_inv d" and b: "bounded (stands_for req) d"
  shows "ledger_inv d'"
proof (cases "typed req")
  case True
  then show ?thesis using serve_keeps_inv [OF inv _ run] by simp
next
  case False
  obtain res err where out: "out = (res, err)" by fastforce
  from run [unfolded out] show ?thesis
  proof (cases rule: serve_cases)
    case unchanged
    with inv show ?thesis by (blast intro: ledger_inv_same_tables)
  qed (use False b in \<open>auto dest: bounded_typed\<close>)
qed

interpretation served: money_operation "\<lambda>env. serve env req" "stands_for req" "finish req" "request_key req"
  for req :: request
proof unfold_locales
  fix env d res err d'
  assume "serve env req d = ((res, err), d')"
  then show "(same_tables d d' \<and> seq_le d d' \<and> err \<noteq> None) \<or>
      (\<exists>p t d1. stands_for req d p \<and> replays p d t \<and> same_tables d d1 \<and> seq_le d d1 \<and>
         d' = finish req d1 \<and> res = Some (replayed_result t) \<and> reported err) \<or>
      (\<exists>p w. stands_for req d p \<and> posts env p d w \<and> reported err \<and>
         d' = finish req (posted_db env p (credit_doc w) (debit_doc w) d) \<and>
         res = Some (newResult (created_transaction env p d)))"
    by (cases rule: serve_cases) blast+
next
  fix d p
  assume "ledger_base d" "bounded (stands_for req) d" "stands_for req d p"
  then show "well_formed d p" by (blast dest: bounded_typed intro: stands_for_well_formed)
qed (simp_all add: serve_definite_error stands_for_key stands_for_tables serve_keeps_inv_bounded keyed_finish)

section \<open>Solvency\<close>

text \<open>No account but the system's is below zero.\<close>

definition solvent :: "db \<Rightarrow> bool" where
  "solvent d \<longleftrightarrow>
     (\<forall>a \<in> set (accounts d). a_type a \<noteq> accountTypeSystem \<longrightarrow> 0 \<le> balance_of d (a_id a))"

fun is_reversal :: "request \<Rightarrow> bool" where
  "is_reversal (Reverse_req txid key) = True"
| "is_reversal _ = False"

lemma stands_for_plain: "stands_for req d p \<Longrightarrow> \<not> is_reversal req \<Longrightarrow> p_Type p \<noteq> TxTypeReversal"
  by (cases req; cases p) (auto simp: tx_type_defs)

lemma solvent_same_tables: "same_tables d d' \<Longrightarrow> solvent d \<Longrightarrow> solvent d'"
  by (simp add: solvent_def balance_of_same_tables) (simp add: same_tables_def)

lemma posting_keeps_solvent:
  assumes base: "ledger_base d" and w: "posts env p d w" and wf: "well_formed d p"
    and plain: "p_Type p \<noteq> TxTypeReversal" and sol: "solvent d"
    and acc: "accounts d' = accounts d" and bal: "balance_of d' = moved p (balance_of d)"
  shows "solvent d'"
  unfolding solvent_def
proof (intro ballI impI)
  fix a
  assume "a \<in> set (accounts d')" and user: "a_type a \<noteq> accountTypeSystem"
  then have a: "a \<in> set (accounts d)" by (simp add: acc)
  then have nonneg: "0 \<le> balance_of d (a_id a)" using sol user by (simp add: solvent_def)
  have amt: "0 < p_Amount p" using w by (simp add: posts_def)
  have "p_Amount p \<le> balance_of d (a_id a)" if src: "a_id a = p_From p"
  proof -
    have "account_of d (a_id a) = Some a"
      using base a by (intro account_of_member) (simp add: ledger_base_def)
    then have "src_row w = a" using w src by (simp add: posts_def)
    then show ?thesis
      using served.posting_solvent [OF w plain] user nonneg wf src by (simp add: well_formed_def)
  qed
  then show "0 \<le> balance_of d' (a_id a)"
    using nonneg amt wf by (auto simp: bal moved_def well_formed_def)
qed

lemma serve_keeps_solvent:
  assumes run: "serve env req d = (out, d')" and inv: "ledger_inv d" and ty: "typed req"
    and rev: "\<not> is_reversal req" and sol: "solvent d"
  shows "solvent d'"
proof -
  obtain res err where out: "out = (res, err)" by fastforce
  have base: "ledger_base d" using inv by (simp add: ledger_inv_def)
  have fin: "finish req x = x" for x using rev by (cases req) auto
  from run [unfolded out] show ?thesis
  proof (cases rule: serve_cases)
    case unchanged
    then show ?thesis using sol by (blast intro: solvent_same_tables)
  next
    case (replayed p t d1)
    then show ?thesis using sol by (auto simp: fin intro: solvent_same_tables)
  next
    case (posted p w)
    have wf: "well_formed d p" using stands_for_well_formed [OF base ty posted(1)] .
    show ?thesis
    proof (rule posting_keeps_solvent [OF base posted(2) wf stands_for_plain [OF posted(1) rev] sol])
      show "balance_of d' = moved p (balance_of d)"
        using served.balance_of_post [OF base bounded_stands_for [OF base ty] posted(1,2)]
        by (simp add: posted(3))
    qed (simp add: posted(3) posted_db_def)
  qed
qed

end
