(* ===== verification/Relay.thy ===== *)
theory Relay
  imports Storage_Facts Querier
begin

text \<open>
  \<^verbatim>\<open>internal/relay\<close> and \<^verbatim>\<open>internal/publisher\<close>: the outbox relay. A batch is one database
  transaction that takes the advisory lock, reads the oldest unpublished rows, hands them to the
  publisher and marks them. The publisher's effect on the broker is outside the transaction, so
  the broker is a state of its own (\<open>'b\<close>) that no rollback touches. The Kafka client is a
  parameter.
\<close>

section \<open>Messages and metrics\<close>

text \<open>The headers are an association list with distinct keys.\<close>

record message =
  m_Key :: string
  m_Value :: string
  m_Headers :: "(string \<times> string) list"

type_synonym 'b publisher = "message list \<Rightarrow> 'b \<Rightarrow> go_error option \<times> 'b"

record sending_params =
  BatchSize :: int64
  Interval :: int64

text \<open>\<open>publish_durations\<close> counts the observations of the histogram.\<close>

record relay_metrics =
  events_published_total :: int
  batch_errors_total :: int
  publish_durations :: int

definition disassembleEvents :: "outbox_event list \<Rightarrow> message list \<times> int64 list" where
  "disassembleEvents events =
     (map (\<lambda>e. \<lparr>m_Key = oe_PartitionKey e, m_Value = oe_Payload e,
                m_Headers = [(''event_id'', oe_EventID e), (''event_type'', oe_EventType e)]\<rparr>) events,
      map oe_ID events)"

section \<open>A batch\<close>

text \<open>What the closure leaves in the variables it captures: \<^verbatim>\<open>sent\<close>, the broker and the metrics.\<close>

type_synonym 'b batch_state = "int64 \<times> 'b \<times> relay_metrics"

definition observe_duration :: "relay_metrics \<Rightarrow> relay_metrics" where
  "observe_duration m = m\<lparr>publish_durations := publish_durations m + 1\<rparr>"

definition publish_events ::
  "'s querier \<Rightarrow> 'b publisher \<Rightarrow> outbox_event list \<Rightarrow> 'b \<Rightarrow> relay_metrics \<Rightarrow>
   ('s, 'b batch_state) closure_on" where
  "publish_events q publish events b m s =
     (let (messages, ids) = disassembleEvents events;
          (err, b') = publish messages b;
          m' = observe_duration m
      in case err of
           Some e \<Rightarrow> ((Some (0, b', m'), Some e), s)
         | None \<Rightarrow>
             (case q_MarkOutboxEventsPublished q ids s of
                (Inl e, s') \<Rightarrow> ((Some (0, b', m'), Some e), s')
              | (Inr _, s') \<Rightarrow> ((Some (int (length messages), b', m'), None), s')))"

definition batch_closure ::
  "'s querier \<Rightarrow> 'b publisher \<Rightarrow> int64 \<Rightarrow> 'b \<Rightarrow> relay_metrics \<Rightarrow>
   ('s, 'b batch_state) closure_on" where
  "batch_closure q publish batchSize b m s =
     (case q_TryLockOutbox q s of
        (Inl err, s1) \<Rightarrow> ((Some (0, b, m), Some err), s1)
      | (Inr isOpen, s1) \<Rightarrow>
          if \<not> isOpen then ((Some (0, b, m), Some (RelayError ErrOutboxLocked)), s1)
          else
            (case q_GetUnpublishedOutboxEvents q batchSize s1 of
               (Inl err, s2) \<Rightarrow> ((Some (0, b, m), Some err), s2)
             | (Inr events, s2) \<Rightarrow>
                 if events = [] then ((Some (0, b, m), None), s2)
                 else publish_events q publish events b m s2))"

lemmas publish_events_queries = publish_events_def [of "queries env" for env, unfolded queries_sel]
lemmas batch_closure_queries = batch_closure_def [of "queries env" for env, unfolded queries_sel]

text \<open>The result, the broker, the metrics and the database after one call.\<close>

definition publishBatch ::
  "env \<Rightarrow> 'b publisher \<Rightarrow> int64 \<Rightarrow> 'b \<Rightarrow> relay_metrics \<Rightarrow> db \<Rightarrow>
   int64 result \<times> 'b \<times> relay_metrics \<times> db" where
  "publishBatch env publish batchSize b m d =
     (case WithTx env (batch_closure (queries env) publish batchSize b m) d of
        ((captured, err), d') \<Rightarrow>
          (let (sent, b', m') = (case captured of None \<Rightarrow> (0, b, m) | Some c \<Rightarrow> c)
           in case err of
                Some e \<Rightarrow>
                  if errors_Is e (RelayError ErrOutboxLocked) then (Inr 0, b', m', d')
                  else (Inl e, b', m'\<lparr>batch_errors_total := batch_errors_total m' + 1\<rparr>, d')
              | None \<Rightarrow>
                  (Inr sent, b', m'\<lparr>events_published_total := events_published_total m' + sent\<rparr>, d')))"

section \<open>The loop\<close>

text \<open>
  What the outside world does in one iteration: whether the context is already done when the loop
  looks, the environment of the batch's transaction, and whether the context is done before the
  interval has passed. A schedule ends when the observation does.
\<close>

record relay_round =
  done_before :: bool
  round_env :: env
  done_waiting :: bool

text \<open>The state of the loop; \<open>waits\<close> counts the intervals it slept through.\<close>

record 'b relay_state =
  rl_broker :: 'b
  rl_metrics :: relay_metrics
  rl_db :: db
  rl_waits :: nat

definition relay_iteration ::
  "'b publisher \<Rightarrow> sending_params \<Rightarrow> env \<Rightarrow> 'b relay_state \<Rightarrow> bool \<times> 'b relay_state" where
  "relay_iteration publish sp env r =
     (case publishBatch env publish (BatchSize sp) (rl_broker r) (rl_metrics r) (rl_db r) of
        (res, b', m', d') \<Rightarrow>
          (res = Inr (BatchSize sp), r\<lparr>rl_broker := b', rl_metrics := m', rl_db := d'\<rparr>))"

text \<open>The first component is whether the loop has returned.\<close>

fun Run_relay :: "'b publisher \<Rightarrow> sending_params \<Rightarrow> relay_round list \<Rightarrow> 'b relay_state \<Rightarrow>
    bool \<times> 'b relay_state" where
  "Run_relay publish sp [] r = (False, r)"
| "Run_relay publish sp (w # ws) r =
     (if done_before w then (True, r)
      else case relay_iteration publish sp (round_env w) r of
             (backlog, r') \<Rightarrow>
               if backlog then Run_relay publish sp ws r'
               else if done_waiting w then (True, r')
               else Run_relay publish sp ws (r'\<lparr>rl_waits := Suc (rl_waits r')\<rparr>))"

section \<open>The Kafka publisher\<close>

text \<open>
  \<^verbatim>\<open>kgo.Record\<close> as the code fills it. Go ranges over a map in an order of its own, the parameter
  \<open>ranged\<close>. The parameter \<open>produce\<close> is \<^verbatim>\<open>client.ProduceSync(ctx, records...).FirstErr()\<close>.
\<close>

record kafka_record =
  k_Key :: string
  k_Value :: string
  k_Headers :: "(string \<times> string) list"

type_synonym 'b producer = "kafka_record list \<Rightarrow> 'b \<Rightarrow> go_error option \<times> 'b"
type_synonym map_order = "(string \<times> string) list \<Rightarrow> (string \<times> string) list"

definition newRecords :: "map_order \<Rightarrow> message list \<Rightarrow> kafka_record list" where
  "newRecords ranged msgs =
     map (\<lambda>m. \<lparr>k_Key = m_Key m, k_Value = m_Value m, k_Headers = ranged (m_Headers m)\<rparr>) msgs"

definition Publish_kafka :: "'b producer \<Rightarrow> map_order \<Rightarrow> 'b publisher" where
  "Publish_kafka produce ranged msgs b = produce (newRecords ranged msgs) b"

end
