(* ===== verification/Relay_Facts.thy ===== *)
theory Relay_Facts
  imports Relay "HOL-Library.Multiset"
begin

text \<open>
  The relay's contract with its publisher, the outcomes of a batch, and that whatever is marked
  published has been delivered.
\<close>

section \<open>Deliveries\<close>

text \<open>What a consumer can read of a message: its key, the two headers and the value.\<close>

type_synonym delivery = "string \<times> string option \<times> string option \<times> string"

definition delivery_of :: "message \<Rightarrow> delivery" where
  "delivery_of m =
     (m_Key m, map_of (m_Headers m) ''event_id'', map_of (m_Headers m) ''event_type'', m_Value m)"

definition delivery_of_record :: "kafka_record \<Rightarrow> delivery" where
  "delivery_of_record r =
     (k_Key r, map_of (k_Headers r) ''event_id'', map_of (k_Headers r) ''event_type'', k_Value r)"

definition delivery_of_row :: "outbox_row \<Rightarrow> delivery" where
  "delivery_of_row r = (o_partition_key r, Some (o_event_id r), Some (o_event_type r), o_payload r)"

definition deliveries :: "outbox_row list \<Rightarrow> message list" where
  "deliveries rows = fst (disassembleEvents (map scan_outbox rows))"

lemma deliveries_rows [simp]: "map delivery_of (deliveries rows) = map delivery_of_row rows"
  by (simp add: deliveries_def disassembleEvents_def delivery_of_def delivery_of_row_def scan_outbox_def)

lemma length_deliveries [simp]: "length (deliveries rows) = length rows"
  by (simp add: deliveries_def disassembleEvents_def)

lemma deliveries_headers: "m \<in> set (deliveries rows) \<Longrightarrow> distinct (map fst (m_Headers m))"
  by (auto simp: deliveries_def disassembleEvents_def)

section \<open>The outcomes of a batch\<close>

definition batch_rows :: "int64 \<Rightarrow> db \<Rightarrow> outbox_row list" where
  "batch_rows n d = take (nat n) (unpublished d)"

definition mark_rows :: "time \<Rightarrow> outbox_row list \<Rightarrow> db \<Rightarrow> db" where
  "mark_rows now rows d = d\<lparr>outbox := map (mark_published now (map o_id rows)) (outbox d)\<rparr>"

text \<open>The only errors a batch can fail with after it published: the publisher's or the driver's.\<close>

definition foreign_error :: "'b publisher \<Rightarrow> int64 \<Rightarrow> db \<Rightarrow> 'b \<Rightarrow> go_error \<Rightarrow> bool" where
  "foreign_error publish n d b e \<longleftrightarrow>
     fst (publish (deliveries (batch_rows n d)) b) = Some e \<or> (\<exists>msg. e = DriverError msg)"

definition attempted :: "'b publisher \<Rightarrow> int64 \<Rightarrow> db \<Rightarrow> 'b \<Rightarrow> 'b \<Rightarrow> bool" where
  "attempted publish n d b b' \<longleftrightarrow>
     b' = b \<or> (batch_rows n d \<noteq> [] \<and> b' = snd (publish (deliveries (batch_rows n d)) b))"

lemma publish_events_cases:
  assumes run: "publish_events (queries env) publish (map scan_outbox rows) b m s = ((cap, err), s')"
  obtains e e' b' where "publish (deliveries rows) b = (e', b')" "err = Some e"
      "e' = Some e \<or> (\<exists>msg. e = DriverError msg)"
      "cap = Some (0, b', observe_duration m)" "s_db s' = s_db s"
    | b' where "publish (deliveries rows) b = (None, b')" "err = None"
      "cap = Some (int (length rows), b', observe_duration m)"
      "s_db s' = mark_rows (tx_now env) rows (s_db s)"
proof (cases "publish (deliveries rows) b")
  case (Pair e0 b')
  have dis: "disassembleEvents (map scan_outbox rows) = (deliveries rows, map o_id rows)"
    by (simp add: deliveries_def disassembleEvents_def scan_outbox_def)
  show thesis
  proof (cases e0)
    case (Some e)
    with run Pair dis show thesis by (auto simp: publish_events_queries intro: that(1))
  next
    case None
    obtain r s1 where mark: "MarkOutboxEventsPublished env (map o_id rows) s = (r, s1)" by fastforce
    show thesis
    proof (cases r)
      case (Inl e)
      with mark have "s_db s1 = s_db s" "\<exists>msg. e = DriverError msg"
        by (auto simp: MarkOutboxEventsPublished_def exec_sql_def Let_def split: option.splits)
      with run Pair None mark Inl dis show thesis by (auto simp: publish_events_queries intro: that(1))
    next
      case (Inr u)
      with mark have "s_db s1 = mark_rows (tx_now env) rows (s_db s)"
        unfolding mark_rows_def by (auto elim: MarkOutboxEventsPublished_InrE)
      with run Pair None mark Inr dis show thesis by (auto simp: publish_events_queries intro: that(2))
    qed
  qed
qed

text \<open>The closure either leaves the tables alone or publishes and marks the batch.\<close>

lemma batch_closure_cases:
  assumes run: "batch_closure (queries env) publish n b m s = ((cap, err), s')"
  obtains sent b' m' where "cap = Some (sent, b', m')" "s_db s' = s_db s"
      "attempted publish n (s_db s) b b'" "err = None \<longrightarrow> sent = 0"
      "b' = b \<or> (\<exists>e. err = Some e \<and> foreign_error publish n (s_db s) b e)"
      "events_published_total m' = events_published_total m"
    | b' where "publish (deliveries (batch_rows n (s_db s))) b = (None, b')" "err = None"
      "batch_rows n (s_db s) \<noteq> []"
      "cap = Some (int (length (batch_rows n (s_db s))), b', observe_duration m)"
      "s_db s' = mark_rows (tx_now env) (batch_rows n (s_db s)) (s_db s)"
proof -
  obtain r1 s1 where 1: "TryLockOutbox env s = (r1, s1)" by fastforce
  then have d1: "s_db s1 = s_db s" by (rule read_onlyD [OF read_only_TryLockOutbox])
  note alone = that(1)
  have idle: thesis if "cap = Some (0, b, m)" "s_db s' = s_db s" "err \<noteq> None"
    using that by (intro alone) (auto simp: attempted_def)
  show thesis
  proof (cases r1)
    case (Inl e)
    with run 1 d1 show thesis by (intro idle) (auto simp: batch_closure_queries)
  next
    case (Inr isOpen)
    show thesis
    proof (cases isOpen)
      case False
      with run 1 d1 Inr show thesis by (intro idle) (auto simp: batch_closure_queries)
    next
      case True
      obtain r2 s2 where 2: "GetUnpublishedOutboxEvents env n s1 = (r2, s2)" by fastforce
      then have d2: "s_db s2 = s_db s"
        using d1 read_onlyD [OF read_only_GetUnpublishedOutboxEvents] by metis
      show thesis
      proof (cases r2)
        case (Inl e)
        with run 1 2 d2 Inr True show thesis by (intro idle) (auto simp: batch_closure_queries)
      next
        case events: (Inr events)
        with 2 d1 have ev: "events = map scan_outbox (batch_rows n (s_db s))"
          by (auto simp: GetUnpublishedOutboxEvents_def batch_rows_def split: if_splits
              dest!: read_sql_InrD)
        show thesis
        proof (cases "batch_rows n (s_db s) = []")
          case empty: True
          with run 1 2 Inr True events ev have "cap = Some (0, b, m)" "err = None" "s' = s2"
            by (auto simp: batch_closure_queries)
          with d2 empty show thesis by (intro that(1)) (auto simp: attempted_def)
        next
          case False
          with run 1 2 Inr True events ev
          have "publish_events (queries env) publish (map scan_outbox (batch_rows n (s_db s))) b m s2
              = ((cap, err), s')"
            by (simp add: batch_closure_queries)
          then show thesis
          proof (cases rule: publish_events_cases)
            case (1 e e' b')
            with d2 False show thesis
              by (intro that(1) [of 0 b' "observe_duration m"]) (auto simp: attempted_def observe_duration_def foreign_error_def)
          next
            case (2 b')
            with d2 False show thesis by (intro that(2)) auto
          qed
        qed
      qed
    qed
  qed
qed

text \<open>
  A call of \<^verbatim>\<open>publishBatch\<close>: nothing was marked (the broker may still have received the batch), or
  the batch was published, marked and counted.
\<close>

definition batch_kept ::
  "'b publisher \<Rightarrow> int64 \<Rightarrow> 'b \<Rightarrow> relay_metrics \<Rightarrow> db \<Rightarrow> int64 result \<times> 'b \<times> relay_metrics \<times> db \<Rightarrow> bool"
where
  "batch_kept publish n b m d out \<longleftrightarrow>
     (case out of (res, b', m', d') \<Rightarrow>
        d' = d \<and> attempted publish n d b b' \<and> 
        (\<forall>k. res = Inr k \<longrightarrow> k = 0 \<and>
           (b' = b \<or> (\<exists>e. foreign_error publish n d b e \<and> errors_Is e (RelayError ErrOutboxLocked)))) \<and>
        events_published_total m' = events_published_total m)"

definition batch_marked ::
  "env \<Rightarrow> 'b publisher \<Rightarrow> int64 \<Rightarrow> 'b \<Rightarrow> relay_metrics \<Rightarrow> db \<Rightarrow>
   int64 result \<times> 'b \<times> relay_metrics \<times> db \<Rightarrow> bool"
where
  "batch_marked env publish n b m d out \<longleftrightarrow>
     (case out of (res, b', m', d') \<Rightarrow>
        publish (deliveries (batch_rows n d)) b = (None, b') \<and> batch_rows n d \<noteq> [] \<and>
        d' = mark_rows (tx_now env) (batch_rows n d) d \<and>
        ((\<exists>msg. res = Inl (DriverError msg)) \<or>
         res = Inr (int (length (batch_rows n d))) \<and>
         events_published_total m' = events_published_total m + int (length (batch_rows n d))))"

lemma mark_rows_tables: "accounts (mark_rows now rows d) = accounts d"
  "transactions (mark_rows now rows d) = transactions d"
  "ledger_entries (mark_rows now rows d) = ledger_entries d"
  by (simp_all add: mark_rows_def)

lemma publishBatch_outcome:
  "batch_kept publish n b m d (publishBatch env publish n b m d) \<or>
   batch_marked env publish n b m d (publishBatch env publish n b m d)"
proof (cases "begin_fault env")
  case (Some msg)
  then have "batch_kept publish n b m d (publishBatch env publish n b m d)"
    by (simp add: publishBatch_def WithTx_def batch_kept_def attempted_def)
  then show ?thesis ..
next
  case begun: None
  obtain cap err s' where run: "batch_closure (queries env) publish n b m (fresh_session d) = ((cap, err), s')"
    by (metis prod.collapse)
  have db [simp]: "s_db (fresh_session d) = d" by (simp add: fresh_session_def)
  from run show ?thesis
  proof (cases rule: batch_closure_cases)
    case (1 sent b' m')
    with run begun have "batch_kept publish n b m d (publishBatch env publish n b m d)"
      by (auto simp: publishBatch_def WithTx_def batch_kept_def attempted_def
          split: option.splits commit_outcome.splits)
    then show ?thesis ..
  next
    case (2 b')
    show ?thesis
    proof (cases "commit_outcome env")
      case Commit_applied
      with 2 run begun have "batch_marked env publish n b m d (publishBatch env publish n b m d)"
        by (simp add: publishBatch_def WithTx_def batch_marked_def observe_duration_def)
      then show ?thesis ..
    next
      case (Commit_failed msg)
      with 2 run begun have "batch_kept publish n b m d (publishBatch env publish n b m d)"
        by (simp add: publishBatch_def WithTx_def batch_kept_def attempted_def observe_duration_def
            restore_def mark_rows_def)
      then show ?thesis ..
    next
      case (Commit_unknown msg)
      with 2 run begun have "batch_marked env publish n b m d (publishBatch env publish n b m d)"
        by (simp add: publishBatch_def WithTx_def batch_marked_def)
      then show ?thesis ..
    qed
  qed
qed

section \<open>The publisher's contract\<close>

text \<open>Everything marked published is in the broker, and the broker has nothing the outbox lacks.\<close>

definition faithful :: "delivery list \<Rightarrow> db \<Rightarrow> bool" where
  "faithful log d \<longleftrightarrow>
     (\<forall>r \<in> set (outbox d). o_published_at r \<noteq> None \<longrightarrow> delivery_of_row r \<in> set log) \<and>
     set log \<subseteq> delivery_of_row ` set (outbox d)"

text \<open>
  Every event was delivered exactly once and, within its key, in the order of the outbox: the
  published rows are a prefix of it and the log of each key is that prefix.
\<close>

definition in_order :: "delivery list \<Rightarrow> db \<Rightarrow> bool" where
  "in_order log d \<longleftrightarrow>
     (\<exists>ps us. outbox d = ps @ us \<and> (\<forall>r \<in> set ps. o_published_at r \<noteq> None) \<and>
        (\<forall>r \<in> set us. o_published_at r = None) \<and>
        (\<forall>k. filter (\<lambda>x. fst x = k) log = filter (\<lambda>x. fst x = k) (map delivery_of_row ps)))"

definition headers_ok :: "message list \<Rightarrow> bool" where
  "headers_ok ms \<longleftrightarrow> (\<forall>m \<in> set ms. distinct (map fst (m_Headers m)))"

lemma headers_ok_deliveries [simp]: "headers_ok (deliveries rows)"
  by (auto simp: headers_ok_def deliveries_headers)

lemma delivery_of_row_mark [simp]: "delivery_of_row (mark_published now ids r) = delivery_of_row r"
  by (simp add: delivery_of_row_def mark_published_def)

lemma delivery_of_row_stamp [simp]: "delivery_of_row (r\<lparr>o_published_at := x\<rparr>) = delivery_of_row r"
  by (simp add: delivery_of_row_def)

lemma o_id_mark [simp]: "o_id (mark_published now ids r) = o_id r"
  by (simp add: mark_published_def)

lemma set_batch_rows: "r \<in> set (batch_rows n d) \<Longrightarrow> r \<in> set (outbox d) \<and> o_published_at r = None"
  by (auto simp: batch_rows_def unpublished_def dest: in_set_takeD)

lemma deliveries_image: "delivery_of ` set (deliveries rows) = delivery_of_row ` set rows"
  using arg_cong [OF deliveries_rows, of set] by (metis set_map)

text \<open>When the published rows are a prefix, a batch is the head of the rest.\<close>

lemma mark_published_other:
  "o_id ` set rs \<inter> set ids = {} \<Longrightarrow> map (mark_published now ids) rs = rs"
  by (induction rs) (auto simp: mark_published_def)

lemma mark_published_all:
  "o_id ` set rs \<subseteq> set ids \<Longrightarrow>
   map (mark_published now ids) rs = map (\<lambda>r. r\<lparr>o_published_at := Some now\<rparr>) rs"
  by (induction rs) (auto simp: mark_published_def)

lemma marked_prefix:
  assumes out: "outbox d = ps @ us" and ps: "\<forall>r \<in> set ps. o_published_at r \<noteq> None"
    and us: "\<forall>r \<in> set us. o_published_at r = None"
    and ids: "sorted_wrt (<) (map o_id (outbox d))"
  shows "batch_rows n d = take (nat n) us \<and>
    outbox (mark_rows now (batch_rows n d) d) = ps @
      map (\<lambda>r. r\<lparr>o_published_at := Some now\<rparr>) (take (nat n) us) @ drop (nat n) us"
proof -
  have "filter (\<lambda>r. o_published_at r = None) (outbox d) = us"
    using ps us by (simp add: out)
  moreover have "sorted (map o_id us)"
    using ids by (simp add: out strict_sorted_iff sorted_wrt_append)
  ultimately have batch: "batch_rows n d = take (nat n) us"
    by (simp add: batch_rows_def unpublished_def sort_key_id_if_sorted)
  define hd_us tl_us where "hd_us = take (nat n) us" and "tl_us = drop (nat n) us"
  then have split: "us = hd_us @ tl_us" by simp
  have "distinct (map o_id (ps @ hd_us @ tl_us))"
    using ids unfolding out split strict_sorted_iff by blast
  then have "o_id ` set ps \<inter> set (map o_id hd_us) = {}" "o_id ` set tl_us \<inter> set (map o_id hd_us) = {}"
    by auto
  then have "outbox (mark_rows now hd_us d) = ps @ map (mark_published now (map o_id hd_us)) hd_us @ tl_us"
    by (simp add: mark_rows_def mark_published_other out split)
  with batch show ?thesis by (simp add: mark_published_all hd_us_def tl_us_def)
qed

text \<open>
  What the relay relies on: a publisher that reports success has delivered every message, after
  what it had delivered before for the same key and in the order given; one that fails may have
  delivered any of them; deliveries are never lost or made up.
\<close>

locale message_publisher =
  fixes publish :: "'b publisher" and log :: "'b \<Rightarrow> delivery list"
  assumes complete: "publish ms b = (None, b') \<Longrightarrow> headers_ok ms \<Longrightarrow>
      filter (\<lambda>x. fst x = k) (log b') =
        filter (\<lambda>x. fst x = k) (log b) @ filter (\<lambda>x. fst x = k) (map delivery_of ms)"
    and durable: "publish ms b = (err, b') \<Longrightarrow> headers_ok ms \<Longrightarrow> set (log b) \<subseteq> set (log b')"
    and honest: "publish ms b = (err, b') \<Longrightarrow> headers_ok ms \<Longrightarrow>
      set (log b') \<subseteq> set (log b) \<union> delivery_of ` set ms"
    and own_errors: "publish ms b = (Some e, b') \<Longrightarrow> \<not> errors_Is e (RelayError ErrOutboxLocked)"
begin

lemma complete_set:
  assumes "publish ms b = (None, b')" "headers_ok ms"
  shows "delivery_of ` set ms \<subseteq> set (log b')"
proof
  fix x
  assume "x \<in> delivery_of ` set ms"
  then have "x \<in> set (filter (\<lambda>y. fst y = fst x) (map delivery_of ms))" by auto
  then have "x \<in> set (filter (\<lambda>y. fst y = fst x) (log b'))"
    using complete [OF assms, of "fst x"] by simp
  then show "x \<in> set (log b')" by simp
qed

lemma faithful_attempt:
  assumes "faithful (log b) d" "publish (deliveries rows) b = (err, b')" "set rows \<subseteq> set (outbox d)"
  shows "faithful (log b') d"
proof -
  have "set (log b) \<subseteq> set (log b')" using assms(2) by (rule durable) simp
  moreover have "set (log b') \<subseteq> set (log b) \<union> delivery_of_row ` set rows"
    using honest [OF assms(2)] by (simp add: deliveries_image)
  moreover have "delivery_of_row ` set rows \<subseteq> delivery_of_row ` set (outbox d)"
    using assms(3) by (rule image_mono)
  ultimately show ?thesis using assms(1) unfolding faithful_def by blast
qed

lemma faithful_marked:
  assumes f: "faithful (log b) d" and pub: "publish (deliveries rows) b = (None, b')"
    and rows: "set rows \<subseteq> set (outbox d)" and ids: "distinct (map o_id (outbox d))"
  shows "faithful (log b') (mark_rows now rows d)"
proof -
  have att: "faithful (log b') d" using f pub rows by (rule faithful_attempt)
  have new: "delivery_of_row r \<in> set (log b')" if "r \<in> set (outbox d)" "o_id r \<in> o_id ` set rows" for r
  proof -
    from that obtain q where q: "q \<in> set rows" "o_id r = o_id q" by blast
    with that rows ids have "r = q" by (auto simp: distinct_map dest: inj_onD)
    with q complete_set [OF pub headers_ok_deliveries] show ?thesis by (auto simp: deliveries_image)
  qed
  have "delivery_of_row ` set (outbox (mark_rows now rows d)) = delivery_of_row ` set (outbox d)"
    by (simp add: mark_rows_def image_image)
  moreover have "delivery_of_row r \<in> set (log b')"
    if "r \<in> set (outbox (mark_rows now rows d))" "o_published_at r \<noteq> None" for r
    using that att new
    by (auto simp: mark_rows_def mark_published_def faithful_def split: if_splits)
  ultimately show ?thesis using att by (simp add: faithful_def)
qed

text \<open>Whatever happens to a batch, nothing is marked that was not delivered.\<close>

lemma batch_faithful:
  assumes f: "faithful (log b) d" and ids: "distinct (map o_id (outbox d))"
    and run: "publishBatch env publish n b m d = (res, b', m', d')"
  shows "faithful (log b') d'"
  using publishBatch_outcome [of publish n b m d env]
proof
  assume "batch_kept publish n b m d (publishBatch env publish n b m d)"
  then have same: "outbox d' = outbox d" and att: "attempted publish n d b b'"
    by (auto simp: run batch_kept_def)
  from att have "faithful (log b') d"
  proof (unfold attempted_def, elim disjE conjE)
    assume "b' = snd (publish (deliveries (batch_rows n d)) b)"
    then show ?thesis
      by (intro faithful_attempt [OF f, of "batch_rows n d" "fst (publish (deliveries (batch_rows n d)) b)"])
        (auto dest: set_batch_rows)
  qed (use f in simp)
  with same show ?thesis by (simp add: faithful_def)
next
  assume "batch_marked env publish n b m d (publishBatch env publish n b m d)"
  then have "publish (deliveries (batch_rows n d)) b = (None, b')"
    "d' = mark_rows (tx_now env) (batch_rows n d) d"
    by (auto simp: run batch_marked_def)
  with f ids show ?thesis by (auto intro!: faithful_marked dest: set_batch_rows)
qed

lemma batch_in_order:
  assumes ord: "in_order (log b) d" and ids: "sorted_wrt (<) (map o_id (outbox d))"
    and run: "publishBatch env publish n b m d = (Inr k, b', m', d')"
  shows "in_order (log b') d'"
  using publishBatch_outcome [of publish n b m d env]
proof
  assume kept: "batch_kept publish n b m d (publishBatch env publish n b m d)"
  then have "b' = b" using own_errors
    by (auto simp: run batch_kept_def foreign_error_def) (metis prod.collapse)
  moreover from kept have "outbox d' = outbox d" by (simp add: run batch_kept_def)
  ultimately show ?thesis using ord by (simp add: in_order_def)
next
  assume "batch_marked env publish n b m d (publishBatch env publish n b m d)"
  then have pub: "publish (deliveries (batch_rows n d)) b = (None, b')"
    and d': "d' = mark_rows (tx_now env) (batch_rows n d) d"
    by (auto simp: run batch_marked_def)
  from ord obtain ps us where out: "outbox d = ps @ us" and ps: "\<forall>r \<in> set ps. o_published_at r \<noteq> None"
    and us: "\<forall>r \<in> set us. o_published_at r = None"
    and log: "\<And>k. filter (\<lambda>x. fst x = k) (log b) = filter (\<lambda>x. fst x = k) (map delivery_of_row ps)"
    unfolding in_order_def by blast
  have batch: "batch_rows n d = take (nat n) us" and rest: "outbox d' = ps @
      map (\<lambda>r. r\<lparr>o_published_at := Some (tx_now env)\<rparr>) (take (nat n) us) @ drop (nat n) us"
    unfolding d' using marked_prefix [OF out ps us ids, of n "tx_now env"] by blast+
  show ?thesis
    unfolding in_order_def
  proof (intro exI conjI allI)
    let ?ps = "ps @ map (\<lambda>r. r\<lparr>o_published_at := Some (tx_now env)\<rparr>) (take (nat n) us)"
    show "outbox d' = ?ps @ drop (nat n) us" using rest by simp
    show "\<forall>r \<in> set ?ps. o_published_at r \<noteq> None" using ps by auto
    show "\<forall>r \<in> set (drop (nat n) us). o_published_at r = None" using us by (auto dest: in_set_dropD)
    show "filter (\<lambda>x. fst x = k) (log b') = filter (\<lambda>x. fst x = k) (map delivery_of_row ?ps)" for k
      using complete [OF pub headers_ok_deliveries, of k] log [of k]
      by (simp add: batch comp_def)
  qed
qed

end

section \<open>The Kafka client\<close>

text \<open>
  The documented behaviour of \<^verbatim>\<open>ProduceSync\<close>: when no record has an error, all are in the log,
  those of one key (hence of one partition) in the order they were given; a record with an error
  may or may not be there. Go's \<^verbatim>\<open>range\<close> visits every pair of a map once, and the client's errors are not the relay's sentinel.
\<close>

locale kafka_client =
  fixes produce :: "'b producer" and ranged :: map_order and records :: "'b \<Rightarrow> kafka_record list"
  assumes acked: "produce rs b = (None, b') \<Longrightarrow>
      filter (\<lambda>r. k_Key r = k) (records b') =
        filter (\<lambda>r. k_Key r = k) (records b) @ filter (\<lambda>r. k_Key r = k) rs"
    and retained: "produce rs b = (err, b') \<Longrightarrow> set (records b) \<subseteq> set (records b')"
    and genuine: "produce rs b = (err, b') \<Longrightarrow> set (records b') \<subseteq> set (records b) \<union> set rs"
    and client_errors: "produce rs b = (Some e, b') \<Longrightarrow> \<not> errors_Is e (RelayError ErrOutboxLocked)"
    and ranged_perm: "mset (ranged hs) = mset hs"
begin

lemma ranged_lookup:
  assumes "distinct (map fst hs)"
  shows "map_of (ranged hs) = map_of hs"
proof (rule map_of_eqI)
  show "set (map fst (ranged hs)) = set (map fst hs)"
    using ranged_perm [of hs] by (metis set_map set_mset_mset)
  have "distinct (map fst (ranged hs))"
    using assms ranged_perm [of hs] by (metis mset_map mset_eq_imp_distinct_iff)
  with assms show "\<forall>k\<in>set (map fst (ranged hs)). map_of (ranged hs) k = map_of hs k"
    using ranged_perm [of hs] by (metis map_of_inject_set set_mset_mset)
qed

lemma deliveries_of_newRecords:
  "headers_ok ms \<Longrightarrow> map delivery_of_record (newRecords ranged ms) = map delivery_of ms"
  by (auto simp: newRecords_def delivery_of_record_def delivery_of_def headers_ok_def ranged_lookup)

end

lemma filter_delivery_of_record:
  "filter (\<lambda>x. fst x = k) (map delivery_of_record rs) =
     map delivery_of_record (filter (\<lambda>r. k_Key r = k) rs)"
  by (simp add: filter_map comp_def delivery_of_record_def)

sublocale kafka_client \<subseteq> message_publisher "Publish_kafka produce ranged" "\<lambda>b. map delivery_of_record (records b)"
proof unfold_locales
  fix ms b b' k
  assume run: "Publish_kafka produce ranged ms b = (None, b')" and h: "headers_ok ms"
  then show "filter (\<lambda>x. fst x = k) (map delivery_of_record (records b')) =
      filter (\<lambda>x. fst x = k) (map delivery_of_record (records b)) @
      filter (\<lambda>x. fst x = k) (map delivery_of ms)"
    by (simp add: Publish_kafka_def deliveries_of_newRecords [OF h, symmetric]
        filter_delivery_of_record acked)
next
  fix ms b err b'
  assume run: "Publish_kafka produce ranged ms b = (err, b')" and h: "headers_ok ms"
  then show "set (map delivery_of_record (records b)) \<subseteq> set (map delivery_of_record (records b'))"
    by (auto simp: Publish_kafka_def dest: retained)
  have "delivery_of_record ` set (newRecords ranged ms) = delivery_of ` set ms"
    using arg_cong [OF deliveries_of_newRecords [OF h], of set] by (metis set_map)
  moreover have "delivery_of_record ` set (records b') \<subseteq>
      delivery_of_record ` (set (records b) \<union> set (newRecords ranged ms))"
    using run by (intro image_mono genuine) (simp add: Publish_kafka_def)
  ultimately show "set (map delivery_of_record (records b')) \<subseteq>
      set (map delivery_of_record (records b)) \<union> delivery_of ` set ms"
    by (simp add: image_Un)
next
  fix ms b e b'
  assume "Publish_kafka produce ranged ms b = (Some e, b')"
  then show "\<not> errors_Is e (RelayError ErrOutboxLocked)"
    by (simp add: Publish_kafka_def) (rule client_errors)
qed

context kafka_client begin

lemma publisher_contract:
  "message_publisher (Publish_kafka produce ranged) (\<lambda>b. map delivery_of_record (records b))"
  by (rule message_publisher_axioms)

end

end
