(* ===== verification/Evolution.thy ===== *)
theory Evolution
  imports Effects Relay_Facts
begin

text \<open>
  The system over time: clients call the service's operations, the relay publishes batches, each
  in an environment of its own, and the database and the broker are what they share. Transactions
  take effect one after another, in the order in which they commit.
\<close>

section \<open>Steps\<close>

record 'b world =
  w_db :: db
  w_broker :: 'b
  w_metrics :: relay_metrics

datatype action =
    Serve env request
  | Read_balance env int64
  | Read_history env int64 int64 int64
  | Publish_batch env

fun act :: "'b publisher \<Rightarrow> int64 \<Rightarrow> action \<Rightarrow> 'b world \<Rightarrow> 'b world" where
  "act publish n (Serve env req) w = w\<lparr>w_db := snd (serve env req (w_db w))\<rparr>"
| "act publish n (Read_balance env i) w = w\<lparr>w_db := snd (AccountBalance env i (w_db w))\<rparr>"
| "act publish n (Read_history env i limit before) w =
     w\<lparr>w_db := snd (AccountTransactionsHistory env i limit before (w_db w))\<rparr>"
| "act publish n (Publish_batch env) w =
     (case publishBatch env publish n (w_broker w) (w_metrics w) (w_db w) of
        (_, b, m, d) \<Rightarrow> w\<lparr>w_db := d, w_broker := b, w_metrics := m\<rparr>)"

fun action_typed :: "action \<Rightarrow> bool" where
  "action_typed (Serve env req) = typed req"
| "action_typed _ = True"

text \<open>The states reachable by actions from a starting state.\<close>

inductive reachable :: "'b publisher \<Rightarrow> int64 \<Rightarrow> 'b world \<Rightarrow> 'b world \<Rightarrow> bool"
  for publish n w0
where
  start: "reachable publish n w0 w0"
| action: "reachable publish n w0 w \<Longrightarrow> action_typed a \<Longrightarrow> reachable publish n w0 (act publish n a w)"

inductive_cases reachable_stepE: "reachable publish n w0 w"

text \<open>A database the migrations have just set up: accounts, and nothing else.\<close>

definition genesis :: "db \<Rightarrow> bool" where
  "genesis d \<longleftrightarrow>
     transactions d = [] \<and> ledger_entries d = [] \<and> outbox d = [] \<and>
     distinct (map a_id (accounts d)) \<and>
     0 \<le> transactions_seq d \<and> 0 \<le> ledger_entries_seq d \<and> 0 \<le> outbox_seq d"

lemma genesis_ledger_inv: "genesis d \<Longrightarrow> ledger_inv d"
  by (simp add: genesis_def ledger_inv_def ledger_base_def double_entry_def ids_ok_def ids_below_def
      keys_ok_def reversal_links_def reversal_marks_def)

section \<open>Reading leaves the tables alone\<close>

lemma read_only_run:
  assumes "read_only m" and "WithTx env (capture m) d = (r, d')"
  shows "d' = d"
proof -
  obtain x s' where run: "m (fresh_session d) = (x, s')" by fastforce
  then have "s_db s' = d" using assms(1) by (auto dest: read_onlyD simp: fresh_session_def)
  with run assms(2) show ?thesis
    by (auto simp: WithTx_def capture_def split: option.splits sum.splits commit_outcome.splits)
qed

lemma read_only_not_found_as [query_reads]: "read_only (not_found_as e err)"
  unfolding not_found_as_def by (intro query_reads)

lemma AccountBalance_reads: "snd (AccountBalance env i d) = d"
proof -
  have ro: "read_only (account_balance_closure (queries env) i)"
    unfolding account_balance_closure_queries by (intro query_reads)
  obtain r d' where run: "WithTx env (capture (account_balance_closure (queries env) i)) d = (r, d')"
    by fastforce
  with ro have "d' = d" by (rule read_only_run)
  with run show ?thesis by (auto simp: AccountBalance_def split: prod.splits option.splits)
qed

lemma AccountTransactionsHistory_reads: "snd (AccountTransactionsHistory env i limit before d) = d"
proof -
  have ro: "read_only (history_closure (queries env) i (clamp_limit limit) before)"
    unfolding history_closure_queries by (intro query_reads)
  obtain r d' where run: "WithTx env (capture (history_closure (queries env) i (clamp_limit limit) before)) d = (r, d')"
    by fastforce
  with ro have "d' = d" by (rule read_only_run)
  with run show ?thesis
    by (auto simp: AccountTransactionsHistory_def Let_def split: prod.splits option.splits)
qed

section \<open>Batches and the ledger\<close>

lemma ledger_inv_outbox:
  assumes "ledger_inv d" "accounts d' = accounts d" "transactions d' = transactions d"
    "ledger_entries d' = ledger_entries d" "map o_id (outbox d') = map o_id (outbox d)" "seq_le d d'"
  shows "ledger_inv d'"
proof -
  have "account_of d' = account_of d" using assms(2) by (simp add: account_of_def fun_eq_iff)
  then have "tx_ok d' t = tx_ok d t" for t by (simp add: tx_ok_def)
  with assms show ?thesis
    by (auto simp: ledger_inv_def ledger_base_def double_entry_def ids_ok_def keys_ok_def
        reversal_links_def reversal_marks_def seq_le_def intro: ids_below_mono)
qed

lemma mark_rows_sel [simp]:
  "accounts (mark_rows now rows d) = accounts d" "transactions (mark_rows now rows d) = transactions d"
  "ledger_entries (mark_rows now rows d) = ledger_entries d"
  "map o_id (outbox (mark_rows now rows d)) = map o_id (outbox d)"
  "transactions_seq (mark_rows now rows d) = transactions_seq d"
  "ledger_entries_seq (mark_rows now rows d) = ledger_entries_seq d"
  "outbox_seq (mark_rows now rows d) = outbox_seq d"
  by (simp_all add: mark_rows_def comp_def)

lemma publishBatch_keeps_inv:
  assumes inv: "ledger_inv d" and run: "publishBatch env publish n b m d = (res, b', m', d')"
  shows "ledger_inv d'"
  using publishBatch_outcome [of publish n b m d env]
proof
  assume "batch_kept publish n b m d (publishBatch env publish n b m d)"
  with inv show ?thesis by (simp add: run batch_kept_def)
next
  assume "batch_marked env publish n b m d (publishBatch env publish n b m d)"
  then have "d' = mark_rows (tx_now env) (batch_rows n d) d" by (simp add: run batch_marked_def)
  with inv show ?thesis by (auto intro!: ledger_inv_outbox [OF inv] simp: seq_le_def)
qed

lemma act_keeps_inv: "ledger_inv (w_db w) \<Longrightarrow> action_typed a \<Longrightarrow> ledger_inv (w_db (act publish n a w))"
  by (cases a)
    (auto simp: AccountBalance_reads AccountTransactionsHistory_reads split: prod.splits
      intro: publishBatch_keeps_inv serve_keeps_inv [OF _ _ surjective_pairing])

lemma reachable_inv: "reachable publish n w0 w \<Longrightarrow> ledger_inv (w_db w0) \<Longrightarrow> ledger_inv (w_db w)"
  by (induction rule: reachable.induct) (simp_all add: act_keeps_inv)

section \<open>Histories without reversals\<close>

fun reversal_free :: "action \<Rightarrow> bool" where
  "reversal_free (Serve env req) = (\<not> is_reversal req)"
| "reversal_free _ = True"

lemma publishBatch_keeps_tables:
  assumes run: "publishBatch env publish n b m d = (res, b', m', d')"
  shows "accounts d' = accounts d \<and> transactions d' = transactions d \<and> ledger_entries d' = ledger_entries d"
  using publishBatch_outcome [of publish n b m d env]
  by (auto simp: run batch_kept_def batch_marked_def)

lemma act_keeps_solvent:
  assumes "ledger_inv (w_db w)" "action_typed a" "reversal_free a" "solvent (w_db w)"
  shows "solvent (w_db (act publish n a w))"
proof (cases a)
  case (Serve env req)
  obtain out d' where run: "serve env req (w_db w) = (out, d')" by fastforce
  show ?thesis
    using serve_keeps_solvent [OF run assms(1)] assms Serve by (simp add: run)
next
  case (Publish_batch env)
  obtain res b' m' d' where
    run: "publishBatch env publish n (w_broker w) (w_metrics w) (w_db w) = (res, b', m', d')"
    by (metis prod_cases4)
  from publishBatch_keeps_tables [OF run] have "balance_of d' = balance_of (w_db w)"
    by (intro balance_of_cong) simp
  with publishBatch_keeps_tables [OF run] assms(4) show ?thesis
    by (simp add: Publish_batch run solvent_def)
qed (use assms in \<open>simp_all add: AccountBalance_reads AccountTransactionsHistory_reads\<close>)

lemma history_solvent:
  assumes "ledger_inv (w_db w)" "solvent (w_db w)" "\<forall>a \<in> set as. action_typed a \<and> reversal_free a"
  shows "solvent (w_db (fold (act publish n) as w))"
  using assms
proof (induction as arbitrary: w)
  case (Cons a as)
  have "ledger_inv (w_db (act publish n a w))" using Cons.prems by (intro act_keeps_inv) auto
  moreover have "solvent (w_db (act publish n a w))" using Cons.prems by (intro act_keeps_solvent) auto
  ultimately show ?case using Cons.prems(3) by (simp add: Cons.IH)
qed simp

lemma genesis_solvent: "genesis d \<Longrightarrow> solvent d"
  by (simp add: genesis_def solvent_def balance_of_def)

end
