(* ===== verification/Samples.thy ===== *)
theory Samples
  imports Decision Evolution
begin

text \<open>
  A small concrete ledger and concrete environments on which the properties are instantiated: two
  user accounts and a foreign one, and the system accounts through which money enters and leaves.
\<close>

definition noon :: time where
  "noon = \<lparr>unix_nanos = 1700000000000000000, zone_secs = 0\<rparr>"

definition quiet_env :: env where
  "quiet_env = \<lparr>stmt_fault = (\<lambda>_. None), begin_fault = None, commit_outcome = Commit_applied,
     tx_now = noon, gen_uuid = FormatInt, jsonb_text = Some, advisory_lock_free = True\<rparr>"

text \<open>The commit is applied, but the client's context expires before it hears so.\<close>

definition lost_commit_env :: env where
  "lost_commit_env = quiet_env\<lparr>commit_outcome := Commit_unknown ''context deadline exceeded''\<rparr>"

text \<open>The connection is lost at the statement with that number.\<close>

definition faulty_env :: "nat \<Rightarrow> env" where
  "faulty_env n = quiet_env\<lparr>stmt_fault := (\<lambda>i. if i = n then Some ''conn closed'' else None)\<rparr>"

definition user_account :: "int64 \<Rightarrow> string \<Rightarrow> account_row" where
  "user_account i currency =
     \<lparr>a_id = i, a_owner = ''u'', a_currency = currency, a_type = ''user'', a_code = None,
      a_created_at = noon\<rparr>"

definition system_account :: "int64 \<Rightarrow> string \<Rightarrow> string \<Rightarrow> account_row" where
  "system_account i code currency =
     \<lparr>a_id = i, a_owner = ''system'', a_currency = currency, a_type = ''system'',
      a_code = Some code, a_created_at = noon\<rparr>"

definition bank_accounts :: "account_row list" where
  "bank_accounts = [system_account 1 ''ATM_IN_USD'' ''USD'', system_account 2 ''ATM_OUT_USD'' ''USD'',
     user_account 3 ''USD'', user_account 4 ''USD'', user_account 5 ''RUB'', user_account 6 ''USD'']"

definition bank_db :: db where
  "bank_db = \<lparr>accounts = bank_accounts, transactions = [], ledger_entries = [], outbox = [],
     transactions_seq = 0, ledger_entries_seq = 0, outbox_seq = 0\<rparr>"

text \<open>Account 3 has received 100 and sent 30 of it to account 4.\<close>

definition sample_transaction ::
  "int64 \<Rightarrow> string \<Rightarrow> int64 \<Rightarrow> int64 \<Rightarrow> int64 \<Rightarrow> string \<Rightarrow> transaction_row" where
  "sample_transaction i k a b n ty =
     \<lparr>t_id = i, t_idempotency_key = k, t_status = ''completed'', t_created_at = noon,
      t_source_id = a, t_destination_id = b, t_amount = n, t_type = ty, t_reversal_of = None\<rparr>"

definition sample_entry :: "int64 \<Rightarrow> int64 \<Rightarrow> int64 \<Rightarrow> int64 \<Rightarrow> ledger_entry_row" where
  "sample_entry i t a n =
     \<lparr>l_id = i, l_transaction_id = t, l_account_id = a, l_amount = n, l_created_at = noon\<rparr>"

definition sample_event :: "int64 \<Rightarrow> string \<Rightarrow> time option \<Rightarrow> outbox_row" where
  "sample_event i k published =
     \<lparr>o_id = i, o_event_id = FormatInt i, o_event_type = ''entry.posted'', o_partition_key = k,
      o_payload = ''{}'', o_created_at = noon, o_published_at = published\<rparr>"

definition funded_db :: db where
  "funded_db = \<lparr>accounts = bank_accounts,
     transactions = [sample_transaction 1 ''k1'' 1 3 100 ''deposit''],
     ledger_entries = [sample_entry 1 1 1 (-100), sample_entry 2 1 3 100],
     outbox = [sample_event 1 ''3'' (Some noon), sample_event 2 ''1'' None],
     transactions_seq = 1, ledger_entries_seq = 2, outbox_seq = 2\<rparr>"

definition moved_db :: db where
  "moved_db = \<lparr>accounts = bank_accounts,
     transactions = [sample_transaction 1 ''k1'' 1 3 100 ''deposit'',
                     sample_transaction 2 ''k2'' 3 4 30 ''transfer''],
     ledger_entries = [sample_entry 1 1 1 (-100), sample_entry 2 1 3 100,
                       sample_entry 3 2 3 (-30), sample_entry 4 2 4 30],
     outbox = [sample_event 1 ''3'' (Some noon), sample_event 2 ''1'' None,
               sample_event 3 ''4'' None, sample_event 4 ''3'' None],
     transactions_seq = 2, ledger_entries_seq = 4, outbox_seq = 4\<rparr>"

lemma quiet_env_healthy [simp]: "healthy quiet_env"
  by (simp add: healthy_def quiet_env_def)

lemma quiet_env_definite [simp]: "definite quiet_env" "definite (faulty_env n)"
  by (simp_all add: definite_def quiet_env_def faulty_env_def)

lemma bank_db_genesis [simp]: "genesis bank_db"
  by code_simp

lemma funded_db_inv [simp]: "ledger_inv funded_db"
  by code_simp

lemma moved_db_inv [simp]: "ledger_inv moved_db"
  by code_simp

lemma noon_text: "\<exists>x. rfc3339 noon = Inr x"
proof -
  have "case rfc3339 noon of Inr _ \<Rightarrow> True | Inl _ \<Rightarrow> False" by code_simp
  then show ?thesis by (auto split: sum.splits)
qed

lemma moved_db_balance:
  "balance_of moved_db i = (if i = 1 then - 100 else if i = 3 then 70 else if i = 4 then 30 else 0)"
  by (simp add: balance_of_def moved_db_def sample_entry_def)

lemma quiet_documents [simp]: "takes_documents quiet_env d"
  by (simp add: takes_documents_def quiet_env_def)

lemma ready_moved_db [simp]: "ready quiet_env moved_db"
proof -
  have "gen_uuid quiet_env (outbox_seq moved_db + 1) \<notin> o_event_id ` set (outbox moved_db)"
    "gen_uuid quiet_env (outbox_seq moved_db + 2) \<notin> o_event_id ` set (outbox moved_db)"
    "gen_uuid quiet_env (outbox_seq moved_db + 2) \<noteq> gen_uuid quiet_env (outbox_seq moved_db + 1)"
    by code_simp+
  moreover have "in_int64 (balance_of moved_db i)" for i
    by (simp add: moved_db_balance in_int64_def)
  ultimately show ?thesis
    using noon_text by (simp add: ready_def) (simp add: quiet_env_def moved_db_def)
qed

text \<open>A transfer of 30 from account 3 to account 4, decided without running the statements.\<close>

definition sample_params :: "int64 \<Rightarrow> transfer_params" where
  "sample_params n = \<lparr>p_From = 3, p_To = 4, p_Amount = n, p_Type = TxTypeTransfer,
     p_IdempotencyKey = ''k3'', p_ReversalOf = None\<rparr>"

lemma sample_transfer:
  "serve quiet_env (Transfer_req 3 4 30 ''k3'') moved_db =
     ((Some (newResult (created_transaction quiet_env (sample_params 30) moved_db)), None),
      post quiet_env (sample_params 30) ''USD'' moved_db)"
proof -
  have "transfer_verdict moved_db (sample_params 30) = Post"
    and "currency_of moved_db (p_From (sample_params 30)) = ''USD''" by code_simp+
  with Transfer_settles [OF ready_moved_db sample_params_def [of 30]] show ?thesis
    by (simp add: settles_def)
qed

text \<open>
  A ledger driven to the edge: account 3 received the largest amount, sent it on, and its deposit
  was reversed.
\<close>

definition edge_db :: db where
  "edge_db = \<lparr>accounts = bank_accounts,
     transactions = [(sample_transaction 1 ''k1'' 1 3 MaxInt64 ''deposit'')\<lparr>t_status := ''reversed''\<rparr>,
                     sample_transaction 2 ''k2'' 3 4 MaxInt64 ''transfer'',
                     (sample_transaction 3 ''k4'' 3 1 MaxInt64 ''reversal'')\<lparr>t_reversal_of := Some 1\<rparr>],
     ledger_entries = [sample_entry 1 1 1 (- MaxInt64), sample_entry 2 1 3 MaxInt64,
                       sample_entry 3 2 3 (- MaxInt64), sample_entry 4 2 4 MaxInt64,
                       sample_entry 5 3 3 (- MaxInt64), sample_entry 6 3 1 MaxInt64],
     outbox = [], transactions_seq = 3, ledger_entries_seq = 6, outbox_seq = 0\<rparr>"

lemma edge_db_balance:
  "balance_of edge_db i = (if i = 3 then - MaxInt64 else if i = 4 then MaxInt64 else 0)"
  by (simp add: balance_of_def edge_db_def sample_entry_def)

lemma edge_db_inv [simp]: "ledger_inv edge_db"
  by code_simp

lemma ready_edge_db [simp]: "ready quiet_env edge_db"
proof -
  have "gen_uuid quiet_env (outbox_seq edge_db + 2) \<noteq> gen_uuid quiet_env (outbox_seq edge_db + 1)"
    by code_simp
  moreover have "in_int64 (balance_of edge_db i)" for i
    by (simp add: edge_db_balance in_int64_def)
  ultimately show ?thesis
    using noon_text by (simp add: ready_def) (simp add: quiet_env_def edge_db_def)
qed

text \<open>Account 4 has sent account 3 the 30 back.\<close>

definition returned_db :: db where
  "returned_db = moved_db\<lparr>
     transactions := transactions moved_db @ [sample_transaction 3 ''k5'' 4 3 30 ''transfer''],
     ledger_entries := ledger_entries moved_db @ [sample_entry 5 3 4 (-30), sample_entry 6 3 3 30],
     transactions_seq := 3, ledger_entries_seq := 6\<rparr>"

lemma returned_db_balance:
  "balance_of returned_db i = (if i = 1 then - 100 else if i = 3 then 100 else 0)"
  by (simp add: balance_of_def returned_db_def moved_db_def sample_entry_def)

lemma returned_db_inv [simp]: "ledger_inv returned_db"
  by code_simp

lemma ready_returned_db [simp]: "ready quiet_env returned_db"
proof -
  have "gen_uuid quiet_env (outbox_seq returned_db + 1) \<notin> o_event_id ` set (outbox returned_db)"
    "gen_uuid quiet_env (outbox_seq returned_db + 2) \<notin> o_event_id ` set (outbox returned_db)"
    "gen_uuid quiet_env (outbox_seq returned_db + 2) \<noteq> gen_uuid quiet_env (outbox_seq returned_db + 1)"
    by code_simp+
  moreover have "in_int64 (balance_of returned_db i)" for i
    by (simp add: returned_db_balance in_int64_def)
  ultimately show ?thesis
    using noon_text by (simp add: ready_def) (simp add: quiet_env_def returned_db_def moved_db_def)
qed

end
