(* ===== verification/Ledger_Properties.thy ===== *)
theory Ledger_Properties
  imports Samples
begin

text \<open>
  The properties of the ledger as a whole: its invariant over every history of the system,
  conservation of money, refinement of the abstract ledger, atomicity, retries and solvency.
\<close>

section \<open>Histories\<close>

text \<open>A broker that keeps the records in memory, for the instances.\<close>

definition memory_produce :: "kafka_record list producer" where
  "memory_produce rs b = (None, b @ rs)"

interpretation memory: kafka_client memory_produce rev "\<lambda>b. b"
  by unfold_locales (auto simp: memory_produce_def)

definition memory_publish :: "kafka_record list publisher" where
  "memory_publish = Publish_kafka memory_produce rev"

definition no_metrics :: relay_metrics where
  "no_metrics = \<lparr>events_published_total = 0, batch_errors_total = 0, publish_durations = 0\<rparr>"

definition world_of :: "db \<Rightarrow> kafka_record list world" where
  "world_of d = \<lparr>w_db = d, w_broker = [], w_metrics = no_metrics\<rparr>"

lemma w_db_world_of [simp]: "w_db (world_of d) = d"
  by (simp add: world_of_def)

text \<open>
  C1: Whatever clients ask for and the relay publishes, in whatever order, with whatever statement
  faults, failed commits and commits of unknown outcome: every reachable database is a well-formed
  double-entry ledger (ids ascending and below their sequences, one pair of opposite entries per
  transaction in the order of the transactions, unique idempotency keys, resolved references with
  equal currencies, positive amounts, at most one reversal per transaction, and every reversed
  transaction marked).
\<close>

theorem reachable_ledger_inv:
  assumes "reachable publish n w0 w" "genesis (w_db w0)"
  shows "ledger_inv (w_db w)"
  using assms genesis_ledger_inv reachable_inv by blast

theorem reachable_ledger_inv_witness:
  "ledger_inv (w_db (act memory_publish 10 (Publish_batch quiet_env)
     (act memory_publish 10 (Serve quiet_env (Deposit_req 3 100 ''ATM'' ''k1'')) (world_of bank_db))))"
  by (rule reachable_ledger_inv [OF reachable.action [OF reachable.action [OF reachable.start]]])
    (simp_all add: in_int64_def)

section \<open>Conservation\<close>

text \<open>
  C2: Money is neither made nor lost: in every reachable database the ledger entries sum to zero,
  the balances of all accounts sum to zero, and the balance of each account is the sum of the
  effects of its transactions.
\<close>

theorem money_conserved:
  assumes "reachable publish n w0 w" "genesis (w_db w0)"
  shows "(\<Sum>l\<leftarrow>ledger_entries (w_db w). l_amount l) = 0 \<and>
    (\<Sum>a\<leftarrow>accounts (w_db w). balance_of (w_db w) (a_id a)) = 0 \<and>
    (\<forall>i. balance_of (w_db w) i = (\<Sum>t\<leftarrow>transactions (w_db w). net_effect i t))"
proof -
  have base: "ledger_base (w_db w)"
    using reachable_inv [OF assms(1)] genesis_ledger_inv [OF assms(2)] by (simp add: ledger_inv_def)
  then have "double_entry (w_db w)" by (simp add: ledger_base_def)
  with balances_sum_zero [OF base] show ?thesis
    using entries_sum_zero balance_of_transactions by blast
qed

theorem money_conserved_witness:
  "(\<Sum>l\<leftarrow>ledger_entries (w_db (act memory_publish 10
      (Serve quiet_env (Deposit_req 3 100 ''ATM'' ''k1'')) (world_of bank_db))). l_amount l) = 0"
  by (rule conjunct1 [OF money_conserved [OF reachable.action [OF reachable.start]]])
    (simp_all add: in_int64_def)

section \<open>Refinement\<close>

text \<open>
  C3: Refinement of the abstract ledger (a balance per account and the arguments each idempotency
  key was first used with): whatever its environment, a request either changes nothing a client
  can observe there, or makes exactly one posting of the transfer it stands for, under a key that
  was unused. So no run applies a posting partially, twice, or under a used key.
\<close>

theorem serve_refines_ledger:
  assumes "serve env req d = ((res, err), d')" "ledger_inv d" "typed req"
  shows "abs_ledger d' = abs_ledger d \<or>
    (\<exists>p. stands_for req d p \<and> sp_keys (abs_ledger d) (p_IdempotencyKey p) = None \<and>
       abs_ledger d' = spec_post p (abs_ledger d))"
proof -
  have base: "ledger_base d" using assms(2) by (simp add: ledger_inv_def)
  show ?thesis
    by (rule served.refines [OF assms(1) base bounded_stands_for [OF base assms(3)]])
qed

theorem serve_refines_ledger_witness:
  "let req = Transfer_req 3 4 30 ''k3''; d' = snd (serve (faulty_env 6) req moved_db)
   in abs_ledger d' = abs_ledger moved_db \<or>
    (\<exists>p. stands_for req moved_db p \<and> sp_keys (abs_ledger moved_db) (p_IdempotencyKey p) = None \<and>
       abs_ledger d' = spec_post p (abs_ledger moved_db))"
  unfolding Let_def
  by (rule serve_refines_ledger [of "faulty_env 6" _ _ "fst (fst (serve (faulty_env 6) (Transfer_req 3 4 30 ''k3'') moved_db))"
        "snd (fst (serve (faulty_env 6) (Transfer_req 3 4 30 ''k3'') moved_db))"])
    (simp_all add: in_int64_def del: serve.simps)

text \<open>
  C5: A transfer, deposit or withdrawal that reports success and is no replay has moved exactly its
  amount: the source's balance falls and the destination's rises by it, every other balance and
  every existing row stays, and the response describes the one transaction that was added.
\<close>

theorem success_moves_amount:
  assumes "serve env req d = ((Some r, None), d')" "\<not> r_Replayed r" "ledger_inv d" "typed req"
    "\<forall>txid key. req \<noteq> Reverse_req txid key"
  shows "\<exists>p t. stands_for req d p \<and> balance_of d' = moved p (balance_of d) \<and>
    accounts d' = accounts d \<and> transactions d' = transactions d @ [t] \<and>
    r = newResult (scan_transaction t) \<and>
    t_source_id t = p_From p \<and> t_destination_id t = p_To p \<and> t_amount t = p_Amount p \<and>
    t_type t = p_Type p \<and> t_idempotency_key t = request_key req \<and> t_status t = txStatusCompleted"
proof -
  have base: "ledger_base d" using assms(3) by (simp add: ledger_inv_def)
  then have bnd: "bounded (stands_for req) d" using assms(4) by (rule bounded_stands_for)
  from assms(1,2) obtain p w where p: "stands_for req d p" "posts env p d w"
    "d' = finish req (posted_db env p (credit_doc w) (debit_doc w) d)"
    "r = newResult (created_transaction env p d)" by (rule served.fresh_success)
  have fin: "finish req x = x" for x using assms(5) by (cases req) auto
  show ?thesis
  proof (intro exI conjI)
    show "balance_of d' = moved p (balance_of d)"
      using served.balance_of_post [OF base bnd p(1,2)] p(3) by simp
    show "transactions d' = transactions d @ [new_transaction env p d]" using p(3) fin by simp
    show "r = newResult (scan_transaction (new_transaction env p d))"
      using p(4) by (simp add: created_transaction_def)
    show "accounts d' = accounts d" using p(3) fin by (simp add: posted_db_def)
  qed (simp_all add: p(1) stands_for_key [OF p(1)])
qed

theorem success_moves_amount_witness:
  "\<exists>d' r. serve quiet_env (Transfer_req 3 4 30 ''k3'') moved_db = ((Some r, None), d') \<and>
     \<not> r_Replayed r \<and> (\<exists>p. balance_of d' = moved p (balance_of moved_db))"
proof -
  let ?r = "newResult (created_transaction quiet_env (sample_params 30) moved_db)"
  have fresh: "\<not> r_Replayed ?r" by (simp add: newResult_def)
  from success_moves_amount [OF sample_transfer fresh] fresh show ?thesis
    unfolding sample_transfer by (auto simp: in_int64_def)
qed

section \<open>Failure and retry\<close>

text \<open>
  C6: Atomicity: a request that returns an error leaves accounts, transactions, entries and outbox
  exactly as they were, wherever inside it the failure happened, unless the commit's own outcome
  is unknown to the client.
\<close>

theorem failed_request_changes_nothing:
  assumes "serve env req d = ((res, Some e), d')" "definite env"
  shows "same_tables d d'"
  using assms by (rule served.definite_error)

theorem failed_request_changes_nothing_witness:
  "same_tables moved_db (snd (serve (faulty_env 7) (Transfer_req 3 4 30 ''k3'') moved_db))"
proof -
  have "snd (fst (serve (faulty_env 7) (Transfer_req 3 4 30 ''k3'') moved_db)) =
      Some (DriverError ''conn closed'')"
    by code_simp
  then have "serve (faulty_env 7) (Transfer_req 3 4 30 ''k3'') moved_db =
      ((fst (fst (serve (faulty_env 7) (Transfer_req 3 4 30 ''k3'') moved_db)),
        Some (DriverError ''conn closed'')),
       snd (serve (faulty_env 7) (Transfer_req 3 4 30 ''k3'') moved_db))"
    by (metis prod.collapse)
  then show ?thesis by (rule failed_request_changes_nothing) simp
qed

text \<open>
  C7: Exactly once: a client repeats one request any number of times, in environments in which any
  statement, commit or response may be lost. The abstract ledger then shows either no effect, and
  no attempt reported success, or the effect of a single posting.
\<close>

theorem retries_post_at_most_once:
  assumes "ledger_inv d" "typed req" "keyed d (request_key req) = None"
  shows "(abs_ledger (attempts (\<lambda>env. serve env req) es d) = abs_ledger d \<and>
      \<not> succeeded (\<lambda>env. serve env req) es d) \<or>
    (\<exists>p. stands_for req d p \<and>
      abs_ledger (attempts (\<lambda>env. serve env req) es d) = spec_post p (abs_ledger d))"
  by (rule served.at_most_once) (use assms bounded_stands_for in auto)

theorem retries_post_at_most_once_witness:
  "(abs_ledger (attempts (\<lambda>env. serve env (Transfer_req 3 4 30 ''k3''))
        [faulty_env 5, lost_commit_env, quiet_env] moved_db) = abs_ledger moved_db \<and>
      \<not> succeeded (\<lambda>env. serve env (Transfer_req 3 4 30 ''k3''))
        [faulty_env 5, lost_commit_env, quiet_env] moved_db) \<or>
    (\<exists>p. stands_for (Transfer_req 3 4 30 ''k3'') moved_db p \<and>
      abs_ledger (attempts (\<lambda>env. serve env (Transfer_req 3 4 30 ''k3''))
        [faulty_env 5, lost_commit_env, quiet_env] moved_db) = spec_post p (abs_ledger moved_db))"
proof (rule retries_post_at_most_once)
  show "keyed moved_db (request_key (Transfer_req 3 4 30 ''k3'')) = None" by code_simp
qed (simp_all add: in_int64_def)

section \<open>Solvency\<close>

text \<open>
  C10: No overdraft: as long as nothing is reversed, no account except the system's own ever has a
  negative balance, whatever the requests, faults and batches.
\<close>

theorem no_overdraft:
  assumes "genesis (w_db w)" "\<forall>a \<in> set as. action_typed a \<and> reversal_free a"
  shows "solvent (w_db (fold (act publish n) as w))"
  using assms genesis_ledger_inv genesis_solvent history_solvent by blast

theorem no_overdraft_witness:
  "solvent (w_db (fold (act memory_publish 10)
     [Serve quiet_env (Deposit_req 3 100 ''ATM'' ''k1''), Serve quiet_env (Transfer_req 3 4 130 ''k2''),
      Serve lost_commit_env (Withdraw_req 3 60 ''ATM'' ''k3'')] (world_of bank_db)))"
  by (rule no_overdraft) (simp_all add: in_int64_def)

text \<open>
  C40: The balance check computes \<^verbatim>\<open>balanceFrom-amount\<close> in 64 bits. When the true difference is below
  the range the register wraps to a non-negative value, so an account that is already deep in debt
  may send any such amount: the transfer is posted although the account is overdrawn.
\<close>

theorem overdraft_by_wraparound:
  assumes "ready env d" "in_int64 a" "0 < a" "f \<noteq> t" "balance_of d f - a < MinInt64"
    "account_of d f = Some x" "account_of d t = Some y" "a_type x = accountTypeUser"
    "a_type y = accountTypeUser" "a_currency x = a_currency y" "keyed d k = None"
  shows "\<exists>r. fst (Transfer env f t a k d) = (Some r, None) \<and>
    balance_of (snd (Transfer env f t a k d)) f = balance_of d f - a \<and>
    balance_of (snd (Transfer env f t a k d)) f < 0"
proof -
  let ?p = "\<lparr>p_From = f, p_To = t, p_Amount = a, p_Type = TxTypeTransfer,
      p_IdempotencyKey = k, p_ReversalOf = None\<rparr>"
  have "sub64 (balance_of d f) a = balance_of d f - a + 2 ^ 64"
    using assms readyD(2) by (intro sub64_wraps) auto
  then have "\<not> short_of_funds d ?p x"
    using assms(2) readyD(2) [OF assms(1), of f] by (simp add: short_of_funds_def in_int64_def)
  then have "transfer_verdict d ?p = Post"
    using assms by (cases "f \<le> t")
      (auto simp: transfer_verdict_def core_verdict_def keyed_verdict_def min_def max_def
        reversal_taken_def requested_def)
  with Transfer_settles [OF assms(1) refl, of f t a k] have out: "Transfer env f t a k d =
      ((Some (newResult (created_transaction env ?p d)), None), post env ?p (currency_of d f) d)"
    by (simp add: settles_def)
  have "balance_of (post env ?p (currency_of d f) d) f = balance_of d f - a"
    using assms by (simp add: post_def balance_of_posted moved_def)
  then show ?thesis using out assms(2,5) by (simp add: in_int64_def)
qed

theorem overdraft_by_wraparound_witness:
  "\<exists>r. fst (Transfer quiet_env 3 6 2 ''k9'' edge_db) = (Some r, None) \<and>
    balance_of (snd (Transfer quiet_env 3 6 2 ''k9'' edge_db)) 3 = balance_of edge_db 3 - 2 \<and>
    balance_of (snd (Transfer quiet_env 3 6 2 ''k9'' edge_db)) 3 < 0"
proof (rule overdraft_by_wraparound [OF ready_edge_db, where x = "user_account 3 ''USD''"
      and y = "user_account 6 ''USD''"])
  show "account_of edge_db 3 = Some (user_account 3 ''USD'')"
    "account_of edge_db 6 = Some (user_account 6 ''USD'')" "keyed edge_db ''k9'' = None" by code_simp+
qed (simp_all add: edge_db_balance in_int64_def user_account_def accountTypeUser_def)

section \<open>Decisions\<close>

text \<open>
  C12: The decision table of \<^verbatim>\<open>Transfer\<close>: when no statement fails, it answers with exactly one of its
  errors, checked in this order: invalid amount, same account, unknown source, unknown destination,
  a system account on either side, different currencies, a used key with other arguments, not
  enough funds; or it replays the transaction that has the key, or posts. Errors and replays leave
  the tables alone, and a posting writes exactly its rows.
\<close>

theorem Transfer_decided:
  assumes "ready env d"
  shows "settles env \<lparr>p_From = f, p_To = t, p_Amount = a, p_Type = TxTypeTransfer,
      p_IdempotencyKey = k, p_ReversalOf = None\<rparr> d
    (transfer_verdict d \<lparr>p_From = f, p_To = t, p_Amount = a, p_Type = TxTypeTransfer,
      p_IdempotencyKey = k, p_ReversalOf = None\<rparr>) (\<lambda>d. d) (Transfer env f t a k d)"
  using assms by (rule Transfer_settles) simp

theorem Transfer_decided_witness:
  "fst (Transfer quiet_env 3 4 71 ''k3'' moved_db) = (None, Some (ServiceError ErrNotEnough))"
proof -
  have "transfer_verdict moved_db \<lparr>p_From = 3, p_To = 4, p_Amount = 71, p_Type = TxTypeTransfer,
      p_IdempotencyKey = ''k3'', p_ReversalOf = None\<rparr> = Refuse (ServiceError ErrNotEnough)"
    by code_simp
  with Transfer_decided [OF ready_moved_db, of 3 4 71 "''k3''"] show ?thesis by (simp add: settles_def)
qed

text \<open>
  The decision table of \<^verbatim>\<open>Deposit\<close>: invalid amount, unknown destination, a destination that is
  no user account, no system account of the code \<^verbatim>\<open>source_IN_currency\<close>, the errors of the core;
  or a replay, or a posting from that system account, which may go below zero.
\<close>

theorem Deposit_decided:
  assumes "ready env d"
  shows "settles env \<lparr>p_From = counterpart_id d i name ''_IN_'', p_To = i, p_Amount = a,
      p_Type = TxTypeDeposit, p_IdempotencyKey = k, p_ReversalOf = None\<rparr> d
    (system_verdict d \<lparr>p_From = counterpart_id d i name ''_IN_'', p_To = i, p_Amount = a,
      p_Type = TxTypeDeposit, p_IdempotencyKey = k, p_ReversalOf = None\<rparr>
      i name ''_IN_'' ErrDestinationAccountNotFound ErrInvalidDepositDestination)
    (\<lambda>d. d) (Deposit env i a name k d)"
  using assms by (rule Deposit_settles) simp

theorem Deposit_decided_witness:
  "fst (Deposit quiet_env 3 5 ''BANK'' ''k3'' moved_db) = (None, Some (ServiceError ErrSystemAccountNotFound))"
proof -
  have "system_verdict moved_db \<lparr>p_From = counterpart_id moved_db 3 ''BANK'' ''_IN_'', p_To = 3, p_Amount = 5,
      p_Type = TxTypeDeposit, p_IdempotencyKey = ''k3'', p_ReversalOf = None\<rparr>
      3 ''BANK'' ''_IN_'' ErrDestinationAccountNotFound ErrInvalidDepositDestination =
      Refuse (ServiceError ErrSystemAccountNotFound)"
    by code_simp
  with Deposit_decided [OF ready_moved_db, of 3 "''BANK''" 5 "''k3''"] show ?thesis by (simp add: settles_def)
qed

text \<open>
  The decision table of \<^verbatim>\<open>Withdraw\<close>, the mirror image: the money goes to the system account
  of the code \<^verbatim>\<open>destination_OUT_currency\<close>, and the source must have it.
\<close>

theorem Withdraw_decided:
  assumes "ready env d"
  shows "settles env \<lparr>p_From = i, p_To = counterpart_id d i name ''_OUT_'', p_Amount = a,
      p_Type = TxTypeWithdrawal, p_IdempotencyKey = k, p_ReversalOf = None\<rparr> d
    (system_verdict d \<lparr>p_From = i, p_To = counterpart_id d i name ''_OUT_'', p_Amount = a,
      p_Type = TxTypeWithdrawal, p_IdempotencyKey = k, p_ReversalOf = None\<rparr>
      i name ''_OUT_'' ErrSourceAccountNotFound ErrInvalidWithdrawSource)
    (\<lambda>d. d) (Withdraw env i a name k d)"
  using assms by (rule Withdraw_settles) simp

theorem Withdraw_decided_witness:
  "fst (Withdraw quiet_env 1 5 ''ATM'' ''k3'' moved_db) = (None, Some (ServiceError ErrInvalidWithdrawSource))"
proof -
  have "system_verdict moved_db \<lparr>p_From = 1, p_To = counterpart_id moved_db 1 ''ATM'' ''_OUT_'', p_Amount = 5,
      p_Type = TxTypeWithdrawal, p_IdempotencyKey = ''k3'', p_ReversalOf = None\<rparr>
      1 ''ATM'' ''_OUT_'' ErrSourceAccountNotFound ErrInvalidWithdrawSource =
      Refuse (ServiceError ErrInvalidWithdrawSource)"
    by code_simp
  with Withdraw_decided [OF ready_moved_db, of 1 "''ATM''" 5 "''k3''"] show ?thesis by (simp add: settles_def)
qed

end
