(* ===== verification/Reversal_Properties.thy ===== *)
theory Reversal_Properties
  imports Ledger_Properties
begin

text \<open>
  The properties of reversals: a reversal undoes its target's effect on every balance, happens at
  most once, and what becomes of retries and of keys that are already in use.
\<close>

section \<open>Undoing\<close>

lemma moved_back:
  assumes "t_source_id t \<noteq> t_destination_id t"
  shows "moved (reversal_params (scan_transaction t) key) bal i = bal i - net_effect i t"
  using assms by (auto simp: moved_def reversal_params_def net_effect_def)

text \<open>
  C8: A reversal that reports success and is no replay undoes its target: every balance changes by
  minus the target's effect, the target (a completed transaction that is no reversal) is marked
  reversed, all other transactions stay, and one transaction of type reversal that points at the
  target is added.
\<close>

theorem reversal_undoes_target:
  assumes "Reverse env i key d = ((Some r, None), d')" "\<not> r_Replayed r" "ledger_inv d"
  shows "\<exists>t rev. transaction_of d i = Some t \<and> t_status t = txStatusCompleted \<and>
    t_type t \<noteq> TxTypeReversal \<and>
    (\<forall>a. balance_of d' a = balance_of d a - net_effect a t) \<and>
    transactions d' = map (set_status i txStatusReversed) (transactions d) @ [rev] \<and>
    reverses rev t \<and> t_type rev = TxTypeReversal \<and> t_idempotency_key rev = key \<and>
    r_TransactionID r = t_id rev"
proof -
  let ?req = "Reverse_req i key"
  have base: "ledger_base d" using assms(3) by (simp add: ledger_inv_def)
  have bnd: "bounded (stands_for ?req) d" by (rule bounded_stands_for [OF base]) simp
  have run: "serve env ?req d = ((Some r, None), d')" using assms(1) by simp
  from run assms(2) obtain p w where p: "stands_for ?req d p" "posts env p d w"
    "d' = finish ?req (posted_db env p (credit_doc w) (debit_doc w) d)"
    "r = newResult (created_transaction env p d)" by (rule served.fresh_success)
  from p(1) obtain t where t: "transaction_of d i = Some t" "t_status t = txStatusCompleted"
    "t_type t \<noteq> TxTypeReversal" "p = reversal_params (scan_transaction t) key" by auto
  have mem: "t \<in> set (transactions d)" "t_id t = i" using t(1) by (auto dest: transaction_of_SomeD)
  then have ok: "tx_ok d t" using base by (simp add: ledger_base_def)
  have "balance_of d' = moved p (balance_of d)"
    using served.balance_of_post [OF base bnd p(1,2)] p(3) by simp
  then have bal: "\<forall>a. balance_of d' a = balance_of d a - net_effect a t"
    using ok by (simp add: t(4) moved_back tx_ok_def)
  have new: "t_id (new_transaction env p d) \<noteq> i"
    using base mem by (fastforce simp: ledger_base_def ids_ok_def ids_below_def)
  show ?thesis
  proof (intro exI conjI)
    show "transactions d' = map (set_status i txStatusReversed) (transactions d) @ [new_transaction env p d]"
      using new by (simp add: p(3)) (simp add: set_status_def)
    show "reverses (new_transaction env p d) t"
      using t(3) mem by (simp add: reverses_def t(4) reversal_params_def)
    show "r_TransactionID r = t_id (new_transaction env p d)"
      by (simp add: p(4) newResult_def)
  qed (use t bal in \<open>simp_all add: t(4) reversal_params_def\<close>)
qed

definition sample_reversal :: transfer_params where
  "sample_reversal = \<lparr>p_From = 4, p_To = 3, p_Amount = 30, p_Type = TxTypeReversal,
     p_IdempotencyKey = ''k3'', p_ReversalOf = Some 2\<rparr>"

lemma Reverse_sample:
  "Reverse quiet_env 2 ''k3'' moved_db =
     ((Some (newResult (created_transaction quiet_env sample_reversal moved_db)), None),
      marked 2 (post quiet_env sample_reversal ''USD'' moved_db))"
proof -
  have v: "reverse_verdict moved_db 2 ''k3'' = Post" and c: "currency_of moved_db 4 = ''USD''" by code_simp+
  have "transaction_of moved_db 2 = Some (sample_transaction 2 ''k2'' 3 4 30 ''transfer'')" by code_simp
  then have "settles quiet_env sample_reversal moved_db (reverse_verdict moved_db 2 ''k3'') (marked 2)
      (Reverse quiet_env 2 ''k3'' moved_db)"
    by (intro Reverse_settles [OF ready_moved_db])
      (simp add: sample_reversal_def reversal_params_def sample_transaction_def)
  then show ?thesis using c by (simp add: v settles_def) (simp add: sample_reversal_def)
qed

theorem reversal_undoes_target_witness:
  "\<exists>d' r. Reverse quiet_env 2 ''k3'' moved_db = ((Some r, None), d') \<and>
     (\<exists>t. transaction_of moved_db 2 = Some t \<and>
       (\<forall>a. balance_of d' a = balance_of moved_db a - net_effect a t))"
proof -
  have "\<not> r_Replayed (newResult (created_transaction quiet_env sample_reversal moved_db))"
    by (simp add: newResult_def)
  from reversal_undoes_target [OF Reverse_sample this moved_db_inv] show ?thesis
    unfolding Reverse_sample by blast
qed

section \<open>At most once\<close>

text \<open>A transaction marked reversed stays so.\<close>

definition reversed_in :: "db \<Rightarrow> int64 \<Rightarrow> bool" where
  "reversed_in d i \<longleftrightarrow> (\<exists>t \<in> set (transactions d). t_id t = i \<and> t_status t = txStatusReversed)"

lemma reversed_inI: "t \<in> set (transactions d) \<Longrightarrow> t_status t = txStatusReversed \<Longrightarrow> reversed_in d (t_id t)"
  by (auto simp: reversed_in_def)

lemma set_status_reversed:
  "t_status (set_status j txStatusReversed t) =
     (if t_id t = j \<and> t_status t = txStatusCompleted then txStatusReversed else t_status t)"
  by (simp add: set_status_def txStatusCompleted_def)

lemma reversed_in_marked:
  assumes "t \<in> set (transactions d)"
    "t_status t = txStatusReversed \<or> (t_id t = j \<and> t_status t = txStatusCompleted)"
  shows "reversed_in (marked j d) (t_id t)"
proof -
  have "set_status j txStatusReversed t \<in> set (transactions (marked j d))" using assms(1) by simp
  from reversed_inI [OF this] show ?thesis using assms(2) by (auto simp: set_status_reversed)
qed

lemma reversed_in_finish: "reversed_in d i \<Longrightarrow> reversed_in (finish req d) i"
  by (cases req) (auto simp: reversed_in_def [of d] intro: reversed_in_marked reversed_inI)

lemma reversed_in_tables: "transactions d' = transactions d \<Longrightarrow> reversed_in d' i = reversed_in d i"
  by (simp add: reversed_in_def)

lemma serve_keeps_reversed:
  assumes "serve env req d = (out, d')" "reversed_in d i"
  shows "reversed_in d' i"
proof -
  obtain res err where out: "out = (res, err)" by fastforce
  from assms(1) [unfolded out] show ?thesis
  proof (cases rule: serve_cases)
    case unchanged
    with assms(2) show ?thesis by (simp add: same_tables_def reversed_in_def)
  next
    case (replayed p t d1)
    then have "reversed_in d1 i" using assms(2) by (simp add: same_tables_def reversed_in_def)
    with replayed show ?thesis by (simp add: reversed_in_finish)
  next
    case (posted p w)
    have "reversed_in (posted_db env p (credit_doc w) (debit_doc w) d) i"
      using assms(2) by (auto simp: reversed_in_def)
    with posted show ?thesis by (simp add: reversed_in_finish)
  qed
qed

lemma act_keeps_reversed: "reversed_in (w_db w) i \<Longrightarrow> reversed_in (w_db (act publish n a w)) i"
proof (cases a)
  case (Publish_batch env)
  obtain res b' m' d' where
    run: "publishBatch env publish n (w_broker w) (w_metrics w) (w_db w) = (res, b', m', d')"
    by (metis prod_cases4)
  assume "reversed_in (w_db w) i"
  with publishBatch_keeps_tables [OF run] show ?thesis
    by (simp add: Publish_batch run reversed_in_def)
qed (auto simp: AccountBalance_reads AccountTransactionsHistory_reads
      intro: serve_keeps_reversed [OF surjective_pairing])

lemma history_keeps_reversed:
  "reversed_in (w_db w) i \<Longrightarrow> reversed_in (w_db (fold (act publish n) as w)) i"
  by (induction as arbitrary: w) (simp_all add: act_keeps_reversed)

lemma success_marks:
  assumes run: "Reverse env i key d = ((Some r, None), d')" and inv: "ledger_inv d"
  shows "reversed_in d' i"
proof -
  have marks: "reversed_in (marked i d1) i" if "t \<in> set (transactions d1)" "t_id t = i"
      "t_status t = txStatusCompleted" for d1 t
    using reversed_in_marked [of t d1 i] that by simp
  have run': "serve env (Reverse_req i key) d = ((Some r, None), d')" using run by simp
  from run' show ?thesis
  proof (cases rule: serve_cases)
    case (replayed p t d1)
    then obtain t0 where "transaction_of d i = Some t0" "t_status t0 = txStatusCompleted" by auto
    with replayed show ?thesis
      by (auto simp: same_tables_def intro!: marks [of t0] dest: transaction_of_SomeD)
  next
    case (posted p w)
    then obtain t0 where "transaction_of d i = Some t0" "t_status t0 = txStatusCompleted" by auto
    with posted show ?thesis by (auto intro!: marks [of t0] dest: transaction_of_SomeD)
  qed simp
qed

text \<open>
  C9: A transaction is reversed at most once: after a reversal reported success, and after any
  further history of the system, every later request to reverse the same transaction, with the
  same key or another, is refused and changes nothing. The refusal is
  \<^verbatim>\<open>ErrReverseIncompletedTx\<close> also for a retry with the key of the successful reversal.
\<close>

theorem reversed_at_most_once:
  assumes "Reverse env i key d = ((Some r, None), d')" "ledger_inv d" "\<forall>a \<in> set as. action_typed a"
    "w_db w = d'" "d2 = w_db (fold (act publish n) as w)" "ready env2 d2"
  shows "fst (Reverse env2 i key2 d2) = (None, Some (ServiceError ErrReverseIncompletedTx)) \<and>
    same_tables d2 (snd (Reverse env2 i key2 d2))"
proof -
  have "reversed_in d2 i"
    using history_keeps_reversed [of w i] success_marks [OF assms(1,2)] assms(4,5) by simp
  then obtain t where t: "t \<in> set (transactions d2)" "t_id t = i" "t_status t = txStatusReversed"
    by (auto simp: reversed_in_def)
  then have "transaction_of d2 i = Some t"
    using readyD(4) [OF assms(6)] transaction_of_member by blast
  then have "reverse_verdict d2 i key2 = Refuse (ServiceError ErrReverseIncompletedTx)"
    using t by (simp add: reverse_verdict_def txStatusReversed_def txStatusCompleted_def)
  with Reverse_settles [OF assms(6), of i "reversal_params (scan_transaction t) key2" key2]
    \<open>transaction_of d2 i = Some t\<close> show ?thesis
    by (simp add: settles_def)
qed

lemma ready_after_sample: "ready quiet_env (marked 2 (post quiet_env sample_reversal ''USD'' moved_db))"
proof -
  let ?d = "marked 2 (post quiet_env sample_reversal ''USD'' moved_db)"
  have inv: "ledger_inv ?d"
    using serve_keeps_inv [OF moved_db_inv, of "Reverse_req 2 ''k3''" quiet_env] Reverse_sample by simp
  have bal: "balance_of ?d i = (if i = 1 then - 100 else if i = 3 then 100 else 0)" for i
    by (simp add: post_def balance_of_cong [of "marked 2 x" x for x] balance_of_posted sample_reversal_def
        in_int64_def moved_def moved_db_balance)
  have out: "outbox_seq ?d = 6" "transactions_seq ?d = 3" "ledger_entries_seq ?d = 6"
    "o_event_id ` set (outbox ?d) = FormatInt ` {1, 2, 3, 4, 5, 6}"
    by (auto simp: post_def posted_db_def moved_db_def sample_event_def new_outbox_row_def quiet_env_def)
  have uuid: "gen_uuid quiet_env i = FormatInt i" for i by (simp add: quiet_env_def)
  have "FormatInt 7 \<notin> FormatInt ` {1, 2, 3, 4, 5, 6}" "FormatInt 8 \<notin> FormatInt ` {1, 2, 3, 4, 5, 6}"
    "FormatInt 8 \<noteq> FormatInt 7"
    by (auto dest: FormatInt_inj [THEN iffD1, rotated -1] simp: in_int64_def)
  moreover have "in_int64 (balance_of ?d i)" for i by (simp add: bal in_int64_def)
  moreover have "\<exists>x. rfc3339 (tx_now quiet_env) = Inr x"
    using noon_text by (simp_all add: quiet_env_def)
  ultimately show ?thesis
    unfolding ready_def out uuid using inv by simp
qed

theorem reversed_at_most_once_witness:
  "fst (Reverse quiet_env 2 ''k9'' (snd (Reverse quiet_env 2 ''k3'' moved_db))) =
     (None, Some (ServiceError ErrReverseIncompletedTx))"
proof -
  have "ready quiet_env (w_db (fold (act memory_publish 10) [] (world_of (snd (Reverse quiet_env 2 ''k3'' moved_db)))))"
    using ready_after_sample by (simp add: Reverse_sample)
  from reversed_at_most_once [OF Reverse_sample moved_db_inv _ _ refl this] show ?thesis
    by (simp add: Reverse_sample)
qed

section \<open>Keys already in use\<close>

lemma core_verdict_answer:
  assumes "account_of d (p_From p) = Some a" "account_of d (p_To p) = Some b" "a_currency a = a_currency b"
    "keyed d (p_IdempotencyKey p) = Some t" "matches p t"
  shows "core_verdict d p = Answer t"
  using assms by (cases "p_From p \<le> p_To p")
    (auto simp: core_verdict_def keyed_verdict_def min_def max_def)

text \<open>
  C39: A reversal compares a used key's transaction only by accounts and amount, not by type or
  target. Given the key of any earlier transaction in the opposite direction with the same amount,
  it reports that transaction as its replayed result and marks the target reversed, although no
  money moves and no reversal is recorded.
\<close>

theorem reversal_with_foreign_key:
  assumes "ready env d" "transaction_of d i = Some t" "t_status t = txStatusCompleted"
    "t_type t \<noteq> TxTypeReversal" "keyed d key = Some t'" "t_source_id t' = t_destination_id t"
    "t_destination_id t' = t_source_id t" "t_amount t' = t_amount t"
  shows "fst (Reverse env i key d) = (Some (replayed_result t'), None) \<and>
    balance_of (snd (Reverse env i key d)) = balance_of d \<and>
    transactions (snd (Reverse env i key d)) = map (set_status i txStatusReversed) (transactions d) \<and>
    reversed_in (snd (Reverse env i key d)) i"
proof -
  let ?p = "reversal_params (scan_transaction t) key"
  have mem: "t \<in> set (transactions d)" "t_id t = i" using assms(2) by (auto dest: transaction_of_SomeD)
  then have ok: "tx_ok d t" using readyD(3) [OF assms(1)] by (simp add: ledger_inv_def ledger_base_def)
  then obtain a b where ab: "account_of d (t_source_id t) = Some a" "account_of d (t_destination_id t) = Some b"
    "a_currency a = a_currency b" by (auto simp: tx_ok_def)
  have "core_verdict d ?p = Answer t'"
    by (rule core_verdict_answer [of d ?p b a]) (use ab assms in \<open>auto simp: reversal_params_def matches_def\<close>)
  then have "reverse_verdict d i key = Answer t'"
    using assms by (simp add: reverse_verdict_def)
  with Reverse_settles [OF assms(1), of i ?p key] assms(2)
  have out: "fst (Reverse env i key d) = (Some (replayed_result t'), None)"
    "same_tables (marked i d) (snd (Reverse env i key d))"
    by (simp_all add: settles_def)
  then have tabs: "transactions (snd (Reverse env i key d)) = map (set_status i txStatusReversed) (transactions d)"
    "ledger_entries (snd (Reverse env i key d)) = ledger_entries d"
    by (simp_all add: same_tables_def)
  have "reversed_in (marked i d) i" using reversed_in_marked [of t d i] mem assms(3) by simp
  with tabs(1) have "reversed_in (snd (Reverse env i key d)) i" by (simp add: reversed_in_def)
  with out tabs show ?thesis by (auto intro: balance_of_cong)
qed

theorem reversal_with_foreign_key_witness:
  "fst (Reverse quiet_env 2 ''k5'' returned_db) =
     (Some (replayed_result (sample_transaction 3 ''k5'' 4 3 30 ''transfer'')), None) \<and>
   balance_of (snd (Reverse quiet_env 2 ''k5'' returned_db)) = balance_of returned_db \<and>
   reversed_in (snd (Reverse quiet_env 2 ''k5'' returned_db)) 2"
proof -
  have "transaction_of returned_db 2 = Some (sample_transaction 2 ''k2'' 3 4 30 ''transfer'')"
    "keyed returned_db ''k5'' = Some (sample_transaction 3 ''k5'' 4 3 30 ''transfer'')"
    by code_simp+
  from reversal_with_foreign_key [OF ready_returned_db this(1) _ _ this(2)] show ?thesis
    by (simp add: sample_transaction_def txStatusCompleted_def TxTypeReversal_def)
qed

end
