(* ===== verification/Relay_Progress.thy ===== *)
theory Relay_Progress
  imports Relay_Facts
begin

text \<open>
  What the relay achieves when nothing fails: a batch delivers and marks exactly the oldest
  unpublished rows, and enough rounds of the loop leave none.
\<close>

section \<open>A batch on a healthy connection\<close>

text \<open>With nothing failing, a batch delivers and marks the oldest rows.\<close>

definition batch_result ::
  "env \<Rightarrow> 'b publisher \<Rightarrow> int64 \<Rightarrow> 'b \<Rightarrow> relay_metrics \<Rightarrow> db \<Rightarrow> int64 result \<times> 'b \<times> relay_metrics \<times> db"
where
  "batch_result env publish n b m d =
     (let rows = batch_rows n d; k = int (length rows)
      in if rows = [] then (Inr 0, b, m, d)
         else (Inr k, snd (publish (deliveries rows) b),
               m\<lparr>events_published_total := events_published_total m + k,
                 publish_durations := publish_durations m + 1\<rparr>,
               mark_rows (tx_now env) rows d))"

lemma publishBatch_healthy:
  assumes h: "healthy env" and free: "advisory_lock_free env" and n: "0 \<le> n"
    and pub: "fst (publish (deliveries (batch_rows n d)) b) = None"
  shows "publishBatch env publish n b m d = batch_result env publish n b m d"
proof -
  let ?rows = "batch_rows n d"
  define s1 where "s1 = (fresh_session d)\<lparr>s_stmts := 1\<rparr>"
  define s2 where "s2 = s1\<lparr>s_stmts := 2\<rparr>"
  define s3 where "s3 = s2\<lparr>s_stmts := 3, s_db := mark_rows (tx_now env) ?rows d\<rparr>"
  have db: "s_db s1 = d" "s_db s2 = d" "s_db s3 = mark_rows (tx_now env) ?rows d"
    by (simp_all add: s1_def s2_def s3_def fresh_session_def)
  have lock: "TryLockOutbox env (fresh_session d) = (Inr True, s1)"
    using free by (simp add: TryLockOutbox_def read_sql_healthy [OF h] s1_def fresh_session_def)
  have get: "GetUnpublishedOutboxEvents env n s1 = (Inr (map scan_outbox ?rows), s2)"
    using n by (simp add: GetUnpublishedOutboxEvents_def read_sql_healthy [OF h] batch_rows_def
        s2_def s1_def fresh_session_def)
  have mark: "MarkOutboxEventsPublished env (map o_id ?rows) s2 = (Inr (), s3)"
    by (simp add: MarkOutboxEventsPublished_def exec_sql_healthy [OF h] db mark_rows_def
        s3_def s2_def numeral_3_eq_3)
  have dis: "disassembleEvents (map scan_outbox ?rows) = (deliveries ?rows, map o_id ?rows)"
    by (simp add: deliveries_def disassembleEvents_def scan_outbox_def)
  obtain b' where b': "publish (deliveries ?rows) b = (None, b')" using pub by (metis prod.collapse)
  have len: "length (deliveries ?rows) = length ?rows"
    by (simp add: deliveries_def disassembleEvents_def)
  have run: "batch_closure (queries env) publish n b m (fresh_session d) =
      (if ?rows = [] then ((Some (0, b, m), None), s2)
       else ((Some (int (length ?rows), b', observe_duration m), None), s3))"
    by (simp add: batch_closure_queries publish_events_queries lock get dis b' mark len)
  show ?thesis
  proof (cases "?rows = []")
    case True
    with run have "WithTx env (batch_closure (queries env) publish n b m) d = ((Some (0, b, m), None), d)"
      using db by (simp add: WithTx_healthy [OF h])
    with True show ?thesis by (simp add: publishBatch_def batch_result_def)
  next
    case False
    with run have "WithTx env (batch_closure (queries env) publish n b m) d =
        ((Some (int (length ?rows), b', observe_duration m), None), mark_rows (tx_now env) ?rows d)"
      using db(3) by (simp add: WithTx_healthy [OF h])
    with False show ?thesis
      by (simp add: publishBatch_def batch_result_def b' observe_duration_def Let_def)
  qed
qed

section \<open>Draining\<close>

lemma unpublished_marked:
  assumes ids: "distinct (map o_id (outbox d))"
  shows "unpublished (mark_rows now (batch_rows n d) d) = drop (nat n) (unpublished d)"
proof -
  let ?us = "filter (\<lambda>r. o_published_at r = None) (outbox d)"
  let ?hd = "take (nat n) (unpublished d)" and ?tl = "drop (nat n) (unpublished d)"
  have perm: "mset (unpublished d) = mset ?us" by (simp add: unpublished_def)
  have dist: "distinct (map o_id (unpublished d))"
  proof -
    have "distinct (map o_id ?us)" using ids by (rule distinct_map_filter)
    moreover have "mset (map o_id (unpublished d)) = mset (map o_id ?us)" using perm by simp
    ultimately show ?thesis by (metis mset_eq_imp_distinct_iff)
  qed
  have split: "?hd @ ?tl = unpublished d" by simp
  then have disj: "o_id ` set ?tl \<inter> o_id ` set ?hd = {}"
    using dist by (metis distinct_append map_append set_map inf.commute)
  have keep: "filter (\<lambda>r. o_published_at r = None) (map (mark_published now (map o_id ?hd)) (outbox d)) =
      filter (\<lambda>r. o_id r \<notin> o_id ` set ?hd) ?us"
  proof -
    have "filter (\<lambda>r. o_published_at r = None) (map (mark_published now ids) rs) =
        filter (\<lambda>r. o_id r \<notin> set ids) (filter (\<lambda>r. o_published_at r = None) rs)" for rs ids
      by (induction rs) (auto simp: mark_published_def)
    then show ?thesis by simp
  qed
  have box: "outbox (mark_rows now (batch_rows n d) d) = map (mark_published now (map o_id ?hd)) (outbox d)"
    by (simp add: mark_rows_def batch_rows_def)
  have "unpublished (mark_rows now (batch_rows n d) d) =
      sort_key o_id (filter (\<lambda>r. o_id r \<notin> o_id ` set ?hd) ?us)"
    unfolding unpublished_def [of "mark_rows now (batch_rows n d) d"] box keep ..
  also have "\<dots> = filter (\<lambda>r. o_id r \<notin> o_id ` set ?hd) (unpublished d)"
    by (simp add: unpublished_def filter_sort)
  also have "\<dots> = filter (\<lambda>r. o_id r \<notin> o_id ` set ?hd) (?hd @ ?tl)"
    by (simp only: split)
  also have "\<dots> = ?tl"
  proof -
    have "filter (\<lambda>r. o_id r \<notin> o_id ` set ?hd) ?hd = []" by (simp add: filter_empty_conv)
    moreover have "filter (\<lambda>r. o_id r \<notin> o_id ` set ?hd) ?tl = ?tl"
      using disj by (intro filter_True) blast
    ultimately show ?thesis by (simp only: filter_append append_Nil)
  qed
  finally show ?thesis .
qed

lemma mark_rows_ids: "map o_id (outbox (mark_rows now rows d)) = map o_id (outbox d)"
  by (simp add: mark_rows_def comp_def)

text \<open>What a round must be like for the relay to make progress.\<close>

definition calm_round :: "relay_round \<Rightarrow> bool" where
  "calm_round w \<longleftrightarrow>
     \<not> done_before w \<and> \<not> done_waiting w \<and> healthy (round_env w) \<and> advisory_lock_free (round_env w)"

lemma relay_drains:
  assumes "\<forall>w \<in> set ws. calm_round w" "\<And>ms b. fst (publish ms b) = None" "0 < BatchSize sp"
    "distinct (map o_id (outbox (rl_db r)))"
  shows "unpublished (rl_db (snd (Run_relay publish sp ws r))) =
    drop (length ws * nat (BatchSize sp)) (unpublished (rl_db r))"
  using assms(1,4)
proof (induction ws arbitrary: r)
  case (Cons w ws)
  let ?n = "BatchSize sp"
  have calm: "\<not> done_before w" "\<not> done_waiting w" "healthy (round_env w)" "advisory_lock_free (round_env w)"
    using Cons.prems(1) by (simp_all add: calm_round_def)
  have run: "publishBatch (round_env w) publish ?n (rl_broker r) (rl_metrics r) (rl_db r) =
      batch_result (round_env w) publish ?n (rl_broker r) (rl_metrics r) (rl_db r)"
    using calm assms(2,3) by (intro publishBatch_healthy) auto
  obtain res b' m' d' where out: "batch_result (round_env w) publish ?n (rl_broker r) (rl_metrics r) (rl_db r)
      = (res, b', m', d')" by (metis prod_cases4)
  have d': "d' = (if batch_rows ?n (rl_db r) = [] then rl_db r
      else mark_rows (tx_now (round_env w)) (batch_rows ?n (rl_db r)) (rl_db r))"
    using out by (auto simp: batch_result_def Let_def split: if_splits)
  have unp: "unpublished d' = drop (nat ?n) (unpublished (rl_db r))"
  proof (cases "batch_rows ?n (rl_db r) = []")
    case True
    then have "unpublished (rl_db r) = []" using assms(3) by (simp add: batch_rows_def)
    with True d' show ?thesis by simp
  next
    case False
    with d' unpublished_marked [OF Cons.prems(2)] show ?thesis by simp
  qed
  have ids: "distinct (map o_id (outbox d'))"
    using Cons.prems(2) d' by (simp add: mark_rows_ids)
  have step: "rl_db (snd (Run_relay publish sp (w # ws) r)) = rl_db (snd (Run_relay publish sp ws r1))"
    if "r1 = (if res = Inr ?n then r\<lparr>rl_broker := b', rl_metrics := m', rl_db := d'\<rparr>
      else r\<lparr>rl_broker := b', rl_metrics := m', rl_db := d', rl_waits := Suc (rl_waits r)\<rparr>)" for r1
    using that calm by (simp add: relay_iteration_def run out)
  have calms: "\<forall>w \<in> set ws. calm_round w" using Cons.prems(1) by simp
  show ?case
    unfolding step [OF refl] using Cons.IH [OF calms] ids unp by (simp add: drop_drop ac_simps)
qed simp

end
