(* ===== verification/Outbox_Properties.thy ===== *)
theory Outbox_Properties
  imports Ledger_Properties Relay_Progress
begin

text \<open>
  The properties of the outbox and its relay: the outbox mirrors the ledger event by event, and the
  relay delivers it at least once, in order, and completely.
\<close>

section \<open>The outbox mirrors the ledger\<close>

text \<open>
  The events a transaction stands for, the credit first. \<open>store\<close> is the text PostgreSQL keeps for a
  JSON document.
\<close>

definition credit_of :: "db \<Rightarrow> transaction_row \<Rightarrow> entry_posted" where
  "credit_of d t =
     \<lparr>ev_AccountID = t_destination_id t, ev_TransactionID = t_id t, ev_TransactionType = t_type t,
      ev_Amount = t_amount t, ev_Currency = currency_of d (t_destination_id t),
      ev_CounterpartyID = t_source_id t, ev_ReversalOf = t_reversal_of t,
      ev_OccurredAt = t_created_at t\<rparr>"

definition debit_of :: "db \<Rightarrow> transaction_row \<Rightarrow> entry_posted" where
  "debit_of d t =
     \<lparr>ev_AccountID = t_source_id t, ev_TransactionID = t_id t, ev_TransactionType = t_type t,
      ev_Amount = - t_amount t, ev_Currency = currency_of d (t_source_id t),
      ev_CounterpartyID = t_destination_id t, ev_ReversalOf = t_reversal_of t,
      ev_OccurredAt = t_created_at t\<rparr>"

definition outbox_content :: "outbox_row \<Rightarrow> string \<times> string \<times> string option" where
  "outbox_content r = (o_event_type r, o_partition_key r, Some (o_payload r))"

definition stored_event ::
  "(string \<Rightarrow> string option) \<Rightarrow> entry_posted \<Rightarrow> string \<times> string \<times> string option" where
  "stored_event store e =
     (EntryTypePosted, Key e, case marshal_entry e of Inl _ \<Rightarrow> None | Inr js \<Rightarrow> store js)"

definition mirrors :: "(string \<Rightarrow> string option) \<Rightarrow> db \<Rightarrow> bool" where
  "mirrors store d \<longleftrightarrow>
     map outbox_content (outbox d) =
       concat (map (\<lambda>t. [stored_event store (credit_of d t), stored_event store (debit_of d t)])
                 (transactions d))"

lemma currency_of_cong: "accounts d' = accounts d \<Longrightarrow> currency_of d' = currency_of d"
  by (simp add: currency_of_def account_of_def fun_eq_iff)

lemma event_of_cong:
  "accounts d' = accounts d \<Longrightarrow> credit_of d' = credit_of d"
  "accounts d' = accounts d \<Longrightarrow> debit_of d' = debit_of d"
  by (rule ext, simp add: credit_of_def currency_of_cong [of d' d])
    (rule ext, simp add: debit_of_def currency_of_cong [of d' d])

lemma event_of_set_status [simp]:
  "credit_of d (set_status i st t) = credit_of d t" "debit_of d (set_status i st t) = debit_of d t"
proof -
  have "t_created_at (set_status i st t) = t_created_at t" by (simp add: set_status_def)
  then show "credit_of d (set_status i st t) = credit_of d t" "debit_of d (set_status i st t) = debit_of d t"
    by (simp_all add: credit_of_def debit_of_def)
qed

lemma mirrors_cong:
  "accounts d' = accounts d \<Longrightarrow> transactions d' = transactions d \<Longrightarrow>
   map outbox_content (outbox d') = map outbox_content (outbox d) \<Longrightarrow> mirrors store d' = mirrors store d"
  by (simp add: mirrors_def event_of_cong [of d' d])

lemma mirrors_finish: "mirrors store (finish req d) = mirrors store d"
  by (cases req) (simp_all add: mirrors_def event_of_cong [of "marked i d" d for i] comp_def)

lemma mirrors_posted:
  assumes m: "mirrors (jsonb_text env) d" and w: "posts env p d w" and amt: "in_int64 (p_Amount p)"
  shows "mirrors (jsonb_text env) (posted_db env p (credit_doc w) (debit_doc w) d)"
proof -
  let ?d' = "posted_db env p (credit_doc w) (debit_doc w) d" and ?t = "new_transaction env p d"
  have acc: "accounts ?d' = accounts d" by (simp add: posted_db_def)
  have cur: "currency_of d (p_From p) = a_currency (src_row w)" "currency_of d (p_To p) = a_currency (dst_row w)"
    using w by (simp_all add: posts_def currency_of_def)
  have c: "credit_event p (created_transaction env p d) (a_currency (dst_row w)) = credit_of d ?t"
    by (simp add: credit_event_def credit_of_def created_transaction_def cur)
  have b: "debit_event p (created_transaction env p d) (a_currency (src_row w)) = debit_of d ?t"
    using w amt by (simp add: debit_event_def debit_of_def created_transaction_def cur posts_def)
  from w have "event_stored env (credit_of d ?t) (credit_doc w)" "event_stored env (debit_of d ?t) (debit_doc w)"
    by (simp_all add: posts_def c b)
  then have "[stored_event (jsonb_text env) (credit_of d ?t), stored_event (jsonb_text env) (debit_of d ?t)] =
      [(EntryTypePosted, FormatInt (p_To p), Some (credit_doc w)),
       (EntryTypePosted, FormatInt (p_From p), Some (debit_doc w))]"
    by (auto simp: stored_event_def event_stored_def Key_def credit_of_def debit_of_def)
  with m show ?thesis
    by (simp add: mirrors_def event_of_cong [OF acc])
      (simp add: posted_db_def outbox_content_def new_outbox_row_def)
qed

fun action_env :: "action \<Rightarrow> env" where
  "action_env (Serve env req) = env"
| "action_env (Read_balance env i) = env"
| "action_env (Read_history env i limit before) = env"
| "action_env (Publish_batch env) = env"

lemma serve_mirrors:
  assumes run: "serve env req d = (out, d')" and inv: "ledger_inv d" and ty: "typed req"
    and m: "mirrors (jsonb_text env) d"
  shows "mirrors (jsonb_text env) d'"
proof -
  obtain res err where out: "out = (res, err)" by fastforce
  have base: "ledger_base d" using inv by (simp add: ledger_inv_def)
  from run [unfolded out] show ?thesis
  proof (cases rule: serve_cases)
    case unchanged
    with m mirrors_cong [of d' d] show ?thesis by (simp add: same_tables_def)
  next
    case (replayed p t d1)
    with m mirrors_cong [of d1 d] show ?thesis by (simp add: same_tables_def mirrors_finish)
  next
    case (posted p w)
    have "well_formed d p" using stands_for_well_formed [OF base ty posted(1)] .
    then show ?thesis using mirrors_posted [OF m posted(2)] posted(3)
      by (simp add: mirrors_finish well_formed_def)
  qed
qed

lemma outbox_content_mark [simp]: "outbox_content (mark_published now ids r) = outbox_content r"
  by (simp add: outbox_content_def mark_published_def)

lemma act_mirrors:
  assumes "ledger_inv (w_db w)" "action_typed a" "mirrors store (w_db w)" "jsonb_text (action_env a) = store"
  shows "mirrors store (w_db (act publish n a w))"
proof (cases a)
  case (Serve env req)
  with assms serve_mirrors [OF surjective_pairing, of "w_db w" req env] show ?thesis by auto
next
  case (Publish_batch env)
  obtain res b' m' d' where
    run: "publishBatch env publish n (w_broker w) (w_metrics w) (w_db w) = (res, b', m', d')"
    by (metis prod_cases4)
  have "map outbox_content (outbox d') = map outbox_content (outbox (w_db w))"
    using publishBatch_outcome [of publish n "w_broker w" "w_metrics w" "w_db w" env]
    by (auto simp: run batch_kept_def batch_marked_def mark_rows_def comp_def)
  with mirrors_cong [of d' "w_db w"] publishBatch_keeps_tables [OF run] assms(3) show ?thesis
    by (simp add: Publish_batch run)
qed (use assms in \<open>simp_all add: AccountBalance_reads AccountTransactionsHistory_reads\<close>)

lemma history_inv:
  "ledger_inv (w_db w) \<Longrightarrow> \<forall>a \<in> set as. action_typed a \<Longrightarrow> ledger_inv (w_db (fold (act publish n) as w))"
  by (induction as arbitrary: w) (simp_all add: act_keeps_inv)

lemma history_mirrors:
  assumes "ledger_inv (w_db w)" "mirrors store (w_db w)"
    "\<forall>a \<in> set as. action_typed a \<and> jsonb_text (action_env a) = store"
  shows "mirrors store (w_db (fold (act publish n) as w))"
  using assms
proof (induction as arbitrary: w)
  case (Cons a as)
  have "ledger_inv (w_db (act publish n a w))" using Cons.prems by (intro act_keeps_inv) auto
  moreover have "mirrors store (w_db (act publish n a w))" using Cons.prems by (intro act_mirrors) auto
  ultimately show ?case using Cons.prems(3) by (simp add: Cons.IH)
qed simp

text \<open>
  C27: The transactional outbox: after every history, whatever failed, the outbox holds exactly two
  events per transaction in the order of the transactions, the credit before the debit, each keyed
  by its account and with the JSON document of its entry (account, transaction, type, signed
  amount, currency, counterparty, reversed transaction, time). No event exists without its ledger
  entry and no entry without its event.
\<close>

theorem outbox_mirrors_ledger:
  assumes "genesis (w_db w)" "\<forall>a \<in> set as. action_typed a \<and> jsonb_text (action_env a) = store"
  shows "mirrors store (w_db (fold (act publish n) as w))"
proof -
  have "mirrors store (w_db w)" using assms(1) by (simp add: mirrors_def genesis_def)
  with assms genesis_ledger_inv history_mirrors show ?thesis by blast
qed

theorem outbox_mirrors_ledger_witness:
  "mirrors Some (w_db (fold (act memory_publish 10)
     [Serve quiet_env (Deposit_req 3 100 ''ATM'' ''k1''), Publish_batch quiet_env,
      Serve (faulty_env 7) (Transfer_req 3 4 30 ''k2'')] (world_of bank_db)))"
  by (rule outbox_mirrors_ledger) (simp_all add: in_int64_def quiet_env_def faulty_env_def)

section \<open>At least once\<close>

text \<open>A request only ever appends unpublished rows to the outbox.\<close>

lemma serve_appends:
  assumes run: "serve env req d = (out, d')"
  shows "\<exists>rows. outbox d' = outbox d @ rows \<and> (\<forall>r \<in> set rows. o_published_at r = None)"
proof -
  obtain res err where out: "out = (res, err)" by fastforce
  have fin: "outbox (finish req x) = outbox x" for x by (cases req) simp_all
  from run [unfolded out] show ?thesis
    by (cases rule: serve_cases)
      (auto simp: same_tables_def fin posted_db_def new_outbox_row_def)
qed

lemma faithful_append:
  "faithful log d \<Longrightarrow> outbox d' = outbox d @ rows \<Longrightarrow> \<forall>r \<in> set rows. o_published_at r = None \<Longrightarrow>
   faithful log d'"
  by (auto simp: faithful_def)

lemma in_order_append:
  assumes "in_order log d" "outbox d' = outbox d @ rows" "\<forall>r \<in> set rows. o_published_at r = None"
  shows "in_order log d'"
proof -
  from assms(1) obtain ps us where "outbox d = ps @ us" "\<forall>r \<in> set ps. o_published_at r \<noteq> None"
    "\<forall>r \<in> set us. o_published_at r = None"
    "\<forall>k. filter (\<lambda>x. fst x = k) log = filter (\<lambda>x. fst x = k) (map delivery_of_row ps)"
    unfolding in_order_def by blast
  with assms(2,3) show ?thesis
    unfolding in_order_def by (intro exI [of _ ps] exI [of _ "us @ rows"]) auto
qed

lemma ledger_inv_outbox_ids:
  assumes "ledger_inv d"
  shows "sorted_wrt (<) (map o_id (outbox d))" "distinct (map o_id (outbox d))"
  using assms
  by (auto simp: ledger_inv_def ledger_base_def ids_ok_def ids_below_def strict_sorted_iff)

text \<open>A batch that returned an error; a lock held by another relay is not one.\<close>

fun batch_fails :: "'b publisher \<Rightarrow> int64 \<Rightarrow> action \<Rightarrow> 'b world \<Rightarrow> bool" where
  "batch_fails publish n (Publish_batch env) w =
     (case fst (publishBatch env publish n (w_broker w) (w_metrics w) (w_db w)) of
        Inl _ \<Rightarrow> True | Inr _ \<Rightarrow> False)"
| "batch_fails publish n _ w = False"

context message_publisher
begin

lemma act_faithful:
  assumes "faithful (log (w_broker w)) (w_db w)" "ledger_inv (w_db w)"
  shows "faithful (log (w_broker (act publish n a w))) (w_db (act publish n a w))"
proof (cases a)
  case (Serve env req)
  obtain out d' where run: "serve env req (w_db w) = (out, d')" by fastforce
  with serve_appends [OF run] assms(1) show ?thesis by (auto simp: Serve intro: faithful_append)
next
  case (Publish_batch env)
  obtain res b' m' d' where
    run: "publishBatch env publish n (w_broker w) (w_metrics w) (w_db w) = (res, b', m', d')"
    by (metis prod_cases4)
  with batch_faithful [OF assms(1) ledger_inv_outbox_ids(2) [OF assms(2)] run] show ?thesis
    by (simp add: Publish_batch)
qed (use assms in \<open>simp_all add: AccountBalance_reads AccountTransactionsHistory_reads\<close>)

lemma act_in_order:
  assumes "in_order (log (w_broker w)) (w_db w)" "ledger_inv (w_db w)" "\<not> batch_fails publish n a w"
  shows "in_order (log (w_broker (act publish n a w))) (w_db (act publish n a w))"
proof (cases a)
  case (Serve env req)
  obtain out d' where run: "serve env req (w_db w) = (out, d')" by fastforce
  with serve_appends [OF run] assms(1) show ?thesis by (auto simp: Serve intro: in_order_append)
next
  case (Publish_batch env)
  obtain res b' m' d' where
    run: "publishBatch env publish n (w_broker w) (w_metrics w) (w_db w) = (res, b', m', d')"
    by (metis prod_cases4)
  with assms(3) obtain k where res: "res = Inr k" by (auto simp: Publish_batch split: sum.splits)
  with batch_in_order [OF assms(1) ledger_inv_outbox_ids(1) [OF assms(2)], of env n "w_metrics w"] run
  show ?thesis by (simp add: Publish_batch)
qed (use assms in \<open>simp_all add: AccountBalance_reads AccountTransactionsHistory_reads\<close>)

lemma history_faithful:
  assumes "faithful (log (w_broker w)) (w_db w)" "ledger_inv (w_db w)" "\<forall>a \<in> set as. action_typed a"
  shows "faithful (log (w_broker (fold (act publish n) as w))) (w_db (fold (act publish n) as w))"
  using assms
proof (induction as arbitrary: w)
  case (Cons a as)
  with act_faithful act_keeps_inv show ?case by (metis fold_simps(2) list.set_intros)
qed simp

end

fun smooth :: "'b publisher \<Rightarrow> int64 \<Rightarrow> action list \<Rightarrow> 'b world \<Rightarrow> bool" where
  "smooth publish n [] w = True"
| "smooth publish n (a # as) w = (\<not> batch_fails publish n a w \<and> smooth publish n as (act publish n a w))"

context message_publisher
begin

lemma history_in_order:
  assumes "in_order (log (w_broker w)) (w_db w)" "ledger_inv (w_db w)" "\<forall>a \<in> set as. action_typed a"
    "smooth publish n as w"
  shows "in_order (log (w_broker (fold (act publish n) as w))) (w_db (fold (act publish n) as w))"
  using assms
proof (induction as arbitrary: w)
  case (Cons a as)
  then have "in_order (log (w_broker (act publish n a w))) (w_db (act publish n a w))"
    "ledger_inv (w_db (act publish n a w))"
    by (auto intro: act_in_order act_keeps_inv)
  with Cons show ?case by simp
qed simp

end

lemma genesis_outbox: "genesis d \<Longrightarrow> faithful [] d \<and> in_order [] d"
  by (simp add: genesis_def faithful_def in_order_def)

definition kafka_log :: "('b \<Rightarrow> kafka_record list) \<Rightarrow> 'b world \<Rightarrow> delivery list" where
  "kafka_log records w = map delivery_of_record (records (w_broker w))"

text \<open>
  C28: At-least-once delivery: after every history, whatever failed (a publish that delivered a part
  of the batch and then failed, a mark that failed, a commit that failed after the broker had
  acknowledged), every outbox row marked published is in the broker, and the broker holds nothing
  but events of the outbox. The Kafka client is any client with the documented behaviour of
  \<^verbatim>\<open>ProduceSync\<close>.
\<close>

theorem delivered_at_least_once:
  assumes "kafka_client produce ranged records"
    "genesis (w_db w)" "records (w_broker w) = []" "\<forall>a \<in> set as. action_typed a"
  shows "faithful (kafka_log records (fold (act (Publish_kafka produce ranged) n) as w))
    (w_db (fold (act (Publish_kafka produce ranged) n) as w))"
proof -
  have "message_publisher (Publish_kafka produce ranged) (\<lambda>b. map delivery_of_record (records b))"
    using assms(1) by (rule kafka_client.publisher_contract)
  then show ?thesis
    unfolding kafka_log_def using assms genesis_outbox genesis_ledger_inv
    by (intro message_publisher.history_faithful) auto
qed

theorem delivered_at_least_once_witness:
  "faithful (kafka_log (\<lambda>b. b) (fold (act (Publish_kafka memory_produce rev) 10)
       [Serve quiet_env (Deposit_req 3 100 ''ATM'' ''k1''), Publish_batch (faulty_env 2)]
       (world_of bank_db)))
     (w_db (fold (act (Publish_kafka memory_produce rev) 10)
       [Serve quiet_env (Deposit_req 3 100 ''ATM'' ''k1''), Publish_batch (faulty_env 2)]
       (world_of bank_db)))"
  by (rule delivered_at_least_once [OF memory.kafka_client_axioms])
    (simp_all add: in_int64_def world_of_def)

section \<open>Exactly once, in order\<close>

text \<open>
  C29: Ordering: in a history in which no batch returned an error (locked batches, faulty requests
  and lost commits of requests included), the published rows are a prefix of the outbox, and for
  every partition key the broker's log is exactly the events of that prefix with that key, each
  once, in the order in which the ledger wrote them.
\<close>

theorem delivered_in_order:
  assumes "kafka_client produce ranged records"
    "genesis (w_db w)" "records (w_broker w) = []" "\<forall>a \<in> set as. action_typed a"
    "smooth (Publish_kafka produce ranged) n as w"
  shows "in_order (kafka_log records (fold (act (Publish_kafka produce ranged) n) as w))
    (w_db (fold (act (Publish_kafka produce ranged) n) as w))"
proof -
  have "message_publisher (Publish_kafka produce ranged) (\<lambda>b. map delivery_of_record (records b))"
    using assms(1) by (rule kafka_client.publisher_contract)
  then show ?thesis
    unfolding kafka_log_def using assms genesis_outbox genesis_ledger_inv
    by (intro message_publisher.history_in_order) auto
qed

lemma healthy_batch_smooth:
  assumes "healthy env" "advisory_lock_free env" "0 \<le> n" "\<And>ms b. fst (publish ms b) = None"
  shows "\<not> batch_fails publish n (Publish_batch env) w"
  using assms by (simp add: publishBatch_healthy batch_result_def Let_def)

theorem delivered_in_order_witness:
  "in_order (kafka_log (\<lambda>b. b) (fold (act (Publish_kafka memory_produce rev) 1)
       [Serve quiet_env (Deposit_req 3 100 ''ATM'' ''k1''), Publish_batch quiet_env,
        Serve lost_commit_env (Transfer_req 3 4 30 ''k2''), Publish_batch quiet_env] (world_of bank_db)))
     (w_db (fold (act (Publish_kafka memory_produce rev) 1)
       [Serve quiet_env (Deposit_req 3 100 ''ATM'' ''k1''), Publish_batch quiet_env,
        Serve lost_commit_env (Transfer_req 3 4 30 ''k2''), Publish_batch quiet_env] (world_of bank_db)))"
proof -
  have "\<not> batch_fails (Publish_kafka memory_produce rev) 1 (Publish_batch quiet_env) w" for w
    by (intro healthy_batch_smooth) (simp_all add: quiet_env_def Publish_kafka_def memory_produce_def healthy_def)
  note calm = this
  show ?thesis
    by (rule delivered_in_order [OF memory.kafka_client_axioms])
      (simp_all only: smooth.simps calm, simp_all add: in_int64_def world_of_def)
qed

section \<open>Batches and draining\<close>

text \<open>
  A batch on a healthy connection with the lock free: it hands the publisher exactly the
  \<open>n\<close> unpublished rows with the least ids (all of them when there are fewer), marks exactly those
  with the transaction's time, returns their number and adds it to the metric, and counts one
  duration; with nothing unpublished it does nothing, and the publisher is not called.
\<close>

theorem batch_takes_the_oldest:
  assumes "healthy env" "advisory_lock_free env" "0 \<le> n"
    "fst (publish (deliveries (take (nat n) (unpublished d))) b) = None"
  shows "publishBatch env publish n b m d =
    (let rows = take (nat n) (unpublished d); k = int (length rows)
     in if rows = [] then (Inr 0, b, m, d)
        else (Inr k, snd (publish (deliveries rows) b),
              m\<lparr>events_published_total := events_published_total m + k,
                publish_durations := publish_durations m + 1\<rparr>,
              d\<lparr>outbox := map (\<lambda>r. if o_id r \<in> o_id ` set rows then r\<lparr>o_published_at := Some (tx_now env)\<rparr>
                                    else r) (outbox d)\<rparr>))"
  using publishBatch_healthy [OF assms(1-3), of publish d b m] assms(4)
  by (simp add: batch_result_def batch_rows_def mark_rows_def mark_published_def [abs_def] Let_def)

theorem batch_takes_the_oldest_witness:
  "publishBatch quiet_env memory_publish 2 [] no_metrics moved_db =
    (let rows = take (nat 2) (unpublished moved_db); k = int (length rows)
     in if rows = [] then (Inr 0, [], no_metrics, moved_db)
        else (Inr k, snd (memory_publish (deliveries rows) []),
              no_metrics\<lparr>events_published_total := events_published_total no_metrics + k,
                publish_durations := publish_durations no_metrics + 1\<rparr>,
              moved_db\<lparr>outbox := map (\<lambda>r. if o_id r \<in> o_id ` set rows
                                    then r\<lparr>o_published_at := Some (tx_now quiet_env)\<rparr>
                                    else r) (outbox moved_db)\<rparr>))"
  by (rule batch_takes_the_oldest)
    (simp_all add: quiet_env_def memory_publish_def Publish_kafka_def memory_produce_def healthy_def)

text \<open>The loop keeps the broker faithful, round by round.\<close>

context message_publisher
begin

lemma relay_faithful:
  assumes "faithful (log (rl_broker r)) (rl_db r)" "distinct (map o_id (outbox (rl_db r)))"
  shows "faithful (log (rl_broker (snd (Run_relay publish sp ws r)))) (rl_db (snd (Run_relay publish sp ws r)))"
  using assms
proof (induction ws arbitrary: r)
  case (Cons w ws)
  obtain res b' m' d' where run: "publishBatch (round_env w) publish (BatchSize sp) (rl_broker r)
      (rl_metrics r) (rl_db r) = (res, b', m', d')" by (metis prod_cases4)
  have "faithful (log b') d'" using Cons.prems run by (rule batch_faithful)
  moreover have "map o_id (outbox d') = map o_id (outbox (rl_db r))"
    using publishBatch_outcome [of publish "BatchSize sp" "rl_broker r" "rl_metrics r" "rl_db r" "round_env w"]
    by (auto simp: run batch_kept_def batch_marked_def mark_rows_ids)
  ultimately show ?case using Cons by (simp add: relay_iteration_def run)
qed simp

end

text \<open>
  C30: The relay drains: from any well-formed database and a faithful broker, once the relay has had
  rounds enough for the backlog (at most \<open>BatchSize\<close> rows a round, the last row included) with a
  healthy connection, the lock free and a publisher that succeeds, every row of the outbox is marked
  published and is in the broker.
\<close>

theorem relay_publishes_everything:
  assumes "kafka_client produce ranged records" "\<And>rs b. fst (produce rs b) = None"
    "ledger_inv (rl_db r)" "faithful (map delivery_of_record (records (rl_broker r))) (rl_db r)"
    "0 < BatchSize sp" "\<forall>w \<in> set ws. calm_round w"
    "int (length (unpublished (rl_db r))) \<le> int (length ws) * BatchSize sp"
    "r' = snd (Run_relay (Publish_kafka produce ranged) sp ws r)"
  shows "\<forall>row \<in> set (outbox (rl_db r')). o_published_at row \<noteq> None \<and>
    delivery_of_row row \<in> set (map delivery_of_record (records (rl_broker r')))"
proof -
  have pub: "message_publisher (Publish_kafka produce ranged) (\<lambda>b. map delivery_of_record (records b))"
    using assms(1) by (rule kafka_client.publisher_contract)
  have ids: "distinct (map o_id (outbox (rl_db r)))" using assms(3) by (rule ledger_inv_outbox_ids)
  have faith: "faithful (map delivery_of_record (records (rl_broker r'))) (rl_db r')"
    unfolding assms(8) using message_publisher.relay_faithful [OF pub] assms(4) ids by blast
  have "int (length (unpublished (rl_db r))) \<le> int (length ws * nat (BatchSize sp))"
    using assms(5,7) by simp
  then have "length (unpublished (rl_db r)) \<le> length ws * nat (BatchSize sp)"
    by (simp only: of_nat_le_iff)
  then have "unpublished (rl_db r') = []"
    unfolding assms(8) using relay_drains [OF assms(6) _ assms(5) ids, of "Publish_kafka produce ranged"] assms(2)
    by (simp add: Publish_kafka_def)
  then have "\<forall>row \<in> set (outbox (rl_db r')). o_published_at row \<noteq> None"
    by (metis (mono_tags, lifting) filter_empty_conv set_sort set_empty unpublished_def)
  with faith show ?thesis by (simp add: faithful_def)
qed

definition calm_sample :: relay_round where
  "calm_sample = \<lparr>done_before = False, round_env = quiet_env, done_waiting = False\<rparr>"

theorem relay_publishes_everything_witness:
  "(let r = snd (Run_relay (Publish_kafka memory_produce rev) \<lparr>BatchSize = 2, Interval = 1\<rparr>
         [calm_sample, calm_sample]
         \<lparr>rl_broker = newRecords rev (deliveries (outbox moved_db)), rl_metrics = no_metrics,
           rl_db = moved_db, rl_waits = 0\<rparr>)
    in list_all (\<lambda>row. o_published_at row \<noteq> None \<and>
         delivery_of_row row \<in> set (map delivery_of_record (rl_broker r))) (outbox (rl_db r)))"
proof -
  have "faithful (map delivery_of_record (newRecords rev (deliveries (outbox moved_db)))) moved_db"
    "length (unpublished moved_db) = 3" by code_simp+
  then show ?thesis
    unfolding Let_def list_all_iff
    by (intro relay_publishes_everything [OF memory.kafka_client_axioms _ _ _ _ _ _ refl])
      (simp_all add: memory_produce_def calm_sample_def calm_round_def quiet_env_def healthy_def)
qed

end
