(* ===== verification/Reading.thy ===== *)
theory Reading
  imports Decision Evolution
begin

text \<open>
  What the reading operations answer: the balance is the exact sum of the account's entries, a page
  of the history is the newest entries below the cursor, and following the cursors visits every
  entry once.
\<close>

section \<open>The account's entries\<close>

definition entries_of :: "db \<Rightarrow> int64 \<Rightarrow> ledger_entry_row list" where
  "entries_of d i = filter (\<lambda>l. l_account_id l = i) (ledger_entries d)"

text \<open>An entry with its transaction; the counterparty is the transaction's other account.\<close>

definition entry_view :: "db \<Rightarrow> ledger_entry_row \<Rightarrow> statement_entry" where
  "entry_view d l =
     (case transaction_of d (l_transaction_id l) of
        None \<Rightarrow> \<lparr>se_EntryID = l_id l, se_TransactionID = 0, se_Amount = l_amount l, se_CounterpartyID = 0,
                 se_Type = '''', se_CreatedAt = l_created_at l, se_ReversalOf = None\<rparr>
      | Some t \<Rightarrow> \<lparr>se_EntryID = l_id l, se_TransactionID = t_id t, se_Amount = l_amount l,
                   se_CounterpartyID = (if t_source_id t = l_account_id l then t_destination_id t
                                        else t_source_id t),
                   se_Type = t_type t, se_CreatedAt = l_created_at l, se_ReversalOf = t_reversal_of t\<rparr>)"

definition cursor_bound :: "int64 \<Rightarrow> int64" where
  "cursor_bound before = (if before = 0 then MaxInt64 else before)"

definition page_of :: "db \<Rightarrow> int64 \<Rightarrow> int64 \<Rightarrow> int64 \<Rightarrow> ledger_entry_row list" where
  "page_of d i limit before =
     take (nat (clamp_limit limit)) (rev (filter (\<lambda>l. l_id l < cursor_bound before) (entries_of d i)))"

lemma clamp_limit_bounds: "1 \<le> clamp_limit limit \<and> clamp_limit limit \<le> MaxLimit"
  by (simp add: clamp_limit_def MaxLimit_def defaultLimit_def Let_def)

lemma entry_transaction:
  assumes inv: "ledger_base d" and l: "l \<in> set (ledger_entries d)"
  obtains t where "t \<in> set (transactions d)" "posting_of l \<in> set (tx_postings t)"
    "filter (\<lambda>t. l_transaction_id l = t_id t) (transactions d) = [t]"
    "transaction_of d (l_transaction_id l) = Some t"
proof -
  have "posting_of l \<in> set (map posting_of (ledger_entries d))" using l by simp
  then have "posting_of l \<in> set (concat (map tx_postings (transactions d)))"
    using inv by (simp only: ledger_base_def double_entry_def)
  then obtain t where t: "t \<in> set (transactions d)" "posting_of l \<in> set (tx_postings t)" by auto
  then have id: "l_transaction_id l = t_id t" by (auto simp: posting_of_def tx_postings_def)
  have ids: "distinct (map t_id (transactions d))" and ok: "ids_ok d"
    using inv by (auto simp: ledger_base_def ids_ok_def dest: ids_below_distinct)
  have uniq: "filter (\<lambda>u. t_id t = t_id u) ts = [t]" if "t \<in> set ts" "distinct (map t_id ts)" for ts
    using that
  proof (induction ts)
    case (Cons u us)
    show ?case
    proof (cases "u = t")
      case True
      with Cons.prems show ?thesis by (auto simp: filter_empty_conv)
    next
      case False
      then have "t \<in> set us" using Cons.prems(1) by simp
      then have "t_id t \<in> t_id ` set us" by (rule imageI)
      then have "t_id t \<noteq> t_id u" using Cons.prems(2) by auto
      with False Cons show ?thesis by simp
    qed
  qed simp
  from uniq [OF t(1) ids] t id transaction_of_member [OF ok t(1)] that show thesis by simp
qed

lemma view_of_scan:
  assumes inv: "ledger_base d" and l: "l \<in> set (ledger_entries d)"
  shows "map (\<lambda>t. statement_entry_of (scan_history l t))
      (filter (\<lambda>t. l_transaction_id l = t_id t) (transactions d)) = [entry_view d l]"
proof -
  obtain t where t: "t \<in> set (transactions d)" "posting_of l \<in> set (tx_postings t)"
    and one: "filter (\<lambda>t. l_transaction_id l = t_id t) (transactions d) = [t]"
    and found: "transaction_of d (l_transaction_id l) = Some t"
    using inv l by (rule entry_transaction)
  have ok: "0 < t_amount t" "t_source_id t \<noteq> t_destination_id t"
    using inv t(1) by (simp_all add: ledger_base_def tx_ok_def)
  from t(2) consider "l_account_id l = t_source_id t" "l_amount l = - t_amount t"
    | "l_account_id l = t_destination_id t" "l_amount l = t_amount t"
    by (auto simp: posting_of_def tx_postings_def)
  then show ?thesis
    by cases (use ok in \<open>simp_all add: one entry_view_def found statement_entry_of_def scan_history_def\<close>)
qed

lemma map_history_rows:
  assumes "ledger_base d"
  shows "map statement_entry_of (history_rows i b d) =
    map (entry_view d) (filter (\<lambda>l. l_id l < b) (entries_of d i))"
proof -
  have "map statement_entry_of (concat (map (\<lambda>l. map (scan_history l)
        (filter (\<lambda>t. l_transaction_id l = t_id t) (transactions d))) ls)) = map (entry_view d) ls"
    if "set ls \<subseteq> set (ledger_entries d)" for ls
    using that view_of_scan [OF assms] by (induction ls) (auto simp: comp_def)
  from this [of "filter (\<lambda>l. l_account_id l = i \<and> l_id l < b) (ledger_entries d)"] have "map statement_entry_of (history_rows i b d) =
      map (entry_view d) (filter (\<lambda>l. l_account_id l = i \<and> l_id l < b) (ledger_entries d))"
    by (simp add: history_rows_def subset_iff)
  also have "filter (\<lambda>l. l_account_id l = i \<and> l_id l < b) (ledger_entries d) =
      filter (\<lambda>l. l_id l < b) (entries_of d i)"
    by (simp add: entries_of_def conj_commute)
  finally show ?thesis .
qed

lemma se_EntryID_view [simp]: "se_EntryID (entry_view d l) = l_id l"
  by (simp add: entry_view_def split: option.splits)

lemma se_EntryID_statement [simp]: "se_EntryID (statement_entry_of e) = le_ID e"
  by (simp add: statement_entry_of_def)

lemma entries_of_ascending:
  assumes "ledger_base d"
  shows "sorted_wrt (<) (map l_id (entries_of d i))"
proof -
  have "sorted_wrt (<) (map l_id (ledger_entries d))"
    using assms by (simp add: ledger_base_def ids_ok_def ids_below_def)
  then show ?thesis unfolding entries_of_def by (simp add: sorted_wrt_map sorted_wrt_filter)
qed

lemma history_rows_ascending:
  assumes "ledger_base d"
  shows "sort_key le_ID (history_rows i b d) = history_rows i b d"
proof -
  have "map le_ID (history_rows i b d) = map se_EntryID (map statement_entry_of (history_rows i b d))"
    by (simp add: comp_def)
  also have "\<dots> = map l_id (filter (\<lambda>l. l_id l < b) (entries_of d i))"
    unfolding map_history_rows [OF assms] by (simp add: comp_def)
  finally have "sorted_wrt (<) (map le_ID (history_rows i b d))"
    using entries_of_ascending [OF assms, of i] by (simp add: sorted_wrt_map sorted_wrt_filter)
  then show ?thesis by (intro sort_key_id_if_sorted) (simp add: strict_sorted_iff)
qed

section \<open>The answers\<close>

lemma AccountBalance_exact:
  assumes h: "healthy env"
  shows "AccountBalance env i d =
    (case account_of d i of
       None \<Rightarrow> (Inl (ServiceError ErrAccountNotFound), d)
     | Some a \<Rightarrow>
         (if in_int64 (balance_of d i)
          then (Inr \<lparr>ab_AccountID = i, ab_Currency = a_currency a, ab_Balance = balance_of d i\<rparr>, d)
          else (Inl (DriverError ''cannot scan numeric into *int64''), d)))"
proof (cases "account_of d i")
  case None
  have "gives (account_balance_closure (queries env) i) d (Inl (ServiceError ErrAccountNotFound)) d"
    unfolding account_balance_closure_queries
    using gives_not_found_as [OF gives_GetAccount [OF h, of i d], of ErrAccountNotFound] None
    by (auto intro: gives_bind_error)
  from gives_WithTx [OF h this] None show ?thesis by (simp add: AccountBalance_def)
next
  case (Some a)
  have acc: "gives (onErr (GetAccount env i) (not_found_as ErrAccountNotFound)) d (Inr (scan_account a)) d"
    using gives_not_found_as [OF gives_GetAccount [OF h, of i d], of ErrAccountNotFound] Some by simp
  have id: "a_id a = i" using Some by (rule account_of_SomeD [THEN conjunct2])
  show ?thesis
  proof (cases "in_int64 (balance_of d i)")
    case True
    have "gives (account_balance_closure (queries env) i) d
        (Inr \<lparr>ab_AccountID = i, ab_Currency = a_currency a, ab_Balance = balance_of d i\<rparr>) d"
      unfolding account_balance_closure_queries
      by (rule gives_bind [OF acc], rule gives_bind [OF gives_GetAccountBalance [OF h True]])
        (simp add: id [symmetric] gives_ret)
    from gives_WithTx [OF h this] Some True show ?thesis by (simp add: AccountBalance_def)
  next
    case False
    have "gives (GetAccountBalance env i) d (Inl (DriverError ''cannot scan numeric into *int64'')) d"
      unfolding GetAccountBalance_def by (rule gives_read_sql [OF h]) (simp add: Let_def False)
    then have "gives (account_balance_closure (queries env) i) d
        (Inl (DriverError ''cannot scan numeric into *int64'')) d"
      unfolding account_balance_closure_queries by (intro gives_bind [OF acc] gives_bind_error)
    from gives_WithTx [OF h this] Some False show ?thesis by (simp add: AccountBalance_def)
  qed
qed

lemma AccountTransactionsHistory_page:
  assumes h: "healthy env" and inv: "ledger_base d"
  shows "AccountTransactionsHistory env i limit before d =
    (case account_of d i of
       None \<Rightarrow> (Inl (ServiceError ErrAccountNotFound), d)
     | Some a \<Rightarrow>
         (let page = page_of d i limit before
          in (Inr \<lparr>st_Entries = map (entry_view d) page,
                   st_NextCursor = (if int (length page) < clamp_limit limit then 0
                                    else l_id (last page))\<rparr>, d)))"
proof (cases "account_of d i")
  case None
  have "gives (history_closure (queries env) i (clamp_limit limit) before) d
      (Inl (ServiceError ErrAccountNotFound)) d"
    unfolding history_closure_queries
    using gives_not_found_as [OF gives_GetAccount [OF h, of i d], of ErrAccountNotFound] None
    by (auto intro: gives_bind_error)
  from gives_WithTx [OF h this] None show ?thesis
    by (simp add: AccountTransactionsHistory_def Let_def)
next
  case (Some a)
  let ?k = "clamp_limit limit" and ?b = "cursor_bound before"
  let ?es = "take (nat ?k) (rev (history_rows i ?b d))" and ?page = "page_of d i limit before"
  have acc: "gives (onErr (GetAccount env i) (not_found_as ErrAccountNotFound)) d (Inr (scan_account a)) d"
    using gives_not_found_as [OF gives_GetAccount [OF h, of i d], of ErrAccountNotFound] Some by simp
  have "gives (GetAccountHistory env i ?k before) d (Inr ?es) d"
    unfolding GetAccountHistory_def Let_def
    using clamp_limit_bounds [of limit]
    by (intro gives_read_sql [OF h]) (simp add: history_rows_ascending [OF inv] cursor_bound_def)
  then have run: "gives (history_closure (queries env) i ?k before) d (Inr ?es) d"
    unfolding history_closure_queries by (intro gives_bind [OF acc])
  have views: "map statement_entry_of ?es = map (entry_view d) ?page"
    using map_history_rows [OF inv, of i ?b]
    by (simp add: page_of_def rev_map [symmetric] take_map [symmetric])
  then have len: "length ?es = length ?page" by (metis length_map)
  have "map le_ID ?es = map se_EntryID (map statement_entry_of ?es)" by (simp add: comp_def)
  also have "\<dots> = map l_id ?page" unfolding views by (simp add: comp_def)
  finally have "?es \<noteq> [] \<Longrightarrow> le_ID (last ?es) = l_id (last ?page)"
    by (metis last_map map_is_Nil_conv)
  moreover have "?es = [] \<Longrightarrow> int (length ?page) < ?k"
    using len clamp_limit_bounds [of limit] by simp
  ultimately have "next_cursor ?k ?es = (if int (length ?page) < ?k then 0 else l_id (last ?page))"
    by (auto simp only: next_cursor_def len split: if_splits)
  with gives_WithTx [OF h run] Some views show ?thesis
    by (simp add: AccountTransactionsHistory_def Let_def)
qed

section \<open>Following the cursors\<close>

text \<open>
  A client that reads the pages of a history one after another, until the cursor is 0: each page is
  read in an environment of its own. \<open>None\<close> when a page fails or the environments run out.
\<close>

fun read_pages :: "env list \<Rightarrow> int64 \<Rightarrow> int64 \<Rightarrow> int64 \<Rightarrow> db \<Rightarrow> statement_entry list option" where
  "read_pages [] i limit before d = None"
| "read_pages (env # envs) i limit before d =
     (case AccountTransactionsHistory env i limit before d of
        (Inl _, _) \<Rightarrow> None
      | (Inr st, d') \<Rightarrow>
          if st_NextCursor st = 0 then Some (st_Entries st)
          else map_option (\<lambda>rest. st_Entries st @ rest) (read_pages envs i limit (st_NextCursor st) d'))"

text \<open>In a descending list, the elements below the last of the first \<open>k\<close> are the others.\<close>

lemma below_last_of_page:
  fixes f :: "'a \<Rightarrow> int64"
  assumes "sorted_wrt (>) (map f xs)" "0 < k" "k \<le> length xs"
  shows "filter (\<lambda>x. f x < f (last (take k xs))) xs = drop k xs"
proof -
  have "take k xs \<noteq> []" using assms by auto
  then have last: "last (take k xs) = xs ! (k - 1)"
    using assms by (simp add: last_conv_nth)
  have gt: "f (xs ! n) < f (xs ! m)" if "m < n" "n < length xs" for m n
    using sorted_wrt_nth_less [OF assms(1) that(1)] that by simp
  have "filter (\<lambda>x. f x < f (xs ! (k - 1))) (take k xs) = []"
  proof (rule filter_False, rule ballI)
    fix x
    assume "x \<in> set (take k xs)"
    then obtain m where m: "m < k" "m < length xs" and x: "xs ! m = x" by (auto simp: in_set_conv_nth)
    have "f (xs ! (k - 1)) \<le> f (xs ! m)"
    proof (cases "m = k - 1")
      case False
      then have "m < k - 1" using m(1) by simp
      then have "f (xs ! (k - 1)) < f (xs ! m)" using assms(2,3) by (intro gt) auto
      then show ?thesis by simp
    qed simp
    then show "\<not> f x < f (xs ! (k - 1))" by (simp add: x)
  qed
  moreover have "filter (\<lambda>x. f x < f (xs ! (k - 1))) (drop k xs) = drop k xs"
  proof (rule filter_True, rule ballI)
    fix x
    assume "x \<in> set (drop k xs)"
    then obtain m where "m < length (drop k xs)" "drop k xs ! m = x" by (meson in_set_conv_nth)
    then have "k + m < length xs" "x = xs ! (k + m)" using assms(3) by auto
    then show "f x < f (xs ! (k - 1))" using gt [of "k - 1" "k + m"] assms by simp
  qed
  ultimately show ?thesis
    unfolding last by (metis append_Nil append_take_drop_id filter_append)
qed

text \<open>The entries below a cursor, newest first.\<close>

definition below :: "db \<Rightarrow> int64 \<Rightarrow> int64 \<Rightarrow> ledger_entry_row list" where
  "below d i before = rev (filter (\<lambda>l. l_id l < cursor_bound before) (entries_of d i))"

lemma page_of_below: "page_of d i limit before = take (nat (clamp_limit limit)) (below d i before)"
  by (simp add: page_of_def below_def)

lemma below_descending:
  assumes "ledger_base d"
  shows "sorted_wrt (>) (map l_id (below d i before))"
  using entries_of_ascending [OF assms, of i]
  by (simp add: below_def rev_map [symmetric] sorted_wrt_rev sorted_wrt_map sorted_wrt_filter)

lemma below_next:
  assumes inv: "ledger_base d" and k: "0 < k" "k \<le> length (below d i before)"
  shows "below d i (l_id (last (take k (below d i before)))) = drop k (below d i before)"
    and "l_id (last (take k (below d i before))) \<noteq> 0"
proof -
  let ?xs = "below d i before"
  let ?c = "l_id (last (take k ?xs))"
  have "take k ?xs \<noteq> []" using k by auto
  then have "last (take k ?xs) \<in> set ?xs" by (meson in_set_takeD last_in_set)
  then have mem: "last (take k ?xs) \<in> set (ledger_entries d)" "?c < cursor_bound before"
    by (auto simp: below_def entries_of_def)
  from mem(1) inv show nz: "?c \<noteq> 0" by (auto simp: ledger_base_def ids_ok_def ids_below_def)
  have "below d i ?c = filter (\<lambda>l. l_id l < ?c) ?xs"
    using mem(2) nz
    by (auto simp: below_def cursor_bound_def rev_filter [symmetric] intro!: filter_cong)
  also have "\<dots> = drop k ?xs"
    using below_descending [OF inv] k by (rule below_last_of_page)
  finally show "below d i ?c = drop k ?xs" .
qed

lemma read_pages_below:
  assumes inv: "ledger_base d" and acc: "account_of d i \<noteq> None"
    and envs: "\<forall>e \<in> set envs. healthy e" "length (below d i before) < length envs * nat (clamp_limit limit)"
  shows "read_pages envs i limit before d = Some (map (entry_view d) (below d i before))"
  using envs
proof (induction envs arbitrary: before)
  case (Cons env envs)
  let ?k = "nat (clamp_limit limit)" and ?xs = "below d i before"
  obtain a where a: "account_of d i = Some a" using acc by blast
  have k: "0 < ?k" "int ?k = clamp_limit limit" using clamp_limit_bounds [of limit] by auto
  have page: "AccountTransactionsHistory env i limit before d =
      (Inr \<lparr>st_Entries = map (entry_view d) (take ?k ?xs),
            st_NextCursor = (if length (take ?k ?xs) < ?k then 0 else l_id (last (take ?k ?xs)))\<rparr>, d)"
    using AccountTransactionsHistory_page [OF _ inv, of env i limit before] Cons.prems(1) a k(2)
    by (simp add: page_of_below Let_def del: length_take) linarith
  show ?case
  proof (cases "length ?xs < ?k")
    case True
    then show ?thesis by (simp add: page)
  next
    case False
    then have le: "?k \<le> length ?xs" by simp
    note nxt = below_next [OF inv k(1) le]
    have "read_pages envs i limit (l_id (last (take ?k ?xs))) d = Some (map (entry_view d) (drop ?k ?xs))"
      using Cons.IH [of "l_id (last (take ?k ?xs))"] Cons.prems le by (simp add: nxt(1))
    with le nxt(2) show ?thesis
      by (simp add: page min_def map_append [symmetric] del: map_append)
  qed
qed simp

end
