(* ===== verification/Reading_Properties.thy ===== *)
theory Reading_Properties
  imports Reading Ledger_Properties
begin

text \<open>The properties of the reading operations and of the text the outbox keys are made of.\<close>

section \<open>Balances\<close>

text \<open>
  C38: On a healthy connection \<open>AccountBalance\<close> answers the exact sum of the account's entries with
  the account's id and currency and changes nothing; it answers \<open>ErrAccountNotFound\<close> for an
  account that does not exist, and a driver error, never a wrapped number, for a sum that does not
  fit \<open>int64\<close>.
\<close>

theorem balance_is_exact:
  assumes "healthy env"
  shows "AccountBalance env i d =
    (case account_of d i of
       None \<Rightarrow> (Inl (ServiceError ErrAccountNotFound), d)
     | Some a \<Rightarrow>
         (if in_int64 (balance_of d i)
          then (Inr \<lparr>ab_AccountID = i, ab_Currency = a_currency a, ab_Balance = balance_of d i\<rparr>, d)
          else (Inl (DriverError ''cannot scan numeric into *int64''), d)))"
  using assms by (rule AccountBalance_exact)

theorem balance_is_exact_witness:
  "AccountBalance quiet_env 3 moved_db =
     (Inr \<lparr>ab_AccountID = 3, ab_Currency = ''USD'', ab_Balance = 70\<rparr>, moved_db)"
proof -
  have "account_of moved_db 3 = Some (user_account 3 ''USD'')" by code_simp
  then show ?thesis
    unfolding balance_is_exact [OF quiet_env_healthy]
    by (simp add: moved_db_balance in_int64_def user_account_def)
qed

section \<open>Histories\<close>

text \<open>
  On a healthy connection a page of the history of an existing account is exactly its newest
  entries below the cursor (all of them for cursor 0), newest first, at most 999 of them and 10 by
  default; each carries the entry, its transaction's type and reversed transaction, and as
  counterparty the transaction's other account, which the code derives from the sign of the amount.
  The next cursor is 0 when the page is short and otherwise the id of its last entry.
\<close>

theorem history_page_exact:
  assumes "healthy env" "ledger_inv d" "account_of d i = Some a"
  shows "AccountTransactionsHistory env i limit before d =
    (let page = page_of d i limit before
     in (Inr \<lparr>st_Entries = map (entry_view d) page,
              st_NextCursor = (if int (length page) < clamp_limit limit then 0 else l_id (last page))\<rparr>, d)) \<and>
    clamp_limit limit = (if limit \<le> 0 then 10 else min limit 999)"
  using AccountTransactionsHistory_page [OF assms(1), of d i limit before] assms(2,3)
  by (simp_all add: ledger_inv_def Let_def clamp_limit_def MaxLimit_def defaultLimit_def)

theorem history_page_exact_witness:
  "AccountTransactionsHistory quiet_env 3 1 0 moved_db =
     (Inr \<lparr>st_Entries = [\<lparr>se_EntryID = 3, se_TransactionID = 2, se_Amount = - 30, se_CounterpartyID = 4,
          se_Type = ''transfer'', se_CreatedAt = noon, se_ReversalOf = None\<rparr>], st_NextCursor = 3\<rparr>, moved_db)"
proof -
  have acc: "account_of moved_db 3 = Some (user_account 3 ''USD'')" by code_simp
  have page: "page_of moved_db 3 1 0 = [sample_entry 3 2 3 (-30)]" by code_simp
  have "clamp_limit 1 = 1" "entry_view moved_db (sample_entry 3 2 3 (-30)) =
      \<lparr>se_EntryID = 3, se_TransactionID = 2, se_Amount = - 30, se_CounterpartyID = 4,
       se_Type = ''transfer'', se_CreatedAt = noon, se_ReversalOf = None\<rparr>" by code_simp+
  then show ?thesis
    unfolding conjunct1 [OF history_page_exact [OF quiet_env_healthy moved_db_inv acc]]
    by (simp add: page Let_def sample_entry_def)
qed

text \<open>
  C37: Pagination is complete and ends: a client that starts at cursor 0 and follows the cursors reads
  every entry of the account exactly once, newest first, and sees the cursor 0 after at most one
  page more than the entries fill, whatever the page limit. (An entry with the id \<open>MaxInt64\<close> itself
  would be missed: cursor 0 stands for that bound.)
\<close>

theorem pages_visit_every_entry_once:
  assumes "ledger_inv d" "account_of d i \<noteq> None" "ledger_entries_seq d < MaxInt64"
    "\<forall>e \<in> set envs. healthy e"
    "length (entries_of d i) < length envs * nat (clamp_limit limit)"
  shows "read_pages envs i limit 0 d = Some (map (entry_view d) (rev (entries_of d i))) \<and>
    distinct (map l_id (entries_of d i))"
proof -
  have base: "ledger_base d" using assms(1) by (simp add: ledger_inv_def)
  have "\<forall>l \<in> set (entries_of d i). l_id l < MaxInt64"
    using assms(3) base by (fastforce simp: entries_of_def ledger_base_def ids_ok_def ids_below_def)
  then have all: "below d i 0 = rev (entries_of d i)"
    by (simp add: below_def cursor_bound_def rev_filter filter_id_conv)
  have "read_pages envs i limit 0 d = Some (map (entry_view d) (rev (entries_of d i)))"
    using read_pages_below [OF base assms(2,4), of 0 limit] assms(5) by (simp add: all)
  moreover have "distinct (map l_id (entries_of d i))"
    using entries_of_ascending [OF base, of i] by (simp add: strict_sorted_iff)
  ultimately show ?thesis ..
qed

theorem pages_visit_every_entry_once_witness:
  "read_pages (replicate 3 quiet_env) 3 1 0 moved_db =
     Some (map (entry_view moved_db) [sample_entry 3 2 3 (-30), sample_entry 2 1 3 100])"
proof -
  have "account_of moved_db 3 \<noteq> None" "entries_of moved_db 3 = [sample_entry 2 1 3 100, sample_entry 3 2 3 (-30)]"
    "clamp_limit 1 = 1" "ledger_entries_seq moved_db < MaxInt64" by code_simp+
  then show ?thesis
    using pages_visit_every_entry_once [OF moved_db_inv, of 3 "replicate 3 quiet_env" 1] by simp
qed

section \<open>Keys\<close>

definition sample_posted :: "int64 \<Rightarrow> entry_posted" where
  "sample_posted i =
     \<lparr>ev_AccountID = i, ev_TransactionID = 1, ev_TransactionType = ''transfer'', ev_Amount = 30,
      ev_Currency = ''USD'', ev_CounterpartyID = 4, ev_ReversalOf = None, ev_OccurredAt = noon\<rparr>"

text \<open>
  The partition key of an event determines its account: the key is the decimal text of the
  account id, \<open>strconv.ParseInt\<close> reads it back, and two accounts never share a key.
\<close>

theorem key_round_trip:
  assumes "in_int64 (ev_AccountID e)"
  shows "ParseInt (Key e) = Inr (ev_AccountID e) \<and>
    (in_int64 (ev_AccountID f) \<longrightarrow> (Key e = Key f \<longleftrightarrow> ev_AccountID e = ev_AccountID f))"
  using assms by (simp_all add: Key_def ParseInt_FormatInt FormatInt_inj)

theorem key_round_trip_witness:
  "ParseInt (Key (sample_posted MinInt64)) = Inr MinInt64 \<and> Key (sample_posted 7) \<noteq> Key (sample_posted (-7))"
  using key_round_trip [of "sample_posted MinInt64"] key_round_trip [of "sample_posted 7" "sample_posted (-7)"]
  by (simp add: sample_posted_def in_int64_def)

end
