(* ===== verification/Dedup.thy ===== *)
theory Dedup
  imports Go_Errors
begin

text \<open>
  \<^verbatim>\<open>internal/notification/dedup.go\<close>: claims on events, kept in Redis under a key per event. The Redis
  commands are parameters (\<^verbatim>\<open>SET key value NX EX ttl\<close>, \<^verbatim>\<open>GET key\<close>, \<^verbatim>\<open>SET key value EX ttl\<close>) on a state
  \<open>'w\<close> of their own; time passes in it, other owners change it.
\<close>

section \<open>Claims\<close>

datatype claim_result = ClaimUnknown | ClaimAcquired | ClaimDone | ClaimBusy

definition keyPrefix :: string where "keyPrefix = ''notified:''"

text \<open>Durations in seconds.\<close>

definition leaseTTL :: int where "leaseTTL = 30"
definition doneTTL :: int where "doneTTL = 24 * 3600"

definition stateProcessing :: string where "stateProcessing = ''processing''"
definition stateDone :: string where "stateDone = ''done''"

definition dedupKey :: "string \<Rightarrow> string" where
  "dedupKey eventID = keyPrefix @ eventID"

text \<open>\<^verbatim>\<open>redis.Nil\<close>, the client's error for an absent key.\<close>

definition redis_Nil :: go_error where "redis_Nil = DriverError ''redis: nil''"

type_synonym 'w setnx_cmd = "string \<Rightarrow> string \<Rightarrow> int \<Rightarrow> 'w \<Rightarrow> bool result \<times> 'w"
type_synonym 'w get_cmd = "string \<Rightarrow> 'w \<Rightarrow> string result \<times> 'w"
type_synonym 'w set_cmd = "string \<Rightarrow> string \<Rightarrow> int \<Rightarrow> 'w \<Rightarrow> go_error option \<times> 'w"

type_synonym 'w claim_op = "string \<Rightarrow> 'w \<Rightarrow> (claim_result \<times> go_error option) \<times> 'w"
type_synonym 'w done_op = "string \<Rightarrow> 'w \<Rightarrow> go_error option \<times> 'w"

definition Claim :: "'w setnx_cmd \<Rightarrow> 'w get_cmd \<Rightarrow> 'w claim_op" where
  "Claim setnx get eventID w =
     (let key = dedupKey eventID in
      case setnx key stateProcessing leaseTTL w of
        (Inl err, w1) \<Rightarrow> ((ClaimUnknown, Some err), w1)
      | (Inr ok, w1) \<Rightarrow>
          if ok then ((ClaimAcquired, None), w1)
          else
            (case get key w1 of
               (Inl err, w2) \<Rightarrow>
                 if errors_Is err redis_Nil then ((ClaimBusy, None), w2)
                 else ((ClaimUnknown, Some err), w2)
             | (Inr val, w2) \<Rightarrow>
                 if val = stateDone then ((ClaimDone, None), w2) else ((ClaimBusy, None), w2)))"

definition Done_redis :: "'w set_cmd \<Rightarrow> 'w done_op" where
  "Done_redis set_value eventID w = set_value (dedupKey eventID) stateDone doneTTL w"

section \<open>The Redis server\<close>

text \<open>
  What is stored is a value and the instant it expires at. A command takes effect at one instant
  between its start and its end; a command that reports an error may have taken effect (its answer
  was lost) or not.
\<close>

definition live_at :: "int \<Rightarrow> (string \<times> int) option \<Rightarrow> string option" where
  "live_at c x = (case x of None \<Rightarrow> None | Some (v, t) \<Rightarrow> if c < t then Some v else None)"

locale redis_server =
  fixes setnx :: "'w setnx_cmd" and get :: "'w get_cmd" and set_value :: "'w set_cmd"
    and store :: "'w \<Rightarrow> string \<Rightarrow> (string \<times> int) option" and clock :: "'w \<Rightarrow> int"
  assumes setnx_added: "setnx k v ttl w = (Inr True, w') \<Longrightarrow>
      \<exists>c. clock w \<le> c \<and> c \<le> clock w' \<and> live_at c (store w k) = None \<and>
        store w' = (store w)(k \<mapsto> (v, c + ttl))"
    and setnx_present: "setnx k v ttl w = (Inr False, w') \<Longrightarrow>
      \<exists>c. clock w \<le> c \<and> c \<le> clock w' \<and> live_at c (store w k) \<noteq> None \<and> store w' = store w"
    and setnx_failed: "setnx k v ttl w = (Inl e, w') \<Longrightarrow>
      clock w \<le> clock w' \<and> (store w' = store w \<or>
        (\<exists>c. clock w \<le> c \<and> c \<le> clock w' \<and> live_at c (store w k) = None \<and>
          store w' = (store w)(k \<mapsto> (v, c + ttl))))"
    and get_found: "get k w = (Inr v, w') \<Longrightarrow>
      \<exists>c. clock w \<le> c \<and> c \<le> clock w' \<and> live_at c (store w k) = Some v \<and> store w' = store w"
    and get_failed: "get k w = (Inl e, w') \<Longrightarrow> clock w \<le> clock w' \<and> store w' = store w"
    and set_stored: "set_value k v ttl w = (None, w') \<Longrightarrow>
      \<exists>c. clock w \<le> c \<and> c \<le> clock w' \<and> store w' = (store w)(k \<mapsto> (v, c + ttl))"
    and set_failed: "set_value k v ttl w = (Some e, w') \<Longrightarrow>
      clock w \<le> clock w' \<and> (store w' = store w \<or>
        (\<exists>c. clock w \<le> c \<and> c \<le> clock w' \<and> store w' = (store w)(k \<mapsto> (v, c + ttl))))"

section \<open>The contract of a deduper\<close>

text \<open>
  What a deduper promises its clients, over the record of each event: reserved until an instant,
  or done until an instant. A claim succeeds only on an event with no live record and reserves it
  for the lease; it answers done only on a live done record; only the claimed event's record ever
  changes.
\<close>

datatype event_record = Reserved int | Finished int

definition record_live :: "int \<Rightarrow> event_record option \<Rightarrow> bool" where
  "record_live c r = (case r of None \<Rightarrow> False | Some (Reserved t) \<Rightarrow> c < t | Some (Finished t) \<Rightarrow> c < t)"

locale deduper =
  fixes claim :: "'w claim_op" and mark :: "'w done_op"
    and record_of :: "'w \<Rightarrow> string \<Rightarrow> event_record option" and now :: "'w \<Rightarrow> int"
  assumes claim_time: "claim e w = (x, w') \<Longrightarrow> now w \<le> now w'"
    and claim_acquired: "claim e w = ((ClaimAcquired, None), w') \<Longrightarrow>
      \<exists>c. now w \<le> c \<and> c \<le> now w' \<and> \<not> record_live c (record_of w e) \<and>
        record_of w' = (record_of w)(e \<mapsto> Reserved (c + leaseTTL))"
    and claim_done: "claim e w = ((ClaimDone, None), w') \<Longrightarrow>
      record_of w' = record_of w \<and> (\<exists>t. record_of w e = Some (Finished t) \<and> now w < t)"
    and claim_busy: "claim e w = ((ClaimBusy, None), w') \<Longrightarrow>
      record_of w' = record_of w \<and> (\<exists>c. now w \<le> c \<and> c \<le> now w' \<and> record_live c (record_of w e))"
    and claim_failed: "claim e w = ((r, Some err), w') \<Longrightarrow>
      r = ClaimUnknown \<and> (record_of w' = record_of w \<or>
        (\<exists>c. now w \<le> c \<and> c \<le> now w' \<and> \<not> record_live c (record_of w e) \<and>
          record_of w' = (record_of w)(e \<mapsto> Reserved (c + leaseTTL))))"
    and claim_known: "claim e w = ((r, None), w') \<Longrightarrow> r \<noteq> ClaimUnknown"
    and done_time: "mark e w = (y, w') \<Longrightarrow> now w \<le> now w'"
    and done_stored: "mark e w = (None, w') \<Longrightarrow>
      \<exists>c. now w \<le> c \<and> c \<le> now w' \<and> record_of w' = (record_of w)(e \<mapsto> Finished (c + doneTTL))"
    and done_failed: "mark e w = (Some err, w') \<Longrightarrow>
      record_of w' = record_of w \<or>
        (\<exists>c. now w \<le> c \<and> c \<le> now w' \<and> record_of w' = (record_of w)(e \<mapsto> Finished (c + doneTTL)))"
begin

text \<open>A finished event stays finished through every claim until its record expires.\<close>

lemma claim_keeps_finished:
  assumes run: "claim e w = ((r, err), w')" and fin: "record_of w f = Some (Finished t)" "now w' < t"
  shows "record_of w' f = Some (Finished t) \<and> (r = ClaimAcquired \<longrightarrow> err = None \<longrightarrow> f \<noteq> e)"
proof -
  have old: "record_live c (record_of w f)" if "c \<le> now w'" for c
    using that fin by (simp add: record_live_def)
  show ?thesis
  proof (cases err)
    case None
    show ?thesis
    proof (cases r)
      case ClaimAcquired
      with None run obtain c where "c \<le> now w'" "\<not> record_live c (record_of w e)"
        "record_of w' = (record_of w)(e \<mapsto> Reserved (c + leaseTTL))"
        using claim_acquired by blast
      with old fin show ?thesis by auto
    next
      case ClaimUnknown
      with None run claim_known show ?thesis by blast
    next
      case ClaimDone
      with None run fin show ?thesis by (auto dest!: claim_done)
    next
      case ClaimBusy
      with None run fin show ?thesis by (auto dest!: claim_busy)
    qed
  next
    case (Some x)
    with run claim_failed [of e w r x w'] old fin show ?thesis by auto
  qed
qed

end

section \<open>The Redis deduper keeps the contract\<close>

definition redis_record :: "('w \<Rightarrow> string \<Rightarrow> (string \<times> int) option) \<Rightarrow> 'w \<Rightarrow> string \<Rightarrow> event_record option" where
  "redis_record store w e =
     (case store w (dedupKey e) of
        None \<Rightarrow> None
      | Some (v, t) \<Rightarrow> Some (if v = stateDone then Finished t else Reserved t))"

lemma dedupKey_inj [simp]: "dedupKey e = dedupKey f \<longleftrightarrow> e = f"
  by (simp add: dedupKey_def)

lemma stateProcessing_not_done [simp]: "stateProcessing \<noteq> stateDone"
  by (simp add: stateProcessing_def stateDone_def)

lemma redis_record_live: "record_live c (redis_record store w e) \<longleftrightarrow> live_at c (store w (dedupKey e)) \<noteq> None"
  by (auto simp: redis_record_def record_live_def live_at_def split: option.splits)

lemma redis_record_update:
  "store w' = (store w)(dedupKey e \<mapsto> (v, t)) \<Longrightarrow>
   redis_record store w' = (redis_record store w)(e \<mapsto> (if v = stateDone then Finished t else Reserved t))"
  by (auto simp: redis_record_def fun_eq_iff)

lemma redis_record_same: "store w' = store w \<Longrightarrow> redis_record store w' = redis_record store w"
  by (simp add: redis_record_def fun_eq_iff)

context redis_server
begin

text \<open>The outcomes of a claim, command by command.\<close>

lemma Claim_cases:
  assumes "Claim setnx get e w = ((r, err), w')"
  obtains x where "setnx (dedupKey e) stateProcessing leaseTTL w = (Inl x, w')" "r = ClaimUnknown" "err = Some x"
  | "setnx (dedupKey e) stateProcessing leaseTTL w = (Inr True, w')" "r = ClaimAcquired" "err = None"
  | x w1 where "setnx (dedupKey e) stateProcessing leaseTTL w = (Inr False, w1)"
      "get (dedupKey e) w1 = (Inl x, w')" "(r, err) = (if errors_Is x redis_Nil then (ClaimBusy, None) else (ClaimUnknown, Some x))"
  | v w1 where "setnx (dedupKey e) stateProcessing leaseTTL w = (Inr False, w1)"
      "get (dedupKey e) w1 = (Inr v, w')" "(r, err) = (if v = stateDone then ClaimDone else ClaimBusy, None)"
  using assms
  by (auto simp: Claim_def Let_def split: prod.splits sum.splits if_splits)

lemma setnx_time: "setnx k v ttl w = (r, w') \<Longrightarrow> clock w \<le> clock w'"
  using setnx_added setnx_present setnx_failed by (cases r) (force, metis (full_types) order_trans)

lemma get_time: "get k w = (r, w') \<Longrightarrow> clock w \<le> clock w'"
  using get_found get_failed by (cases r) (force, meson order_trans)

lemma set_time: "set_value k v ttl w = (r, w') \<Longrightarrow> clock w \<le> clock w'"
  using set_stored set_failed by (cases r) (meson order_trans, force)

lemma Claim_time: "Claim setnx get e w = (r, w') \<Longrightarrow> clock w \<le> clock w'"
proof -
  assume run: "Claim setnx get e w = (r, w')"
  obtain res err where r: "r = (res, err)" by fastforce
  from run [unfolded r] show ?thesis
    by (cases rule: Claim_cases) (auto dest!: setnx_time get_time)
qed

end

sublocale redis_server \<subseteq> deduper "Claim setnx get" "Done_redis set_value" "redis_record store" clock
proof unfold_locales
  fix e w r w'
  assume "Claim setnx get e w = (r, w')"
  then show "clock w \<le> clock w'" by (rule Claim_time)
next
  fix e w w'
  assume "Claim setnx get e w = ((ClaimAcquired, None), w')"
  then have "setnx (dedupKey e) stateProcessing leaseTTL w = (Inr True, w')"
    by (cases rule: Claim_cases) (auto split: if_splits)
  from setnx_added [OF this] obtain c where "clock w \<le> c" "c \<le> clock w'"
    "live_at c (store w (dedupKey e)) = None"
    "store w' = (store w)(dedupKey e \<mapsto> (stateProcessing, c + leaseTTL))" by blast
  then show "\<exists>c. clock w \<le> c \<and> c \<le> clock w' \<and> \<not> record_live c (redis_record store w e) \<and>
      redis_record store w' = (redis_record store w)(e \<mapsto> Reserved (c + leaseTTL))"
    by (intro exI [of _ c]) (simp add: redis_record_live redis_record_update)
next
  fix e w w'
  assume "Claim setnx get e w = ((ClaimDone, None), w')"
  then show "redis_record store w' = redis_record store w \<and>
      (\<exists>t. redis_record store w e = Some (Finished t) \<and> clock w < t)"
  proof (cases rule: Claim_cases)
    case (4 v w1)
    then have v: "v = stateDone" by (simp split: if_splits)
    from setnx_present [OF 4(1)] have s1: "clock w \<le> clock w1" "store w1 = store w" by auto
    from get_found [OF 4(2)] obtain c where c: "clock w1 \<le> c" "live_at c (store w1 (dedupKey e)) = Some v"
      "store w' = store w1" by blast
    then obtain t where "store w (dedupKey e) = Some (stateDone, t)" "c < t"
      using s1 v by (auto simp: live_at_def split: option.splits if_splits)
    with s1 c show ?thesis by (auto simp: redis_record_def fun_eq_iff)
  qed (auto split: if_splits)
next
  fix e w w'
  assume "Claim setnx get e w = ((ClaimBusy, None), w')"
  then obtain w1 r where "setnx (dedupKey e) stateProcessing leaseTTL w = (Inr False, w1)"
    "get (dedupKey e) w1 = (r, w')"
    by (cases rule: Claim_cases) (auto split: if_splits)
  note cmds = this
  from setnx_present [OF cmds(1)] obtain c where c: "clock w \<le> c" "c \<le> clock w1"
    "live_at c (store w (dedupKey e)) \<noteq> None" "store w1 = store w" by blast
  have "clock w1 \<le> clock w'" using cmds(2) by (rule get_time)
  moreover have "store w' = store w1" using cmds(2) get_found get_failed by (cases r) blast+
  ultimately show "redis_record store w' = redis_record store w \<and>
      (\<exists>c. clock w \<le> c \<and> c \<le> clock w' \<and> record_live c (redis_record store w e))"
    using c redis_record_same [of store w' w] by (auto simp: redis_record_live intro!: exI [of _ c])
next
  fix e w r err w'
  assume "Claim setnx get e w = ((r, Some err), w')"
  then show "r = ClaimUnknown \<and> (redis_record store w' = redis_record store w \<or>
      (\<exists>c. clock w \<le> c \<and> c \<le> clock w' \<and> \<not> record_live c (redis_record store w e) \<and>
        redis_record store w' = (redis_record store w)(e \<mapsto> Reserved (c + leaseTTL))))"
  proof (cases rule: Claim_cases)
    case (1 x)
    from setnx_failed [OF 1(1)] show ?thesis
    proof (elim conjE disjE exE)
      assume "store w' = store w"
      then have "redis_record store w' = redis_record store w" by (rule redis_record_same)
      with 1(2) show ?thesis by simp
    next
      fix c
      assume c: "clock w \<le> c" "c \<le> clock w'" "live_at c (store w (dedupKey e)) = None"
        "store w' = (store w)(dedupKey e \<mapsto> (stateProcessing, c + leaseTTL))"
      with redis_record_update [OF c(4)] 1(2) show ?thesis by (auto simp: redis_record_live)
    qed
  next
    case (3 x w1)
    from setnx_present [OF 3(1)] get_failed [OF 3(2)] have "store w' = store w" by auto
    then have "redis_record store w' = redis_record store w" by (rule redis_record_same)
    with 3(3) show ?thesis by (simp split: if_splits)
  qed (auto split: if_splits)
next
  fix e w r w'
  assume "Claim setnx get e w = ((r, None), w')"
  then show "r \<noteq> ClaimUnknown" by (cases rule: Claim_cases) (auto split: if_splits)
next
  fix e w err w'
  assume "Done_redis set_value e w = (err, w')"
  then show "clock w \<le> clock w'" by (simp add: Done_redis_def set_time)
next
  fix e w w'
  assume "Done_redis set_value e w = (None, w')"
  then have "set_value (dedupKey e) stateDone doneTTL w = (None, w')" by (simp add: Done_redis_def)
  from set_stored [OF this] obtain c where c: "clock w \<le> c" "c \<le> clock w'"
    "store w' = (store w)(dedupKey e \<mapsto> (stateDone, c + doneTTL))" by blast
  from c(1,2) redis_record_update [OF c(3)]
  show "\<exists>c. clock w \<le> c \<and> c \<le> clock w' \<and>
      redis_record store w' = (redis_record store w)(e \<mapsto> Finished (c + doneTTL))" by auto
next
  fix e w err w'
  assume "Done_redis set_value e w = (Some err, w')"
  then have "set_value (dedupKey e) stateDone doneTTL w = (Some err, w')" by (simp add: Done_redis_def)
  from set_failed [OF this] show "redis_record store w' = redis_record store w \<or>
      (\<exists>c. clock w \<le> c \<and> c \<le> clock w' \<and>
        redis_record store w' = (redis_record store w)(e \<mapsto> Finished (c + doneTTL)))"
  proof (elim conjE disjE exE)
    assume "store w' = store w"
    then have "redis_record store w' = redis_record store w" by (rule redis_record_same)
    then show ?thesis ..
  next
    fix c
    assume c: "clock w \<le> c" "c \<le> clock w'" "store w' = (store w)(dedupKey e \<mapsto> (stateDone, c + doneTTL))"
    from c(1,2) redis_record_update [OF c(3)] show ?thesis by auto
  qed
qed

end
