(* ===== verification/Go_Json.thy ===== *)
theory Go_Json
  imports Go_Text
begin

text \<open>
  What the program uses of \<^verbatim>\<open>encoding/json\<close> for reading: the scanner (a state machine over the
  bytes with a stack of open containers, as the library's own is), the decoding of string literals,
  the matching of object members with struct fields, and the library's readers of RFC 3339 times.
  A member of an object keeps the raw text of its value beside the value, for the types that decode
  themselves.
\<close>

section \<open>Values\<close>

datatype json =
    JNull
  | JBool bool
  | JNum string
  | JStr string
  | JArr "json list"
  | JObj "(string \<times> json \<times> string) list"

section \<open>String literals\<close>

definition json_space :: "char \<Rightarrow> bool" where
  "json_space c \<longleftrightarrow> c = CHR 0x20 \<or> c = CHR 0x09 \<or> c = CHR 0x0A \<or> c = CHR 0x0D"

definition hex_value :: "char \<Rightarrow> int option" where
  "hex_value c =
     (let n = of_char c in
      if 48 \<le> n \<and> n \<le> 57 then Some (n - 48)
      else if 97 \<le> n \<and> n \<le> 102 then Some (n - 87)
      else if 65 \<le> n \<and> n \<le> 70 then Some (n - 55) else None)"

text \<open>The code unit of four hexadecimal digits at the head.\<close>

fun hex4 :: "string \<Rightarrow> int option" where
  "hex4 (a # b # c # d # _) =
     (case (hex_value a, hex_value b, hex_value c, hex_value d) of
        (Some w, Some x, Some y, Some z) \<Rightarrow> Some (4096 * w + 256 * x + 16 * y + z)
      | _ \<Rightarrow> None)"
| "hex4 _ = None"

definition utf8_bytes :: "int \<Rightarrow> string" where
  "utf8_bytes r =
     (if r < 128 then [char_of r]
      else if r < 2048 then [char_of (192 + r div 64), char_of (128 + r mod 64)]
      else if r < 65536 then
        [char_of (224 + r div 4096), char_of (128 + r div 64 mod 64), char_of (128 + r mod 64)]
      else [char_of (240 + r div 262144), char_of (128 + r div 4096 mod 64),
            char_of (128 + r div 64 mod 64), char_of (128 + r mod 64)])"

definition replacement :: string where
  "replacement = [CHR 0xEF, CHR 0xBF, CHR 0xBD]"

definition is_surrogate :: "int \<Rightarrow> bool" where
  "is_surrogate r \<longleftrightarrow> 55296 \<le> r \<and> r \<le> 57343"

text \<open>The rune of an escaped surrogate pair, if the text after the first escape completes one.\<close>

definition low_surrogate :: "int \<Rightarrow> string \<Rightarrow> int option" where
  "low_surrogate hi s =
     (if take 2 s = [CHR 0x5C, CHR ''u''] \<and> hi \<le> 56319
      then case hex4 (drop 2 s) of
             None \<Rightarrow> None
           | Some lo \<Rightarrow> if 56320 \<le> lo \<and> lo \<le> 57343
                        then Some (65536 + (hi - 55296) * 1024 + (lo - 56320)) else None
      else None)"

definition simple_escape :: "char \<Rightarrow> char" where
  "simple_escape c =
     (if c = CHR ''b'' then CHR 0x08 else if c = CHR ''f'' then CHR 0x0C
      else if c = CHR ''n'' then CHR 0x0A else if c = CHR ''r'' then CHR 0x0D
      else if c = CHR ''t'' then CHR 0x09 else c)"

text \<open>The text between the quotes of a valid literal, as bytes; invalid UTF-8 becomes U+FFFD.\<close>

fun unquote :: "string \<Rightarrow> string" where
  "unquote [] = []"
| "unquote (c # cs) =
     (if c = CHR 0x5C then
        (case cs of
           [] \<Rightarrow> []
         | e # s \<Rightarrow>
             if e = CHR ''u'' then
               (case hex4 s of
                  None \<Rightarrow> []
                | Some r \<Rightarrow>
                    if \<not> is_surrogate r then utf8_bytes r @ unquote (drop 4 s)
                    else case low_surrogate r (drop 4 s) of
                           Some rr \<Rightarrow> utf8_bytes rr @ unquote (drop 10 s)
                         | None \<Rightarrow> replacement @ unquote (drop 4 s))
             else simple_escape e # unquote s)
      else if (of_char c :: int) < 128 then c # unquote cs
      else case utf8_width (c # cs) of
             None \<Rightarrow> replacement @ unquote cs
           | Some w \<Rightarrow> c # take (w - 1) cs @ unquote (drop (w - 1) cs))"

section \<open>The scanner\<close>

datatype escape_state = Plain | Escaped | Hex nat

datatype num_state = Neg | Zero | Digits | Dot | Frac | Exp | Exp_sign | Exp_digits

text \<open>An open object keeps its members in reverse, and the key and the text from the start of the value
  being read.\<close>

datatype container =
    In_arr "json list"
  | In_obj "(string \<times> json \<times> string) list" string string

text \<open>\<open>After_value\<close> holds a finished value and the text after it.\<close>

datatype mode =
    Begin_value
  | Begin_value_or_end
  | Begin_key_or_end
  | Begin_key
  | Key_text string escape_state
  | Want_colon string
  | Str_text string escape_state
  | Lit_text string json
  | Num_text num_state string
  | After_value json string

datatype move = Next mode "container list" | Done json | Done_before json | Bad

definition maxNestingDepth :: nat where "maxNestingDepth = 10000"

definition is_digit :: "char \<Rightarrow> bool" where
  "is_digit c \<longleftrightarrow> digit_value c \<noteq> None"

text \<open>The next state of a number: \<open>Inr None\<close> if the number ends before the character.\<close>

fun num_next :: "num_state \<Rightarrow> char \<Rightarrow> unit + num_state option" where
  "num_next Neg c = (if c = CHR ''0'' then Inr (Some Zero)
     else if is_digit c then Inr (Some Digits) else Inl ())"
| "num_next Zero c = (if c = CHR ''.'' then Inr (Some Dot)
     else if c = CHR ''e'' \<or> c = CHR ''E'' then Inr (Some Exp) else Inr None)"
| "num_next Digits c = (if is_digit c then Inr (Some Digits) else if c = CHR ''.'' then Inr (Some Dot)
     else if c = CHR ''e'' \<or> c = CHR ''E'' then Inr (Some Exp) else Inr None)"
| "num_next Dot c = (if is_digit c then Inr (Some Frac) else Inl ())"
| "num_next Frac c = (if is_digit c then Inr (Some Frac)
     else if c = CHR ''e'' \<or> c = CHR ''E'' then Inr (Some Exp) else Inr None)"
| "num_next Exp c = (if c = CHR ''+'' \<or> c = CHR ''-'' then Inr (Some Exp_sign)
     else if is_digit c then Inr (Some Exp_digits) else Inl ())"
| "num_next Exp_sign c = (if is_digit c then Inr (Some Exp_digits) else Inl ())"
| "num_next Exp_digits c = (if is_digit c then Inr (Some Exp_digits) else Inr None)"

fun num_complete :: "num_state \<Rightarrow> bool" where
  "num_complete st = (st \<in> {Zero, Digits, Frac, Exp_digits})"

text \<open>One character of a string literal: \<open>Inr None\<close> is the closing quote.\<close>

fun str_next :: "escape_state \<Rightarrow> char \<Rightarrow> unit + escape_state option" where
  "str_next Plain c = (if c = CHR 0x22 then Inr None else if c = CHR 0x5C then Inr (Some Escaped)
     else if (of_char c :: int) < 32 then Inl () else Inr (Some Plain))"
| "str_next Escaped c = (if c = CHR ''u'' then Inr (Some (Hex 3))
     else if c \<in> set (CHR 0x22 # CHR 0x5C # ''/bfnrt'') then Inr (Some Plain) else Inl ())"
| "str_next (Hex n) c = (if hex_value c = None then Inl ()
     else Inr (Some (case n of 0 \<Rightarrow> Plain | Suc m \<Rightarrow> Hex m)))"

text \<open>A value is complete and \<open>e\<close> is the text after it.\<close>

definition close :: "json \<Rightarrow> string \<Rightarrow> container list \<Rightarrow> move" where
  "close v e fs = (if fs = [] then Done v else Next (After_value v e) fs)"

fun mark_start :: "string \<Rightarrow> container list \<Rightarrow> container list" where
  "mark_start s (In_obj ms k _ # fs) = In_obj ms k s # fs"
| "mark_start s fs = fs"

definition open_container :: "mode \<Rightarrow> container \<Rightarrow> container list \<Rightarrow> move" where
  "open_container m f fs = (if maxNestingDepth \<le> length fs then Bad else Next m (f # fs))"

definition begin_value :: "container list \<Rightarrow> char \<Rightarrow> string \<Rightarrow> move" where
  "begin_value fs c cs =
     (let fs' = mark_start (c # cs) fs in
      if c = CHR ''{'' then open_container Begin_key_or_end (In_obj [] '''' '''') fs'
      else if c = CHR ''['' then open_container Begin_value_or_end (In_arr []) fs'
      else if c = CHR 0x22 then Next (Str_text [] Plain) fs'
      else if c = CHR ''-'' then Next (Num_text Neg [c]) fs'
      else if c = CHR ''0'' then Next (Num_text Zero [c]) fs'
      else if is_digit c then Next (Num_text Digits [c]) fs'
      else if c = CHR ''t'' then Next (Lit_text ''rue'' (JBool True)) fs'
      else if c = CHR ''f'' then Next (Lit_text ''alse'' (JBool False)) fs'
      else if c = CHR ''n'' then Next (Lit_text ''ull'' JNull) fs'
      else Bad)"

fun after_value :: "json \<Rightarrow> string \<Rightarrow> container list \<Rightarrow> char \<Rightarrow> string \<Rightarrow> move" where
  "after_value v e (In_arr vs # fs) c cs =
     (if json_space c then Next (After_value v e) (In_arr vs # fs)
      else if c = CHR '','' then Next Begin_value (In_arr (v # vs) # fs)
      else if c = CHR '']'' then close (JArr (rev (v # vs))) cs fs
      else Bad)"
| "after_value v e (In_obj ms k st # fs) c cs =
     (let ms' = (k, v, take (length st - length e) st) # ms in
      if json_space c then Next (After_value v e) (In_obj ms k st # fs)
      else if c = CHR '','' then Next Begin_key (In_obj ms' '''' '''' # fs)
      else if c = CHR ''}'' then close (JObj (rev ms')) cs fs
      else Bad)"
| "after_value v e [] c cs = Bad"

fun set_key :: "string \<Rightarrow> container list \<Rightarrow> container list" where
  "set_key k (In_obj ms _ st # fs) = In_obj ms k st # fs"
| "set_key k fs = fs"

fun scan_step :: "mode \<Rightarrow> container list \<Rightarrow> char \<Rightarrow> string \<Rightarrow> move" where
  "scan_step Begin_value fs c cs =
     (if json_space c then Next Begin_value fs else begin_value fs c cs)"
| "scan_step Begin_value_or_end fs c cs =
     (if json_space c then Next Begin_value_or_end fs
      else if c = CHR '']'' then close (JArr []) cs (tl fs)
      else begin_value fs c cs)"
| "scan_step Begin_key_or_end fs c cs =
     (if json_space c then Next Begin_key_or_end fs
      else if c = CHR ''}'' then close (JObj []) cs (tl fs)
      else if c = CHR 0x22 then Next (Key_text [] Plain) fs else Bad)"
| "scan_step Begin_key fs c cs =
     (if json_space c then Next Begin_key fs
      else if c = CHR 0x22 then Next (Key_text [] Plain) fs else Bad)"
| "scan_step (Key_text t st) fs c cs =
     (case str_next st c of
        Inl _ \<Rightarrow> Bad
      | Inr None \<Rightarrow> Next (Want_colon (unquote (rev t))) fs
      | Inr (Some st') \<Rightarrow> Next (Key_text (c # t) st') fs)"
| "scan_step (Want_colon k) fs c cs =
     (if json_space c then Next (Want_colon k) fs
      else if c = CHR '':'' then Next Begin_value (set_key k fs) else Bad)"
| "scan_step (Str_text t st) fs c cs =
     (case str_next st c of
        Inl _ \<Rightarrow> Bad
      | Inr None \<Rightarrow> close (JStr (unquote (rev t))) cs fs
      | Inr (Some st') \<Rightarrow> Next (Str_text (c # t) st') fs)"
| "scan_step (Lit_text l v) fs c cs =
     (case l of
        [] \<Rightarrow> Bad
      | d # ds \<Rightarrow> if c \<noteq> d then Bad else if ds = [] then close v cs fs else Next (Lit_text ds v) fs)"
| "scan_step (Num_text st t) fs c cs =
     (case num_next st c of
        Inl _ \<Rightarrow> Bad
      | Inr (Some st') \<Rightarrow> Next (Num_text st' (c # t)) fs
      | Inr None \<Rightarrow> if fs = [] then Done_before (JNum (rev t))
                    else after_value (JNum (rev t)) (c # cs) fs c cs)"
| "scan_step (After_value v e) fs c cs = after_value v e fs c cs"

text \<open>
  The first value of a text and the text after it; \<open>Ended\<close> is a number the end of the text closes,
  \<open>Bad_at\<close> carries the text from the offending character on.
\<close>

datatype scanned = Parsed json string | Ended json | Bad_at string | Truncated

fun scan :: "mode \<Rightarrow> container list \<Rightarrow> string \<Rightarrow> scanned" where
  "scan m fs [] =
     (case m of
        Num_text st t \<Rightarrow> if num_complete st \<and> fs = [] then Ended (JNum (rev t)) else Truncated
      | _ \<Rightarrow> Truncated)"
| "scan m fs (c # cs) =
     (case scan_step m fs c cs of
        Next m' fs' \<Rightarrow> scan m' fs' cs
      | Done v \<Rightarrow> Parsed v cs
      | Done_before v \<Rightarrow> Parsed v (c # cs)
      | Bad \<Rightarrow> Bad_at (c # cs))"

text \<open>The check of \<^verbatim>\<open>json.Unmarshal\<close>: one value, then nothing but space.\<close>

definition json_value :: "string \<Rightarrow> json option" where
  "json_value s =
     (case scan Begin_value [] s of
        Parsed v rest \<Rightarrow> if list_all json_space rest then Some v else None
      | Ended v \<Rightarrow> Some v
      | _ \<Rightarrow> None)"

section \<open>Structs\<close>

text \<open>
  The library's case folding, as far as it can produce an ASCII name: ASCII letters, and the two
  other runes that fold to one (U+017F and U+212A).
\<close>

fun fold_name :: "string \<Rightarrow> string" where
  "fold_name [] = []"
| "fold_name (c # cs) =
     (let n = (of_char c :: int) in
      if 97 \<le> n \<and> n \<le> 122 then char_of (n - 32) # fold_name cs
      else if c = CHR 0xC5 \<and> take 1 cs = [CHR 0xBF] then CHR ''S'' # fold_name (drop 1 cs)
      else if c = CHR 0xE2 \<and> take 2 cs = [CHR 0x84, CHR 0xAA] then CHR ''K'' # fold_name (drop 2 cs)
      else c # fold_name cs)"

definition field_named :: "string list \<Rightarrow> string \<Rightarrow> string option" where
  "field_named names k =
     (if k \<in> set names then Some k else find (\<lambda>n. fold_name n = fold_name k) names)"

datatype decode_error = Wrong_type string | Wrong_value_type | Unknown_field string | Rejected string

text \<open>
  Decoding into a struct: the members in order, each into the field it names; \<open>set_field\<close> assigns
  one. The error is the first one.
\<close>

fun decode_members ::
  "bool \<Rightarrow> string list \<Rightarrow> (string \<Rightarrow> json \<Rightarrow> string \<Rightarrow> 'r \<Rightarrow> decode_error + 'r) \<Rightarrow>
   (string \<times> json \<times> string) list \<Rightarrow> 'r \<Rightarrow> decode_error + 'r" where
  "decode_members strict names set_field [] r = Inr r"
| "decode_members strict names set_field ((k, v, raw) # ms) r =
     (case field_named names k of
        None \<Rightarrow> if strict then Inl (Unknown_field k) else decode_members strict names set_field ms r
      | Some f \<Rightarrow>
          (case set_field f v raw r of
             Inl e \<Rightarrow> Inl e
           | Inr r' \<Rightarrow> decode_members strict names set_field ms r'))"

definition decode_struct ::
  "bool \<Rightarrow> string list \<Rightarrow> (string \<Rightarrow> json \<Rightarrow> string \<Rightarrow> 'r \<Rightarrow> decode_error + 'r) \<Rightarrow> json \<Rightarrow> 'r \<Rightarrow>
   decode_error + 'r" where
  "decode_struct strict names set_field v r =
     (case v of
        JObj ms \<Rightarrow> decode_members strict names set_field ms r
      | JNull \<Rightarrow> Inr r
      | _ \<Rightarrow> Inl Wrong_value_type)"

text \<open>The fields the program has: \<^verbatim>\<open>int64\<close>, \<^verbatim>\<open>*int64\<close> and \<^verbatim>\<open>string\<close>; a null changes nothing or
  clears the pointer.\<close>

definition set_int :: "string \<Rightarrow> json \<Rightarrow> int64 \<Rightarrow> decode_error + int64" where
  "set_int f v old =
     (case v of
        JNull \<Rightarrow> Inr old
      | JNum t \<Rightarrow> (case ParseInt t of Inl _ \<Rightarrow> Inl (Wrong_type f) | Inr i \<Rightarrow> Inr i)
      | _ \<Rightarrow> Inl (Wrong_type f))"

definition set_int_option :: "string \<Rightarrow> json \<Rightarrow> decode_error + int64 option" where
  "set_int_option f v =
     (case v of
        JNull \<Rightarrow> Inr None
      | JNum t \<Rightarrow> (case ParseInt t of Inl _ \<Rightarrow> Inl (Wrong_type f) | Inr i \<Rightarrow> Inr (Some i))
      | _ \<Rightarrow> Inl (Wrong_type f))"

definition set_text :: "string \<Rightarrow> json \<Rightarrow> string \<Rightarrow> decode_error + string" where
  "set_text f v old =
     (case v of JNull \<Rightarrow> Inr old | JStr t \<Rightarrow> Inr t | _ \<Rightarrow> Inl (Wrong_type f))"

section \<open>Reading RFC 3339\<close>

definition day_of_civil :: "int \<Rightarrow> int \<Rightarrow> int \<Rightarrow> int" where
  "day_of_civil y m d =
     (let y' = (if m \<le> 2 then y - 1 else y);
          era = y' div 400;
          yoe = y' mod 400;
          mp = (if 2 < m then m - 3 else m + 9);
          doy = (153 * mp + 2) div 5 + d - 1;
          doe = yoe * 365 + yoe div 4 - yoe div 100 + doy
      in era * 146097 + doe - 719468)"

definition days_in :: "int \<Rightarrow> int \<Rightarrow> int" where
  "days_in y m =
     (if m = 2 then (if y mod 4 = 0 \<and> (y mod 100 \<noteq> 0 \<or> y mod 400 = 0) then 29 else 28)
      else if m \<in> {4, 6, 9, 11} then 30 else 31)"

text \<open>A number of exactly \<open>w\<close> digits within bounds, followed by the character given.\<close>

definition fixed_number :: "nat \<Rightarrow> int \<Rightarrow> int \<Rightarrow> string \<Rightarrow> (int \<times> string) option" where
  "fixed_number w lo hi s =
     (if length s < w then None
      else case parse_digits (take w s) of
             None \<Rightarrow> None
           | Some n \<Rightarrow> if lo \<le> n \<and> n \<le> hi then Some (n, drop w s) else None)"

definition expect :: "char \<Rightarrow> string \<Rightarrow> string option" where
  "expect c s = (case s of [] \<Rightarrow> None | d # ds \<Rightarrow> if d = c then Some ds else None)"

text \<open>The nanoseconds of a fraction, digits after the ninth ignored, and the text after it.\<close>

definition fraction :: "string \<Rightarrow> int \<times> string" where
  "fraction s =
     (case s of
        c # ds \<Rightarrow>
          (let frac = takeWhile is_digit ds in
           if c = CHR ''.'' \<and> frac \<noteq> []
           then (case parse_digits (take 9 (frac @ ''00000000'')) of None \<Rightarrow> 0 | Some n \<Rightarrow> n,
                 drop (length frac) ds)
           else (0, s))
      | [] \<Rightarrow> (0, s))"

text \<open>The offset in seconds; the text ends after it.\<close>

definition zone :: "string \<Rightarrow> int option" where
  "zone s =
     (if s = ''Z'' then Some 0
      else case s of
             [] \<Rightarrow> None
           | c # t \<Rightarrow>
               if c = CHR ''+'' \<or> c = CHR ''-'' then
                 Option.bind (fixed_number 2 0 23 t) (\<lambda>(h, t).
                 Option.bind (expect (CHR '':'') t) (\<lambda>t.
                 Option.bind (fixed_number 2 0 59 t) (\<lambda>(m, t).
                 if t = [] then Some ((if c = CHR ''-'' then -1 else 1) * (3600 * h + 60 * m)) else None)))
               else None)"

definition parse_rfc3339 :: "string \<Rightarrow> time option" where
  "parse_rfc3339 s =
     Option.bind (fixed_number 4 0 9999 s) (\<lambda>(y, s).
     Option.bind (expect (CHR ''-'') s) (\<lambda>s.
     Option.bind (fixed_number 2 1 12 s) (\<lambda>(mo, s).
     Option.bind (expect (CHR ''-'') s) (\<lambda>s.
     Option.bind (fixed_number 2 1 (days_in y mo) s) (\<lambda>(d, s).
     Option.bind (expect (CHR ''T'') s) (\<lambda>s.
     Option.bind (fixed_number 2 0 23 s) (\<lambda>(h, s).
     Option.bind (expect (CHR '':'') s) (\<lambda>s.
     Option.bind (fixed_number 2 0 59 s) (\<lambda>(mi, s).
     Option.bind (expect (CHR '':'') s) (\<lambda>s.
     Option.bind (fixed_number 2 0 59 s) (\<lambda>(sec, s).
     let (ns, s) = fraction s in
     Option.bind (zone s) (\<lambda>off.
     Some \<lparr>unix_nanos = (86400 * day_of_civil y mo d + 3600 * h + 60 * mi + sec - off) * 1000000000 + ns,
           zone_secs = off\<rparr>))))))))))))"

text \<open>\<^verbatim>\<open>Time.UnmarshalJSON\<close> on the raw text of a member.\<close>

definition set_time :: "string \<Rightarrow> time \<Rightarrow> decode_error + time" where
  "set_time raw old =
     (if raw = ''null'' then Inr old
      else if length raw < 2 \<or> hd raw \<noteq> CHR 0x22 \<or> last raw \<noteq> CHR 0x22
      then Inl (Rejected ''Time.UnmarshalJSON: input is not a JSON string'')
      else case parse_rfc3339 (butlast (tl raw)) of
             None \<Rightarrow> Inl (Rejected ''parsing time'')
           | Some t \<Rightarrow> Inr t)"

end
