(* ===== verification/Messages.thy ===== *)
theory Messages
  imports Events Go_Json
begin

text \<open>
  The messages of the notification service: the payload of an event read back
  (\<^verbatim>\<open>json.Unmarshal\<close> into \<^verbatim>\<open>events.EntryPosted\<close>), the notification a browser gets
  (\<^verbatim>\<open>notification\<close> of \<^verbatim>\<open>processor.go\<close>) and the envelope it travels in between the copies of the
  service (\<^verbatim>\<open>envelope\<close> of \<^verbatim>\<open>pubsub.go\<close>).
\<close>

section \<open>Events\<close>

definition zero_time :: time where
  "zero_time = \<lparr>unix_nanos = -62135596800000000000, zone_secs = 0\<rparr>"

definition zero_entry :: entry_posted where
  "zero_entry =
     \<lparr>ev_AccountID = 0, ev_TransactionID = 0, ev_TransactionType = '''', ev_Amount = 0,
      ev_Currency = '''', ev_CounterpartyID = 0, ev_ReversalOf = None, ev_OccurredAt = zero_time\<rparr>"

definition entry_fields :: "string list" where
  "entry_fields = [''account_id'', ''transaction_id'', ''transaction_type'', ''amount'', ''currency'',
     ''counterparty_id'', ''reversal_of'', ''occurred_at'']"

definition set_entry_field ::
  "string \<Rightarrow> json \<Rightarrow> string \<Rightarrow> entry_posted \<Rightarrow> decode_error + entry_posted" where
  "set_entry_field f v raw e =
     (if f = ''account_id'' then map_sum (\<lambda>x. x) (\<lambda>i. e\<lparr>ev_AccountID := i\<rparr>) (set_int f v (ev_AccountID e))
      else if f = ''transaction_id''
      then map_sum (\<lambda>x. x) (\<lambda>i. e\<lparr>ev_TransactionID := i\<rparr>) (set_int f v (ev_TransactionID e))
      else if f = ''transaction_type''
      then map_sum (\<lambda>x. x) (\<lambda>t. e\<lparr>ev_TransactionType := t\<rparr>) (set_text f v (ev_TransactionType e))
      else if f = ''amount'' then map_sum (\<lambda>x. x) (\<lambda>i. e\<lparr>ev_Amount := i\<rparr>) (set_int f v (ev_Amount e))
      else if f = ''currency''
      then map_sum (\<lambda>x. x) (\<lambda>t. e\<lparr>ev_Currency := t\<rparr>) (set_text f v (ev_Currency e))
      else if f = ''counterparty_id''
      then map_sum (\<lambda>x. x) (\<lambda>i. e\<lparr>ev_CounterpartyID := i\<rparr>) (set_int f v (ev_CounterpartyID e))
      else if f = ''reversal_of''
      then map_sum (\<lambda>x. x) (\<lambda>i. e\<lparr>ev_ReversalOf := i\<rparr>) (set_int_option f v)
      else map_sum (\<lambda>x. x) (\<lambda>t. e\<lparr>ev_OccurredAt := t\<rparr>) (set_time raw (ev_OccurredAt e)))"

definition json_syntax :: go_error where
  "json_syntax = JsonError ''invalid character''"

definition of_decode :: "decode_error + 'r \<Rightarrow> 'r result" where
  "of_decode x = map_sum (\<lambda>_. JsonError ''cannot unmarshal'') (\<lambda>r. r) x"

definition unmarshal_entry :: "string \<Rightarrow> entry_posted result" where
  "unmarshal_entry payload =
     (case json_value payload of
        None \<Rightarrow> Inl json_syntax
      | Some v \<Rightarrow> of_decode (decode_struct False entry_fields set_entry_field v zero_entry))"

section \<open>Notifications\<close>

record notification =
  n_EventID :: string
  n_EntryPosted :: entry_posted

text \<open>The embedded struct's members follow the event id.\<close>

definition marshal_notification :: "notification \<Rightarrow> string result" where
  "marshal_notification n =
     (case rfc3339 (ev_OccurredAt (n_EntryPosted n)) of
        Inl msg \<Rightarrow> Inl (JsonError msg)
      | Inr t \<Rightarrow>
          Inr (json_object ((''event_id'', json_string (n_EventID n)) # entry_members (n_EntryPosted n) t)))"

section \<open>Envelopes\<close>

record envelope =
  en_AccountID :: int64
  en_Message :: string

text \<open>
  \<^verbatim>\<open>json.RawMessage\<close>: encoding checks the text and compacts it (space outside strings removed,
  HTML characters and U+2028, U+2029 escaped), nil is null.
\<close>

definition html_escape :: "char \<Rightarrow> string" where
  "html_escape c = (if c = CHR 0x3C \<or> c = CHR 0x3E \<or> c = CHR 0x26 then json_ascii c else [c])"

fun compact :: "bool \<Rightarrow> bool \<Rightarrow> string \<Rightarrow> string" where
  "compact in_text esc [] = []"
| "compact in_text esc (c # cs) =
     (if \<not> in_text then
        (if json_space c then compact False False cs else html_escape c @ compact (c = CHR 0x22) False cs)
      else if c = CHR 0xE2 \<and> (take 2 cs = [CHR 0x80, CHR 0xA8] \<or> take 2 cs = [CHR 0x80, CHR 0xA9])
      then u_escape (if take 2 cs = [CHR 0x80, CHR 0xA8] then ''2028'' else ''2029'')
             @ compact True False (drop 2 cs)
      else html_escape c @ compact (esc \<or> c \<noteq> CHR 0x22) (\<not> esc \<and> c = CHR 0x5C) cs)"

definition marshal_raw :: "string \<Rightarrow> string result" where
  "marshal_raw m =
     (if m = [] then Inr ''null''
      else if json_value m = None then Inl json_syntax
      else Inr (compact False False m))"

definition marshal_envelope :: "envelope \<Rightarrow> string result" where
  "marshal_envelope e =
     map_sum (\<lambda>x. x)
       (\<lambda>m. json_object [(''account_id'', FormatInt (en_AccountID e)), (''message'', m)])
       (marshal_raw (en_Message e))"

definition set_envelope_field ::
  "string \<Rightarrow> json \<Rightarrow> string \<Rightarrow> envelope \<Rightarrow> decode_error + envelope" where
  "set_envelope_field f v raw e =
     (if f = ''account_id'' then map_sum (\<lambda>x. x) (\<lambda>i. e\<lparr>en_AccountID := i\<rparr>) (set_int f v (en_AccountID e))
      else Inr (e\<lparr>en_Message := raw\<rparr>))"

definition unmarshal_envelope :: "string \<Rightarrow> envelope result" where
  "unmarshal_envelope payload =
     (case json_value payload of
        None \<Rightarrow> Inl json_syntax
      | Some v \<Rightarrow> of_decode (decode_struct False [''account_id'', ''message''] set_envelope_field v
                    \<lparr>en_AccountID = 0, en_Message = ''''\<rparr>))"

end
