(* ===== verification/Processor.thy ===== *)
theory Processor
  imports Dedup Messages
begin

text \<open>
  \<^verbatim>\<open>internal/notification/processor.go\<close>: one event, from its claim to its publication. The deduper
  and the publisher are interfaces, on a shared outside state \<open>'w\<close>. \<open>Handle\<close> runs step by step, one call
  of an interface each, so that other copies of the service can act between them. While it waits for
  another owner's reservation, the outside state changes: each wait says how, and whether the context
  was done. When the waits given run out, \<open>Handle\<close> is still waiting.
\<close>

section \<open>Data\<close>

text \<open>The counters of \<^verbatim>\<open>metrics.go\<close>: \<^verbatim>\<open>events\<close> by its label, and \<^verbatim>\<open>errors\<close>.\<close>

record note_metrics =
  nm_published :: int
  nm_duplicate :: int
  nm_malformed :: int
  nm_no_event_id :: int
  nm_errors :: int

record 'w wait_round =
  interrupted :: "go_error option"
  meanwhile :: "'w \<Rightarrow> 'w"

type_synonym 'w publish_op = "int64 \<Rightarrow> string \<Rightarrow> 'w \<Rightarrow> go_error option \<times> 'w"

datatype handled = Returned "go_error option" | Still_waiting

datatype claim_outcome = Got_it | Already_done | Claim_error go_error | Waiting

section \<open>Step by step\<close>

text \<open>
  \<open>Handle\<close> between two calls of its interfaces: it is about to claim the event, it has claimed it and is
  about to publish (or to mark an event it cannot read), it has published it and is about to mark it,
  or it has returned. A step is one call and what follows it up to the next; \<open>ctx_err\<close> is what the
  pause after a busy claim ends with.
\<close>

datatype stage = Claiming | Claimed | Published | Return "go_error option"

definition claim_step ::
  "'w claim_op \<Rightarrow> string \<Rightarrow> go_error option \<Rightarrow> 'w \<times> note_metrics \<Rightarrow> stage \<times> 'w \<times> note_metrics" where
  "claim_step claim eventID ctx_err s =
     (let (w, m) = s in
      case claim eventID w of
        ((_, Some err), w1) \<Rightarrow> (Return (Some err), w1, m)
      | ((ClaimAcquired, None), w1) \<Rightarrow> (Claimed, w1, m)
      | ((ClaimDone, None), w1) \<Rightarrow> (Return None, w1, m\<lparr>nm_duplicate := nm_duplicate m + 1\<rparr>)
      | ((ClaimBusy, None), w1) \<Rightarrow>
          (case ctx_err of Some err \<Rightarrow> (Return (Some err), w1, m) | None \<Rightarrow> (Claiming, w1, m))
      | ((ClaimUnknown, None), w1) \<Rightarrow> (Return (Some (DriverError ''unexpected claim result: 0'')), w1, m))"

text \<open>Publish, or give up on a payload that cannot be read and mark the event.\<close>

definition publish_step ::
  "'w done_op \<Rightarrow> 'w publish_op \<Rightarrow> string \<Rightarrow> string \<Rightarrow> 'w \<times> note_metrics \<Rightarrow> stage \<times> 'w \<times> note_metrics" where
  "publish_step mark publish eventID payload s =
     (let (w, m) = s in
      case unmarshal_entry payload of
        Inl _ \<Rightarrow>
          (case mark eventID w of
             (Some err, w1) \<Rightarrow> (Return (Some err), w1, m)
           | (None, w1) \<Rightarrow> (Return None, w1, m\<lparr>nm_malformed := nm_malformed m + 1\<rparr>))
      | Inr entryPosted \<Rightarrow>
          (case marshal_notification \<lparr>n_EventID = eventID, n_EntryPosted = entryPosted\<rparr> of
             Inl err \<Rightarrow> (Return (Some err), w, m)
           | Inr msg \<Rightarrow>
               (case publish (ev_AccountID entryPosted) msg w of
                  (Some err, w1) \<Rightarrow> (Return (Some err), w1, m)
                | (None, w1) \<Rightarrow> (Published, w1, m\<lparr>nm_published := nm_published m + 1\<rparr>))))"

text \<open>Mark the published event; whether that succeeds or not, \<open>Handle\<close> returns nil.\<close>

definition mark_step ::
  "'w done_op \<Rightarrow> string \<Rightarrow> 'w \<times> note_metrics \<Rightarrow> stage \<times> 'w \<times> note_metrics" where
  "mark_step mark eventID s = (let (w, m) = s in case mark eventID w of (_, w1) \<Rightarrow> (Return None, w1, m))"

fun handle_step ::
  "'w claim_op \<Rightarrow> 'w done_op \<Rightarrow> 'w publish_op \<Rightarrow> string \<Rightarrow> string \<Rightarrow> go_error option \<Rightarrow> stage \<Rightarrow>
   'w \<times> note_metrics \<Rightarrow> stage \<times> 'w \<times> note_metrics" where
  "handle_step claim mark publish eventID payload ctx_err Claiming s = claim_step claim eventID ctx_err s"
| "handle_step claim mark publish eventID payload ctx_err Claimed s = publish_step mark publish eventID payload s"
| "handle_step claim mark publish eventID payload ctx_err Published s = mark_step mark eventID s"
| "handle_step claim mark publish eventID payload ctx_err (Return r) s = (Return r, s)"

section \<open>Handling\<close>

text \<open>The steps, one after another, until \<open>Handle\<close> has returned or the waits run out.\<close>

fun stages_left :: "stage \<Rightarrow> nat" where
  "stages_left Claiming = 3"
| "stages_left Claimed = 2"
| "stages_left Published = 1"
| "stages_left (Return r) = 0"

lemma handle_step_left:
  "handle_step claim mark publish e payload ctx_err Claiming s = (st, s') \<Longrightarrow> st \<noteq> Claiming \<Longrightarrow> stages_left st < 3"
  "handle_step claim mark publish e payload ctx_err Claimed s = (st, s') \<Longrightarrow> st \<noteq> Claiming \<Longrightarrow> stages_left st < 2"
  "handle_step claim mark publish e payload ctx_err Published s = (st, s') \<Longrightarrow> st \<noteq> Claiming \<Longrightarrow> stages_left st = 0"
  by (auto simp: claim_step_def publish_step_def mark_step_def Let_def
      split: prod.splits option.splits claim_result.splits sum.splits)

function handle_from ::
  "'w claim_op \<Rightarrow> 'w done_op \<Rightarrow> 'w publish_op \<Rightarrow> string \<Rightarrow> string \<Rightarrow> 'w wait_round list \<Rightarrow> stage \<Rightarrow>
   'w \<times> note_metrics \<Rightarrow> handled \<times> 'w \<times> note_metrics" where
  "handle_from claim mark publish eventID payload rs st s =
     (case st of
        Return r \<Rightarrow> (Returned r, s)
      | _ \<Rightarrow>
          (case handle_step claim mark publish eventID payload
                  (case rs of [] \<Rightarrow> None | r # _ \<Rightarrow> interrupted r) st s of
             (st', w, m) \<Rightarrow>
               if st' = Claiming
               then (case rs of
                       [] \<Rightarrow> (Still_waiting, w, m)
                     | r # rs' \<Rightarrow> handle_from claim mark publish eventID payload rs' Claiming (meanwhile r w, m))
               else handle_from claim mark publish eventID payload rs st' (w, m)))"
  by pat_completeness auto

termination
  by (relation "measures [\<lambda>(_, _, _, _, _, rs, _, _). length rs, \<lambda>(_, _, _, _, _, _, st, _). stages_left st]")
    (auto simp del: handle_step.simps split: prod.splits, (blast dest: handle_step_left)+)

declare handle_from.simps [simp del]

definition Handle ::
  "'w claim_op \<Rightarrow> 'w done_op \<Rightarrow> 'w publish_op \<Rightarrow> 'w wait_round list \<Rightarrow> string \<Rightarrow> string \<Rightarrow>
   'w \<times> note_metrics \<Rightarrow> handled \<times> 'w \<times> note_metrics" where
  "Handle claim mark publish rs eventID payload s =
     (let (w, m) = s in
      if eventID = '''' then (Returned None, w, m\<lparr>nm_no_event_id := nm_no_event_id m + 1\<rparr>)
      else handle_from claim mark publish eventID payload rs Claiming (w, m))"

text \<open>From the claim on.\<close>

definition notify ::
  "'w done_op \<Rightarrow> 'w publish_op \<Rightarrow> string \<Rightarrow> string \<Rightarrow> 'w \<Rightarrow> note_metrics \<Rightarrow>
   handled \<times> 'w \<times> note_metrics" where
  "notify mark publish eventID payload w m =
     handle_from (\<lambda>_ w. ((ClaimUnknown, None), w)) mark publish eventID payload [] Claimed (w, m)"

section \<open>The same as loops\<close>

text \<open>The claims alone.\<close>

fun claim_loop :: "'w claim_op \<Rightarrow> string \<Rightarrow> 'w wait_round list \<Rightarrow> 'w \<Rightarrow> claim_outcome \<times> 'w" where
  "claim_loop claim eventID rs w =
     (case claim eventID w of
        ((_, Some err), w1) \<Rightarrow> (Claim_error err, w1)
      | ((ClaimAcquired, None), w1) \<Rightarrow> (Got_it, w1)
      | ((ClaimDone, None), w1) \<Rightarrow> (Already_done, w1)
      | ((ClaimBusy, None), w1) \<Rightarrow>
          (case rs of
             [] \<Rightarrow> (Waiting, w1)
           | r # rs' \<Rightarrow>
               (case interrupted r of
                  Some err \<Rightarrow> (Claim_error err, w1)
                | None \<Rightarrow> claim_loop claim eventID rs' (meanwhile r w1)))
      | ((ClaimUnknown, None), w1) \<Rightarrow> (Claim_error (DriverError ''unexpected claim result: 0''), w1))"

declare claim_loop.simps [simp del]

lemma handle_from_Ended [simp]: "handle_from claim mark publish e payload rs (Return r) s = (Returned r, s)"
  by (simp add: handle_from.simps)

lemma handle_from_Published:
  "handle_from claim mark publish e payload rs Published (w, m) = (Returned None, snd (mark e w), m)"
  by (subst handle_from.simps) (simp add: mark_step_def split: prod.split)

lemma handle_from_Claimed:
  "handle_from claim mark publish e payload rs Claimed (w, m) =
     (case unmarshal_entry payload of
        Inl _ \<Rightarrow>
          (case mark e w of
             (Some err, w1) \<Rightarrow> (Returned (Some err), w1, m)
           | (None, w1) \<Rightarrow> (Returned None, w1, m\<lparr>nm_malformed := nm_malformed m + 1\<rparr>))
      | Inr entryPosted \<Rightarrow>
          (case marshal_notification \<lparr>n_EventID = e, n_EntryPosted = entryPosted\<rparr> of
             Inl err \<Rightarrow> (Returned (Some err), w, m)
           | Inr msg \<Rightarrow>
               (case publish (ev_AccountID entryPosted) msg w of
                  (Some err, w1) \<Rightarrow> (Returned (Some err), w1, m)
                | (None, w1) \<Rightarrow>
                    (case mark e w1 of
                       (_, w2) \<Rightarrow> (Returned None, w2, m\<lparr>nm_published := nm_published m + 1\<rparr>)))))"
  by (subst handle_from.simps)
    (simp add: publish_step_def handle_from_Published split: sum.split prod.split option.split)

lemmas notify_unfold = notify_def [unfolded handle_from_Claimed]

lemma handle_from_Claiming:
  "handle_from claim mark publish e payload rs Claiming (w, m) =
     (case claim_loop claim e rs w of
        (Claim_error err, w1) \<Rightarrow> (Returned (Some err), w1, m)
      | (Waiting, w1) \<Rightarrow> (Still_waiting, w1, m)
      | (Already_done, w1) \<Rightarrow> (Returned None, w1, m\<lparr>nm_duplicate := nm_duplicate m + 1\<rparr>)
      | (Got_it, w1) \<Rightarrow> notify mark publish e payload w1 m)"
proof (induction rs arbitrary: w)
  case Nil
  show ?case
    by (subst handle_from.simps)
      (auto simp: claim_step_def claim_loop.simps notify_def handle_from_Claimed
        split: prod.splits option.splits claim_result.splits)
next
  case (Cons r rs)
  then show ?case
    by (subst handle_from.simps, subst claim_loop.simps)
      (auto simp: claim_step_def notify_def handle_from_Claimed
        split: prod.splits option.splits claim_result.splits)
qed

lemma Handle_unfold:
  "Handle claim mark publish rs eventID payload s =
     (let (w, m) = s in
      if eventID = '''' then (Returned None, w, m\<lparr>nm_no_event_id := nm_no_event_id m + 1\<rparr>)
      else case claim_loop claim eventID rs w of
             (Claim_error err, w1) \<Rightarrow> (Returned (Some err), w1, m)
           | (Waiting, w1) \<Rightarrow> (Still_waiting, w1, m)
           | (Already_done, w1) \<Rightarrow> (Returned None, w1, m\<lparr>nm_duplicate := nm_duplicate m + 1\<rparr>)
           | (Got_it, w1) \<Rightarrow> notify mark publish eventID payload w1 m)"
  by (cases s) (simp add: Handle_def handle_from_Claiming)

text \<open>The three ways of finishing an event, after its claim.\<close>

definition finished_by ::
  "'w done_op \<Rightarrow> 'w publish_op \<Rightarrow> (int64 \<Rightarrow> string \<Rightarrow> string result) \<Rightarrow> ('w \<Rightarrow> string list) \<Rightarrow>
   string \<Rightarrow> string \<Rightarrow> 'w \<Rightarrow> claim_result \<Rightarrow> 'w \<Rightarrow> note_metrics \<Rightarrow> note_metrics \<Rightarrow> bool" where
  "finished_by mark publish packed log e payload w1 r w' m m' \<longleftrightarrow>
     (r = ClaimDone \<and> w' = w1 \<and> m' = m\<lparr>nm_duplicate := nm_duplicate m + 1\<rparr>) \<or>
     (r = ClaimAcquired \<and> (\<exists>x. unmarshal_entry payload = Inl x) \<and> mark e w1 = (None, w') \<and>
        m' = m\<lparr>nm_malformed := nm_malformed m + 1\<rparr>) \<or>
     (r = ClaimAcquired \<and> (\<exists>entry msg d w2 y. unmarshal_entry payload = Inr entry \<and>
        marshal_notification \<lparr>n_EventID = e, n_EntryPosted = entry\<rparr> = Inr msg \<and>
        packed (ev_AccountID entry) msg = Inr d \<and>
        publish (ev_AccountID entry) msg w1 = (None, w2) \<and> mark e w2 = (y, w') \<and>
        log w' = log w1 @ [d] \<and> m' = m\<lparr>nm_published := nm_published m + 1\<rparr>))"

section \<open>The interfaces\<close>

text \<open>
  A deduper together with a publisher: \<open>packed\<close> is the text the publisher makes of a message, \<open>log\<close>
  what has been published. A publish that reports an error may have gone through.
\<close>

locale notifier = deduper claim mark record_of now
  for claim :: "'w claim_op" and mark :: "'w done_op"
    and record_of :: "'w \<Rightarrow> string \<Rightarrow> event_record option" and now :: "'w \<Rightarrow> int" +
  fixes publish :: "'w publish_op" and packed :: "int64 \<Rightarrow> string \<Rightarrow> string result"
    and log :: "'w \<Rightarrow> string list"
  assumes publish_ok: "publish a msg w = (None, w') \<Longrightarrow>
      \<exists>d. packed a msg = Inr d \<and> log w' = log w @ [d]"
    and publish_failed: "publish a msg w = (Some err, w') \<Longrightarrow>
      log w' = log w \<or> (\<exists>d. packed a msg = Inr d \<and> log w' = log w @ [d])"
    and publish_frame: "publish a msg w = (y, w') \<Longrightarrow> record_of w' = record_of w \<and> now w \<le> now w'"
    and claim_log: "claim e w = (x, w') \<Longrightarrow> log w' = log w"
    and mark_log: "mark e w = (y, w') \<Longrightarrow> log w' = log w"
begin

lemma claim_result_cases:
  obtains r err w1 where "claim e w = ((r, err), w1)" "err = None \<longrightarrow> r \<noteq> ClaimUnknown"
  by (metis claim_known prod.collapse)

text \<open>What the loop's outcome says about the last claim it made.\<close>

lemma claim_loop_last:
  "claim_loop claim e rs w = (out, w') \<Longrightarrow> \<exists>w0 x. claim e w0 = (x, w') \<and>
     (case out of
        Got_it \<Rightarrow> x = (ClaimAcquired, None)
      | Already_done \<Rightarrow> x = (ClaimDone, None)
      | Waiting \<Rightarrow> x = (ClaimBusy, None)
      | Claim_error err \<Rightarrow> x = (ClaimBusy, None) \<or> x = (ClaimUnknown, Some err))"
proof (induction rs arbitrary: w)
  case Nil
  obtain r err w1 where c: "claim e w = ((r, err), w1)" "err = None \<longrightarrow> r \<noteq> ClaimUnknown"
    by (rule claim_result_cases)
  show ?case
    using Nil.prems c claim_failed [of e w r _ w1]
    by (intro exI [of _ w]) (auto simp: claim_loop.simps split: option.splits claim_result.splits)
next
  case (Cons k rs)
  obtain r err w1 where c: "claim e w = ((r, err), w1)" "err = None \<longrightarrow> r \<noteq> ClaimUnknown"
    by (rule claim_result_cases)
  show ?case
  proof (cases "r = ClaimBusy \<and> err = None \<and> interrupted k = None")
    case True
    with Cons.prems c have "claim_loop claim e rs (meanwhile k w1) = (out, w')"
      by (simp add: claim_loop.simps [of claim e "k # rs"])
    then show ?thesis by (rule Cons.IH)
  next
    case False
    then show ?thesis
      using Cons.prems c claim_failed [of e w r _ w1]
      by (intro exI [of _ w]) (auto simp: claim_loop.simps split: option.splits claim_result.splits)
  qed
qed

lemma notify_nil:
  assumes "notify mark publish e payload w m = (Returned None, w', m')"
  shows "finished_by mark publish packed log e payload w ClaimAcquired w' m m'"
proof (cases "unmarshal_entry payload")
  case (Inl x)
  with assms show ?thesis
    by (auto simp: notify_unfold finished_by_def split: prod.splits option.splits)
next
  case (Inr entry)
  with assms obtain msg w2 y where
    msg: "marshal_notification \<lparr>n_EventID = e, n_EntryPosted = entry\<rparr> = Inr msg"
    and pub: "publish (ev_AccountID entry) msg w = (None, w2)" and mrk: "mark e w2 = (y, w')"
    and m': "m' = m\<lparr>nm_published := nm_published m + 1\<rparr>"
    by (auto simp: notify_unfold split: sum.splits prod.splits option.splits)
  from publish_ok [OF pub] obtain d where "packed (ev_AccountID entry) msg = Inr d" "log w2 = log w @ [d]"
    by blast
  with Inr msg pub mrk m' mark_log [OF mrk] show ?thesis
    by (simp add: finished_by_def)
qed

lemma Handle_nil:
  assumes run: "Handle claim mark publish rs e payload (w, m) = (Returned None, w', m')" and e: "e \<noteq> ''''"
  shows "\<exists>w0 r w1. claim_loop claim e rs w = (if r = ClaimDone then Already_done else Got_it, w1) \<and> claim e w0 = ((r, None), w1) \<and>
    finished_by mark publish packed log e payload w1 r w' m m'"
proof -
  obtain out w1 where loop: "claim_loop claim e rs w = (out, w1)" by fastforce
  from claim_loop_last [OF loop] obtain w0 x where last: "claim e w0 = (x, w1)"
    and out: "case out of Got_it \<Rightarrow> x = (ClaimAcquired, None) | Already_done \<Rightarrow> x = (ClaimDone, None)
      | Waiting \<Rightarrow> x = (ClaimBusy, None)
      | Claim_error err \<Rightarrow> x = (ClaimBusy, None) \<or> x = (ClaimUnknown, Some err)" by blast
  show ?thesis
  proof (cases out)
    case Got_it
    with run e loop have "notify mark publish e payload w1 m = (Returned None, w', m')"
      by (simp add: Handle_unfold)
    then have "finished_by mark publish packed log e payload w1 ClaimAcquired w' m m'"
      by (rule notify_nil)
    with loop last out Got_it show ?thesis by auto
  next
    case Already_done
    with run e loop last out show ?thesis by (auto simp: Handle_unfold finished_by_def)
  qed (use run e loop in \<open>simp_all add: Handle_unfold\<close>)
qed

lemma Handle_error_counts_nothing:
  "Handle claim mark publish rs e payload (w, m) = (Returned (Some err), w', m') \<Longrightarrow> m' = m"
  by (auto simp: Handle_unfold notify_unfold Let_def
      split: if_splits prod.splits claim_outcome.splits sum.splits option.splits)

end

end
