(* ===== verification/Pubsub.thy ===== *)
theory Pubsub
  imports Processor
begin

text \<open>
  \<^verbatim>\<open>internal/notification/pubsub.go\<close>: notifications travel between the copies of the service on one
  Redis channel. \<^verbatim>\<open>PUBLISH\<close> is a parameter; what the subscription delivers is a list of events.
\<close>

definition notificationsChannel :: string where "notificationsChannel = ''notifications''"

type_synonym 'w pub_cmd = "string \<Rightarrow> string \<Rightarrow> 'w \<Rightarrow> go_error option \<times> 'w"

definition Publish_redis :: "'w pub_cmd \<Rightarrow> 'w publish_op" where
  "Publish_redis pub accountID msg w =
     (case marshal_envelope \<lparr>en_AccountID = accountID, en_Message = msg\<rparr> of
        Inl err \<Rightarrow> (Some err, w)
      | Inr d \<Rightarrow> pub notificationsChannel d w)"

text \<open>What the loop selects: the context, the closed channel, or a message.\<close>

datatype sub_event = Sub_done | Sub_closed | Sub_message string

text \<open>How \<^verbatim>\<open>Receive\<close>, the confirmation of the subscription, ended.\<close>

datatype subscription = Confirmed | Refused go_error bool

text \<open>
  \<open>send\<close> is the \<^verbatim>\<open>Sender\<close>. The first component is \<open>None\<close> while \<open>Run\<close> has not returned.
\<close>

fun receive_loop ::
  "(int64 \<Rightarrow> string \<Rightarrow> 'h \<Rightarrow> 'h) \<Rightarrow> sub_event list \<Rightarrow> 'h \<Rightarrow> go_error option option \<times> 'h" where
  "receive_loop send [] h = (None, h)"
| "receive_loop send (Sub_done # es) h = (Some None, h)"
| "receive_loop send (Sub_closed # es) h = (Some (Some (DriverError ''subscription closed'')), h)"
| "receive_loop send (Sub_message payload # es) h =
     (case unmarshal_envelope payload of
        Inl _ \<Rightarrow> receive_loop send es h
      | Inr e \<Rightarrow> receive_loop send es (send (en_AccountID e) (en_Message e) h))"

text \<open>\<^verbatim>\<open>Refused err ctx_done\<close>: an error is reported unless the context was done.\<close>

definition Run_subscriber ::
  "(int64 \<Rightarrow> string \<Rightarrow> 'h \<Rightarrow> 'h) \<Rightarrow> subscription \<Rightarrow> sub_event list \<Rightarrow> 'h \<Rightarrow>
   go_error option option \<times> 'h" where
  "Run_subscriber send sub es h =
     (case sub of
        Refused err ctx_done \<Rightarrow> (Some (if ctx_done then None else Some err), h)
      | Confirmed \<Rightarrow> receive_loop send es h)"

end
