(* ===== verification/Notification_Facts.thy ===== *)
theory Notification_Facts
  imports Pubsub
begin

text \<open>
  The notifier over Redis: the deduper and the publisher of the service on one server keep the
  contract \<open>Processor\<close> relies on. Waiting ends when a lease does, and several copies of the
  service that take the steps of \<open>Handle\<close> on one event publish it once, as long as they keep to their
  leases and their marks succeed.
\<close>

section \<open>Redis with its channel\<close>

text \<open>\<open>channel\<close> is what has been published on the notifications channel.\<close>

locale redis_service = redis_server setnx get set_value store clock
  for setnx :: "'w setnx_cmd" and get :: "'w get_cmd" and set_value :: "'w set_cmd"
    and store :: "'w \<Rightarrow> string \<Rightarrow> (string \<times> int) option" and clock :: "'w \<Rightarrow> int" +
  fixes pub :: "'w pub_cmd" and channel :: "'w \<Rightarrow> string list"
  assumes pub_sent: "pub notificationsChannel d w = (None, w') \<Longrightarrow> channel w' = channel w @ [d]"
    and pub_failed: "pub notificationsChannel d w = (Some err, w') \<Longrightarrow>
      channel w' = channel w \<or> channel w' = channel w @ [d]"
    and pub_frame: "pub notificationsChannel d w = (y, w') \<Longrightarrow> store w' = store w \<and> clock w \<le> clock w'"
    and setnx_channel: "setnx k v ttl w = (x, w') \<Longrightarrow> channel w' = channel w"
    and get_channel: "get k w = (z, w') \<Longrightarrow> channel w' = channel w"
    and set_channel: "set_value k v ttl w = (u, w') \<Longrightarrow> channel w' = channel w"

definition packed_envelope :: "int64 \<Rightarrow> string \<Rightarrow> string result" where
  "packed_envelope a msg = marshal_envelope \<lparr>en_AccountID = a, en_Message = msg\<rparr>"

lemma Publish_redis_unfold:
  "Publish_redis pub a msg w =
     (case packed_envelope a msg of Inl err \<Rightarrow> (Some err, w) | Inr d \<Rightarrow> pub notificationsChannel d w)"
  by (simp add: Publish_redis_def packed_envelope_def)

sublocale redis_service \<subseteq>
  notifier "Claim setnx get" "Done_redis set_value" "redis_record store" clock
    "Publish_redis pub" packed_envelope channel
proof unfold_locales
  fix a msg w w'
  assume "Publish_redis pub a msg w = (None, w')"
  then show "\<exists>d. packed_envelope a msg = Inr d \<and> channel w' = channel w @ [d]"
    by (auto simp: Publish_redis_unfold pub_sent split: sum.splits)
next
  fix a msg w err w'
  assume "Publish_redis pub a msg w = (Some err, w')"
  then show "channel w' = channel w \<or> (\<exists>d. packed_envelope a msg = Inr d \<and> channel w' = channel w @ [d])"
    by (auto simp: Publish_redis_unfold dest: pub_failed split: sum.splits)
next
  fix a msg w y w'
  assume "Publish_redis pub a msg w = (y, w')"
  then have "store w' = store w \<and> clock w \<le> clock w'"
    by (auto simp: Publish_redis_unfold dest: pub_frame split: sum.splits)
  then show "redis_record store w' = redis_record store w \<and> clock w \<le> clock w'"
    using redis_record_same [of store w' w] by simp
next
  fix e w x w'
  assume run: "Claim setnx get e w = (x, w')"
  obtain r err where x: "x = (r, err)" by fastforce
  from run [unfolded x] show "channel w' = channel w"
    by (cases rule: Claim_cases) (auto dest!: setnx_channel get_channel)
next
  fix e w y w'
  assume "Done_redis set_value e w = (y, w')"
  then show "channel w' = channel w" by (simp add: Done_redis_def set_channel)
qed

context redis_service begin

lemma notifier_contract:
  "notifier (Claim setnx get) (Done_redis set_value) (redis_record store) clock
     (Publish_redis pub) packed_envelope channel"
  by (rule notifier_axioms)

end

section \<open>Waiting for a reservation\<close>

text \<open>A pause in which time passes and nobody touches the event, not cut short.\<close>

definition uneventful :: "('w \<Rightarrow> string \<Rightarrow> event_record option) \<Rightarrow> ('w \<Rightarrow> int) \<Rightarrow> 'w wait_round \<Rightarrow> bool" where
  "uneventful record_of now k \<longleftrightarrow> interrupted k = None \<and>
     (\<forall>w. record_of (meanwhile k w) = record_of w \<and> now w + 1 \<le> now (meanwhile k w))"

context deduper
begin

lemma lease_expires:
  assumes "\<forall>k \<in> set rs. uneventful record_of now k"
    "\<And>w x err w'. claim e w = ((x, err), w') \<Longrightarrow> err = None"
    "record_of w e = Some (Reserved t)" "t - now w \<le> int (length rs)"
  shows "fst (claim_loop claim e rs w) = Got_it"
  using assms(1,3,4)
proof (induction rs arbitrary: w)
  case Nil
  obtain x w' where c: "claim e w = ((x, None), w')" using assms(2) by (metis prod.collapse)
  have "\<not> record_live i (record_of w e)" if "now w \<le> i" for i
    using that Nil.prems by (simp add: record_live_def)
  moreover have "x \<noteq> ClaimUnknown" using c by (rule claim_known)
  ultimately have "x = ClaimAcquired"
    using c claim_done [of e w w'] claim_busy [of e w w'] Nil.prems(2) by (cases x) auto
  with c show ?case by (simp add: claim_loop.simps)
next
  case (Cons k rs)
  obtain x w' where c: "claim e w = ((x, None), w')" using assms(2) by (metis prod.collapse)
  have calm: "interrupted k = None" "record_of (meanwhile k w') = record_of w'"
    "now w' + 1 \<le> now (meanwhile k w')"
    using Cons.prems(1) by (simp_all add: uneventful_def)
  have later: "now w \<le> now w'" using c by (rule claim_time)
  show ?case
  proof (cases x)
    case ClaimAcquired
    with c show ?thesis by (simp add: claim_loop.simps)
  next
    case ClaimBusy
    with c have "record_of w' = record_of w" using claim_busy by blast
    then have "fst (claim_loop claim e rs (meanwhile k w')) = Got_it"
      using Cons.prems calm later by (intro Cons.IH) auto
    with c ClaimBusy calm(1) show ?thesis by (simp add: claim_loop.simps [of claim e "k # rs"])
  next
    case ClaimDone
    with c claim_done Cons.prems(2) show ?thesis by fastforce
  next
    case ClaimUnknown
    with c claim_known show ?thesis by blast
  qed
qed

end

section \<open>Several copies of the service\<close>

text \<open>
  The workers handle the same event \<open>e\<close>, each by the steps of \<open>Handle\<close>, interleaved in any way; one that
  has returned may be called again, for a record that is delivered twice or retried. The counters are
  those of all copies together. Besides, \<open>cr_lease\<close> remembers when a worker's reservation ends, and
  \<open>cr_unmarked\<close> counts the marks after a publish that reported an error, on which \<open>Handle\<close> returns nil
  all the same.
\<close>

record 'w crew =
  cr_world :: 'w
  cr_metrics :: note_metrics
  cr_stage :: "nat \<Rightarrow> stage"
  cr_lease :: "nat \<Rightarrow> int"
  cr_unmarked :: nat

definition no_notes :: note_metrics where
  "no_notes = \<lparr>nm_published = 0, nm_duplicate = 0, nm_malformed = 0, nm_no_event_id = 0, nm_errors = 0\<rparr>"

definition lease_end :: "event_record option \<Rightarrow> int" where
  "lease_end r = (case r of Some (Reserved t) \<Rightarrow> t | _ \<Rightarrow> 0)"

text \<open>Worker \<open>p\<close> takes a step.\<close>

definition crew_work ::
  "'w claim_op \<Rightarrow> 'w done_op \<Rightarrow> 'w publish_op \<Rightarrow> ('w \<Rightarrow> string \<Rightarrow> event_record option) \<Rightarrow> string \<Rightarrow> string \<Rightarrow>
   nat \<Rightarrow> go_error option \<Rightarrow> 'w crew \<Rightarrow> 'w crew" where
  "crew_work claim mark publish record_of e payload p ctx_err s =
     (case handle_step claim mark publish e payload ctx_err (cr_stage s p) (cr_world s, cr_metrics s) of
        (st, w', m') \<Rightarrow>
          s\<lparr>cr_world := w', cr_metrics := m', cr_stage := (cr_stage s)(p := st),
            cr_lease := (if cr_stage s p = Claiming \<and> st = Claimed
                         then (cr_lease s)(p := lease_end (record_of w' e)) else cr_lease s),
            cr_unmarked := (if cr_stage s p = Published \<and> fst (mark e (cr_world s)) \<noteq> None
                            then Suc (cr_unmarked s) else cr_unmarked s)\<rparr>)"

inductive crew_step ::
  "'w claim_op \<Rightarrow> 'w done_op \<Rightarrow> 'w publish_op \<Rightarrow> ('w \<Rightarrow> string \<Rightarrow> event_record option) \<Rightarrow> ('w \<Rightarrow> int) \<Rightarrow>
   string \<Rightarrow> string \<Rightarrow> 'w crew \<Rightarrow> 'w crew \<Rightarrow> bool"
  for claim mark publish record_of now e payload
where
  work: "crew_step claim mark publish record_of now e payload s
     (crew_work claim mark publish record_of e payload p ctx_err s)"
| again: "cr_stage s p = Return r \<Longrightarrow>
     crew_step claim mark publish record_of now e payload s (s\<lparr>cr_stage := (cr_stage s)(p := Claiming)\<rparr>)"
| passes: "record_of w' = record_of (cr_world s) \<Longrightarrow> now (cr_world s) \<le> now w' \<Longrightarrow>
     crew_step claim mark publish record_of now e payload s (s\<lparr>cr_world := w'\<rparr>)"

text \<open>
  The timing assumption: a worker whose publish has been acknowledged is within its lease until it has
  tried to mark the event, and everything happens before \<open>horizon\<close>.
\<close>

definition punctual :: "('w \<Rightarrow> int) \<Rightarrow> int \<Rightarrow> 'w crew \<Rightarrow> bool" where
  "punctual now horizon s \<longleftrightarrow>
     now (cr_world s) < horizon \<and> (\<forall>p. cr_stage s p = Published \<longrightarrow> now (cr_world s) < cr_lease s p)"

definition assembled :: "'w \<Rightarrow> 'w crew" where
  "assembled w0 =
     \<lparr>cr_world = w0, cr_metrics = no_notes, cr_stage = (\<lambda>_. Claiming), cr_lease = (\<lambda>_. 0), cr_unmarked = 0\<rparr>"

inductive crew_reachable ::
  "'w claim_op \<Rightarrow> 'w done_op \<Rightarrow> 'w publish_op \<Rightarrow> ('w \<Rightarrow> string \<Rightarrow> event_record option) \<Rightarrow> ('w \<Rightarrow> int) \<Rightarrow>
   string \<Rightarrow> string \<Rightarrow> 'w \<Rightarrow> 'w crew \<Rightarrow> bool"
  for claim mark publish record_of now e payload w0
where
  starts: "crew_reachable claim mark publish record_of now e payload w0 (assembled w0)"
| works: "crew_reachable claim mark publish record_of now e payload w0 s \<Longrightarrow>
     crew_step claim mark publish record_of now e payload s s' \<Longrightarrow> punctual now (now w0 + doneTTL) s' \<Longrightarrow>
     crew_reachable claim mark publish record_of now e payload w0 s'"

text \<open>The reservation of worker \<open>p\<close>, while it is the reservation of anybody.\<close>

definition leased :: "('w \<Rightarrow> int) \<Rightarrow> 'w crew \<Rightarrow> nat \<Rightarrow> bool" where
  "leased now s p \<longleftrightarrow> (cr_stage s p = Claimed \<or> cr_stage s p = Published) \<and> now (cr_world s) < cr_lease s p"

text \<open>
  A live lease is the one on record, and nobody else's. When one more publish has been acknowledged
  than marks have failed, the last of them is being marked or the event is marked for good.
\<close>

definition accounted :: "('w \<Rightarrow> string \<Rightarrow> event_record option) \<Rightarrow> string \<Rightarrow> int \<Rightarrow> 'w crew \<Rightarrow> bool" where
  "accounted record_of e t0 s \<longleftrightarrow>
     nm_published (cr_metrics s) \<le> int (cr_unmarked s) \<or>
     nm_published (cr_metrics s) = int (cr_unmarked s) + 1 \<and>
       ((\<exists>p. cr_stage s p = Published) \<or>
        (\<exists>t. record_of (cr_world s) e = Some (Finished t) \<and> t0 + doneTTL \<le> t))"

definition crew_inv ::
  "('w \<Rightarrow> string \<Rightarrow> event_record option) \<Rightarrow> ('w \<Rightarrow> int) \<Rightarrow> string \<Rightarrow> int \<Rightarrow> 'w crew \<Rightarrow> bool" where
  "crew_inv record_of now e t0 s \<longleftrightarrow>
     t0 \<le> now (cr_world s) \<and> punctual now (t0 + doneTTL) s \<and>
     (\<forall>p. leased now s p \<longrightarrow> record_of (cr_world s) e = Some (Reserved (cr_lease s p))) \<and>
     (\<forall>p q. leased now s p \<longrightarrow> leased now s q \<longrightarrow> p = q) \<and>
     accounted record_of e t0 s"

lemma crew_invD:
  assumes "crew_inv record_of now e t0 s"
  shows "t0 \<le> now (cr_world s)" "punctual now (t0 + doneTTL) s"
    "leased now s p \<Longrightarrow> record_of (cr_world s) e = Some (Reserved (cr_lease s p))"
    "leased now s p \<Longrightarrow> leased now s q \<Longrightarrow> p = q"
    "accounted record_of e t0 s"
  using assms unfolding crew_inv_def by blast+

lemma crew_invI:
  assumes "t0 \<le> now (cr_world s)" "punctual now (t0 + doneTTL) s"
    "\<And>p. leased now s p \<Longrightarrow> record_of (cr_world s) e = Some (Reserved (cr_lease s p))"
    "\<And>p q. leased now s p \<Longrightarrow> leased now s q \<Longrightarrow> p = q" "accounted record_of e t0 s"
  shows "crew_inv record_of now e t0 s"
  using assms unfolding crew_inv_def by (intro conjI allI impI)

lemma punctual_leased: "punctual now horizon s \<Longrightarrow> cr_stage s p = Published \<Longrightarrow> leased now s p"
  by (simp add: punctual_def leased_def)

text \<open>The steps that change neither record nor count, and lease nothing.\<close>

lemma crew_inv_still:
  assumes inv: "crew_inv record_of now e t0 s" and punct: "punctual now (t0 + doneTTL) s'"
    and same: "record_of (cr_world s') = record_of (cr_world s)" "now (cr_world s) \<le> now (cr_world s')"
      "nm_published (cr_metrics s') = nm_published (cr_metrics s)" "cr_unmarked s' = cr_unmarked s"
    and stages: "\<And>p. cr_stage s' p = Claimed \<or> cr_stage s' p = Published \<Longrightarrow>
        cr_stage s' p = cr_stage s p \<and> cr_lease s' p = cr_lease s p"
      "\<And>p. cr_stage s p = Published \<Longrightarrow> cr_stage s' p = Published"
  shows "crew_inv record_of now e t0 s'"
proof -
  have old: "leased now s p \<and> cr_lease s' p = cr_lease s p" if "leased now s' p" for p
    using that stages(1) [of p] same(2) by (auto simp: leased_def)
  moreover have "accounted record_of e t0 s'"
    using crew_invD(5) [OF inv] stages(2) unfolding accounted_def same by blast
  ultimately show ?thesis
    using crew_invD [OF inv] punct same unfolding crew_inv_def by (metis order_trans)
qed

text \<open>What can be claimed is nobody's, and all that was published was left unmarked.\<close>

lemma claimable:
  assumes inv: "crew_inv record_of now e t0 s" and dead: "\<not> record_live c (record_of (cr_world s) e)"
    and c: "now (cr_world s) \<le> c" "c \<le> now w'" and punct: "punctual now (t0 + doneTTL) s'" "now (cr_world s') = now w'"
      "\<And>p. cr_stage s p = Published \<Longrightarrow> cr_stage s' p = Published \<and> cr_lease s' p = cr_lease s p"
  shows "leased now s p \<Longrightarrow> cr_lease s p \<le> now w'" "nm_published (cr_metrics s) \<le> int (cr_unmarked s)"
    "cr_stage s p \<noteq> Published"
proof -
  show late: "cr_lease s p \<le> now w'" if "leased now s p" for p
    using dead c crew_invD(3) [OF inv that] by (auto simp: record_live_def)
  have none: "cr_stage s p \<noteq> Published" for p
  proof
    assume p: "cr_stage s p = Published"
    then have "now w' < cr_lease s p" using punct(1,2) punct(3) [OF p] by (metis punctual_def)
    with late [OF punctual_leased [OF crew_invD(2) [OF inv] p]] show False by simp
  qed
  moreover have "record_of (cr_world s) e \<noteq> Some (Finished t)" if "t0 + doneTTL \<le> t" for t
    using dead c punct that by (auto simp: record_live_def punctual_def)
  ultimately show "nm_published (cr_metrics s) \<le> int (cr_unmarked s)" "cr_stage s p \<noteq> Published"
    using crew_invD(5) [OF inv] unfolding accounted_def by blast+
qed

context notifier
begin

text \<open>A claim that is not acquired: the event may have been reserved all the same, if nobody had it.\<close>

lemma claim_other:
  assumes "claim e w = (x, w')" "x \<noteq> (ClaimAcquired, None)"
  shows "now w \<le> now w' \<and> (record_of w' = record_of w \<or>
    (\<exists>c. now w \<le> c \<and> c \<le> now w' \<and> \<not> record_live c (record_of w e)))"
proof -
  obtain r err where x: "x = (r, err)" by fastforce
  have "record_of w' = record_of w \<or> (\<exists>c. now w \<le> c \<and> c \<le> now w' \<and> \<not> record_live c (record_of w e))"
  proof (cases err)
    case None
    with assms x show ?thesis using claim_known claim_done claim_busy by (cases r) blast+
  next
    case (Some y)
    with assms x claim_failed show ?thesis by blast
  qed
  with assms(1) claim_time show ?thesis by blast
qed

lemma claim_step_other:
  assumes "claim_step claim e ctx_err (w, m) = (st, w', m')" "fst (claim e w) \<noteq> (ClaimAcquired, None)"
  shows "st \<noteq> Claimed \<and> st \<noteq> Published \<and> snd (claim e w) = w' \<and> nm_published m' = nm_published m"
  using assms
  by (auto simp: claim_step_def split: prod.splits option.splits claim_result.splits)

lemma claiming_keeps_inv:
  assumes inv: "crew_inv record_of now e t0 s" and p: "cr_stage s p = Claiming"
    and s': "s' = crew_work claim mark publish record_of e payload p ctx_err s"
    and punct: "punctual now (t0 + doneTTL) s'"
  shows "crew_inv record_of now e t0 s'"
proof -
  let ?w = "cr_world s"
  obtain x w' where c: "claim e ?w = (x, w')" by fastforce
  have others: "cr_stage s' q = cr_stage s q" "cr_lease s' q = cr_lease s q" if "q \<noteq> p" for q
    using that by (simp_all add: s' crew_work_def split: prod.split)
  have keep: "cr_stage s' q = Published \<and> cr_lease s' q = cr_lease s q" if "cr_stage s q = Published" for q
    using others [of q] that p by (cases "q = p") auto
  show ?thesis
  proof (cases "x = (ClaimAcquired, None)")
    case True
    from claim_acquired [OF c [unfolded True]] obtain i where i: "now ?w \<le> i" "i \<le> now w'"
      "\<not> record_live i (record_of ?w e)" "record_of w' = (record_of ?w)(e \<mapsto> Reserved (i + leaseTTL))" by blast
    have w': "cr_world s' = w'" "cr_metrics s' = cr_metrics s" "cr_stage s' p = Claimed"
      "cr_lease s' p = i + leaseTTL" "cr_unmarked s' = cr_unmarked s"
      by (simp_all add: s' crew_work_def claim_step_def c True p i(4) lease_end_def)
    then have now': "now (cr_world s') = now w'" by simp
    note free = claimable [OF inv i(3,1,2) punct now' keep]
    have alone: "q = p" if "leased now s' q" for q
    proof (rule ccontr)
      assume q: "q \<noteq> p"
      with that others [OF q] i(1,2) w' have "leased now s q" "now w' < cr_lease s q"
        by (auto simp: leased_def)
      with free(1) [of q] show False by simp
    qed
    show ?thesis
    proof (rule crew_invI [OF _ punct])
      show "t0 \<le> now (cr_world s')" using crew_invD(1) [OF inv] i w' by simp
      show "record_of (cr_world s') e = Some (Reserved (cr_lease s' q))" if "leased now s' q" for q
        using alone [OF that] w' i(4) by simp
      show "q = r" if "leased now s' q" "leased now s' r" for q r
        using alone [OF that(1)] alone [OF that(2)] by simp
      show "accounted record_of e t0 s'" using free(2) w' by (simp add: accounted_def)
    qed
  next
    case False
    obtain st m' where step: "claim_step claim e ctx_err (?w, cr_metrics s) = (st, w', m')"
      using claim_step_other [of e ctx_err ?w "cr_metrics s"] False c by (metis fst_conv prod_cases3 snd_conv)
    with claim_step_other [of e ctx_err ?w "cr_metrics s" st w' m'] False c
    have st: "st \<noteq> Claimed" "st \<noteq> Published" "nm_published m' = nm_published (cr_metrics s)" by simp_all
    have w': "cr_world s' = w'" "cr_metrics s' = m'" "cr_stage s' p = st" "cr_lease s' = cr_lease s"
      "cr_unmarked s' = cr_unmarked s"
      using st by (simp_all add: s' crew_work_def step p)
    from claim_other [OF c False] have later: "now ?w \<le> now w'" by simp
    have stages: "cr_stage s' q = cr_stage s q \<and> cr_lease s' q = cr_lease s q"
      if "cr_stage s' q = Claimed \<or> cr_stage s' q = Published" for q
      using that others [of q] w' st by (cases "q = p") auto
    from claim_other [OF c False] show ?thesis
    proof (elim conjE disjE exE)
      assume "record_of w' = record_of ?w"
      with later st(3) w' show ?thesis
        by (intro crew_inv_still [OF inv punct _ _ _ _ stages keep [THEN conjunct1]]) simp_all
    next
      fix i
      assume i: "now ?w \<le> i" "i \<le> now w'" "\<not> record_live i (record_of ?w e)"
      from w' have now': "now (cr_world s') = now w'" by simp
      note free = claimable [OF inv i(3,1,2) punct now' keep]
      have none: "\<not> leased now s' q" for q
      proof
        assume q: "leased now s' q"
        with stages [of q] have same: "cr_stage s' q = cr_stage s q" "cr_lease s' q = cr_lease s q"
          unfolding leased_def by blast+
        with q later w'(1) have "leased now s q" "now w' < cr_lease s q" by (simp_all add: leased_def)
        with free(1) [of q] show False by simp
      qed
      have "t0 \<le> now (cr_world s')" using crew_invD(1) [OF inv] later w' by simp
      moreover have "accounted record_of e t0 s'" using free(2) w' st by (simp add: accounted_def)
      ultimately show ?thesis using none by (intro crew_invI [OF _ punct]) simp_all
    qed
  qed
qed

lemma publishing_keeps_inv:
  assumes inv: "crew_inv record_of now e t0 s" and p: "cr_stage s p = Claimed" and ok: "unmarshal_entry payload = Inr entry"
    and s': "s' = crew_work claim mark publish record_of e payload p ctx_err s"
    and punct: "punctual now (t0 + doneTTL) s'"
  shows "crew_inv record_of now e t0 s'"
proof -
  let ?w = "cr_world s"
  have others: "cr_stage s' q = cr_stage s q" if "q \<noteq> p" for q
    using that by (simp add: s' crew_work_def split: prod.split)
  have lease: "cr_lease s' = cr_lease s" "cr_unmarked s' = cr_unmarked s"
    by (simp_all add: s' crew_work_def p split: prod.split)
  have keep: "cr_stage s' q = Published" if "cr_stage s q = Published" for q
    using others [of q] that p by (cases "q = p") auto
  show ?thesis
  proof (cases "\<exists>msg w'. marshal_notification \<lparr>n_EventID = e, n_EntryPosted = entry\<rparr> = Inr msg \<and>
      publish (ev_AccountID entry) msg ?w = (None, w')")
    case False
    then have w': "record_of (cr_world s') = record_of ?w" "now ?w \<le> now (cr_world s')"
      "cr_metrics s' = cr_metrics s" "\<exists>err. cr_stage s' p = Return (Some err)"
      by (auto simp: s' crew_work_def p publish_step_def ok split: sum.splits prod.splits option.splits
          dest: publish_frame)
    have stages: "cr_stage s' q = cr_stage s q \<and> cr_lease s' q = cr_lease s q"
      if "cr_stage s' q = Claimed \<or> cr_stage s' q = Published" for q
      using that others [of q] w'(4) lease by (cases "q = p") auto
    from w' lease show ?thesis by (intro crew_inv_still [OF inv punct _ _ _ _ stages keep]) simp_all
  next
    case True
    then obtain msg w' where msg: "marshal_notification \<lparr>n_EventID = e, n_EntryPosted = entry\<rparr> = Inr msg"
      and pub: "publish (ev_AccountID entry) msg ?w = (None, w')" by blast
    have w': "cr_world s' = w'" "cr_stage s' p = Published"
      "nm_published (cr_metrics s') = nm_published (cr_metrics s) + 1"
      by (simp_all add: s' crew_work_def p publish_step_def ok msg pub)
    from publish_frame [OF pub] have frame: "record_of w' = record_of ?w" "now ?w \<le> now w'" by simp_all
    have mine: "leased now s p"
      using punctual_leased [OF punct w'(2)] p frame(2) lease w'(1) by (simp add: leased_def)
    have old: "leased now s q" if "leased now s' q" for q
      using that mine others [of q] lease frame(2) w'(1) by (cases "q = p") (auto simp: leased_def)
    have "cr_stage s q \<noteq> Published" for q
      using crew_invD(4) [OF inv mine, of q] punctual_leased [OF crew_invD(2) [OF inv], of q] p by auto
    with crew_invD(5) [OF inv] crew_invD(3) [OF inv mine]
    have "nm_published (cr_metrics s) \<le> int (cr_unmarked s)" by (auto simp: accounted_def)
    then have "accounted record_of e t0 s'" using w' lease by (auto simp: accounted_def)
    moreover have "t0 \<le> now (cr_world s')" using crew_invD(1) [OF inv] frame(2) w'(1) by simp
    moreover have "record_of (cr_world s') e = Some (Reserved (cr_lease s' q))" if "leased now s' q" for q
      using crew_invD(3) [OF inv old [OF that]] frame(1) w'(1) lease by simp
    moreover have "q = r" if "leased now s' q" "leased now s' r" for q r
      using crew_invD(4) [OF inv old [OF that(1)] old [OF that(2)]] .
    ultimately show ?thesis by (intro crew_invI [OF _ punct])
  qed
qed

lemma marking_keeps_inv:
  assumes inv: "crew_inv record_of now e t0 s" and p: "cr_stage s p = Published"
    and s': "s' = crew_work claim mark publish record_of e payload p ctx_err s"
    and punct: "punctual now (t0 + doneTTL) s'"
  shows "crew_inv record_of now e t0 s'"
proof -
  let ?w = "cr_world s"
  obtain y w' where m: "mark e ?w = (y, w')" by fastforce
  have w': "cr_world s' = w'" "cr_metrics s' = cr_metrics s" "cr_stage s' = (cr_stage s)(p := Return None)"
    "cr_lease s' = cr_lease s" "cr_unmarked s' = (if y = None then cr_unmarked s else Suc (cr_unmarked s))"
    by (simp_all add: s' crew_work_def p mark_step_def m)
  have later: "now ?w \<le> now w'" using m by (rule done_time)
  have mine: "leased now s p" using crew_invD(2) [OF inv] p by (rule punctual_leased)
  have none: "\<not> leased now s' q" for q
  proof
    assume q: "leased now s' q"
    with w' have "q \<noteq> p" by (auto simp: leased_def)
    with q w' later have "leased now s q" by (auto simp: leased_def)
    with crew_invD(4) [OF inv mine] \<open>q \<noteq> p\<close> show False by blast
  qed
  have bound: "nm_published (cr_metrics s) \<le> int (cr_unmarked s) + 1"
    using crew_invD(5) [OF inv] by (auto simp: accounted_def)
  have "accounted record_of e t0 s'"
  proof (cases y)
    case None
    from done_stored [OF m [unfolded None]] obtain c where "now ?w \<le> c" "record_of w' e = Some (Finished (c + doneTTL))"
      by auto
    with crew_invD(1) [OF inv] have "\<exists>t. record_of w' e = Some (Finished t) \<and> t0 + doneTTL \<le> t" by auto
    with bound w' None show ?thesis unfolding accounted_def by auto
  next
    case (Some err)
    with bound w' show ?thesis by (simp add: accounted_def)
  qed
  moreover have "t0 \<le> now (cr_world s')" using crew_invD(1) [OF inv] later w'(1) by simp
  ultimately show ?thesis using none by (intro crew_invI [OF _ punct]) simp_all
qed

lemma crew_step_keeps_inv:
  assumes inv: "crew_inv record_of now e t0 s"
    and step: "crew_step claim mark publish record_of now e payload s s'"
    and punct: "punctual now (t0 + doneTTL) s'" and ok: "unmarshal_entry payload = Inr entry"
  shows "crew_inv record_of now e t0 s'"
  using step
proof (cases rule: crew_step.cases)
  case (work p ctx_err)
  show ?thesis
  proof (cases "cr_stage s p")
    case (Return r)
    then have "s' = s" by (simp add: work crew_work_def fun_upd_idem)
    with inv show ?thesis by simp
  qed (use claiming_keeps_inv [OF inv _ work punct] publishing_keeps_inv [OF inv _ ok work punct]
      marking_keeps_inv [OF inv _ work punct] in blast)+
next
  case (again p r)
  then show ?thesis by (intro crew_inv_still [OF inv punct]) (auto split: if_splits)
next
  case (passes w')
  then show ?thesis by (intro crew_inv_still [OF inv punct]) auto
qed

lemma crew_reachable_inv:
  assumes "crew_reachable claim mark publish record_of now e payload w0 s" "unmarshal_entry payload = Inr entry"
  shows "crew_inv record_of now e (now w0) s"
  using assms(1)
proof (induction rule: crew_reachable.induct)
  case starts
  have "0 < doneTTL" by (simp add: doneTTL_def)
  then show ?case
    by (simp add: crew_inv_def assembled_def leased_def punctual_def accounted_def no_notes_def)
next
  case (works s s')
  from works(4,2,3) assms(2) show ?case by (rule crew_step_keeps_inv)
qed

text \<open>A payload that cannot be read is never published.\<close>

lemma crew_malformed:
  assumes "crew_reachable claim mark publish record_of now e payload w0 s" "unmarshal_entry payload = Inl x"
  shows "nm_published (cr_metrics s) = 0"
  using assms(1)
proof (induction rule: crew_reachable.induct)
  case starts
  show ?case by (simp add: assembled_def no_notes_def)
next
  case (works s s')
  have work: "nm_published (cr_metrics (crew_work claim mark publish record_of e payload p ctx_err s)) =
      nm_published (cr_metrics s)" for p ctx_err
    by (cases "cr_stage s p")
      (auto simp: crew_work_def claim_step_def publish_step_def mark_step_def assms(2)
        split: prod.split option.split claim_result.split)
  from works(2,4) show ?case by (cases rule: crew_step.cases) (simp_all add: work)
qed

lemma crew_publishes_once:
  assumes "crew_reachable claim mark publish record_of now e payload w0 s"
  shows "nm_published (cr_metrics s) \<le> 1 + int (cr_unmarked s)"
proof (cases "unmarshal_entry payload")
  case (Inl x)
  with crew_malformed [OF assms] show ?thesis by simp
next
  case (Inr entry)
  from crew_invD(5) [OF crew_reachable_inv [OF assms this]] show ?thesis by (auto simp: accounted_def)
qed

text \<open>A reserved event is not published by anybody else while its lease lives.\<close>

lemma reserved_not_handled:
  assumes run: "Handle claim mark publish [] e payload (w, m) = (out, w', m')" and e: "e \<noteq> ''''"
    and res: "record_of w e = Some (Reserved t)" and live: "now w' < t"
  shows "log w' = log w \<and> m' = m \<and> (out = Still_waiting \<or> (\<exists>err. out = Returned (Some err)))"
proof -
  obtain r err w1 where c: "claim e w = ((r, err), w1)" "err = None \<longrightarrow> r \<noteq> ClaimUnknown"
    by (rule claim_result_cases)
  have log: "log w1 = log w" using c(1) by (rule claim_log)
  show ?thesis
  proof (cases err)
    case (Some x)
    with run e c log show ?thesis by (cases r) (auto simp: Handle_unfold claim_loop.simps)
  next
    case None
    show ?thesis
    proof (cases r)
      case ClaimAcquired
      with None run e c have "notify mark publish e payload w1 m = (out, w', m')"
        by (simp add: Handle_unfold claim_loop.simps)
      then have "now w1 \<le> now w'"
        using done_time publish_frame
        by (auto simp: notify_unfold split: sum.splits prod.splits option.splits) (meson order_trans)+
      moreover from None ClaimAcquired c(1) obtain i where "now w \<le> i" "i \<le> now w1"
        "\<not> record_live i (record_of w e)" using claim_acquired by blast
      ultimately show ?thesis using res live by (simp add: record_live_def)
    next
      case ClaimDone
      with None c(1) res claim_done show ?thesis by fastforce
    qed (use None run e c log in \<open>auto simp: Handle_unfold claim_loop.simps\<close>)
  qed
qed

end

section \<open>An instance\<close>

text \<open>A server whose clock stands still during a command.\<close>

record mem_redis =
  mr_store :: "string \<Rightarrow> (string \<times> int) option"
  mr_clock :: int
  mr_channel :: "string list"

definition mem_set :: "mem_redis set_cmd" where
  "mem_set k v ttl w = (None, w\<lparr>mr_store := (mr_store w)(k \<mapsto> (v, mr_clock w + ttl))\<rparr>)"

definition mem_setnx :: "mem_redis setnx_cmd" where
  "mem_setnx k v ttl w =
     (case live_at (mr_clock w) (mr_store w k) of
        Some _ \<Rightarrow> (Inr False, w)
      | None \<Rightarrow> (Inr True, snd (mem_set k v ttl w)))"

definition mem_get :: "mem_redis get_cmd" where
  "mem_get k w = (case live_at (mr_clock w) (mr_store w k) of None \<Rightarrow> Inl redis_Nil | Some v \<Rightarrow> Inr v, w)"

definition mem_pub :: "mem_redis pub_cmd" where
  "mem_pub ch d w = (None, w\<lparr>mr_channel := mr_channel w @ [d]\<rparr>)"

interpretation mem: redis_service mem_setnx mem_get mem_set mr_store mr_clock mem_pub mr_channel
  by unfold_locales
    (auto simp: mem_setnx_def mem_get_def mem_set_def mem_pub_def split: option.splits)

end
