(* ===== verification/Consumer.thy ===== *)
theory Consumer
  imports Processor Relay
begin

text \<open>
  \<^verbatim>\<open>internal/notification/consumer.go\<close>: records are polled from Kafka and handled one after
  another, each until its handler returns nil or the context is done; then the offsets of the
  records finished are committed. The Kafka client and the handler are interfaces.
\<close>

section \<open>One record\<close>

text \<open>The value of the last header named \<^verbatim>\<open>event_id\<close>.\<close>

definition event_id_of :: "kafka_record \<Rightarrow> string" where
  "event_id_of rec = fold (\<lambda>(k, v) eventID. if k = ''event_id'' then v else eventID) (k_Headers rec) ''''"

text \<open>
  One attempt: what happens around the handler's call (\<open>at_env\<close>), whether the context was done when
  it failed, and whether it was done before the pause had passed.
\<close>

record 'x attempt =
  at_env :: 'x
  at_ctx_done :: bool
  at_wait_done :: bool

type_synonym ('x, 'w) handler =
  "'x \<Rightarrow> string \<Rightarrow> string \<Rightarrow> 'w \<times> note_metrics \<Rightarrow> handled \<times> 'w \<times> note_metrics"

fun handle_record ::
  "('x, 'w) handler \<Rightarrow> kafka_record \<Rightarrow> 'x attempt list \<Rightarrow> 'w \<times> note_metrics \<Rightarrow>
   handled \<times> 'w \<times> note_metrics" where
  "handle_record handler rec [] s = (Still_waiting, s)"
| "handle_record handler rec (a # as) s =
     (case handler (at_env a) (event_id_of rec) (k_Value rec) s of
        (Still_waiting, s1) \<Rightarrow> (Still_waiting, s1)
      | (Returned None, s1) \<Rightarrow> (Returned None, s1)
      | (Returned (Some err), w1, m1) \<Rightarrow>
          if at_ctx_done a then (Returned (Some err), w1, m1)
          else let m2 = m1\<lparr>nm_errors := nm_errors m1 + 1\<rparr>
               in if at_wait_done a then (Returned (Some err), w1, m2)
                  else handle_record handler rec as (w1, m2))"

section \<open>One poll\<close>

text \<open>
  The records of a poll with the attempts the environment grants each: the records finished, and
  whether the batch is over (the last attempt returned).
\<close>

fun handle_batch ::
  "('x, 'w) handler \<Rightarrow> (kafka_record \<times> 'x attempt list) list \<Rightarrow> 'w \<times> note_metrics \<Rightarrow>
   kafka_record list \<times> bool \<times> 'w \<times> note_metrics" where
  "handle_batch handler [] s = ([], True, s)"
| "handle_batch handler ((rec, as) # recs) s =
     (case handle_record handler rec as s of
        (Still_waiting, s1) \<Rightarrow> ([], False, s1)
      | (Returned (Some err), s1) \<Rightarrow> ([], True, s1)
      | (Returned None, s1) \<Rightarrow>
          (case handle_batch handler recs s1 of (finished, over, s2) \<Rightarrow> (rec # finished, over, s2)))"

section \<open>The loop\<close>

text \<open>
  One iteration: whether the client is closed or the context done after the poll, the records, and
  whether the context is done at the end.
\<close>

record 'x poll =
  po_stopped :: bool
  po_records :: "(kafka_record \<times> 'x attempt list) list"
  po_ctx_done :: bool

type_synonym 'w commit_cmd = "kafka_record list \<Rightarrow> 'w \<Rightarrow> go_error option \<times> 'w"

text \<open>Whether \<open>Run\<close> has returned (it only returns nil), and the commits it asked for.\<close>

fun Run_consumer ::
  "('x, 'w) handler \<Rightarrow> 'w commit_cmd \<Rightarrow> 'x poll list \<Rightarrow> 'w \<times> note_metrics \<Rightarrow>
   bool \<times> kafka_record list list \<times> 'w \<times> note_metrics" where
  "Run_consumer handler commit [] s = (False, [], s)"
| "Run_consumer handler commit (p # ps) s =
     (if po_stopped p then (True, [], s)
      else case handle_batch handler (po_records p) s of
             (finished, over, w1, m1) \<Rightarrow>
               if \<not> over then (False, [], w1, m1)
               else case commit finished w1 of
                      (_, w2) \<Rightarrow>
                        if po_ctx_done p then (True, [finished], w2, m1)
                        else (case Run_consumer handler commit ps (w2, m1) of
                                (returned, commits, s3) \<Rightarrow> (returned, finished # commits, s3)))"

section \<open>A run with its history\<close>

text \<open>
  The same run with a record of what it does: every call of the handler, with the states before and
  after it, and every commit.
\<close>

datatype ('x, 'w) happening =
    Called 'x string string "'w \<times> note_metrics" handled "'w \<times> note_metrics"
  | Committed "kafka_record list"

definition logged :: "('x, 'w) handler \<Rightarrow> ('x, 'w \<times> ('x, 'w) happening list) handler" where
  "logged handler x e payload s =
     (case s of ((w, h), m) \<Rightarrow>
        (case handler x e payload (w, m) of
           (out, w', m') \<Rightarrow> (out, (w', h @ [Called x e payload (w, m) out (w', m')]), m')))"

definition logged_commit :: "'w commit_cmd \<Rightarrow> ('w \<times> ('x, 'w) happening list) commit_cmd" where
  "logged_commit commit recs s =
     (case s of (w, h) \<Rightarrow> (case commit recs w of (err, w') \<Rightarrow> (err, (w', h @ [Committed recs]))))"

text \<open>The event id and payload of every call that returned nil.\<close>

definition nil_calls :: "('x, 'w) happening list \<Rightarrow> (string \<times> string) list" where
  "nil_calls h =
     concat (map (\<lambda>c. case c of Called x e payload s (Returned None) s' \<Rightarrow> [(e, payload)] | _ \<Rightarrow> []) h)"

definition event_of :: "kafka_record \<Rightarrow> string \<times> string" where
  "event_of rec = (event_id_of rec, k_Value rec)"

lemma nil_calls_append [simp]: "nil_calls (h @ h') = nil_calls h @ nil_calls h'"
  by (simp add: nil_calls_def)

text \<open>The history of a run: after the calls of a poll its commit, then perhaps calls that led to none.\<close>

definition run_history :: "('x, 'w) happening list list \<Rightarrow> kafka_record list list \<Rightarrow> ('x, 'w) happening list" where
  "run_history polls commits = concat (map (\<lambda>(calls, recs). calls @ [Committed recs]) (zip polls commits))"

section \<open>Only what is settled is committed\<close>

text \<open>The contract of a handler: a nil error settles the event, between the states of that very call.\<close>

locale event_handler =
  fixes handler :: "('x, 'w) handler"
    and settled :: "'x \<Rightarrow> string \<Rightarrow> string \<Rightarrow> 'w \<times> note_metrics \<Rightarrow> 'w \<times> note_metrics \<Rightarrow> bool"
  assumes nil_settles: "handler x e payload s = (Returned None, s') \<Longrightarrow> settled x e payload s s'"
begin

text \<open>Calls, and no commit; those that returned nil have settled their event.\<close>

definition settling :: "('x, 'w) happening list \<Rightarrow> bool" where
  "settling h \<longleftrightarrow> (\<forall>c \<in> set h. \<exists>x e payload s out s'. c = Called x e payload s out s' \<and>
     (out = Returned None \<longrightarrow> settled x e payload s s'))"

lemma settling_Nil [simp]: "settling []"
  by (simp add: settling_def)

lemma settling_append [simp]: "settling (h @ h') \<longleftrightarrow> settling h \<and> settling h'"
  by (auto simp: settling_def)

lemma settling_call: "handler x e payload s = (out, s') \<Longrightarrow> settling [Called x e payload s out s']"
  using nil_settles by (auto simp: settling_def)

text \<open>One record: its history, and the same without it.\<close>

lemma handle_record_logged:
  assumes "handle_record handler rec as (w, m) = (out, w', m')"
  shows "\<exists>calls. handle_record (logged handler) rec as ((w, h), m) = (out, (w', h @ calls), m') \<and> settling calls \<and>
    nil_calls calls = (if out = Returned None then [event_of rec] else [])"
  using assms
proof (induction as arbitrary: w m h)
  case (Cons a as)
  obtain out1 w1 m1 where call: "handler (at_env a) (event_id_of rec) (k_Value rec) (w, m) = (out1, w1, m1)"
    by (metis prod_cases3)
  let ?c = "Called (at_env a) (event_id_of rec) (k_Value rec) (w, m) out1 (w1, m1)"
  have ok: "settling [?c]" using call by (rule settling_call)
  have one: "nil_calls [?c] = (if out1 = Returned None then [event_of rec] else [])"
    by (simp add: nil_calls_def event_of_def split: handled.split option.split)
  have log: "logged handler (at_env a) (event_id_of rec) (k_Value rec) ((w, h), m) = (out1, (w1, h @ [?c]), m1)"
    by (simp add: logged_def call)
  show ?case
  proof (cases "\<exists>err. out1 = Returned (Some err) \<and> \<not> at_ctx_done a \<and> \<not> at_wait_done a")
    case True
    then obtain err where err: "out1 = Returned (Some err)" "\<not> at_ctx_done a" "\<not> at_wait_done a" by blast
    let ?m2 = "m1\<lparr>nm_errors := nm_errors m1 + 1\<rparr>"
    have "handle_record handler rec as (w1, ?m2) = (out, w', m')" using Cons.prems call err by (simp add: Let_def)
    from Cons.IH [OF this, of "h @ [?c]"] obtain calls where
      "handle_record (logged handler) rec as ((w1, h @ [?c]), ?m2) = (out, (w', (h @ [?c]) @ calls), m')"
      "settling calls" "nil_calls calls = (if out = Returned None then [event_of rec] else [])" by blast
    with ok one err log show ?thesis by (intro exI [of _ "[?c] @ calls"]) (simp add: Let_def del: append_Cons)
  next
    case False
    with Cons.prems call have "out1 = out" "w1 = w'"
      by (auto simp: Let_def split: handled.splits option.splits if_splits)
    with Cons.prems call log ok one False show ?thesis
      by (intro exI [of _ "[?c]"]) (auto simp: Let_def split: handled.splits option.splits if_splits)
  qed
qed (auto simp: nil_calls_def intro: exI [of _ "[]"])

text \<open>The records of a poll: those finished are a prefix, one nil call for each, in their order.\<close>

lemma handle_batch_logged:
  assumes "handle_batch handler recs (w, m) = (finished, over, w', m')"
  shows "\<exists>calls. handle_batch (logged handler) recs ((w, h), m) = (finished, over, (w', h @ calls), m') \<and>
    settling calls \<and> nil_calls calls = map event_of finished \<and> (\<exists>k. finished = take k (map fst recs))"
  using assms
proof (induction recs arbitrary: w m h finished over)
  case Nil
  then show ?case by (auto simp: nil_calls_def intro: exI [of _ "[]"])
next
  case (Cons p recs)
  obtain rec as where p: "p = (rec, as)" by fastforce
  obtain out w1 m1 where run: "handle_record handler rec as (w, m) = (out, w1, m1)" by (metis prod_cases3)
  from handle_record_logged [OF run, of h] obtain calls where
    log: "handle_record (logged handler) rec as ((w, h), m) = (out, (w1, h @ calls), m1)" and
    ok: "settling calls" "nil_calls calls = (if out = Returned None then [event_of rec] else [])" by blast
  show ?case
  proof (cases "out = Returned None")
    case True
    obtain fin where rest: "handle_batch handler recs (w1, m1) = (fin, over, w', m')" and fin: "finished = rec # fin"
      using Cons.prems run p True by (auto split: prod.splits)
    from Cons.IH [OF rest, of "h @ calls"] obtain more k where
      "handle_batch (logged handler) recs ((w1, h @ calls), m1) = (fin, over, (w', (h @ calls) @ more), m')"
      "settling more" "nil_calls more = map event_of fin" "fin = take k (map fst recs)" by blast
    then show ?thesis
      using log ok True fin p
      by (intro exI [of _ "calls @ more"]) (auto intro: exI [of _ "Suc k"])
  next
    case False
    then show ?thesis
      using Cons.prems run log ok p
      by (intro exI [of _ calls]) (auto intro: exI [of _ 0] split: handled.splits option.splits)
  qed
qed

text \<open>Poll after poll.\<close>

lemma Run_consumer_logged:
  assumes "Run_consumer handler commit ps (w, m) = (returned, commits, w', m')"
  shows "\<exists>polls rest. Run_consumer (logged handler) (logged_commit commit) ps ((w, h), m) =
      (returned, commits, (w', h @ run_history polls commits @ rest), m') \<and>
    length polls = length commits \<and> length commits \<le> length ps \<and> settling rest \<and>
    (\<forall>i < length commits. settling (polls ! i) \<and> nil_calls (polls ! i) = map event_of (commits ! i) \<and>
       (\<exists>k. commits ! i = take k (map fst (po_records (ps ! i)))))"
  using assms
proof (induction ps arbitrary: w m h commits)
  case Nil
  then show ?case by (intro exI [of _ "[]"]) (simp add: run_history_def)
next
  case (Cons p ps)
  show ?case
  proof (cases "po_stopped p")
    case True
    with Cons.prems show ?thesis by (intro exI [of _ "[]"]) (simp add: run_history_def)
  next
    case False
    obtain finished over w1 m1 where b: "handle_batch handler (po_records p) (w, m) = (finished, over, w1, m1)"
      by (metis prod_cases4)
    from handle_batch_logged [OF b, of h] obtain calls where
      log: "handle_batch (logged handler) (po_records p) ((w, h), m) = (finished, over, (w1, h @ calls), m1)" and
      ok: "settling calls" "nil_calls calls = map event_of finished"
        "\<exists>k. finished = take k (map fst (po_records p))" by blast
    obtain y w2 where c: "commit finished w1 = (y, w2)" by fastforce
    then have c': "logged_commit commit finished (w1, h @ calls) = (y, (w2, (h @ calls) @ [Committed finished]))"
      by (simp add: logged_commit_def)
    consider "\<not> over" | "over" "po_ctx_done p" | "over" "\<not> po_ctx_done p" by blast
    then show ?thesis
    proof cases
      case 1
      with Cons.prems False b have "commits = []" "returned = False" "w' = w1" "m' = m1" by auto
      with 1 False log ok(1) show ?thesis
        by (intro exI [of _ "[]"] exI [of _ calls]) (simp add: run_history_def)
    next
      case 2
      with Cons.prems False b c have "commits = [finished]" "returned" "w' = w2" "m' = m1" by auto
      with 2 False log c' ok show ?thesis
        by (intro exI [of _ "[calls]"] exI [of _ "[]"]) (simp add: run_history_def)
    next
      case 3
      obtain commits' where rest: "Run_consumer handler commit ps (w2, m1) = (returned, commits', w', m')"
        and eq: "commits = finished # commits'"
        using Cons.prems False b c 3 by (auto split: prod.splits)
      from Cons.IH [OF rest, of "(h @ calls) @ [Committed finished]"] obtain polls more where
        more: "Run_consumer (logged handler) (logged_commit commit) ps ((w2, (h @ calls) @ [Committed finished]), m1) =
          (returned, commits', (w', ((h @ calls) @ [Committed finished]) @ run_history polls commits' @ more), m')"
        "length polls = length commits'" "length commits' \<le> length ps" "settling more"
        "\<forall>i < length commits'. settling (polls ! i) \<and> nil_calls (polls ! i) = map event_of (commits' ! i) \<and>
           (\<exists>k. commits' ! i = take k (map fst (po_records (ps ! i))))" by blast
      have each: "settling ((calls # polls) ! i) \<and> nil_calls ((calls # polls) ! i) = map event_of (commits ! i) \<and>
          (\<exists>k. commits ! i = take k (map fst (po_records ((p # ps) ! i))))" if "i < length commits" for i
        using that ok more(5) eq by (cases i) auto
      show ?thesis
        using 3 False log c' more(1-4) eq each
        by (intro exI [of _ "calls # polls"] exI [of _ more]) (simp add: run_history_def)
    qed
  qed
qed

end

text \<open>
  What it means that a call of the processor has settled an event: from the state \<open>s\<close> in which it was
  made, its claims led to \<open>w1\<close>, the last of them was answered, and the call finished the event from
  there to the state it ended in.
\<close>

definition settled_by ::
  "'w claim_op \<Rightarrow> 'w done_op \<Rightarrow> 'w publish_op \<Rightarrow> (int64 \<Rightarrow> string \<Rightarrow> string result) \<Rightarrow> ('w \<Rightarrow> string list) \<Rightarrow>
   'w wait_round list \<Rightarrow> string \<Rightarrow> string \<Rightarrow> 'w \<times> note_metrics \<Rightarrow> 'w \<times> note_metrics \<Rightarrow> bool" where
  "settled_by claim mark publish packed log rs e payload s s' \<longleftrightarrow>
     (case (s, s') of ((w, m), (w', m')) \<Rightarrow>
        if e = '''' then w' = w \<and> m' = m\<lparr>nm_no_event_id := nm_no_event_id m + 1\<rparr>
        else \<exists>w0 r w1. claim_loop claim e rs w = (if r = ClaimDone then Already_done else Got_it, w1) \<and> claim e w0 = ((r, None), w1) \<and>
               finished_by mark publish packed log e payload w1 r w' m m')"

sublocale notifier \<subseteq> event_handler "Handle claim mark publish" "settled_by claim mark publish packed log"
proof unfold_locales
  fix rs e payload and s s' :: "'w \<times> note_metrics"
  assume run: "Handle claim mark publish rs e payload s = (Returned None, s')"
  obtain w m w' m' where s: "s = (w, m)" "s' = (w', m')" by fastforce
  show "settled_by claim mark publish packed log rs e payload s s'"
  proof (cases "e = ''''")
    case True
    with run s show ?thesis by (simp add: settled_by_def Handle_def)
  next
    case False
    then show ?thesis
      using Handle_nil [OF run [unfolded s] False] s unfolding settled_by_def by simp
  qed
qed

context notifier begin

lemma handler_contract:
  "event_handler (Handle claim mark publish) (settled_by claim mark publish packed log)"
  by (rule event_handler_axioms)

end

end
