(* ===== verification/Hub.thy ===== *)
theory Hub
  imports Prelude "HOL-Library.AList" "HOL-Library.Multiset"
begin

text \<open>
  \<^verbatim>\<open>internal/notification/hub.go\<close>: the registry of WebSocket clients. A client is an address in
  a heap (the code shares it between the hub and its connection's goroutine); its buffered channel
  is a list of at most 16 messages, its \<^verbatim>\<open>done\<close> channel a flag. The hub's map of sets is an
  association list of address lists. Go visits a set in an order of its own, the parameter
  \<open>ranged\<close>, and \<^verbatim>\<open>select\<close> picks among ready cases, the parameter \<open>coin\<close>.
\<close>

section \<open>State\<close>

definition StatusNormalClosure :: int where "StatusNormalClosure = 1000"
definition StatusGoingAway :: int where "StatusGoingAway = 1001"
definition StatusPolicyViolation :: int where "StatusPolicyViolation = 1008"

record ws_client =
  c_send :: "string list"
  c_done :: bool
  c_reason :: int

definition sendBuffer :: nat where "sendBuffer = 16"

record hub =
  h_clients :: "(int64 \<times> nat list) list"
  h_heap :: "nat \<Rightarrow> ws_client option"
  h_next :: nat

definition NewHub :: hub where
  "NewHub = \<lparr>h_clients = [], h_heap = (\<lambda>_. None), h_next = 0\<rparr>"

text \<open>\<^verbatim>\<open>h.clients[accountID]\<close>; the nil map of an absent key is empty.\<close>

definition members :: "hub \<Rightarrow> int64 \<Rightarrow> nat list" where
  "members h a = (case map_of (h_clients h) a of None \<Rightarrow> [] | Some cs \<Rightarrow> cs)"

definition registered :: "hub \<Rightarrow> nat list" where
  "registered h = concat (map snd (h_clients h))"

section \<open>Operations\<close>

definition Register :: "int64 \<Rightarrow> hub \<Rightarrow> nat \<times> hub" where
  "Register accountID h =
     (let cl = h_next h
      in (cl, h\<lparr>h_clients := AList.update accountID (members h accountID @ [cl]) (h_clients h),
                h_heap := (h_heap h)(cl \<mapsto> \<lparr>c_send = [], c_done = False, c_reason = 0\<rparr>),
                h_next := Suc cl\<rparr>))"

text \<open>\<^verbatim>\<open>client.disconnect\<close>: only the first call has an effect.\<close>

definition disconnect :: "int \<Rightarrow> nat \<Rightarrow> (nat \<Rightarrow> ws_client option) \<Rightarrow> nat \<Rightarrow> ws_client option" where
  "disconnect reason cl heap =
     (case heap cl of
        None \<Rightarrow> heap
      | Some c \<Rightarrow> if c_done c then heap else heap(cl \<mapsto> c\<lparr>c_reason := reason, c_done := True\<rparr>))"

definition Unregister :: "int64 \<Rightarrow> int \<Rightarrow> nat \<Rightarrow> hub \<Rightarrow> hub" where
  "Unregister accountID reason cl h =
     (let cs = filter (\<lambda>x. x \<noteq> cl) (members h accountID)
      in h\<lparr>h_clients := (if cs = [] then AList.delete accountID (h_clients h)
                         else AList.update accountID cs (h_clients h)),
           h_heap := disconnect reason cl (h_heap h)\<rparr>)"

definition push_message :: "string \<Rightarrow> nat \<Rightarrow> ws_client \<Rightarrow> hub \<Rightarrow> hub" where
  "push_message msg cl c h = h\<lparr>h_heap := (h_heap h)(cl \<mapsto> c\<lparr>c_send := c_send c @ [msg]\<rparr>)\<rparr>"

text \<open>
  The \<^verbatim>\<open>select\<close> of \<^verbatim>\<open>Hub.Send\<close> for one client: send when the channel has room, leave when the
  client is done, and when neither is possible disconnect it.
\<close>

definition send_one :: "bool \<Rightarrow> int64 \<Rightarrow> string \<Rightarrow> nat \<Rightarrow> hub \<Rightarrow> hub" where
  "send_one coin accountID msg cl h =
     (case h_heap h cl of
        None \<Rightarrow> h
      | Some c \<Rightarrow>
          (let room = length (c_send c) < sendBuffer
           in if room \<and> (\<not> c_done c \<or> coin) then push_message msg cl c h
              else if c_done c then h
              else Unregister accountID StatusPolicyViolation cl h))"

definition Send ::
  "(nat list \<Rightarrow> nat list) \<Rightarrow> (nat \<Rightarrow> bool) \<Rightarrow> int64 \<Rightarrow> string \<Rightarrow> hub \<Rightarrow> hub" where
  "Send ranged coin accountID msg h =
     fold (\<lambda>cl. send_one (coin cl) accountID msg cl) (ranged (members h accountID)) h"

definition CloseAll :: "hub \<Rightarrow> hub" where
  "CloseAll h = h\<lparr>h_heap := fold (disconnect StatusGoingAway) (registered h) (h_heap h)\<rparr>"

definition Connections :: "hub \<Rightarrow> int" where
  "Connections h = (\<Sum>(_, cs)\<leftarrow>h_clients h. int (length cs))"

section \<open>The invariant\<close>

text \<open>
  No account twice, no empty set, no client twice or under two accounts, registered clients exist,
  queues are within their capacity, and a client the hub no longer knows has been told to go.
\<close>

definition map_ok :: "hub \<Rightarrow> bool" where
  "map_ok h \<longleftrightarrow>
     distinct (map fst (h_clients h)) \<and> (\<forall>(a, cs) \<in> set (h_clients h). cs \<noteq> []) \<and>
     (\<forall>a. distinct (members h a)) \<and>
     (\<forall>a b cl. cl \<in> set (members h a) \<longrightarrow> cl \<in> set (members h b) \<longrightarrow> a = b)"

definition heap_ok :: "hub \<Rightarrow> bool" where
  "heap_ok h \<longleftrightarrow>
     (\<forall>a. \<forall>cl \<in> set (members h a). h_heap h cl \<noteq> None) \<and>
     (\<forall>cl. h_heap h cl \<noteq> None \<longrightarrow> cl < h_next h) \<and>
     (\<forall>cl c. h_heap h cl = Some c \<longrightarrow> length (c_send c) \<le> sendBuffer \<and>
        (c_done c \<or> (\<exists>a. cl \<in> set (members h a))))"

definition hub_inv :: "hub \<Rightarrow> bool" where
  "hub_inv h \<longleftrightarrow> map_ok h \<and> heap_ok h"

lemma members_NewHub [simp]: "members NewHub a = []"
  by (simp add: members_def NewHub_def)

lemma hub_inv_NewHub [simp]: "hub_inv NewHub"
  by (simp add: hub_inv_def map_ok_def heap_ok_def) (simp add: NewHub_def)

subsection \<open>The map of sets\<close>

definition put_members :: "int64 \<Rightarrow> nat list \<Rightarrow> (int64 \<times> nat list) list \<Rightarrow> (int64 \<times> nat list) list" where
  "put_members a cs m = (if cs = [] then AList.delete a m else AList.update a cs m)"

lemma members_heap_update [simp]: "members (h\<lparr>h_heap := x\<rparr>) = members h"
  by (simp add: members_def fun_eq_iff)

lemma members_next_update [simp]: "members (h\<lparr>h_next := x\<rparr>) = members h"
  by (simp add: members_def fun_eq_iff)

lemma members_put:
  "members (h\<lparr>h_clients := put_members a cs (h_clients h)\<rparr>) b = (if b = a then cs else members h b)"
  by (simp add: members_def put_members_def delete_conv' update_conv')

lemma put_members_entries:
  "(b, cs') \<in> set (put_members a cs m) \<Longrightarrow> (b, cs') \<in> set m \<or> (b = a \<and> cs' = cs \<and> cs \<noteq> [])"
  by (induction m) (auto simp: put_members_def AList.delete_eq split: if_splits)

lemma map_ok_put:
  assumes ok: "map_ok h" and cs: "distinct cs"
    and other: "\<And>b cl. b \<noteq> a \<Longrightarrow> cl \<in> set cs \<Longrightarrow> cl \<notin> set (members h b)"
  shows "map_ok (h\<lparr>h_clients := put_members a cs (h_clients h)\<rparr>)"
proof -
  have "distinct (map fst (put_members a cs (h_clients h)))"
    using ok by (simp add: map_ok_def put_members_def distinct_update distinct_delete)
  moreover have "\<forall>(b, cs') \<in> set (put_members a cs (h_clients h)). cs' \<noteq> []"
    using ok put_members_entries [of _ _ a cs "h_clients h"] by (fastforce simp: map_ok_def)
  ultimately show ?thesis
    using ok cs other by (auto simp: map_ok_def members_put split: if_splits)
qed

lemma Register_put:
  "Register a h = (h_next h, h\<lparr>h_clients := put_members a (members h a @ [h_next h]) (h_clients h),
     h_heap := (h_heap h)(h_next h \<mapsto> \<lparr>c_send = [], c_done = False, c_reason = 0\<rparr>),
     h_next := Suc (h_next h)\<rparr>)"
  by (simp add: Register_def put_members_def Let_def)

lemma Unregister_put:
  "Unregister a reason cl h = h\<lparr>h_clients := put_members a (removeAll cl (members h a)) (h_clients h),
     h_heap := disconnect reason cl (h_heap h)\<rparr>"
  by (simp add: Unregister_def put_members_def Let_def removeAll_filter_not_eq eq_commute)

subsection \<open>The effect of each operation\<close>

definition gone :: "int \<Rightarrow> ws_client \<Rightarrow> ws_client" where
  "gone reason c = (if c_done c then c else c\<lparr>c_reason := reason, c_done := True\<rparr>)"

lemma gone_sel [simp]: "c_done (gone r c)" "c_send (gone r c) = c_send c"
  by (simp_all add: gone_def)

lemma disconnect_apply:
  "disconnect r cl heap x = (if x = cl then map_option (gone r) (heap x) else heap x)"
  by (auto simp: disconnect_def gone_def split: option.splits)

lemma members_Register [simp]:
  "members (snd (Register a h)) b = (if b = a then members h a @ [h_next h] else members h b)"
  by (simp add: Register_put members_put)

lemma heap_Register [simp]:
  "h_heap (snd (Register a h)) =
     (h_heap h)(h_next h \<mapsto> \<lparr>c_send = [], c_done = False, c_reason = 0\<rparr>)"
  "h_next (snd (Register a h)) = Suc (h_next h)" "fst (Register a h) = h_next h"
  by (simp_all add: Register_put)

lemma members_Unregister [simp]:
  "members (Unregister a r cl h) b = (if b = a then removeAll cl (members h a) else members h b)"
  by (simp add: Unregister_put members_put)

lemma heap_Unregister [simp]:
  "h_heap (Unregister a r cl h) = disconnect r cl (h_heap h)" "h_next (Unregister a r cl h) = h_next h"
  by (simp_all add: Unregister_put)

lemma members_push [simp]: "members (push_message msg cl c h) = members h"
  by (simp add: push_message_def)

lemma heap_push [simp]:
  "h_heap (push_message msg cl c h) = (h_heap h)(cl \<mapsto> c\<lparr>c_send := c_send c @ [msg]\<rparr>)"
  "h_next (push_message msg cl c h) = h_next h"
  by (simp_all add: push_message_def)

lemma fold_disconnect:
  "fold (disconnect r) cls heap x = (if x \<in> set cls then map_option (gone r) (heap x) else heap x)"
proof (induction cls arbitrary: heap)
  case (Cons cl cls)
  have "gone r (gone r c) = gone r c" for c by (simp add: gone_def)
  then show ?case
    using Cons by (auto simp: disconnect_apply option.map_comp comp_def)
qed simp

lemma members_CloseAll [simp]: "members (CloseAll h) = members h"
  by (simp add: CloseAll_def)

lemma heap_CloseAll [simp]:
  "h_heap (CloseAll h) x =
     (if x \<in> set (registered h) then map_option (gone StatusGoingAway) (h_heap h x) else h_heap h x)"
  "h_next (CloseAll h) = h_next h"
  by (simp_all add: CloseAll_def fold_disconnect)

subsection \<open>Preservation\<close>

lemma heap_okI:
  assumes "\<And>a cl. cl \<in> set (members h a) \<Longrightarrow> h_heap h cl \<noteq> None"
    "\<And>cl c. h_heap h cl = Some c \<Longrightarrow> cl < h_next h"
    "\<And>cl c. h_heap h cl = Some c \<Longrightarrow> length (c_send c) \<le> sendBuffer"
    "\<And>cl c. h_heap h cl = Some c \<Longrightarrow> \<not> c_done c \<Longrightarrow> \<exists>a. cl \<in> set (members h a)"
  shows "heap_ok h"
  using assms unfolding heap_ok_def by blast

lemma heap_okD:
  assumes "heap_ok h"
  shows "cl \<in> set (members h a) \<Longrightarrow> \<exists>c. h_heap h cl = Some c"
    "h_heap h cl = Some c \<Longrightarrow> cl < h_next h"
    "h_heap h cl = Some c \<Longrightarrow> length (c_send c) \<le> sendBuffer"
    "h_heap h cl = Some c \<Longrightarrow> \<not> c_done c \<Longrightarrow> \<exists>a. cl \<in> set (members h a)"
  using assms by (auto simp: heap_ok_def)

lemma members_fresh: "hub_inv h \<Longrightarrow> h_next h \<notin> set (members h a)"
  by (auto simp: hub_inv_def heap_ok_def)

lemma Register_keeps_inv:
  assumes inv: "hub_inv h"
  shows "hub_inv (snd (Register a h))"
proof -
  have ok: "map_ok h" and hp: "heap_ok h" using inv by (simp_all add: hub_inv_def)
  have "map_ok (h\<lparr>h_clients := put_members a (members h a @ [h_next h]) (h_clients h)\<rparr>)"
    using ok members_fresh [OF inv] by (intro map_ok_put [OF ok]) (auto simp: map_ok_def)
  then have "map_ok (snd (Register a h))"
    by (simp add: Register_put map_ok_def members_def)
  moreover have "heap_ok (snd (Register a h))"
  proof (rule heap_okI)
    fix cl c
    assume c: "h_heap (snd (Register a h)) cl = Some c"
    then show "cl < h_next (snd (Register a h))" "length (c_send c) \<le> sendBuffer"
      using heap_okD(2,3) [OF hp, of cl c] by (auto split: if_splits)
    assume "\<not> c_done c"
    then show "\<exists>b. cl \<in> set (members (snd (Register a h)) b)"
      using c heap_okD(4) [OF hp, of cl c] by (cases "cl = h_next h") (auto split: if_splits)
  qed (use heap_okD(1) [OF hp] in \<open>fastforce split: if_splits\<close>)
  ultimately show ?thesis by (simp add: hub_inv_def)
qed

lemma Unregister_keeps_inv:
  assumes inv: "hub_inv h"
  shows "hub_inv (Unregister a r cl h)"
proof -
  have ok: "map_ok h" and hp: "heap_ok h" using inv by (simp_all add: hub_inv_def)
  have "map_ok (h\<lparr>h_clients := put_members a (removeAll cl (members h a)) (h_clients h)\<rparr>)"
    using ok by (intro map_ok_put [OF ok]) (auto simp: map_ok_def distinct_removeAll)
  then have "map_ok (Unregister a r cl h)"
    by (simp add: Unregister_put map_ok_def members_def)
  moreover have "heap_ok (Unregister a r cl h)"
  proof (rule heap_okI)
    fix x c
    assume c: "h_heap (Unregister a r cl h) x = Some c"
    then obtain c0 where c0: "h_heap h x = Some c0" "c = (if x = cl then gone r c0 else c0)"
      by (auto simp: disconnect_apply split: if_splits)
    then show "x < h_next (Unregister a r cl h)" "length (c_send c) \<le> sendBuffer"
      using heap_okD(2,3) [OF hp c0(1)] by (auto split: if_splits)
    assume "\<not> c_done c"
    then have "x \<noteq> cl" "\<not> c_done c0" using c0(2) by (auto split: if_splits)
    then show "\<exists>b. x \<in> set (members (Unregister a r cl h) b)"
      using heap_okD(4) [OF hp c0(1)] by auto
  next
    fix b x
    assume "x \<in> set (members (Unregister a r cl h) b)"
    then have "x \<in> set (members h b)" by (auto split: if_splits)
    then show "h_heap (Unregister a r cl h) x \<noteq> None"
      using heap_okD(1) [OF hp] by (auto simp: disconnect_apply)
  qed
  ultimately show ?thesis by (simp add: hub_inv_def)
qed

lemma push_keeps_inv:
  assumes "hub_inv h" "h_heap h cl = Some c" "length (c_send c) < sendBuffer"
  shows "hub_inv (push_message msg cl c h)"
proof -
  have "map_ok (push_message msg cl c h)"
    using assms(1) by (simp add: hub_inv_def map_ok_def push_message_def)
  moreover have "heap_ok (push_message msg cl c h)"
    using assms by (fastforce simp: hub_inv_def heap_ok_def)
  ultimately show ?thesis by (simp add: hub_inv_def)
qed

lemma send_one_keeps_inv: "hub_inv h \<Longrightarrow> hub_inv (send_one coin a msg cl h)"
  by (auto simp: send_one_def Let_def push_keeps_inv Unregister_keeps_inv split: option.splits)

lemma Send_keeps_inv: "hub_inv h \<Longrightarrow> hub_inv (Send ranged coin a msg h)"
proof -
  have "hub_inv h \<Longrightarrow> hub_inv (fold (\<lambda>cl. send_one (coin cl) a msg cl) cls h)" for cls
    by (induction cls arbitrary: h) (simp_all add: send_one_keeps_inv)
  then show "hub_inv h \<Longrightarrow> hub_inv (Send ranged coin a msg h)" by (simp add: Send_def)
qed

lemma CloseAll_keeps_inv:
  assumes "hub_inv h"
  shows "hub_inv (CloseAll h)"
proof -
  have "map_ok (CloseAll h)" using assms by (simp add: hub_inv_def map_ok_def) (simp add: CloseAll_def)
  moreover have "heap_ok (CloseAll h)"
    using assms by (fastforce simp: hub_inv_def heap_ok_def split: if_splits)
  ultimately show ?thesis by (simp add: hub_inv_def)
qed

lemma set_registered:
  assumes "map_ok h"
  shows "cl \<in> set (registered h) \<longleftrightarrow> (\<exists>a. cl \<in> set (members h a))"
proof -
  have keys: "distinct (map fst (h_clients h))" using assms by (simp add: map_ok_def)
  show ?thesis
  proof
    assume "cl \<in> set (registered h)"
    then obtain a cs where "(a, cs) \<in> set (h_clients h)" "cl \<in> set cs" by (auto simp: registered_def)
    then have "cl \<in> set (members h a)" by (simp add: members_def map_of_is_SomeI [OF keys])
    then show "\<exists>a. cl \<in> set (members h a)" ..
  next
    assume "\<exists>a. cl \<in> set (members h a)"
    then obtain a where "cl \<in> set (members h a)" by blast
    then obtain cs where "map_of (h_clients h) a = Some cs" "cl \<in> set cs"
      by (cases "map_of (h_clients h) a") (auto simp: members_def)
    then show "cl \<in> set (registered h)" by (force simp: registered_def dest: map_of_SomeD)
  qed
qed

section \<open>A broadcast, client by client\<close>

definition visits :: "(nat list \<Rightarrow> nat list) \<Rightarrow> bool" where
  "visits ranged \<longleftrightarrow> (\<forall>xs. mset (ranged xs) = mset xs)"

lemma visitsD:
  assumes "visits ranged"
  shows "set (ranged xs) = set xs" "distinct (ranged xs) = distinct xs"
  using assms unfolding visits_def by (metis set_mset_mset, metis mset_eq_imp_distinct_iff)

text \<open>What one message does to a client of the account.\<close>

definition slow :: "ws_client \<Rightarrow> bool" where
  "slow c \<longleftrightarrow> \<not> c_done c \<and> sendBuffer \<le> length (c_send c)"

definition after_send :: "bool \<Rightarrow> string \<Rightarrow> ws_client \<Rightarrow> ws_client" where
  "after_send coin msg c =
     (if slow c then c\<lparr>c_reason := StatusPolicyViolation, c_done := True\<rparr>
      else if length (c_send c) < sendBuffer \<and> (\<not> c_done c \<or> coin) then c\<lparr>c_send := c_send c @ [msg]\<rparr>
      else c)"

lemma send_one_heap:
  "h_heap (send_one coin a msg cl h) x =
     (if x = cl then map_option (after_send coin msg) (h_heap h x) else h_heap h x)"
  by (auto simp: send_one_def after_send_def slow_def Let_def disconnect_apply gone_def
      split: option.splits)

definition is_slow :: "hub \<Rightarrow> nat \<Rightarrow> bool" where
  "is_slow h cl = (case h_heap h cl of None \<Rightarrow> False | Some c \<Rightarrow> slow c)"

lemma send_one_members:
  "members (send_one coin a msg cl h) b =
     (if b = a \<and> is_slow h cl then removeAll cl (members h a) else members h b)"
  by (auto simp: send_one_def is_slow_def slow_def Let_def split: option.splits)

lemma send_fold:
  assumes "distinct cls"
  shows "h_heap (fold (\<lambda>cl. send_one (coin cl) a msg cl) cls h) x =
      (if x \<in> set cls then map_option (after_send (coin x) msg) (h_heap h x) else h_heap h x) \<and>
    members (fold (\<lambda>cl. send_one (coin cl) a msg cl) cls h) b =
      (if b = a then filter (\<lambda>x. \<not> (x \<in> set cls \<and> is_slow h x)) (members h a) else members h b)"
  using assms
proof (induction cls arbitrary: h)
  case (Cons cl cls)
  let ?h = "send_one (coin cl) a msg cl h"
  have slow: "is_slow ?h y = is_slow h y" if "y \<in> set cls" for y
    using that Cons.prems by (auto simp add: is_slow_def send_one_heap)
  have "filter (\<lambda>x. \<not> (x \<in> set cls \<and> is_slow ?h x)) (members ?h a) =
      filter (\<lambda>x. \<not> (x \<in> set (cl # cls) \<and> is_slow h x)) (members h a)"
  proof (cases "is_slow h cl")
    case True
    then show ?thesis using Cons.prems slow
      by (auto simp: send_one_members removeAll_filter_not_eq intro!: filter_cong)
  next
    case False
    then show ?thesis using Cons.prems slow
      by (auto simp: send_one_members intro!: filter_cong)
  qed
  with Cons show ?case by (auto simp: send_one_heap send_one_members)
qed simp

lemma Send_effect:
  assumes inv: "hub_inv h" and rng: "visits ranged"
  shows "h_heap (Send ranged coin a msg h) x =
      (if x \<in> set (members h a) then map_option (after_send (coin x) msg) (h_heap h x) else h_heap h x)"
    and "members (Send ranged coin a msg h) b =
      (if b = a then filter (\<lambda>x. \<not> is_slow h x) (members h a) else members h b)"
proof -
  have "distinct (ranged (members h a))"
    using inv visitsD [OF rng] by (simp add: hub_inv_def map_ok_def)
  note send_fold [OF this, of coin a msg h x b]
  then show "h_heap (Send ranged coin a msg h) x =
      (if x \<in> set (members h a) then map_option (after_send (coin x) msg) (h_heap h x) else h_heap h x)"
    and "members (Send ranged coin a msg h) b =
      (if b = a then filter (\<lambda>x. \<not> is_slow h x) (members h a) else members h b)"
    by (auto simp: Send_def visitsD [OF rng] intro!: filter_cong)
qed

lemma distinct_registered:
  assumes "map_ok h"
  shows "distinct (registered h)"
proof -
  have "distinct (concat (map snd m))"
    if "distinct (map fst m)" "\<And>a cs. (a, cs) \<in> set m \<Longrightarrow> distinct cs \<and> cs = members h a"
    for m :: "(int64 \<times> nat list) list"
    using that
  proof (induction m)
    case (Cons p m)
    obtain a cs where p: "p = (a, cs)" by fastforce
    have "set cs \<inter> set cs' = {}" if "(b, cs') \<in> set m" for b cs'
    proof -
      have "b \<noteq> a" using that Cons.prems(1) p by force
      then show ?thesis
        using assms Cons.prems(2) [of a cs] Cons.prems(2) [of b cs'] that p
        by (auto simp: map_ok_def)
    qed
    moreover have "distinct (concat (map snd m))"
    proof (rule Cons.IH)
      show "distinct (map fst m)" using Cons.prems(1) by simp
      show "\<And>a cs. (a, cs) \<in> set m \<Longrightarrow> distinct cs \<and> cs = members h a"
        by (rule Cons.prems(2)) simp
    qed
    moreover have "distinct cs"
      by (rule Cons.prems(2) [THEN conjunct1, of a]) (simp add: p)
    ultimately show ?case by (force simp: p)
  qed simp
  moreover have "distinct cs \<and> cs = members h a" if "(a, cs) \<in> set (h_clients h)" for a cs
  proof -
    have "map_of (h_clients h) a = Some cs"
      using assms that by (simp add: map_ok_def map_of_is_SomeI)
    then have "cs = members h a" by (simp add: members_def)
    then show ?thesis using assms by (simp add: map_ok_def)
  qed
  moreover have "distinct (map fst (h_clients h))" using assms by (simp add: map_ok_def)
  ultimately show ?thesis by (simp add: registered_def)
qed

end
