(* ===== verification/Hub_System.thy ===== *)
theory Hub_System
  imports Hub "HOL-Library.Sublist"
begin

text \<open>
  The hub under concurrency: one subscriber goroutine calls \<^verbatim>\<open>Send\<close>, whose snapshot of the clients
  is taken under the read lock and whose deliveries then interleave with everything the connection
  goroutines do (register, take messages, unregister) and with the shutdown. Ghost fields record
  what was broadcast, since when a client listens, and what it has taken from its channel.
\<close>

section \<open>Steps\<close>

record hub_system =
  s_hub :: hub
  s_job :: "(int64 \<times> string \<times> nat list) option"
  s_log :: "(int64 \<times> string) list"
  s_owner :: "nat \<Rightarrow> int64"
  s_start :: "nat \<Rightarrow> nat"
  s_taken :: "nat \<Rightarrow> string list"

definition idle_system :: hub_system where
  "idle_system = \<lparr>s_hub = NewHub, s_job = None, s_log = [], s_owner = (\<lambda>_. 0), s_start = (\<lambda>_. 0),
     s_taken = (\<lambda>_. [])\<rparr>"

datatype hub_event =
    Do_register int64
  | Do_unregister nat int
  | Begin_send int64 string "nat list"
  | Deliver bool
  | Take nat
  | Close_all

text \<open>
  A step, \<open>None\<close> when the event is not enabled: \<open>Begin_send\<close> takes the snapshot in the order of its
  third argument, \<open>Deliver\<close> serves the next client of the snapshot, \<open>Take\<close> is a connection's
  \<^verbatim>\<open>msg := <-cl.send\<close>, \<open>Do_unregister\<close> a connection's deferred call, which has its own account.
\<close>

fun hub_step :: "hub_event \<Rightarrow> hub_system \<Rightarrow> hub_system option" where
  "hub_step (Do_register a) s =
     (let (cl, h) = Register a (s_hub s)
      in Some (s\<lparr>s_hub := h, s_owner := (s_owner s)(cl := a),
                s_start := (s_start s)(cl := length (s_log s)), s_taken := (s_taken s)(cl := [])\<rparr>))"
| "hub_step (Do_unregister cl reason) s =
     (if h_heap (s_hub s) cl = None then None
      else Some (s\<lparr>s_hub := Unregister (s_owner s cl) reason cl (s_hub s)\<rparr>))"
| "hub_step (Begin_send a msg order) s =
     (if s_job s = None \<and> mset order = mset (members (s_hub s) a)
      then Some (s\<lparr>s_job := Some (a, msg, order), s_log := s_log s @ [(a, msg)]\<rparr>) else None)"
| "hub_step (Deliver coin) s =
     (case s_job s of
        None \<Rightarrow> None
      | Some (a, msg, []) \<Rightarrow> Some (s\<lparr>s_job := None\<rparr>)
      | Some (a, msg, cl # cls) \<Rightarrow>
          Some (s\<lparr>s_hub := send_one coin a msg cl (s_hub s), s_job := Some (a, msg, cls)\<rparr>))"
| "hub_step (Take cl) s =
     (case h_heap (s_hub s) cl of
        None \<Rightarrow> None
      | Some c \<Rightarrow>
          (case c_send c of
             [] \<Rightarrow> None
           | msg # rest \<Rightarrow>
               Some (s\<lparr>s_hub := (s_hub s)\<lparr>h_heap := (h_heap (s_hub s))(cl \<mapsto> c\<lparr>c_send := rest\<rparr>)\<rparr>,
                      s_taken := (s_taken s)(cl := s_taken s cl @ [msg])\<rparr>)))"
| "hub_step Close_all s = Some (s\<lparr>s_hub := CloseAll (s_hub s)\<rparr>)"

inductive hub_reachable :: "hub_system \<Rightarrow> bool" where
  start: "hub_reachable idle_system"
| step: "hub_reachable s \<Longrightarrow> hub_step e s = Some s' \<Longrightarrow> hub_reachable s'"

section \<open>What a client should have heard\<close>

definition heard :: "int64 \<Rightarrow> (int64 \<times> string) list \<Rightarrow> string list" where
  "heard a log = map snd (filter (\<lambda>(b, _). b = a) log)"

definition due :: "hub_system \<Rightarrow> nat \<Rightarrow> string list" where
  "due s cl = heard (s_owner s cl) (drop (s_start s cl) (s_log s))"

text \<open>The message of the broadcast in progress, if the client's turn is still to come.\<close>

definition pending :: "hub_system \<Rightarrow> nat \<Rightarrow> string list" where
  "pending s cl = (case s_job s of None \<Rightarrow> [] | Some (_, msg, cls) \<Rightarrow> if cl \<in> set cls then [msg] else [])"

definition stream_ok :: "hub_system \<Rightarrow> nat \<Rightarrow> ws_client \<Rightarrow> bool" where
  "stream_ok s cl c \<longleftrightarrow>
     s_start s cl \<le> length (s_log s) \<and>
     (if c_done c then subseq (s_taken s cl @ c_send c @ pending s cl) (due s cl)
      else s_taken s cl @ c_send c @ pending s cl = due s cl)"

definition job_ok :: "hub_system \<Rightarrow> bool" where
  "job_ok s \<longleftrightarrow>
     (case s_job s of
        None \<Rightarrow> True
      | Some (a, msg, cls) \<Rightarrow>
          distinct cls \<and> (\<forall>cl \<in> set cls. s_owner s cl = a \<and> h_heap (s_hub s) cl \<noteq> None))"

definition system_inv :: "hub_system \<Rightarrow> bool" where
  "system_inv s \<longleftrightarrow>
     hub_inv (s_hub s) \<and> job_ok s \<and>
     (\<forall>a. \<forall>cl \<in> set (members (s_hub s) a). s_owner s cl = a) \<and>
     (\<forall>cl c. h_heap (s_hub s) cl = Some c \<longrightarrow> stream_ok s cl c)"

lemma heard_append [simp]: "heard a (xs @ ys) = heard a xs @ heard a ys"
  by (simp add: heard_def)

lemma heard_single [simp]: "heard a [(b, m)] = (if b = a then [m] else [])" "heard a [] = []"
  by (simp_all add: heard_def)

lemma set_heard: "m \<in> set (heard a log) \<longleftrightarrow> (a, m) \<in> set log"
  by (force simp: heard_def)

section \<open>Preservation\<close>

lemma system_invD:
  assumes "system_inv s"
  shows "hub_inv (s_hub s)" "job_ok s"
    "cl \<in> set (members (s_hub s) a) \<Longrightarrow> s_owner s cl = a"
    "h_heap (s_hub s) cl = Some c \<Longrightarrow> stream_ok s cl c"
    "cl \<in> set (members (s_hub s) a) \<Longrightarrow> \<exists>c. h_heap (s_hub s) cl = Some c"
    "h_heap (s_hub s) cl = Some c \<Longrightarrow> cl < h_next (s_hub s)"
    "h_heap (s_hub s) cl = Some c \<Longrightarrow> length (c_send c) \<le> sendBuffer"
    "h_heap (s_hub s) cl = Some c \<Longrightarrow> \<not> c_done c \<Longrightarrow> cl \<in> set (members (s_hub s) (s_owner s cl))"
proof -
  have hp: "heap_ok (s_hub s)" using assms by (simp add: system_inv_def hub_inv_def)
  show "hub_inv (s_hub s)" "job_ok s" "cl \<in> set (members (s_hub s) a) \<Longrightarrow> s_owner s cl = a"
    "h_heap (s_hub s) cl = Some c \<Longrightarrow> stream_ok s cl c"
    using assms by (simp_all add: system_inv_def)
  show "cl \<in> set (members (s_hub s) a) \<Longrightarrow> \<exists>c. h_heap (s_hub s) cl = Some c"
    "h_heap (s_hub s) cl = Some c \<Longrightarrow> cl < h_next (s_hub s)"
    "h_heap (s_hub s) cl = Some c \<Longrightarrow> length (c_send c) \<le> sendBuffer"
    using heap_okD [OF hp] by blast+
  show "h_heap (s_hub s) cl = Some c \<Longrightarrow> \<not> c_done c \<Longrightarrow> cl \<in> set (members (s_hub s) (s_owner s cl))"
    using heap_okD(4) [OF hp] assms by (metis system_inv_def)
qed

lemma system_invI:
  assumes "hub_inv (s_hub s)" "job_ok s"
    "\<And>a cl. cl \<in> set (members (s_hub s) a) \<Longrightarrow> s_owner s cl = a"
    "\<And>cl c. h_heap (s_hub s) cl = Some c \<Longrightarrow> stream_ok s cl c"
  shows "system_inv s"
  using assms by (simp add: system_inv_def)

lemma pending_cong: "s_job s' = s_job s \<Longrightarrow> pending s' = pending s"
  by (simp add: pending_def fun_eq_iff)

lemma stream_cong:
  assumes "s_start s' cl = s_start s cl" "s_log s' = s_log s" "s_taken s' cl = s_taken s cl"
    "s_owner s' cl = s_owner s cl" "pending s' cl = pending s cl"
  shows "stream_ok s' cl c = stream_ok s cl c"
  using assms by (simp add: stream_ok_def due_def)

lemma stream_gone: "stream_ok s cl c \<Longrightarrow> stream_ok s cl (gone r c)"
  by (auto simp: stream_ok_def split: if_splits)

lemma register_step:
  assumes inv: "system_inv s" and run: "hub_step (Do_register a) s = Some s'"
  shows "system_inv s'"
proof -
  let ?cl = "h_next (s_hub s)"
  note I = system_invD [OF inv]
  have s': "s' = s\<lparr>s_hub := snd (Register a (s_hub s)), s_owner := (s_owner s)(?cl := a),
      s_start := (s_start s)(?cl := length (s_log s)), s_taken := (s_taken s)(?cl := [])\<rparr>"
    using run by (simp add: Register_put)
  have fresh: "h_heap (s_hub s) ?cl = None" using I(6) [of ?cl] by (cases "h_heap (s_hub s) ?cl") auto
  have pend: "pending s ?cl = []"
    using I(2) fresh by (auto simp: pending_def job_ok_def split: option.splits)
  show ?thesis
  proof (rule system_invI)
    show "hub_inv (s_hub s')" using Register_keeps_inv [OF I(1)] by (simp add: s')
    show "job_ok s'" using I(2) fresh by (auto simp: job_ok_def s' split: option.splits)
    show "s_owner s' cl = b" if "cl \<in> set (members (s_hub s') b)" for b cl
      using that members_fresh [OF I(1)] I(3) by (auto simp: s' split: if_splits)
    show "stream_ok s' cl c" if "h_heap (s_hub s') cl = Some c" for cl c
    proof (cases "cl = ?cl")
      case True
      with that pend show ?thesis
        by (auto simp: s' stream_ok_def due_def pending_def)
    next
      case False
      with that have "stream_ok s cl c" by (intro I(4)) (simp add: s')
      moreover have "pending s' = pending s" by (rule pending_cong) (simp add: s')
      ultimately show ?thesis using stream_cong [of s' cl s c] False by (simp add: s')
    qed
  qed
qed

lemma unregister_step:
  assumes inv: "system_inv s" and run: "hub_step (Do_unregister x r) s = Some s'"
  shows "system_inv s'"
proof -
  note I = system_invD [OF inv]
  have s': "s' = s\<lparr>s_hub := Unregister (s_owner s x) r x (s_hub s)\<rparr>"
    using run by (simp split: if_splits)
  show ?thesis
  proof (rule system_invI)
    show "hub_inv (s_hub s')" using Unregister_keeps_inv [OF I(1)] by (simp add: s')
    show "job_ok s'" using I(2) by (auto simp: job_ok_def s' disconnect_apply split: option.splits)
    show "s_owner s' cl = b" if "cl \<in> set (members (s_hub s') b)" for b cl
      using that I(3) by (auto simp: s' split: if_splits)
    show "stream_ok s' cl c" if "h_heap (s_hub s') cl = Some c" for cl c
    proof -
      from that obtain c0 where "h_heap (s_hub s) cl = Some c0" "c = c0 \<or> c = gone r c0"
        by (auto simp: s' disconnect_apply split: if_splits)
      with I(4) [of cl c0] have "stream_ok s cl c" using stream_gone by blast
      moreover have "pending s' = pending s" by (rule pending_cong) (simp add: s')
      ultimately show ?thesis using stream_cong [of s' cl s c] by (simp add: s')
    qed
  qed
qed

lemma close_step:
  assumes inv: "system_inv s" and run: "hub_step Close_all s = Some s'"
  shows "system_inv s'"
proof -
  note I = system_invD [OF inv]
  have s': "s' = s\<lparr>s_hub := CloseAll (s_hub s)\<rparr>" using run by simp
  show ?thesis
  proof (rule system_invI)
    show "hub_inv (s_hub s')" using CloseAll_keeps_inv [OF I(1)] by (simp add: s')
    show "job_ok s'" using I(2) by (auto simp: job_ok_def s' split: option.splits)
    show "s_owner s' cl = b" if "cl \<in> set (members (s_hub s') b)" for b cl
      using that I(3) by (auto simp: s')
    show "stream_ok s' cl c" if "h_heap (s_hub s') cl = Some c" for cl c
    proof -
      from that obtain c0 where "h_heap (s_hub s) cl = Some c0" "c = c0 \<or> c = gone StatusGoingAway c0"
        by (auto simp: s' split: if_splits)
      with I(4) [of cl c0] have "stream_ok s cl c" using stream_gone by blast
      moreover have "pending s' = pending s" by (rule pending_cong) (simp add: s')
      ultimately show ?thesis using stream_cong [of s' cl s c] by (simp add: s')
    qed
  qed
qed

text \<open>A message that was due may be missing at the end.\<close>

lemma subseq_snoc:
  assumes "subseq xs ys" "zs = [] \<or> zs = ws"
  shows "subseq (xs @ zs) (ys @ ws)"
  using assms by (auto intro: list_emb_append_mono)

lemma subseq_initial:
  "subseq (xs @ ys @ zs) ws \<Longrightarrow> subseq (xs @ ys) ws"
  "xs @ ys @ zs = ws \<Longrightarrow> subseq (xs @ ys) ws"
proof -
  have "subseq (xs @ ys) (xs @ ys @ zs)"
    using list_emb_append_mono [of "(=)" "xs @ ys" "xs @ ys" "[]" zs] by simp
  then show "subseq (xs @ ys @ zs) ws \<Longrightarrow> subseq (xs @ ys) ws" "xs @ ys @ zs = ws \<Longrightarrow> subseq (xs @ ys) ws"
    using subseq_order.trans by blast+
qed

lemma begin_step:
  assumes inv: "system_inv s" and run: "hub_step (Begin_send a msg order) s = Some s'"
  shows "system_inv s'"
proof -
  note I = system_invD [OF inv]
  have job: "s_job s = None" and perm: "mset order = mset (members (s_hub s) a)"
    and s': "s' = s\<lparr>s_job := Some (a, msg, order), s_log := s_log s @ [(a, msg)]\<rparr>"
    using run by (simp_all split: if_splits)
  have set: "set order = set (members (s_hub s) a)" using perm by (metis set_mset_mset)
  have dist: "distinct order"
    using I(1) perm by (metis hub_inv_def map_ok_def mset_eq_imp_distinct_iff)
  show ?thesis
  proof (rule system_invI)
    show "hub_inv (s_hub s')" "\<And>b cl. cl \<in> set (members (s_hub s') b) \<Longrightarrow> s_owner s' cl = b"
      using I(1,3) by (simp_all add: s')
    show "job_ok s'" using dist I(3,5) by (auto simp: job_ok_def s' set)
    show "stream_ok s' cl c" if "h_heap (s_hub s') cl = Some c" for cl c
    proof -
      have c: "h_heap (s_hub s) cl = Some c" using that by (simp add: s')
      have ok: "stream_ok s cl c" using c by (rule I(4))
      have start: "s_start s cl \<le> length (s_log s)" using ok by (simp add: stream_ok_def)
      have before: "pending s cl = []" using job by (simp add: pending_def)
      have after: "pending s' cl = (if cl \<in> set order then [msg] else [])" by (simp add: pending_def s')
      have due: "due s' cl = due s cl @ (if s_owner s cl = a then [msg] else [])"
        using start by (simp add: due_def s')
      have mine: "s_owner s cl = a" if "cl \<in> set order" using that I(3) by (simp add: set)
      show ?thesis
      proof (cases "c_done c")
        case True
        have "subseq ((s_taken s cl @ c_send c) @ (if cl \<in> set order then [msg] else []))
            (due s cl @ (if s_owner s cl = a then [msg] else []))"
          using True ok before mine by (intro subseq_snoc) (auto simp: stream_ok_def)
        with True start after due show ?thesis by (simp add: stream_ok_def s')
      next
        case False
        then have "s_owner s cl = a \<Longrightarrow> cl \<in> set order" using I(8) [OF c] by (auto simp: set)
        with False ok before after due mine show ?thesis
          by (auto simp: stream_ok_def s')
      qed
    qed
  qed
qed

lemma deliver_step:
  assumes inv: "system_inv s" and run: "hub_step (Deliver coin) s = Some s'"
  shows "system_inv s'"
proof -
  note I = system_invD [OF inv]
  obtain a msg todo where job: "s_job s = Some (a, msg, todo)"
    using run by (cases "s_job s") auto
  show ?thesis
  proof (cases todo)
    case Nil
    with job run have s': "s' = s\<lparr>s_job := None\<rparr>" by simp
    have "pending s' cl = pending s cl" for cl using job Nil by (simp add: pending_def s')
    then have "stream_ok s' cl c = stream_ok s cl c" for cl c
      by (intro stream_cong) (simp_all add: s')
    then show ?thesis using I(1,3,4) by (intro system_invI) (simp_all add: s' job_ok_def)
  next
    case (Cons x cls)
    with job run have s': "s' = s\<lparr>s_hub := send_one coin a msg x (s_hub s), s_job := Some (a, msg, cls)\<rparr>"
      by simp
    have jobs: "distinct (x # cls)" "\<forall>cl \<in> set (x # cls). s_owner s cl = a \<and> h_heap (s_hub s) cl \<noteq> None"
      using I(2) job Cons by (simp_all add: job_ok_def)
    show ?thesis
    proof (rule system_invI)
      show "hub_inv (s_hub s')" using send_one_keeps_inv [OF I(1)] by (simp add: s')
      show "job_ok s'" using jobs by (auto simp: job_ok_def s' send_one_heap)
      show "s_owner s' cl = b" if "cl \<in> set (members (s_hub s') b)" for b cl
        using that I(3) by (auto simp: s' send_one_members split: if_splits)
      show "stream_ok s' cl c" if here: "h_heap (s_hub s') cl = Some c" for cl c
      proof (cases "cl = x")
        case False
        then have "h_heap (s_hub s) cl = Some c" using here by (simp add: s' send_one_heap)
        then have "stream_ok s cl c" by (rule I(4))
        moreover have "pending s' cl = pending s cl" using False job Cons by (simp add: pending_def s')
        ultimately show ?thesis using stream_cong [of s' cl s c] by (simp add: s')
      next
        case True
        then obtain c0 where c0: "h_heap (s_hub s) x = Some c0" and c: "c = after_send coin msg c0"
          using here by (auto simp: s' send_one_heap)
        have ok: "stream_ok s x c0" using c0 by (rule I(4))
        have "pending s x = [msg]" "pending s' x = []" "due s' x = due s x"
          using jobs job Cons by (simp_all add: pending_def s' due_def)
        with ok c True show ?thesis
          by (auto simp: stream_ok_def after_send_def slow_def s' split: if_splits
              dest: subseq_initial)
      qed
    qed
  qed
qed

lemma take_step:
  assumes inv: "system_inv s" and run: "hub_step (Take x) s = Some s'"
  shows "system_inv s'"
proof -
  note I = system_invD [OF inv]
  obtain c0 msg rest where c0: "h_heap (s_hub s) x = Some c0" and q: "c_send c0 = msg # rest"
    and s': "s' = s\<lparr>s_hub := (s_hub s)\<lparr>h_heap := (h_heap (s_hub s))(x \<mapsto> c0\<lparr>c_send := rest\<rparr>)\<rparr>,
                   s_taken := (s_taken s)(x := s_taken s x @ [msg])\<rparr>"
    using run by (auto split: option.splits list.splits)
  have hp: "heap_ok (s_hub s)" using I(1) by (simp add: hub_inv_def)
  show ?thesis
  proof (rule system_invI)
    have "map_ok (s_hub s')" using I(1) by (simp add: s' hub_inv_def map_ok_def)
    moreover have "heap_ok (s_hub s')"
    proof (rule heap_okI)
      fix cl c
      assume c: "h_heap (s_hub s') cl = Some c"
      then obtain c1 where c1: "h_heap (s_hub s) cl = Some c1" "c_done c = c_done c1"
        "length (c_send c) \<le> length (c_send c1)"
        using c0 q by (auto simp: s' split: if_splits)
      show "cl < h_next (s_hub s')" "length (c_send c) \<le> sendBuffer"
        using heap_okD(2,3) [OF hp c1(1)] c1(3) by (simp_all add: s')
      show "\<not> c_done c \<Longrightarrow> \<exists>a. cl \<in> set (members (s_hub s') a)"
        using heap_okD(4) [OF hp c1(1)] c1(2) by (simp add: s')
    qed (use heap_okD(1) [OF hp] in \<open>auto simp: s'\<close>)
    ultimately show "hub_inv (s_hub s')" by (simp add: hub_inv_def)
    show "job_ok s'" using I(2) by (auto simp: job_ok_def s' split: option.splits)
    show "\<And>b cl. cl \<in> set (members (s_hub s') b) \<Longrightarrow> s_owner s' cl = b" using I(3) by (simp add: s')
    show "stream_ok s' cl c" if "h_heap (s_hub s') cl = Some c" for cl c
      using that I(4) [of cl] c0 q
      by (cases "cl = x") (auto simp: s' stream_ok_def due_def pending_def)
  qed
qed

lemma hub_step_keeps_inv: "system_inv s \<Longrightarrow> hub_step e s = Some s' \<Longrightarrow> system_inv s'"
  using register_step unregister_step begin_step deliver_step take_step close_step by (cases e) blast+

lemma idle_system_inv: "system_inv idle_system"
  by (rule system_invI) (simp_all add: idle_system_def job_ok_def, simp_all add: NewHub_def)

lemma reachable_system_inv: "hub_reachable s \<Longrightarrow> system_inv s"
  by (induction rule: hub_reachable.induct) (auto intro: idle_system_inv hub_step_keeps_inv)

end
