(* ===== verification/Ws.thy ===== *)
theory Ws
  imports Hub_System Go_Text
begin

text \<open>
  \<^verbatim>\<open>internal/notification/ws.go\<close>: one WebSocket connection. The handshake and the socket belong to
  a library: whether the upgrade, a write and a ping succeed is given with each round of the loop,
  as is what the other goroutines did to the hub since the last round and which ready case the
  \<^verbatim>\<open>select\<close> took. A case that is not ready cannot be taken: such a round passes without effect.
\<close>

datatype ws_choice = Got_message bool | Ticked bool | Saw_done | Context_done

record ws_round =
  others :: "hub \<Rightarrow> hub"
  choice :: ws_choice

text \<open>What the browser sees.\<close>

datatype frame = Text_frame string | Ping_frame | Close_frame int

datatype ws_response = Bad_request | Not_upgraded | Served "frame list"

definition queued :: "hub \<Rightarrow> nat \<Rightarrow> string list" where
  "queued h cl = (case h_heap h cl of None \<Rightarrow> [] | Some c \<Rightarrow> c_send c)"

definition take_message :: "nat \<Rightarrow> hub \<Rightarrow> hub" where
  "take_message cl h =
     h\<lparr>h_heap := (h_heap h)(cl := map_option (\<lambda>c. c\<lparr>c_send := tl (c_send c)\<rparr>) (h_heap h cl))\<rparr>"

text \<open>The frames written, whether the handler has returned, and the hub.\<close>

fun serve_loop :: "nat \<Rightarrow> ws_round list \<Rightarrow> hub \<Rightarrow> frame list \<times> bool \<times> hub" where
  "serve_loop cl [] h = ([], False, h)"
| "serve_loop cl (w # ws) h =
     (let h1 = others w h
      in case choice w of
           Got_message ok \<Rightarrow>
             (case queued h1 cl of
                [] \<Rightarrow> serve_loop cl ws h1
              | msg # _ \<Rightarrow>
                  (let h2 = take_message cl h1
                   in if ok then (let (fs, ret, h3) = serve_loop cl ws h2 in (Text_frame msg # fs, ret, h3))
                      else ([], True, h2)))
         | Ticked ok \<Rightarrow>
             (if ok then (let (fs, ret, h3) = serve_loop cl ws h1 in (Ping_frame # fs, ret, h3))
              else ([], True, h1))
         | Saw_done \<Rightarrow>
             (case h_heap h1 cl of
                Some c \<Rightarrow> if c_done c then ([Close_frame (c_reason c)], True, h1) else serve_loop cl ws h1
              | None \<Rightarrow> serve_loop cl ws h1)
         | Context_done \<Rightarrow> ([], True, h1))"

definition ServeHTTP :: "string \<Rightarrow> bool \<Rightarrow> ws_round list \<Rightarrow> hub \<Rightarrow> ws_response \<times> bool \<times> hub" where
  "ServeHTTP val accepted ws h =
     (case ParseInt val of
        Inl _ \<Rightarrow> (Bad_request, True, h)
      | Inr accountID \<Rightarrow>
          if accountID \<le> 0 then (Bad_request, True, h)
          else if \<not> accepted then (Not_upgraded, True, h)
          else
            (let (cl, h1) = Register accountID h;
                 (fs, ret, h2) = serve_loop cl ws h1
             in (Served fs, ret,
                 if ret then Unregister accountID StatusNormalClosure cl h2 else h2)))"

section \<open>The other goroutines\<close>

text \<open>
  What a connection may rely on: the others keep the hub's invariant, never forget a client's
  record, never re-open it, and leave the reason it was closed with.
\<close>

definition client_le :: "ws_client \<Rightarrow> ws_client \<Rightarrow> bool" where
  "client_le c c' \<longleftrightarrow> (c_done c \<longrightarrow> c_done c' \<and> c_reason c' = c_reason c)"

definition hub_le :: "hub \<Rightarrow> hub \<Rightarrow> bool" where
  "hub_le h h' \<longleftrightarrow>
     (\<forall>cl c. h_heap h cl = Some c \<longrightarrow> (\<exists>c'. h_heap h' cl = Some c' \<and> client_le c c'))"

lemma client_le_refl [simp]: "client_le c c"
  by (simp add: client_le_def)

lemma client_le_trans: "client_le a b \<Longrightarrow> client_le b c \<Longrightarrow> client_le a c"
  by (simp add: client_le_def)

lemma hub_le_refl [simp]: "hub_le h h"
  by (simp add: hub_le_def)

lemma hub_le_trans: "hub_le a b \<Longrightarrow> hub_le b c \<Longrightarrow> hub_le a c"
  unfolding hub_le_def by (meson client_le_trans)

lemma client_le_gone [simp]: "client_le c (gone r c)"
  by (simp add: client_le_def gone_def)

lemma client_le_after_send [simp]: "client_le c (after_send coin msg c)"
  by (simp add: client_le_def after_send_def slow_def)

lemma hub_le_heapI:
  assumes "\<And>cl c. h_heap h cl = Some c \<Longrightarrow> \<exists>f. h_heap h' cl = Some (f c) \<and> client_le c (f c)"
  shows "hub_le h h'"
  using assms unfolding hub_le_def by blast

lemma hub_le_Unregister [simp]: "hub_le h (Unregister a r cl h)"
  by (auto simp: hub_le_def disconnect_apply)

lemma hub_le_CloseAll [simp]: "hub_le h (CloseAll h)"
  by (auto simp: hub_le_def)

lemma hub_le_Register: "hub_inv h \<Longrightarrow> hub_le h (snd (Register a h))"
  by (auto simp: hub_le_def hub_inv_def heap_ok_def)

lemma hub_le_Send: "hub_inv h \<Longrightarrow> visits ranged \<Longrightarrow> hub_le h (Send ranged coin a msg h)"
  by (auto simp: hub_le_def Send_effect)

lemma hub_le_take [simp]: "hub_le h (take_message cl h)"
  by (auto simp: hub_le_def take_message_def client_le_def)

lemma take_keeps_inv:
  assumes "hub_inv h"
  shows "hub_inv (take_message cl h)"
proof -
  have hp: "heap_ok h" using assms by (simp add: hub_inv_def)
  have "map_ok (take_message cl h)" using assms by (simp add: hub_inv_def map_ok_def take_message_def)
  moreover have "heap_ok (take_message cl h)"
  proof (rule heap_okI)
    fix x c
    assume "h_heap (take_message cl h) x = Some c"
    then obtain c0 where c0: "h_heap h x = Some c0" "c_done c = c_done c0"
      "length (c_send c) \<le> length (c_send c0)"
      by (auto simp: take_message_def split: if_splits)
    show "x < h_next (take_message cl h)" "length (c_send c) \<le> sendBuffer"
      using heap_okD(2,3) [OF hp c0(1)] c0(3) by (simp_all add: take_message_def)
    show "\<not> c_done c \<Longrightarrow> \<exists>a. x \<in> set (members (take_message cl h) a)"
      using heap_okD(4) [OF hp c0(1)] c0(2) by (simp add: take_message_def)
  qed (use heap_okD(1) [OF hp] in \<open>auto simp: take_message_def\<close>)
  ultimately show ?thesis by (simp add: hub_inv_def)
qed

definition cooperative :: "(hub \<Rightarrow> hub) \<Rightarrow> bool" where
  "cooperative f \<longleftrightarrow> (\<forall>h. hub_inv h \<longrightarrow> hub_inv (f h) \<and> hub_le h (f h))"

lemma cooperative_operations:
  "cooperative (\<lambda>h. h)"
  "cooperative (\<lambda>h. snd (Register a h))"
  "cooperative (Unregister a r cl)"
  "visits ranged \<Longrightarrow> cooperative (Send ranged coin a msg)"
  "cooperative CloseAll"
  by (simp_all add: cooperative_def Register_keeps_inv Unregister_keeps_inv Send_keeps_inv
      CloseAll_keeps_inv hub_le_Register hub_le_Send)

section \<open>A connection keeps the hub in order\<close>

lemma serve_loop_keeps:
  assumes "hub_inv h" "\<forall>w \<in> set ws. cooperative (others w)" "serve_loop cl ws h = (fs, ret, h')"
  shows "hub_inv h' \<and> hub_le h h'"
  using assms
proof (induction ws arbitrary: h fs ret h')
  case (Cons w ws)
  let ?h1 = "others w h"
  have h1: "hub_inv ?h1" "hub_le h ?h1" using Cons.prems by (simp_all add: cooperative_def)
  have coop: "\<forall>w \<in> set ws. cooperative (others w)" using Cons.prems(2) by simp
  have go: "hub_inv h' \<and> hub_le h h'"
    if "hub_inv h2" "hub_le h h2" "serve_loop cl ws h2 = (fs2, ret2, h')" for h2 fs2 ret2
    using Cons.IH [OF that(1) coop that(3)] that(2) by (blast intro: hub_le_trans)
  have take: "hub_inv (take_message cl ?h1)" "hub_le h (take_message cl ?h1)"
    using h1 take_keeps_inv hub_le_take hub_le_trans by blast+
  show ?case
    using Cons.prems(3) h1 go [OF h1] go [OF take] take
    by (auto simp: Let_def split: ws_choice.splits list.splits option.splits if_splits prod.splits)
qed simp

text \<open>However the connection ends, its client is out of the hub and closed.\<close>

lemma ServeHTTP_leaves:
  assumes inv: "hub_inv h" and coop: "\<forall>w \<in> set ws. cooperative (others w)"
    and run: "ServeHTTP val accepted ws h = (Served fs, True, h')"
  shows "hub_inv h' \<and> (\<exists>c. h_heap h' (h_next h) = Some c \<and> c_done c) \<and>
    (\<exists>a. ParseInt val = Inr a \<and> 0 < a \<and> h_next h \<notin> set (members h' a))"
proof -
  let ?cl = "h_next h"
  obtain a where a: "ParseInt val = Inr a" "0 < a" "accepted"
    using run by (auto simp: ServeHTTP_def split: sum.splits if_splits)
  obtain fs' ret h2 where loop: "serve_loop ?cl ws (snd (Register a h)) = (fs', ret, h2)"
    by (metis prod_cases3)
  have out: "ret" "h' = Unregister a StatusNormalClosure ?cl h2"
    using run a loop by (auto simp: ServeHTTP_def Register_put split: if_splits)
  have k: "hub_inv h2 \<and> hub_le (snd (Register a h)) h2"
    using serve_loop_keeps [OF Register_keeps_inv [OF inv] coop loop] .
  moreover have "h_heap (snd (Register a h)) ?cl \<noteq> None" by simp
  ultimately obtain c where "h_heap h2 ?cl = Some c" unfolding hub_le_def by blast
  then have "\<exists>c. h_heap h' ?cl = Some c \<and> c_done c" by (simp add: out disconnect_apply)
  moreover have "hub_inv h'" using k by (simp add: out Unregister_keeps_inv)
  moreover have "?cl \<notin> set (members h' a)" by (simp add: out)
  ultimately show ?thesis using a by blast
qed

end
