(* ===== verification/Hub_Properties.thy ===== *)
theory Hub_Properties
  imports Ws
begin

text \<open>The properties of the notification service's hub and of its WebSocket connections.\<close>

section \<open>Runs\<close>

fun run_hub :: "hub_event list \<Rightarrow> hub_system \<Rightarrow> hub_system option" where
  "run_hub [] s = Some s"
| "run_hub (e # es) s = (case hub_step e s of None \<Rightarrow> None | Some s' \<Rightarrow> run_hub es s')"

lemma run_hub_reachable: "run_hub es s = Some s' \<Longrightarrow> hub_reachable s \<Longrightarrow> hub_reachable s'"
  by (induction es arbitrary: s) (auto split: option.splits intro: hub_reachable.step)

text \<open>Two clients of account 10 and one of account 11; a broadcast to account 10 half delivered.\<close>

definition sample_events :: "hub_event list" where
  "sample_events = [Do_register 10, Do_register 11, Do_register 10, Begin_send 10 ''m1'' [2, 0],
     Deliver True, Take 2, Deliver True, Deliver True, Begin_send 10 ''m2'' [0, 2], Deliver True]"

definition sample_system :: hub_system where
  "sample_system = the (run_hub sample_events idle_system)"

lemma sample_system_reachable: "hub_reachable sample_system"
proof -
  have "Option.is_none (run_hub sample_events idle_system) = False" by code_simp
  then show ?thesis
    unfolding sample_system_def
    by (intro run_hub_reachable [OF _ hub_reachable.start]) (auto simp: Option.is_none_def)
qed

section \<open>The registry\<close>

text \<open>
  C32: In every reachable state of the hub, under any interleaving of registrations, broadcasts,
  deliveries, disconnections and the shutdown: no account has two entries or an empty one, no client
  is listed twice or under two accounts, every listed client exists, no queue exceeds its capacity
  of 16, and a client that is not listed has been told to disconnect, so that no connection outlives
  its registration unnoticed. \<open>Connections\<close> counts the listed clients.
\<close>

theorem hub_consistent:
  assumes "hub_reachable s"
  shows "hub_inv (s_hub s) \<and>
    Connections (s_hub s) = int (card {cl. \<exists>a. cl \<in> set (members (s_hub s) a)})"
proof -
  let ?h = "s_hub s"
  have inv: "hub_inv ?h" using system_invD(1) [OF reachable_system_inv [OF assms]] .
  then have ok: "map_ok ?h" by (simp add: hub_inv_def)
  have "distinct (registered ?h)" using ok by (rule distinct_registered)
  moreover have "{cl. \<exists>a. cl \<in> set (members ?h a)} = set (registered ?h)"
    using set_registered [OF ok] by auto
  moreover have "Connections ?h = int (length (registered ?h))"
  proof -
    have "(\<Sum>(_, cs)\<leftarrow>m. int (length cs)) = int (length (concat (map snd m)))"
      for m :: "(int64 \<times> nat list) list"
      by (induction m) auto
    then show ?thesis by (simp add: Connections_def registered_def)
  qed
  ultimately show ?thesis using inv by (simp add: distinct_card)
qed

theorem hub_consistent_witness:
  "hub_inv (s_hub sample_system) \<and>
     Connections (s_hub sample_system) = int (card {cl. \<exists>a. cl \<in> set (members (s_hub sample_system) a)})"
  using sample_system_reachable by (rule hub_consistent)

section \<open>Streams\<close>

text \<open>
  C31: What a connection hears: as long as it has not been told to disconnect, what it has taken from
  its channel, what waits there and the broadcast on its way to it are, together, exactly the
  messages sent to its account since it registered, in order, without a gap or a repetition. Once
  it has been told to disconnect it may miss messages, but never sees them out of order or twice,
  and no message of another account ever reaches it.
\<close>

theorem clients_hear_everything_in_order:
  assumes "hub_reachable s" "h_heap (s_hub s) cl = Some c"
  shows "(\<not> c_done c \<longrightarrow> s_taken s cl @ c_send c @ pending s cl = due s cl) \<and>
    subseq (s_taken s cl @ c_send c) (due s cl) \<and>
    (\<forall>m \<in> set (s_taken s cl @ c_send c). (s_owner s cl, m) \<in> set (s_log s))"
proof -
  have ok: "stream_ok s cl c"
    using system_invD(4) [OF reachable_system_inv [OF assms(1)] assms(2)] .
  have sub: "subseq (s_taken s cl @ c_send c) (due s cl)"
    using ok subseq_initial [of "s_taken s cl" "c_send c" "pending s cl" "due s cl"]
    by (auto simp: stream_ok_def split: if_splits)
  have "set (s_taken s cl @ c_send c) \<subseteq> set (due s cl)"
    using sub by (auto elim: list_emb_set)
  moreover have "(s_owner s cl, m) \<in> set (s_log s)" if "m \<in> set (due s cl)" for m
    using that by (auto simp: due_def set_heard dest: in_set_dropD)
  ultimately have "\<forall>m \<in> set (s_taken s cl @ c_send c). (s_owner s cl, m) \<in> set (s_log s)" by blast
  with ok sub show ?thesis by (simp add: stream_ok_def)
qed

theorem clients_hear_everything_in_order_witness:
  "s_taken sample_system 2 @ [] @ pending sample_system 2 = due sample_system 2 \<and>
   due sample_system 2 = [''m1'', ''m2'']"
proof -
  have none: "Option.is_none (h_heap (s_hub sample_system) 2) = False" by code_simp
  then obtain c where c: "h_heap (s_hub sample_system) 2 = Some c" by (auto simp: Option.is_none_def)
  have "map_option c_done (h_heap (s_hub sample_system) 2) = Some False"
    "map_option c_send (h_heap (s_hub sample_system) 2) = Some []"
    "due sample_system 2 = [''m1'', ''m2'']" by code_simp+
  then show ?thesis
    using clients_hear_everything_in_order [OF sample_system_reachable c] c by simp
qed

section \<open>A broadcast\<close>

text \<open>
  One \<open>Send\<close>, whatever order Go visits the clients in: every client of the account that has room
  gets the message at the end of its queue; a client whose queue is full is disconnected with the
  policy-violation status and leaves the registry, without delaying the others and without losing
  what it had queued; a client already told to disconnect keeps its reason; every other client, and
  every other account, is untouched.
\<close>

theorem broadcast_effect:
  assumes "hub_inv h" "visits ranged" "h_heap h x = Some c"
  shows "h_heap (Send ranged coin a msg h) x = Some
      (if x \<notin> set (members h a) then c
       else if \<not> c_done c \<and> length (c_send c) < 16 then c\<lparr>c_send := c_send c @ [msg]\<rparr>
       else if \<not> c_done c then c\<lparr>c_reason := 1008, c_done := True\<rparr>
       else if length (c_send c) < 16 \<and> coin x then c\<lparr>c_send := c_send c @ [msg]\<rparr> else c) \<and>
    set (members (Send ranged coin a msg h) b) =
      set (members h b) - (if b = a then {y. is_slow h y} else {})"
  using assms by (auto simp: Send_effect after_send_def slow_def sendBuffer_def StatusPolicyViolation_def)

theorem broadcast_effect_witness:
  "h_heap (Send rev (\<lambda>_. False) 10 ''m'' (s_hub sample_system)) 2 =
     Some \<lparr>c_send = [''m''], c_done = False, c_reason = 0\<rparr>"
proof -
  let ?h = "s_hub sample_system"
  have inv: "hub_inv ?h" using hub_consistent [OF sample_system_reachable] ..
  have "map_option c_done (h_heap ?h 2) = Some False" "map_option c_send (h_heap ?h 2) = Some []"
    "map_option c_reason (h_heap ?h 2) = Some 0" "2 \<in> set (members ?h 10)" by code_simp+
  moreover from this obtain c where "h_heap ?h 2 = Some c" by auto
  ultimately show ?thesis
    using broadcast_effect [OF inv, of rev 2 c "\<lambda>_. False" 10 "''m''"] by (simp add: visits_def)
qed

section \<open>Connections\<close>

text \<open>
  A WebSocket connection never leaks: whenever \<open>ServeHTTP\<close> returns after an upgrade, because of a
  failed write, a missed ping, the peer, a full queue or the shutdown, and whatever the other
  goroutines did to the hub meanwhile, its client is no longer registered for its account and is
  marked done, and the registry is consistent. Only a positive decimal account id gets that far.
\<close>

theorem connection_unregisters:
  assumes "hub_inv h" "\<forall>w \<in> set ws. cooperative (others w)"
    "ServeHTTP val accepted ws h = (Served fs, True, h')"
  shows "hub_inv h' \<and> (\<exists>c. h_heap h' (h_next h) = Some c \<and> c_done c) \<and>
    (\<exists>a. ParseInt val = Inr a \<and> 0 < a \<and> h_next h \<notin> set (members h' a))"
  using assms by (rule ServeHTTP_leaves)

theorem connection_unregisters_witness:
  "\<exists>h'. ServeHTTP ''10'' True
      [\<lparr>others = Send rev (\<lambda>_. True) 10 ''m1'', choice = Got_message True\<rparr>,
       \<lparr>others = CloseAll, choice = Saw_done\<rparr>] NewHub
    = (Served [Text_frame ''m1'', Close_frame 1001], True, h') \<and>
    0 \<notin> set (members h' 10)"
proof -
  let ?ws = "[\<lparr>others = Send rev (\<lambda>_. True) 10 ''m1'', choice = Got_message True\<rparr>,
       \<lparr>others = CloseAll, choice = Saw_done\<rparr>]"
  obtain r ret h' where run: "ServeHTTP ''10'' True ?ws NewHub = (r, ret, h')" by (metis prod_cases3)
  have "fst (ServeHTTP ''10'' True ?ws NewHub) = Served [Text_frame ''m1'', Close_frame 1001]"
    "fst (snd (ServeHTTP ''10'' True ?ws NewHub))" by code_simp+
  with run have eq: "r = Served [Text_frame ''m1'', Close_frame 1001]" "ret" by simp_all
  have "ParseInt ''10'' = Inr 10" by code_simp
  then have "0 \<notin> set (members h' 10)"
    using connection_unregisters [OF hub_inv_NewHub _ run [unfolded eq(1) eq(2) [THEN eqTrueI]]]
    by (simp add: cooperative_operations visits_def NewHub_def)
  with run eq show ?thesis by simp
qed

end
