(* ===== verification/Json_Facts.thy ===== *)
theory Json_Facts
  imports Messages
begin

text \<open>
  What the writers of the program produce is read back: the texts of numbers, strings and objects
  are values to the scanner, compacting leaves them alone, and members come back with their keys
  and their raw text.
\<close>

section \<open>Strings\<close>

fun str_run :: "escape_state \<Rightarrow> string \<Rightarrow> escape_state option" where
  "str_run st [] = Some st"
| "str_run st (c # cs) = (case str_next st c of Inr (Some st') \<Rightarrow> str_run st' cs | _ \<Rightarrow> None)"

lemma str_run_append: "str_run st (xs @ ys) = Option.bind (str_run st xs) (\<lambda>st'. str_run st' ys)"
  by (induction xs arbitrary: st) (auto split: sum.splits option.splits)

lemma scan_str_run:
  "str_run st t = Some st' \<Longrightarrow>
   scan (Str_text acc st) fs (t @ rest) = scan (Str_text (rev t @ acc) st') fs rest"
  "str_run st t = Some st' \<Longrightarrow>
   scan (Key_text acc st) fs (t @ rest) = scan (Key_text (rev t @ acc) st') fs rest"
  by (induction t arbitrary: st acc) (auto split: sum.splits option.splits)

lemma hex_value_hex_char: "0 \<le> d \<Longrightarrow> d < 16 \<Longrightarrow> hex_value (hex_char d) \<noteq> None"
  by (simp add: hex_value_def hex_char_def of_char_of Let_def)

lemma hex_value_digits: "hex_value (CHR ''0'') \<noteq> None" "hex_value (CHR ''2'') \<noteq> None"
  "hex_value (CHR ''8'') \<noteq> None" "hex_value (CHR ''9'') \<noteq> None" "hex_value (CHR ''f'') \<noteq> None"
  "hex_value (CHR ''d'') \<noteq> None"
  by code_simp+

lemma str_run_u_escape:
  "hex_value a \<noteq> None \<Longrightarrow> hex_value b \<noteq> None \<Longrightarrow> hex_value c \<noteq> None \<Longrightarrow> hex_value d \<noteq> None \<Longrightarrow>
   str_run Plain (u_escape [a, b, c, d]) = Some Plain"
  by (simp add: u_escape_def numeral_3_eq_3)

lemma str_run_ascii:
  assumes "(of_char c :: int) < 128"
  shows "str_run Plain (json_ascii c) = Some Plain"
proof -
  let ?n = "of_char c :: int"
  have n: "0 \<le> ?n" by (metis of_nat_0_le_iff of_nat_of_char)
  have hex: "hex_value (hex_char (?n div 16)) \<noteq> None" "hex_value (hex_char (?n mod 16)) \<noteq> None"
    using assms n by (intro hex_value_hex_char; simp)+
  show ?thesis
    by (auto simp: json_ascii_def Let_def str_run_u_escape hex hex_value_digits)
qed

lemma str_run_high:
  assumes "\<forall>b \<in> set t. 128 \<le> (of_char b :: int)"
  shows "str_run Plain t = Some Plain"
  using assms
proof (induction t)
  case (Cons b t)
  then have "128 \<le> (of_char b :: int)" by simp
  then have "b \<noteq> CHR 0x22" "b \<noteq> CHR 0x5C" by auto
  with Cons show ?case by simp
qed simp

lemma cont_byte_high: "cont_byte b \<Longrightarrow> 128 \<le> (of_char b :: int)"
  by (simp add: cont_byte_def Let_def)

lemma utf8_width_high:
  assumes "utf8_width (c # cs) = Some w" "128 \<le> (of_char c :: int)"
  shows "\<forall>b \<in> set (take (w - 1) cs). cont_byte b"
  using assms by (auto simp: Let_def numeral_2_eq_2 numeral_3_eq_3 eval_nat_numeral split: list.splits if_splits)

lemma str_run_json_body: "str_run Plain (json_body s) = Some Plain"
proof (induction s rule: json_body.induct)
  case (2 c cs)
  show ?case
  proof (cases "(of_char c :: int) < 128")
    case True
    with 2 show ?thesis by (simp add: str_run_append str_run_ascii)
  next
    case high: False
    show ?thesis
    proof (cases "utf8_width (c # cs)")
      case None
      with high 2 show ?thesis by (simp add: str_run_append str_run_u_escape hex_value_digits)
    next
      case (Some w)
      have "str_run Plain (c # take (w - 1) cs) = Some Plain"
        using utf8_width_high [OF Some] high by (intro str_run_high) (auto dest: cont_byte_high)
      with high 2 Some show ?thesis
        by (auto simp del: str_run.simps(2)
            simp add: str_run_append str_run_u_escape hex_value_digits Let_def)
    qed
  qed
qed simp

section \<open>Values inside containers\<close>

text \<open>The scanner reads \<open>t\<close> as the value \<open>v\<close> inside at least one container, leaving room for \<open>n\<close> more.\<close>

definition value_text :: "nat \<Rightarrow> string \<Rightarrow> json \<Rightarrow> bool" where
  "value_text n t v \<longleftrightarrow>
     (\<forall>fs c cs. fs \<noteq> [] \<longrightarrow> length fs + n \<le> maxNestingDepth \<longrightarrow> c = CHR '','' \<or> c = CHR ''}'' \<longrightarrow>
        scan Begin_value fs (t @ c # cs) =
          scan (After_value v (c # cs)) (mark_start (t @ c # cs) fs) (c # cs))"

lemma mark_start_Nil [simp]: "mark_start s fs = [] \<longleftrightarrow> fs = []"
  by (cases "(s, fs)" rule: mark_start.cases) auto

lemma length_mark_start [simp]: "length (mark_start s fs) = length fs"
  by (cases "(s, fs)" rule: mark_start.cases) auto

lemma value_text_string: "value_text n (json_string s) (JStr (unquote (json_body s)))"
  unfolding value_text_def
proof (intro allI impI)
  fix fs :: "container list" and c cs
  assume fs: "fs \<noteq> []"
  let ?t = "json_string s @ c # cs"
  have "scan Begin_value fs ?t = scan (Str_text [] Plain) (mark_start ?t fs) (json_body s @ CHR 0x22 # c # cs)"
    by (simp add: json_string_def json_space_def begin_value_def Let_def)
  also have "\<dots> = scan (Str_text (rev (json_body s)) Plain) (mark_start ?t fs) (CHR 0x22 # c # cs)"
    using scan_str_run(1) [OF str_run_json_body, of "[]" "mark_start ?t fs" s "CHR 0x22 # c # cs"] by simp
  also have "\<dots> = scan (After_value (JStr (unquote (json_body s))) (c # cs)) (mark_start ?t fs) (c # cs)"
    using fs by (simp add: close_def)
  finally show "scan Begin_value fs ?t =
      scan (After_value (JStr (unquote (json_body s))) (c # cs)) (mark_start ?t fs) (c # cs)" .
qed

subsection \<open>Numbers\<close>

lemma dec_text_shape:
  "0 \<le> n \<Longrightarrow> \<exists>d ds. dec_text n = d # ds \<and> is_digit d \<and> (\<forall>c \<in> set ds. is_digit c) \<and> (d = CHR ''0'' \<longrightarrow> n = 0 \<and> ds = [])"
proof (induction n rule: dec_text.induct)
  case (1 n)
  show ?case
  proof (cases "n < 10")
    case True
    have "digit_char n = CHR ''0'' \<Longrightarrow> n = 0"
      using of_char_digit_char [of n] True 1(2) by simp
    then show ?thesis
      using True 1(2) by (subst dec_text.simps) (auto simp: is_digit_def)
  next
    case False
    then obtain d ds where d: "dec_text (n div 10) = d # ds" "is_digit d" "\<forall>c \<in> set ds. is_digit c"
      "d = CHR ''0'' \<longrightarrow> n div 10 = 0 \<and> ds = []"
      using 1 by fastforce
    then show ?thesis
      using False by (subst dec_text.simps) (auto simp: is_digit_def)
  qed
qed

lemma scan_digits:
  assumes "\<forall>c \<in> set ds. is_digit c"
  shows "scan (Num_text Digits acc) fs (ds @ rest) = scan (Num_text Digits (rev ds @ acc)) fs rest"
  using assms by (induction ds arbitrary: acc) auto

lemma is_digit_not_special:
  "is_digit c \<Longrightarrow> \<not> json_space c \<and> c \<noteq> CHR ''{'' \<and> c \<noteq> CHR ''['' \<and> c \<noteq> CHR 0x22 \<and> c \<noteq> CHR ''-''"
  by (auto simp: is_digit_def digit_value_def json_space_def Let_def split: if_splits)

lemma separators_not_digits:
  "\<not> is_digit (CHR '','')" "\<not> is_digit (CHR ''}'')"
  by code_simp+

lemma scan_number_end:
  assumes "fs \<noteq> []" "c = CHR '','' \<or> c = CHR ''}''" "st \<in> {Zero, Digits}"
  shows "scan (Num_text st acc) fs (c # cs) = scan (After_value (JNum (rev acc)) (c # cs)) fs (c # cs)"
  using assms separators_not_digits by auto

lemma value_text_number:
  assumes "in_int64 i"
  shows "value_text n (FormatInt i) (JNum (FormatInt i))"
  unfolding value_text_def
proof (intro allI impI)
  fix fs :: "container list" and c cs
  assume fs: "fs \<noteq> []" and c: "c = CHR '','' \<or> c = CHR ''}''"
  let ?fs = "\<lambda>t. mark_start (t @ c # cs) fs"
  have digits: "scan m fs' ((d # ds) @ c # cs) =
      scan (After_value (JNum (pre @ d # ds)) (c # cs)) fs' (c # cs)"
    if "dec_text k = d # ds" "0 \<le> k" "fs' \<noteq> []"
      "scan m fs' ((d # ds) @ c # cs) = scan (Num_text (if d = CHR ''0'' then Zero else Digits) (d # rev pre)) fs' (ds @ c # cs)"
    for m fs' k d ds pre
  proof -
    from dec_text_shape [OF that(2)] that(1) have ds: "is_digit d" "\<forall>x \<in> set ds. is_digit x"
      "d = CHR ''0'' \<longrightarrow> ds = []" by auto
    show ?thesis
    proof (cases "d = CHR ''0''")
      case True
      with ds that(4) scan_number_end [OF that(3) c, of Zero] show ?thesis by simp
    next
      case False
      with that(4) scan_digits [OF ds(2)] scan_number_end [OF that(3) c, of Digits] show ?thesis by simp
    qed
  qed
  show "scan Begin_value fs (FormatInt i @ c # cs) =
      scan (After_value (JNum (FormatInt i)) (c # cs)) (?fs (FormatInt i)) (c # cs)"
  proof (cases "i < 0")
    case False
    then obtain d ds where d: "dec_text i = d # ds" "is_digit d" using dec_text_shape [of i] by auto
    have "scan Begin_value fs ((d # ds) @ c # cs) =
        scan (Num_text (if d = CHR ''0'' then Zero else Digits) (d # rev [])) (?fs (d # ds)) (ds @ c # cs)"
      using is_digit_not_special [OF d(2)] d(2) by (simp add: begin_value_def Let_def)
    then have "scan Begin_value (?fs (d # ds)) ((d # ds) @ c # cs) =
        scan (Num_text (if d = CHR ''0'' then Zero else Digits) (d # rev [])) (?fs (d # ds)) (ds @ c # cs)"
      using is_digit_not_special [OF d(2)] d(2)
      by (cases "(((d # ds) @ c # cs), fs)" rule: mark_start.cases) (simp_all add: begin_value_def Let_def)
    from digits [OF d(1) _ _ this] False fs have
      "scan Begin_value (?fs (d # ds)) ((d # ds) @ c # cs) =
         scan (After_value (JNum (d # ds)) (c # cs)) (?fs (d # ds)) (c # cs)" by simp
    moreover have "scan Begin_value (?fs (d # ds)) ((d # ds) @ c # cs) = scan Begin_value fs ((d # ds) @ c # cs)"
      using is_digit_not_special [OF d(2)]
      by (cases "(((d # ds) @ c # cs), fs)" rule: mark_start.cases) (simp_all add: begin_value_def Let_def)
    ultimately show ?thesis using False d by (simp add: FormatInt_def)
  next
    case True
    then obtain d ds where d: "dec_text (- i) = d # ds" "is_digit d" using dec_text_shape [of "- i"] by auto
    let ?t = "CHR ''-'' # d # ds"
    have start: "scan Begin_value fs (?t @ c # cs) = scan (Num_text Neg [CHR ''-'']) (?fs ?t) ((d # ds) @ c # cs)"
      by (simp add: begin_value_def Let_def json_space_def)
    have "scan (Num_text Neg [CHR ''-'']) (?fs ?t) ((d # ds) @ c # cs) =
        scan (Num_text (if d = CHR ''0'' then Zero else Digits) (d # rev ''-'')) (?fs ?t) (ds @ c # cs)"
      using d(2) by simp
    from digits [OF d(1) _ _ this] True fs start show ?thesis by (simp add: FormatInt_def d)
  qed
qed

section \<open>Objects\<close>

definition finish_value :: "json \<Rightarrow> container list \<Rightarrow> string \<Rightarrow> scanned" where
  "finish_value v fs rest = (if fs = [] then Parsed v rest else scan (After_value v rest) fs rest)"

definition parsed_members :: "(string \<times> string) list \<Rightarrow> json list \<Rightarrow> (string \<times> json \<times> string) list" where
  "parsed_members ms vs = map (\<lambda>((k, t), v). (unquote (json_body k), v, t)) (zip ms vs)"

lemma scan_key:
  "scan Begin_key fs (json_string k @ rest) = scan (Want_colon (unquote (json_body k))) fs rest"
  "scan Begin_key_or_end fs (json_string k @ rest) = scan (Want_colon (unquote (json_body k))) fs rest"
  using scan_str_run(2) [OF str_run_json_body, of "[]" fs k "CHR 0x22 # rest"]
  by (simp_all add: json_string_def json_space_def)

text \<open>A member and the separator after it.\<close>

lemma scan_member:
  assumes v: "value_text n t v" and room: "length fs + Suc n \<le> maxNestingDepth" and c: "c = CHR '','' \<or> c = CHR ''}''"
  shows "scan (Want_colon k) (In_obj acc k0 st # fs) (CHR '':'' # t @ c # cs) =
    (case after_value v (c # cs) (In_obj acc k (t @ c # cs) # fs) c cs of
       Next m fs' \<Rightarrow> scan m fs' cs | Done w \<Rightarrow> Parsed w cs | Done_before w \<Rightarrow> Parsed w (c # cs)
     | Bad \<Rightarrow> Bad_at (c # cs))"
proof -
  have "scan Begin_value (In_obj acc k st # fs) (t @ c # cs) =
      scan (After_value v (c # cs)) (In_obj acc k (t @ c # cs) # fs) (c # cs)"
    using v [unfolded value_text_def, rule_format, of "In_obj acc k st # fs" c cs] room c
    by (simp del: scan.simps)
  then show ?thesis by (simp add: json_space_def)
qed

lemma scan_members:
  assumes "list_all2 (\<lambda>(k, t). value_text n t) ms vs" "ms \<noteq> []" "length fs + Suc n \<le> maxNestingDepth"
    "m0 = Begin_key \<or> m0 = Begin_key_or_end"
  shows "scan m0 (In_obj acc k0 st # fs) (json_members ms @ CHR ''}'' # rest) =
    finish_value (JObj (rev acc @ parsed_members ms vs)) fs rest"
  using assms
proof (induction ms arbitrary: vs acc k0 st m0 rule: json_members.induct)
  case (2 k t)
  then obtain v where vs: "vs = [v]" "value_text n t v" by (auto simp: list_all2_Cons1)
  have "scan m0 (In_obj acc k0 st # fs) (json_members [(k, t)] @ CHR ''}'' # rest) =
      scan (Want_colon (unquote (json_body k))) (In_obj acc k0 st # fs) (CHR '':'' # t @ CHR ''}'' # rest)"
    using 2(4) by (auto simp: scan_key)
  also have "\<dots> = finish_value (JObj (rev acc @ parsed_members [(k, t)] vs)) fs rest"
    unfolding scan_member [OF vs(2) 2(3) disjI2 [OF refl]]
    by (simp add: json_space_def Let_def close_def finish_value_def parsed_members_def vs)
  finally show ?case .
next
  case (3 k t m ms)
  then obtain v vs' where vs: "vs = v # vs'" "value_text n t v" "list_all2 (\<lambda>(k, t). value_text n t) (m # ms) vs'"
    by (auto simp: list_all2_Cons1)
  let ?tail = "json_members (m # ms) @ CHR ''}'' # rest"
  have "scan m0 (In_obj acc k0 st # fs) (json_members ((k, t) # m # ms) @ CHR ''}'' # rest) =
      scan (Want_colon (unquote (json_body k))) (In_obj acc k0 st # fs) (CHR '':'' # t @ CHR '','' # ?tail)"
    using 3(5) by (auto simp: scan_key)
  also have "\<dots> = scan Begin_key (In_obj ((unquote (json_body k), v, t) # acc) '''' '''' # fs) ?tail"
    unfolding scan_member [OF vs(2) 3(4) disjI1 [OF refl]]
    by (simp add: json_space_def Let_def)
  also have "\<dots> = finish_value (JObj (rev ((unquote (json_body k), v, t) # acc) @ parsed_members (m # ms) vs')) fs rest"
    using vs(3) 3(4) by (intro "3.IH") simp_all
  finally show ?case by (simp add: parsed_members_def vs)
qed simp

lemma scan_object:
  assumes "list_all2 (\<lambda>(k, t). value_text n t) ms vs" "ms \<noteq> []" "length fs + Suc n \<le> maxNestingDepth"
  shows "scan Begin_value fs (json_object ms @ rest) =
    finish_value (JObj (parsed_members ms vs)) (mark_start (json_object ms @ rest) fs) rest"
proof -
  have "scan Begin_value fs (json_object ms @ rest) =
      scan Begin_key_or_end (In_obj [] '''' '''' # mark_start (json_object ms @ rest) fs)
        (json_members ms @ CHR ''}'' # rest)"
    using assms(3)
    by (simp add: json_object_def json_space_def begin_value_def open_container_def Let_def)
  also have "\<dots> = finish_value (JObj (rev [] @ parsed_members ms vs)) (mark_start (json_object ms @ rest) fs) rest"
    using assms by (intro scan_members) simp_all
  finally show ?thesis by simp
qed

lemma value_text_object:
  assumes "list_all2 (\<lambda>(k, t). value_text n t) ms vs" "ms \<noteq> []"
  shows "value_text (Suc n) (json_object ms) (JObj (parsed_members ms vs))"
  unfolding value_text_def using scan_object [OF assms] by (simp add: finish_value_def)

lemma json_value_object:
  assumes "list_all2 (\<lambda>(k, t). value_text n t) ms vs" "ms \<noteq> []" "Suc n \<le> maxNestingDepth"
  shows "json_value (json_object ms) = Some (JObj (parsed_members ms vs))"
  using scan_object [OF assms(1,2), of "[]" "[]"] assms(3)
  by (simp add: json_value_def finish_value_def)

section \<open>Compact texts\<close>

text \<open>A text that compacting copies, and after which the scan is outside a string again.\<close>

definition compact_text :: "string \<Rightarrow> bool" where
  "compact_text t \<longleftrightarrow> (\<forall>rest. compact False False (t @ rest) = t @ compact False False rest)"

lemma compact_text_append: "compact_text s \<Longrightarrow> compact_text t \<Longrightarrow> compact_text (s @ t)"
  by (simp add: compact_text_def)

definition plain_char :: "char \<Rightarrow> bool" where
  "plain_char c \<longleftrightarrow> \<not> json_space c \<and> c \<noteq> CHR 0x22 \<and> html_escape c = [c]"

lemma compact_text_plain: "\<forall>c \<in> set t. plain_char c \<Longrightarrow> compact_text t"
  by (induction t) (simp_all add: compact_text_def plain_char_def)

lemma plain_digit: "is_digit c \<Longrightarrow> plain_char c"
  by (auto simp: plain_char_def html_escape_def is_digit_def digit_value_def json_space_def Let_def split: if_splits)

lemma plain_punctuation: "plain_char (CHR ''{'')" "plain_char (CHR ''}'')" "plain_char (CHR '':'')"
  "plain_char (CHR '','')" "plain_char (CHR ''-'')"
  by code_simp+

lemma compact_text_FormatInt: "compact_text (FormatInt i)"
proof -
  have "\<forall>c \<in> set (dec_text n). plain_char c" if "0 \<le> n" for n
    using dec_text_shape [OF that] plain_digit by auto
  from this [of i] this [of "- i"] show ?thesis
    by (intro compact_text_plain) (auto simp: FormatInt_def plain_punctuation)
qed

text \<open>Inside a string.\<close>

definition copied :: "string \<Rightarrow> bool" where
  "copied t \<longleftrightarrow> (\<forall>rest. compact True False (t @ rest) = t @ compact True False rest)"

lemma copied_append: "copied s \<Longrightarrow> copied t \<Longrightarrow> copied (s @ t)"
  by (simp add: copied_def)

lemma copied_Nil [simp]: "copied []"
  by (simp add: copied_def)

definition inner_char :: "char \<Rightarrow> bool" where
  "inner_char c \<longleftrightarrow> c \<noteq> CHR 0x22 \<and> c \<noteq> CHR 0x5C \<and> c \<noteq> CHR 0xE2 \<and> html_escape c = [c]"

lemma copied_inner: "inner_char c \<Longrightarrow> copied [c]"
  by (auto simp: copied_def inner_char_def)

lemma copied_escape: "c \<noteq> CHR 0xE2 \<Longrightarrow> html_escape c = [c] \<Longrightarrow> copied [CHR 0x5C, c]"
  by (auto simp: copied_def html_escape_def)

lemma copied_u_escape:
  assumes "\<forall>c \<in> set ds. inner_char c"
  shows "copied (u_escape ds)"
proof -
  have "copied ds" using assms
  proof (induction ds)
    case (Cons d ds)
    then have "copied ([d] @ ds)" by (intro copied_append copied_inner) auto
    then show ?case by simp
  qed simp
  moreover have "copied [CHR 0x5C, CHR ''u'']" by (rule copied_escape) (simp_all add: html_escape_def)
  ultimately have "copied ([CHR 0x5C, CHR ''u''] @ ds)" by (rule copied_append [rotated])
  then show ?thesis by (simp add: u_escape_def)
qed

lemma inner_hex: "0 \<le> d \<Longrightarrow> d < 16 \<Longrightarrow> inner_char (hex_char d)"
  by (auto simp: inner_char_def hex_char_def html_escape_def of_char_of dest!: arg_cong [of _ _ "of_char :: char \<Rightarrow> int"])

lemma copied_ascii:
  assumes "(of_char c :: int) < 128"
  shows "copied (json_ascii c)"
proof -
  let ?n = "of_char c :: int"
  have n: "0 \<le> ?n" by (metis of_nat_0_le_iff of_nat_of_char)
  have hex: "inner_char (hex_char (?n div 16))" "inner_char (hex_char (?n mod 16))"
    using assms n by (intro inner_hex; simp)+
  have zero: "inner_char (CHR ''0'')" by code_simp
  have u: "copied (u_escape [CHR ''0'', CHR ''0'', hex_char (?n div 16), hex_char (?n mod 16)])"
    using hex zero by (intro copied_u_escape) simp
  have esc: "copied [CHR 0x5C, CHR ''b'']" "copied [CHR 0x5C, CHR ''t'']" "copied [CHR 0x5C, CHR ''n'']"
    "copied [CHR 0x5C, CHR ''f'']" "copied [CHR 0x5C, CHR ''r'']" "copied [CHR 0x5C, CHR 0x22]"
    "copied [CHR 0x5C, CHR 0x5C]"
    by (rule copied_escape; simp add: html_escape_def)+
  have "c \<noteq> CHR 0xE2" using assms by auto
  then have "c \<noteq> CHR 0x22 \<Longrightarrow> c \<noteq> CHR 0x5C \<Longrightarrow> c \<noteq> CHR 0x3C \<Longrightarrow> c \<noteq> CHR 0x3E \<Longrightarrow> c \<noteq> CHR 0x26 \<Longrightarrow> copied [c]"
    by (intro copied_inner) (simp add: inner_char_def html_escape_def)
  with u esc show ?thesis by (auto simp: json_ascii_def Let_def)
qed

lemma inner_high: "128 \<le> (of_char b :: int) \<Longrightarrow> b \<noteq> CHR 0xE2 \<Longrightarrow> inner_char b"
  by (auto simp: inner_char_def html_escape_def)

lemma copied_high: "\<forall>b \<in> set t. 128 \<le> (of_char b :: int) \<and> b \<noteq> CHR 0xE2 \<Longrightarrow> copied t"
proof (induction t)
  case (Cons b t)
  then have "copied ([b] @ t)" by (intro copied_append copied_inner inner_high) auto
  then show ?case by simp
qed simp

lemma cont_byte_not_E2: "cont_byte b \<Longrightarrow> b \<noteq> CHR 0xE2"
  by (auto simp: cont_byte_def)

lemma copied_rune:
  assumes w: "utf8_width (c # cs) = Some w" and high: "128 \<le> (of_char c :: int)"
    and plain: "c # take (w - 1) cs \<noteq> [CHR 0xE2, CHR 0x80, CHR 0xA8]"
      "c # take (w - 1) cs \<noteq> [CHR 0xE2, CHR 0x80, CHR 0xA9]"
  shows "copied (c # take (w - 1) cs)"
proof -
  have cont: "\<forall>b \<in> set (take (w - 1) cs). 128 \<le> (of_char b :: int) \<and> b \<noteq> CHR 0xE2"
    using utf8_width_high [OF w high] cont_byte_high cont_byte_not_E2 by blast
  show ?thesis
  proof (cases "c = CHR 0xE2")
    case False
    with cont high show ?thesis by (intro copied_high) auto
  next
    case True
    then obtain a b ds where cs: "cs = a # b # ds" and "w = 3"
      using w by (auto simp: Let_def split: list.splits if_splits)
    then have t: "take (w - 1) cs = [a, b]" by simp
    have "copied [a, b]" using cont unfolding t by (intro copied_high) auto
    then show ?thesis
      using plain unfolding t True by (auto simp: copied_def html_escape_def)
  qed
qed

lemma copied_json_body: "copied (json_body s)"
proof (induction s rule: json_body.induct)
  case (2 c cs)
  have hexes: "\<forall>x \<in> set ''fffd''. inner_char x" "\<forall>x \<in> set ''2028''. inner_char x"
    "\<forall>x \<in> set ''2029''. inner_char x" by code_simp+
  note us = hexes [THEN copied_u_escape]
  show ?case
  proof (cases "(of_char c :: int) < 128")
    case True
    with 2 show ?thesis by (simp add: copied_append copied_ascii)
  next
    case high: False
    show ?thesis
    proof (cases "utf8_width (c # cs)")
      case None
      with high 2 us show ?thesis by (simp add: copied_append)
    next
      case (Some w)
      have "copied (json_body (drop (w - 1) cs))" using 2 high Some by simp
      then have "copied (u_escape ''2028'' @ json_body (drop (w - 1) cs))"
        "copied (u_escape ''2029'' @ json_body (drop (w - 1) cs))"
        "c # take (w - 1) cs \<noteq> [CHR 0xE2, CHR 0x80, CHR 0xA8] \<Longrightarrow>
         c # take (w - 1) cs \<noteq> [CHR 0xE2, CHR 0x80, CHR 0xA9] \<Longrightarrow>
         copied ((c # take (w - 1) cs) @ json_body (drop (w - 1) cs))"
        using us copied_rune [OF Some] high by (auto intro!: copied_append simp del: append_Cons)
      with high Some show ?thesis by (simp add: Let_def)
    qed
  qed
qed simp

lemma compact_text_string: "compact_text (json_string s)"
  using copied_json_body [of s]
  by (simp add: compact_text_def copied_def json_string_def html_escape_def json_space_def)

lemma compact_text_members:
  "\<forall>(k, t) \<in> set ms. compact_text t \<Longrightarrow> compact_text (json_members ms)"
proof (induction ms rule: json_members.induct)
  case 1
  show ?case by (simp add: compact_text_def)
next
  case (2 k t)
  have "compact_text '':''" by (rule compact_text_plain) (simp add: plain_punctuation)
  with 2 compact_text_string have "compact_text (json_string k @ '':'' @ t)"
    by (intro compact_text_append) auto
  then show ?case by simp
next
  case (3 k t m ms)
  have "compact_text '':''" "compact_text '',''"
    by (rule compact_text_plain, simp add: plain_punctuation)+
  with 3 compact_text_string have "compact_text (json_string k @ '':'' @ t @ '','' @ json_members (m # ms))"
    by (intro compact_text_append) auto
  then show ?case by simp
qed

lemma compact_text_object:
  assumes "\<forall>(k, t) \<in> set ms. compact_text t"
  shows "compact_text (json_object ms)"
proof -
  have "compact_text ''{''" "compact_text ''}''"
    by (rule compact_text_plain, simp add: plain_punctuation)+
  with compact_text_members [OF assms] show ?thesis
    unfolding json_object_def by (intro compact_text_append) auto
qed

lemma compact_text_fixed: "compact_text t \<Longrightarrow> compact False False t = t"
  unfolding compact_text_def by (metis append_Nil2 compact.simps(1))

section \<open>Envelopes\<close>

lemma key_texts:
  "unquote (json_body ''account_id'') = ''account_id''" "unquote (json_body ''message'') = ''message''"
  by code_simp+

declare json_body.simps [simp del] unquote.simps [simp del] scan.simps [simp del]

lemma envelope_members:
  "parsed_members [(''account_id'', x), (''message'', y)] [u, v] =
     [(''account_id'', u, x), (''message'', v, y)]"
  by (simp add: parsed_members_def key_texts)

lemma decode_envelope_members:
  assumes "in_int64 a"
  shows "decode_struct False [''account_id'', ''message''] set_envelope_field
      (JObj [(''account_id'', JNum (FormatInt a), x), (''message'', v, msg)]) r =
    Inr (r\<lparr>en_AccountID := a, en_Message := msg\<rparr>)"
  using assms
  by (simp add: decode_struct_def field_named_def set_envelope_field_def set_int_def ParseInt_FormatInt)

text \<open>A message that is a compact object crosses the channel unchanged.\<close>

lemma envelope_round_trip:
  assumes a: "in_int64 a" and msg: "value_text 1 msg v" "compact_text msg" "json_value msg \<noteq> None"
  obtains d where "marshal_envelope \<lparr>en_AccountID = a, en_Message = msg\<rparr> = Inr d"
    "unmarshal_envelope d = Inr \<lparr>en_AccountID = a, en_Message = msg\<rparr>"
proof
  let ?ms = "[(''account_id'', FormatInt a), (''message'', msg)]"
  have ne: "msg \<noteq> []" using msg(3) by (auto simp: json_value_def scan.simps)
  then show "marshal_envelope \<lparr>en_AccountID = a, en_Message = msg\<rparr> = Inr (json_object ?ms)"
    using msg by (simp add: marshal_envelope_def marshal_raw_def compact_text_fixed)
  have "list_all2 (\<lambda>(k, t). value_text 1 t) ?ms [JNum (FormatInt a), v]"
    using value_text_number [OF a] msg(1) by simp
  then have "json_value (json_object ?ms) = Some (JObj (parsed_members ?ms [JNum (FormatInt a), v]))"
    by (rule json_value_object) (simp_all add: maxNestingDepth_def)
  then show "unmarshal_envelope (json_object ?ms) = Inr \<lparr>en_AccountID = a, en_Message = msg\<rparr>"
    by (simp add: unmarshal_envelope_def envelope_members decode_envelope_members [OF a] of_decode_def)
qed

section \<open>Notifications\<close>

definition entry_in_range :: "entry_posted \<Rightarrow> bool" where
  "entry_in_range e \<longleftrightarrow>
     in_int64 (ev_AccountID e) \<and> in_int64 (ev_TransactionID e) \<and> in_int64 (ev_Amount e) \<and>
     in_int64 (ev_CounterpartyID e) \<and> (\<forall>i. ev_ReversalOf e = Some i \<longrightarrow> in_int64 i)"

definition entry_values :: "entry_posted \<Rightarrow> string \<Rightarrow> json list" where
  "entry_values e occurred =
     [JNum (FormatInt (ev_AccountID e)), JNum (FormatInt (ev_TransactionID e)),
      JStr (unquote (json_body (ev_TransactionType e))), JNum (FormatInt (ev_Amount e)),
      JStr (unquote (json_body (ev_Currency e))), JNum (FormatInt (ev_CounterpartyID e))]
     @ (case ev_ReversalOf e of None \<Rightarrow> [] | Some i \<Rightarrow> [JNum (FormatInt i)])
     @ [JStr (unquote (json_body occurred))]"

lemma entry_members_values:
  "entry_in_range e \<Longrightarrow> list_all2 (\<lambda>(k, t). value_text n t) (entry_members e t) (entry_values e t)"
  by (auto simp: entry_members_def entry_values_def entry_in_range_def value_text_number value_text_string
      split: option.splits)

lemma entry_members_compact: "\<forall>(k, x) \<in> set (entry_members e t). compact_text x"
  by (auto simp: entry_members_def compact_text_FormatInt compact_text_string split: option.splits)

lemma notification_crosses:
  assumes "marshal_notification n = Inr msg" "entry_in_range (n_EntryPosted n)" "in_int64 a"
  obtains d where "marshal_envelope \<lparr>en_AccountID = a, en_Message = msg\<rparr> = Inr d"
    "unmarshal_envelope d = Inr \<lparr>en_AccountID = a, en_Message = msg\<rparr>"
proof -
  let ?e = "n_EntryPosted n"
  from assms(1) obtain t where
    msg: "msg = json_object ((''event_id'', json_string (n_EventID n)) # entry_members ?e t)"
    by (auto simp: marshal_notification_def split: sum.splits)
  have vals: "list_all2 (\<lambda>(k, t). value_text 0 t) ((''event_id'', json_string (n_EventID n)) # entry_members ?e t)
      (JStr (unquote (json_body (n_EventID n))) # entry_values ?e t)"
    using entry_members_values [OF assms(2)] value_text_string by simp
  have "value_text 1 msg (JObj (parsed_members ((''event_id'', json_string (n_EventID n)) # entry_members ?e t)
      (JStr (unquote (json_body (n_EventID n))) # entry_values ?e t)))"
    using value_text_object [OF vals] by (simp add: msg)
  moreover have "compact_text msg"
    unfolding msg using entry_members_compact compact_text_string by (intro compact_text_object) auto
  moreover have "json_value msg \<noteq> None"
    using json_value_object [OF vals] by (simp add: msg maxNestingDepth_def)
  ultimately show thesis using envelope_round_trip [OF assms(3)] that by blast
qed

section \<open>Events\<close>

definition ascii :: "string \<Rightarrow> bool" where
  "ascii s \<longleftrightarrow> (\<forall>c \<in> set s. (of_char c :: int) < 128)"

text \<open>The instant is one whose text reads back.\<close>

definition time_reads_back :: "time \<Rightarrow> bool" where
  "time_reads_back x =
     (case rfc3339 x of Inl _ \<Rightarrow> False | Inr t \<Rightarrow> json_body t = t \<and> parse_rfc3339 t = Some x)"

lemma hex_value_of_hex_char: "0 \<le> d \<Longrightarrow> d < 16 \<Longrightarrow> hex_value (hex_char d) = Some d"
  by (simp add: hex_value_def hex_char_def of_char_of Let_def)

lemma unquote_json_ascii:
  assumes "(of_char c :: int) < 128"
  shows "unquote (json_ascii c @ rest) = c # unquote rest"
proof -
  let ?n = "of_char c :: int"
  have n: "0 \<le> ?n" by (metis of_nat_0_le_iff of_nat_of_char)
  have hex: "hex4 (CHR ''0'' # CHR ''0'' # hex_char (?n div 16) # hex_char (?n mod 16) # rest) = Some ?n"
  proof -
    have "hex_value (hex_char (?n div 16)) = Some (?n div 16)" "hex_value (hex_char (?n mod 16)) = Some (?n mod 16)"
      using assms n by (intro hex_value_of_hex_char; simp)+
    moreover have "hex_value (CHR ''0'') = Some 0" by code_simp
    ultimately show ?thesis by simp
  qed
  have u: "unquote (u_escape [CHR ''0'', CHR ''0'', hex_char (?n div 16), hex_char (?n mod 16)] @ rest) = c # unquote rest"
    using hex assms n
    by (simp add: u_escape_def unquote.simps is_surrogate_def utf8_bytes_def)
  have same: "?n = k \<Longrightarrow> c = char_of k" for k by auto
  have codes: "char_of (8 :: int) = CHR 0x08" "char_of (9 :: int) = CHR 0x09" "char_of (10 :: int) = CHR 0x0A"
    "char_of (12 :: int) = CHR 0x0C" "char_of (13 :: int) = CHR 0x0D" by code_simp+
  show ?thesis
    using u assms
    by (auto simp: json_ascii_def Let_def unquote.simps simple_escape_def codes dest!: same)
qed

lemma unquote_json_body: "ascii s \<Longrightarrow> unquote (json_body s) = s"
  by (induction s rule: json_body.induct)
    (simp_all add: ascii_def json_body.simps unquote_json_ascii, simp add: unquote.simps)

lemma set_time_quoted:
  assumes "json_body t = t" "parse_rfc3339 t = Some x"
  shows "set_time (json_string t) old = Inr x"
  using assms by (simp add: set_time_def json_string_def)

lemma entry_keys: "map (\<lambda>k. unquote (json_body k)) entry_fields = entry_fields"
  by code_simp

lemma parsed_entry:
  "parsed_members (entry_members e t) (entry_values e t) =
     [(''account_id'', JNum (FormatInt (ev_AccountID e)), FormatInt (ev_AccountID e)),
      (''transaction_id'', JNum (FormatInt (ev_TransactionID e)), FormatInt (ev_TransactionID e)),
      (''transaction_type'', JStr (unquote (json_body (ev_TransactionType e))), json_string (ev_TransactionType e)),
      (''amount'', JNum (FormatInt (ev_Amount e)), FormatInt (ev_Amount e)),
      (''currency'', JStr (unquote (json_body (ev_Currency e))), json_string (ev_Currency e)),
      (''counterparty_id'', JNum (FormatInt (ev_CounterpartyID e)), FormatInt (ev_CounterpartyID e))]
     @ (case ev_ReversalOf e of None \<Rightarrow> []
        | Some i \<Rightarrow> [(''reversal_of'', JNum (FormatInt i), FormatInt i)])
     @ [(''occurred_at'', JStr (unquote (json_body t)), json_string t)]"
  using entry_keys
  by (simp add: parsed_members_def entry_members_def entry_values_def entry_fields_def split: option.splits)

lemma field_named_exact: "k \<in> set names \<Longrightarrow> field_named names k = Some k"
  by (simp add: field_named_def)

lemma decode_members_exact:
  "k \<in> set names \<Longrightarrow> set_field k v raw r = Inr r' \<Longrightarrow>
   decode_members strict names set_field ((k, v, raw) # ms) r = decode_members strict names set_field ms r'"
  by (simp add: field_named_exact)

lemma decode_entry:
  assumes "entry_in_range e" "ascii (ev_TransactionType e)" "ascii (ev_Currency e)"
    "json_body t = t" "parse_rfc3339 t = Some (ev_OccurredAt e)"
  shows "decode_struct False entry_fields set_entry_field
    (JObj (parsed_members (entry_members e t) (entry_values e t))) zero_entry = Inr e"
proof -
  note facts = assms(2,3) [THEN unquote_json_body] set_time_quoted [OF assms(4,5)]
  have mem: "\<And>k. k \<in> set entry_fields \<longleftrightarrow> k \<in> {''account_id'', ''transaction_id'', ''transaction_type'', ''amount'',
      ''currency'', ''counterparty_id'', ''reversal_of'', ''occurred_at''}"
    by (simp add: entry_fields_def)
  show ?thesis
  proof (cases "ev_ReversalOf e")
    case None
    then show ?thesis
      using assms(1) facts unfolding parsed_entry decode_struct_def
      by (simp add: decode_members_exact mem set_entry_field_def set_int_def set_text_def
          ParseInt_FormatInt entry_in_range_def zero_entry_def del: decode_members.simps(2))
  next
    case (Some i)
    then show ?thesis
      using assms(1) facts unfolding parsed_entry decode_struct_def
      by (simp add: decode_members_exact mem set_entry_field_def set_int_def set_int_option_def set_text_def
          ParseInt_FormatInt entry_in_range_def zero_entry_def del: decode_members.simps(2))
  qed
qed

lemma unmarshal_marshal_entry:
  assumes "marshal_entry e = Inr js" "entry_in_range e" "ascii (ev_TransactionType e)" "ascii (ev_Currency e)"
    "time_reads_back (ev_OccurredAt e)"
  shows "unmarshal_entry js = Inr e"
proof -
  obtain t where t: "rfc3339 (ev_OccurredAt e) = Inr t" "json_body t = t" "parse_rfc3339 t = Some (ev_OccurredAt e)"
    using assms(5) by (auto simp: time_reads_back_def split: sum.splits)
  have js: "js = json_object (entry_members e t)" using assms(1) t(1) by (simp add: marshal_entry_def)
  have "json_value js = Some (JObj (parsed_members (entry_members e t) (entry_values e t)))"
    unfolding js using entry_members_values [OF assms(2), of 0 t]
    by (intro json_value_object) (auto simp: entry_members_def maxNestingDepth_def)
  with decode_entry [OF assms(2-4) t(2,3)] show ?thesis
    by (simp add: unmarshal_entry_def of_decode_def)
qed

end
