(* ===== verification/Notification_Properties.thy ===== *)
theory Notification_Properties
  imports Notification_Facts Consumer Hub_Properties Json_Facts
begin

text \<open>
  The properties of the notification pipeline: from the Kafka record to the hub of every copy of the
  service.
\<close>

section \<open>Samples\<close>

definition empty_redis :: mem_redis where
  "empty_redis = \<lparr>mr_store = (\<lambda>_. None), mr_clock = 0, mr_channel = []\<rparr>"

abbreviation mem_handle :: "mem_redis wait_round list \<Rightarrow> string \<Rightarrow> string \<Rightarrow> mem_redis \<times> note_metrics \<Rightarrow>
    handled \<times> mem_redis \<times> note_metrics" where
  "mem_handle \<equiv> Handle (Claim mem_setnx mem_get) (Done_redis mem_set) (Publish_redis mem_pub)"

definition one_second :: "mem_redis wait_round" where
  "one_second = \<lparr>interrupted = None, meanwhile = (\<lambda>w. w\<lparr>mr_clock := mr_clock w + 1\<rparr>)\<rparr>"

text \<open>Another copy has just reserved event 7.\<close>

definition reserved_redis :: mem_redis where
  "reserved_redis = snd (Claim mem_setnx mem_get ''7'' empty_redis)"

section \<open>Settling an event\<close>

text \<open>
  C33: When \<open>Handle\<close> returns nil for an event with an id, over any Redis that keeps its documented
  behaviour and whatever other copies did while it waited, its claims ended in exactly one of three
  ways: the event was done already and nothing was published (counted as a duplicate); the event was
  claimed, its payload could not be read, nothing was published and it has been marked done, so that
  its record is finished for the next 24 hours (counted as malformed); or the event was claimed,
  exactly one message was published, the envelope of its notification for its account, and then the
  event was marked (counted as published): unless Redis reported an error, its record is finished too.
\<close>

theorem handled_events_are_settled:
  assumes "redis_service setnx get set_value store clock pub channel"
    "Handle (Claim setnx get) (Done_redis set_value) (Publish_redis pub) rs e payload (w, m) =
       (Returned None, w', m')" "e \<noteq> ''''"
  shows "\<exists>w0 r w1. claim_loop (Claim setnx get) e rs w = (if r = ClaimDone then Already_done else Got_it, w1) \<and>
    Claim setnx get e w0 = ((r, None), w1) \<and>
    (r = ClaimDone \<and> w' = w1 \<and> m' = m\<lparr>nm_duplicate := nm_duplicate m + 1\<rparr> \<or>
     r = ClaimAcquired \<and> (\<exists>x. unmarshal_entry payload = Inl x) \<and> channel w' = channel w1 \<and>
       Done_redis set_value e w1 = (None, w') \<and>
       (\<exists>c \<ge> clock w1. redis_record store w' e = Some (Finished (c + doneTTL))) \<and>
       m' = m\<lparr>nm_malformed := nm_malformed m + 1\<rparr> \<or>
     r = ClaimAcquired \<and> (\<exists>entry msg d w2 y. unmarshal_entry payload = Inr entry \<and>
       marshal_notification \<lparr>n_EventID = e, n_EntryPosted = entry\<rparr> = Inr msg \<and>
       marshal_envelope \<lparr>en_AccountID = ev_AccountID entry, en_Message = msg\<rparr> = Inr d \<and>
       Publish_redis pub (ev_AccountID entry) msg w1 = (None, w2) \<and> Done_redis set_value e w2 = (y, w') \<and>
       (y = None \<longrightarrow> (\<exists>c \<ge> clock w1. redis_record store w' e = Some (Finished (c + doneTTL)))) \<and>
       channel w' = channel w1 @ [d] \<and> m' = m\<lparr>nm_published := nm_published m + 1\<rparr>))"
proof -
  note con = redis_service.notifier_contract [OF assms(1)]
  note ded = notifier.axioms(1) [OF con]
  from notifier.Handle_nil [OF con assms(2,3)] obtain w0 r w1
    where c: "claim_loop (Claim setnx get) e rs w = (if r = ClaimDone then Already_done else Got_it, w1)" "Claim setnx get e w0 = ((r, None), w1)"
      and f: "finished_by (Done_redis set_value) (Publish_redis pub) packed_envelope channel e payload w1 r w' m m'"
    by blast
  from f consider "r = ClaimDone" "w' = w1" "m' = m\<lparr>nm_duplicate := nm_duplicate m + 1\<rparr>"
    | x where "r = ClaimAcquired" "unmarshal_entry payload = Inl x" "Done_redis set_value e w1 = (None, w')"
      "m' = m\<lparr>nm_malformed := nm_malformed m + 1\<rparr>"
    | entry msg d w2 y where "r = ClaimAcquired" "unmarshal_entry payload = Inr entry"
      "marshal_notification \<lparr>n_EventID = e, n_EntryPosted = entry\<rparr> = Inr msg"
      "packed_envelope (ev_AccountID entry) msg = Inr d"
      "Publish_redis pub (ev_AccountID entry) msg w1 = (None, w2)" "Done_redis set_value e w2 = (y, w')"
      "channel w' = channel w1 @ [d]" "m' = m\<lparr>nm_published := nm_published m + 1\<rparr>"
    unfolding finished_by_def by blast
  then show ?thesis
  proof cases
    case 1
    with c show ?thesis by blast
  next
    case (2 x)
    then have "channel w' = channel w1" by (intro notifier.mark_log [OF con])
    moreover have "\<exists>c \<ge> clock w1. redis_record store w' e = Some (Finished (c + doneTTL))"
      using deduper.done_stored [OF ded 2(3)] by auto
    ultimately show ?thesis using 2 c by blast
  next
    case (3 entry msg d w2 y)
    have "clock w1 \<le> clock w2" using notifier.publish_frame [OF con 3(5)] by simp
    then have "y = None \<longrightarrow> (\<exists>c \<ge> clock w1. redis_record store w' e = Some (Finished (c + doneTTL)))"
      using deduper.done_stored [OF ded, of e w2 w'] 3(6) by fastforce
    with 3 c show ?thesis unfolding packed_envelope_def by blast
  qed
qed

theorem handled_events_are_settled_witness:
  "\<exists>w' m'. mem_handle [] ''7'' ''{'' (empty_redis, no_notes) = (Returned None, w', m') \<and>
     mr_channel w' = [] \<and> nm_malformed m' = 1 \<and> (\<exists>t \<ge> doneTTL. redis_record mr_store w' ''7'' = Some (Finished t))"
proof -
  obtain out w' m' where run: "mem_handle [] ''7'' ''{'' (empty_redis, no_notes) = (out, w', m')"
    by (metis prod_cases3)
  have "case mem_handle [] ''7'' ''{'' (empty_redis, no_notes) of (out, w', m') \<Rightarrow> out = Returned None \<and>
      mr_channel w' = [] \<and> nm_malformed m' = 1 \<and> nm_duplicate m' = 0 \<and> nm_published m' = 0" by code_simp
  with run have out: "out = Returned None" "mr_channel w' = []" "nm_malformed m' = 1" "nm_duplicate m' = 0"
    "nm_published m' = 0" by simp_all
  have later: "0 \<le> mr_clock w1" if "claim_loop (Claim mem_setnx mem_get) ''7'' [] empty_redis = (x, w1)" for x w1
    using that
    by (simp add: claim_loop.simps Claim_def mem_setnx_def mem_set_def empty_redis_def live_at_def split: if_splits) auto
  from handled_events_are_settled [OF mem.redis_service_axioms run [unfolded out(1)]]
  obtain w1 where w1: "\<exists>x. claim_loop (Claim mem_setnx mem_get) ''7'' [] empty_redis = (x, w1)"
    "\<exists>c \<ge> mr_clock w1. redis_record mr_store w' ''7'' = Some (Finished (c + doneTTL))"
    using out(3-5) by (auto simp: no_notes_def)
  then obtain c where "mr_clock w1 \<le> c" "redis_record mr_store w' ''7'' = Some (Finished (c + doneTTL))" by blast
  with later w1(1) have "\<exists>t \<ge> doneTTL. redis_record mr_store w' ''7'' = Some (Finished t)" by fastforce
  with run out show ?thesis by blast
qed

section \<open>Once per event\<close>

text \<open>
  C34: At most once, but for failed marks: however many copies of the service handle one event, each by
  the steps of \<open>Handle\<close> (claims, publish, mark, with the payload that cannot be read and every error
  path), in every interleaving, called again whenever they have returned, over any Redis that keeps
  its documented behaviour (commands that fail with or without effect, reservations that expire), the
  acknowledged publishes of the event are at most one more than the marks that reported an error after
  a publish; so there is at most one when no mark failed. This is under two conditions on time: from
  the acknowledgement of its publish until it has tried to mark the event a copy stays within the lease
  of its reservation, and all of it happens within the 24 hours of the deduplication window.
\<close>

theorem published_at_most_once:
  assumes "redis_service setnx get set_value store clock pub chan"
    "crew_reachable (Claim setnx get) (Done_redis set_value) (Publish_redis pub) (redis_record store) clock
       e payload w0 s"
  shows "nm_published (cr_metrics s) \<le> 1 + int (cr_unmarked s)"
  using notifier.crew_publishes_once [OF redis_service.notifier_contract [OF assms(1)] assms(2)] .

definition holding_redis :: mem_redis where
  "holding_redis = \<lparr>mr_store = (\<lambda>_. None)(dedupKey ''7'' \<mapsto> (stateProcessing, 30)), mr_clock = 0, mr_channel = []\<rparr>"

lemma sample_claim: "Claim mem_setnx mem_get ''7'' empty_redis = ((ClaimAcquired, None), holding_redis)"
  by (simp add: Claim_def mem_setnx_def mem_set_def empty_redis_def live_at_def holding_redis_def leaseTTL_def)

text \<open>One copy publishes event 7 and marks it, then a second one finds it done.\<close>

abbreviation mem_work :: "nat \<Rightarrow> mem_redis crew \<Rightarrow> mem_redis crew" where
  "mem_work p \<equiv> crew_work (Claim mem_setnx mem_get) (Done_redis mem_set) (Publish_redis mem_pub)
     (redis_record mr_store) ''7'' ''{}'' p None"

definition seen :: "mem_redis crew \<Rightarrow> stage list \<times> int list \<times> int \<times> int \<times> nat" where
  "seen s = (map (cr_stage s) [0, 1], map (cr_lease s) [0, 1], mr_clock (cr_world s), nm_published (cr_metrics s),
     cr_unmarked s)"

lemma sample_crew:
  "seen (mem_work 0 (assembled empty_redis)) = ([Claimed, Claiming], [30, 0], 0, 0, 0)"
  "seen (mem_work 0 (mem_work 0 (assembled empty_redis))) = ([Published, Claiming], [30, 0], 0, 1, 0)"
  "seen (mem_work 0 (mem_work 0 (mem_work 0 (assembled empty_redis)))) = ([Return None, Claiming], [30, 0], 0, 1, 0)"
  "seen (mem_work 1 (mem_work 0 (mem_work 0 (mem_work 0 (assembled empty_redis))))) =
     ([Return None, Return None], [30, 0], 0, 1, 0)"
  by code_simp+

theorem published_at_most_once_witness:
  "\<exists>s. crew_reachable (Claim mem_setnx mem_get) (Done_redis mem_set) (Publish_redis mem_pub)
      (redis_record mr_store) mr_clock ''7'' ''{}'' empty_redis s \<and>
     cr_stage s 0 = Return None \<and> cr_stage s 1 = Return None \<and> nm_published (cr_metrics s) = 1 \<and>
     nm_published (cr_metrics s) \<le> 1 + int (cr_unmarked s)"
proof -
  let ?reach = "crew_reachable (Claim mem_setnx mem_get) (Done_redis mem_set) (Publish_redis mem_pub)
      (redis_record mr_store) mr_clock ''7'' ''{}'' empty_redis"
  let ?s0 = "assembled empty_redis"
  have other: "cr_stage (mem_work p s) q = cr_stage s q" if "p \<noteq> q" for p q s
    using that by (simp add: crew_work_def split: prod.split)
  have idle: "cr_stage ?s0 q = Claiming" for q by (simp add: assembled_def)
  have zero: "mr_clock empty_redis = 0" by (simp add: empty_redis_def)
  have next_step: "?reach (mem_work p s)"
    if "?reach s" "seen (mem_work p s) = (st, [30, 0], 0, n, u)" "st ! 1 \<noteq> Published" "length st = 2"
      "\<And>q. 1 < q \<Longrightarrow> cr_stage (mem_work p s) q = Claiming" for p s st n u
  proof (rule crew_reachable.works [OF that(1) crew_step.work])
    have "cr_stage (mem_work p s) 1 \<noteq> Published" "cr_lease (mem_work p s) 0 = 30" "mr_clock (cr_world (mem_work p s)) = 0"
      using that(2,3) by (auto simp: seen_def)
    moreover have "q = 0 \<or> q = 1 \<or> 1 < q" for q :: nat by linarith
    ultimately have "mr_clock (cr_world (mem_work p s)) < cr_lease (mem_work p s) q"
      if "cr_stage (mem_work p s) q = Published" for q
      using that \<open>\<And>q. 1 < q \<Longrightarrow> cr_stage (mem_work p s) q = Claiming\<close> by (metis stage.distinct(3) zero_less_numeral)
    then show "punctual mr_clock (mr_clock empty_redis + doneTTL) (mem_work p s)"
      using \<open>mr_clock (cr_world (mem_work p s)) = 0\<close> by (simp add: punctual_def zero doneTTL_def)
  qed
  have "?reach (mem_work 0 ?s0)"
    by (rule next_step [OF crew_reachable.starts sample_crew(1)]) (simp_all add: other idle)
  then have "?reach (mem_work 0 (mem_work 0 ?s0))"
    by (rule next_step [OF _ sample_crew(2)]) (simp_all add: other idle)
  then have "?reach (mem_work 0 (mem_work 0 (mem_work 0 ?s0)))"
    by (rule next_step [OF _ sample_crew(3)]) (simp_all add: other idle)
  then have r: "?reach (mem_work 1 (mem_work 0 (mem_work 0 (mem_work 0 ?s0))))"
    by (rule next_step [OF _ sample_crew(4)]) (simp_all add: other idle)
  from r sample_crew(4) published_at_most_once [OF mem.redis_service_axioms r] show ?thesis
    by (intro exI [of _ "mem_work 1 (mem_work 0 (mem_work 0 (mem_work 0 ?s0)))"]) (simp add: seen_def)
qed

section \<open>Reservations\<close>

text \<open>
  A copy that died between its claim and its publication delays an event, it does not lose it: if
  the event is reserved until \<open>t\<close> and nobody touches it, a claim loop that is granted one pause of at
  least a second for every second of the lease that is left, on a Redis that answers, ends with the
  event claimed.
\<close>

theorem abandoned_events_are_claimed:
  assumes "redis_service setnx get set_value store clock pub chan"
    "\<forall>k \<in> set rs. uneventful (redis_record store) clock k"
    "\<And>w x err w'. Claim setnx get e w = ((x, err), w') \<Longrightarrow> err = None"
    "redis_record store w e = Some (Reserved t)" "t - clock w \<le> int (length rs)"
  shows "fst (claim_loop (Claim setnx get) e rs w) = Got_it"
proof -
  have "deduper (Claim setnx get) (Done_redis set_value) (redis_record store) clock"
    using redis_service.notifier_contract [OF assms(1)] by (rule notifier.axioms(1))
  then show ?thesis using assms(2-5) by (rule deduper.lease_expires)
qed

theorem abandoned_events_are_claimed_witness:
  "fst (claim_loop (Claim mem_setnx mem_get) ''7'' (replicate 30 one_second) holding_redis) = Got_it"
proof (rule abandoned_events_are_claimed [OF mem.redis_service_axioms])
  show "\<forall>k \<in> set (replicate 30 one_second). uneventful (redis_record mr_store) mr_clock k"
    by (simp add: uneventful_def one_second_def redis_record_def fun_eq_iff)
  show "err = None" if "Claim mem_setnx mem_get ''7'' w = ((x, err), w')" for w x err w'
    using that by (auto simp: Claim_def mem_setnx_def mem_get_def Let_def split: option.splits if_splits)
  show "redis_record mr_store holding_redis ''7'' = Some (Reserved 30)"
    by (simp add: redis_record_def holding_redis_def)
qed (simp add: holding_redis_def)

text \<open>
  The other side of the lease: while an event is reserved and its reservation lives, a call of
  \<open>Handle\<close> that is granted no pause publishes nothing and counts nothing; it is still waiting, or
  reports an error of Redis. The owner itself is no exception: after a failed publish the retry of
  the same record waits until the owner's own lease has run out.
\<close>

theorem reserved_events_wait:
  assumes "redis_service setnx get set_value store clock pub chan"
    "Handle (Claim setnx get) (Done_redis set_value) (Publish_redis pub) [] e payload (w, m) = (out, w', m')"
    "e \<noteq> ''''" "redis_record store w e = Some (Reserved t)" "clock w' < t"
  shows "chan w' = chan w \<and> m' = m \<and> (out = Still_waiting \<or> (\<exists>err. out = Returned (Some err)))"
  using notifier.reserved_not_handled [OF redis_service.notifier_contract [OF assms(1)] assms(2-5)] .

theorem reserved_events_wait_witness:
  "\<exists>w'. mem_handle [] ''7'' ''{}'' (holding_redis, no_notes) = (Still_waiting, w', no_notes) \<and> mr_channel w' = []"
proof -
  obtain out w' m' where run: "mem_handle [] ''7'' ''{}'' (holding_redis, no_notes) = (out, w', m')"
    by (metis prod_cases3)
  have "fst (mem_handle [] ''7'' ''{}'' (holding_redis, no_notes)) = Still_waiting"
    "mr_clock (fst (snd (mem_handle [] ''7'' ''{}'' (holding_redis, no_notes)))) = 0" by code_simp+
  with run have out: "out = Still_waiting" and clk: "mr_clock w' = 0" by simp_all
  have "redis_record mr_store holding_redis ''7'' = Some (Reserved 30)"
    by (simp add: redis_record_def holding_redis_def)
  from reserved_events_wait [OF mem.redis_service_axioms run _ this] clk out run show ?thesis
    by (simp add: holding_redis_def)
qed

section \<open>Commits\<close>

text \<open>
  C35: At-least-once consumption: whatever happens, the history of a run of the consumer is, poll by
  poll, calls of the handler and then the commit; the commit of a poll is a prefix of its records, namely
  exactly those on which a call of this poll returned nil, in the order of the calls; and every such call
  settled its event between the state in which it was made and the state in which it returned: the event
  had no id, was done already, was unreadable and marked, or was published and marked. A record on
  which the handler did not return nil is not committed, nor is any record of its poll after it.
\<close>

theorem commits_only_settled_records:
  assumes "redis_service setnx get set_value store clock pub chan"
    "Run_consumer (Handle (Claim setnx get) (Done_redis set_value) (Publish_redis pub)) commit ps (w, m) =
       (returned, commits, w', m')"
  shows "\<exists>polls rest.
    Run_consumer (logged (Handle (Claim setnx get) (Done_redis set_value) (Publish_redis pub)))
      (logged_commit commit) ps ((w, []), m) = (returned, commits, (w', run_history polls commits @ rest), m') \<and>
    length polls = length commits \<and>
    (\<forall>i < length commits.
      (\<exists>k. commits ! i = take k (map fst (po_records (ps ! i)))) \<and>
      nil_calls (polls ! i) = map event_of (commits ! i) \<and>
      (\<forall>x e payload st st'. Called x e payload st (Returned None) st' \<in> set (polls ! i) \<longrightarrow>
         settled_by (Claim setnx get) (Done_redis set_value) (Publish_redis pub) packed_envelope chan
           x e payload st st') \<and>
      (\<forall>recs. Committed recs \<notin> set (polls ! i)))"
proof -
  note con = notifier.handler_contract [OF redis_service.notifier_contract [OF assms(1)]]
  from event_handler.Run_consumer_logged [OF con assms(2), of "[]"] obtain polls rest where
    run: "Run_consumer (logged (Handle (Claim setnx get) (Done_redis set_value) (Publish_redis pub)))
      (logged_commit commit) ps ((w, []), m) = (returned, commits, (w', run_history polls commits @ rest), m')"
    "length polls = length commits"
    and each: "\<forall>i < length commits. event_handler.settling
        (settled_by (Claim setnx get) (Done_redis set_value) (Publish_redis pub) packed_envelope chan) (polls ! i) \<and>
      nil_calls (polls ! i) = map event_of (commits ! i) \<and>
      (\<exists>k. commits ! i = take k (map fst (po_records (ps ! i))))" by auto
  have "\<forall>i < length commits.
      (\<exists>k. commits ! i = take k (map fst (po_records (ps ! i)))) \<and>
      nil_calls (polls ! i) = map event_of (commits ! i) \<and>
      (\<forall>x e payload st st'. Called x e payload st (Returned None) st' \<in> set (polls ! i) \<longrightarrow>
         settled_by (Claim setnx get) (Done_redis set_value) (Publish_redis pub) packed_envelope chan
           x e payload st st') \<and>
      (\<forall>recs. Committed recs \<notin> set (polls ! i))"
    using each unfolding event_handler.settling_def [OF con] by fastforce
  with run show ?thesis by blast
qed

definition sample_record :: kafka_record where
  "sample_record = \<lparr>k_Key = ''3'', k_Value = ''{'', k_Headers = [(''event_id'', ''7'')]\<rparr>"

definition sample_poll :: "mem_redis wait_round list poll" where
  "sample_poll = \<lparr>po_stopped = False,
     po_records = [(sample_record, [\<lparr>at_env = [], at_ctx_done = False, at_wait_done = False\<rparr>])],
     po_ctx_done = True\<rparr>"

text \<open>The record whose payload cannot be read is committed, after a call that marked its event.\<close>

theorem commits_only_settled_records_witness:
  "\<exists>ret w' m' x st st' calls.
     Run_consumer mem_handle (\<lambda>_ w. (None, w)) [sample_poll] (empty_redis, no_notes) = (ret, [[sample_record]], w', m') \<and>
     nil_calls calls = [(''7'', ''{'')] \<and> Called x ''7'' ''{'' st (Returned None) st' \<in> set calls \<and>
     settled_by (Claim mem_setnx mem_get) (Done_redis mem_set) (Publish_redis mem_pub) packed_envelope mr_channel
       x ''7'' ''{'' st st'"
proof -
  let ?run = "Run_consumer mem_handle (\<lambda>_ w. (None, w)) [sample_poll] (empty_redis, no_notes)"
  obtain ret commits w' m' where run: "?run = (ret, commits, w', m')" by (metis prod_cases4)
  have "fst (snd ?run) = [[sample_record]]" by code_simp
  with run have commits: "commits = [[sample_record]]" by simp
  from commits_only_settled_records [OF mem.redis_service_axioms run] obtain polls where
    polls: "nil_calls (polls ! 0) = map event_of (commits ! 0)"
    "\<forall>x e payload st st'. Called x e payload st (Returned None) st' \<in> set (polls ! 0) \<longrightarrow>
       settled_by (Claim mem_setnx mem_get) (Done_redis mem_set) (Publish_redis mem_pub) packed_envelope mr_channel
         x e payload st st'"
    unfolding commits by fastforce
  have ev: "event_of sample_record = (''7'', ''{'')" by code_simp
  with polls(1) have nil: "nil_calls (polls ! 0) = [(''7'', ''{'')]" by (simp add: commits)
  then have "(''7'', ''{'') \<in> set (nil_calls (polls ! 0))" by simp
  then obtain x st st' where "Called x ''7'' ''{'' st (Returned None) st' \<in> set (polls ! 0)"
    by (auto simp: nil_calls_def split: happening.splits handled.splits option.splits)
  with polls(2) nil run commits show ?thesis by blast
qed

section \<open>Across the channel\<close>

text \<open>
  C36: What the processor publishes reaches the hub: the envelope of a notification is always valid
  JSON, and a subscriber that receives it calls \<^verbatim>\<open>Send\<close> with exactly the account and exactly the
  bytes of the notification, whatever the event id and the strings of the event contain.
\<close>

theorem notifications_reach_the_hub:
  assumes "marshal_notification \<lparr>n_EventID = e, n_EntryPosted = entry\<rparr> = Inr msg" "entry_in_range entry"
  shows "\<exists>d. marshal_envelope \<lparr>en_AccountID = ev_AccountID entry, en_Message = msg\<rparr> = Inr d \<and>
    Run_subscriber send Confirmed (Sub_message d # es) h =
      Run_subscriber send Confirmed es (send (ev_AccountID entry) msg h)"
proof -
  have "in_int64 (ev_AccountID entry)" using assms(2) by (simp add: entry_in_range_def)
  from notification_crosses [OF assms(1) _ this] assms(2) obtain d where
    "marshal_envelope \<lparr>en_AccountID = ev_AccountID entry, en_Message = msg\<rparr> = Inr d"
    "unmarshal_envelope d = Inr \<lparr>en_AccountID = ev_AccountID entry, en_Message = msg\<rparr>" by auto
  then show ?thesis by (intro exI [of _ d]) (simp add: Run_subscriber_def)
qed

definition odd_entry :: entry_posted where
  "odd_entry = zero_entry\<lparr>ev_AccountID := -5, ev_Currency := [CHR 0x22, CHR 0xFF, CHR 0x3C]\<rparr>"

theorem notifications_reach_the_hub_witness:
  "\<exists>msg d. marshal_notification \<lparr>n_EventID = ''7'', n_EntryPosted = odd_entry\<rparr> = Inr msg \<and>
     marshal_envelope \<lparr>en_AccountID = -5, en_Message = msg\<rparr> = Inr d \<and>
     Run_subscriber (\<lambda>a m. Send rev (\<lambda>_. True) a m) Confirmed [Sub_message d] NewHub =
       Run_subscriber (\<lambda>a m. Send rev (\<lambda>_. True) a m) Confirmed [] (Send rev (\<lambda>_. True) (-5) msg NewHub)"
proof -
  have "isl (marshal_notification \<lparr>n_EventID = ''7'', n_EntryPosted = odd_entry\<rparr>) = False" by code_simp
  then obtain msg where msg: "marshal_notification \<lparr>n_EventID = ''7'', n_EntryPosted = odd_entry\<rparr> = Inr msg"
    by (cases "marshal_notification \<lparr>n_EventID = ''7'', n_EntryPosted = odd_entry\<rparr>") auto
  have range: "entry_in_range odd_entry"
    by (simp add: entry_in_range_def odd_entry_def zero_entry_def in_int64_def)
  from notifications_reach_the_hub [OF msg range, of "\<lambda>a m. Send rev (\<lambda>_. True) a m" "[]" NewHub] msg
  show ?thesis by (auto simp: odd_entry_def)
qed

end
