(* ===== verification/Http.thy ===== *)
theory Http
  imports Go_Errors Go_Json "HOL-Library.List_Lexorder" "HOL-Library.Char_ord"
begin

text \<open>
  Requests and responses, and the helpers of \<^verbatim>\<open>internal/handler/helpers.go\<close> that read and write
  JSON, over what they use of \<^verbatim>\<open>net/http\<close> and \<^verbatim>\<open>encoding/json\<close>: the indented text of a value, the
  decoder that takes one value off a body, and the limit on the body's size. Which runes beyond
  ASCII count as printable (for \<^verbatim>\<open>%q\<close>) is a parameter.
\<close>

section \<open>Requests and responses\<close>

text \<open>
  How a body's stream ends after its bytes: at its end, by a connection that is cut, at the size
  limit, or by another error.
\<close>

datatype read_end = Eof | Unexpected_eof | Too_large | Broken string

text \<open>Headers under their canonical names, the parsed query in its order, the route's parameters.\<close>

record http_request =
  rq_Method :: string
  rq_RequestURI :: string
  rq_Header :: "(string \<times> string) list"
  rq_Query :: "(string \<times> string) list"
  rq_Params :: "(string \<times> string) list"
  rq_Body :: string
  rq_End :: read_end

record http_response =
  rs_Status :: int
  rs_Content_Type :: "string option"
  rs_Body :: string

text \<open>\<^verbatim>\<open>Header.Get\<close>, \<^verbatim>\<open>Values.Get\<close> and \<^verbatim>\<open>chi.URLParam\<close>: the first value, the empty string if none.\<close>

definition get_value :: "(string \<times> string) list \<Rightarrow> string \<Rightarrow> string" where
  "get_value kvs k = (case map_of kvs k of None \<Rightarrow> '''' | Some v \<Rightarrow> v)"

section \<open>Writing JSON\<close>

text \<open>A value to be written, numbers, strings and times already as their text.\<close>

datatype doc = Leaf string | Obj_doc "(string \<times> doc) list" | Arr_doc "doc list"

definition new_line :: "nat \<Rightarrow> string" where
  "new_line n = CHR 0x0A # replicate n (CHR 0x09)"

text \<open>\<^verbatim>\<open>json.MarshalIndent(v, "", "\t")\<close>, with \<open>n\<close> containers open.\<close>

fun render :: "nat \<Rightarrow> doc \<Rightarrow> string"
  and render_members :: "nat \<Rightarrow> (string \<times> doc) list \<Rightarrow> string"
  and render_items :: "nat \<Rightarrow> doc list \<Rightarrow> string" where
  "render n (Leaf t) = t"
| "render n (Obj_doc ms) =
     (if ms = [] then ''{}'' else ''{'' @ render_members (Suc n) ms @ new_line n @ ''}'')"
| "render n (Arr_doc ds) =
     (if ds = [] then ''[]'' else ''['' @ render_items (Suc n) ds @ new_line n @ '']'')"
| "render_members n [] = []"
| "render_members n ((k, d) # ms) =
     new_line n @ json_string k @ '': '' @ render n d @ (if ms = [] then [] else '','')
       @ render_members n ms"
| "render_items n [] = []"
| "render_items n (d # ds) =
     new_line n @ render n d @ (if ds = [] then [] else '','') @ render_items n ds"

definition int_doc :: "int64 \<Rightarrow> doc" where "int_doc i = Leaf (FormatInt i)"
definition text_doc :: "string \<Rightarrow> doc" where "text_doc s = Leaf (json_string s)"

definition time_doc :: "time \<Rightarrow> doc result" where
  "time_doc t = map_sum JsonError (\<lambda>s. Leaf (json_string s)) (rfc3339 t)"

text \<open>A \<^verbatim>\<open>map[string]string\<close>: its keys are written in order.\<close>

definition map_doc :: "(string \<times> string) list \<Rightarrow> doc" where
  "map_doc kvs = Obj_doc (map (\<lambda>(k, v). (k, text_doc v)) (sort_key fst kvs))"

text \<open>\<^verbatim>\<open>writeJSON\<close>, without further headers: no caller has any. The document may not exist.\<close>

definition writeJSON :: "int \<Rightarrow> doc result \<Rightarrow> http_response result" where
  "writeJSON status data =
     map_sum (\<lambda>err. err)
       (\<lambda>d. \<lparr>rs_Status = status, rs_Content_Type = Some ''application/json'',
             rs_Body = render 0 d @ [CHR 0x0A]\<rparr>)
       data"

section \<open>Quoting\<close>

text \<open>The rune a well-formed UTF-8 sequence stands for.\<close>

definition rune_of :: "string \<Rightarrow> int" where
  "rune_of r =
     (case map of_char r of
        [a] \<Rightarrow> a
      | [a, b] \<Rightarrow> (a - 192) * 64 + (b - 128)
      | [a, b, c] \<Rightarrow> (a - 224) * 4096 + (b - 128) * 64 + (c - 128)
      | [a, b, c, d] \<Rightarrow> (a - 240) * 262144 + (b - 128) * 4096 + (c - 128) * 64 + (d - 128)
      | _ \<Rightarrow> 65533)"

definition hex_text :: "nat \<Rightarrow> int \<Rightarrow> string" where
  "hex_text n r = map (\<lambda>i. hex_char (r div 16 ^ i mod 16)) (rev [0..<n])"

definition quote_ascii :: "char \<Rightarrow> string" where
  "quote_ascii c =
     (let n = (of_char c :: int) in
      if c = CHR 0x22 \<or> c = CHR 0x5C then [CHR 0x5C, c]
      else if 32 \<le> n \<and> n < 127 then [c]
      else if n = 7 then [CHR 0x5C, CHR ''a'']
      else if n = 8 then [CHR 0x5C, CHR ''b'']
      else if n = 12 then [CHR 0x5C, CHR ''f'']
      else if n = 10 then [CHR 0x5C, CHR ''n'']
      else if n = 13 then [CHR 0x5C, CHR ''r'']
      else if n = 9 then [CHR 0x5C, CHR ''t'']
      else if n = 11 then [CHR 0x5C, CHR ''v'']
      else CHR 0x5C # CHR ''x'' # hex_text 2 n)"

text \<open>\<^verbatim>\<open>strconv.Quote\<close>, which is \<^verbatim>\<open>%q\<close>.\<close>

fun quote_body :: "(int \<Rightarrow> bool) \<Rightarrow> string \<Rightarrow> string" where
  "quote_body printable [] = []"
| "quote_body printable (c # cs) =
     (if (of_char c :: int) < 128 then quote_ascii c @ quote_body printable cs
      else case utf8_width (c # cs) of
             None \<Rightarrow> CHR 0x5C # CHR ''x'' # hex_text 2 (of_char c) @ quote_body printable cs
           | Some w \<Rightarrow>
               (let s = c # take (w - 1) cs; r = rune_of s in
                (if printable r then s
                 else if r < 65536 then CHR 0x5C # CHR ''u'' # hex_text 4 r
                 else CHR 0x5C # CHR ''U'' # hex_text 8 r)
                @ quote_body printable (drop (w - 1) cs)))"

definition quote :: "(int \<Rightarrow> bool) \<Rightarrow> string \<Rightarrow> string" where
  "quote printable s = CHR 0x22 # quote_body printable s @ [CHR 0x22]"

section \<open>Reading JSON\<close>

text \<open>\<^verbatim>\<open>http.MaxBytesReader\<close>\<close>

definition limited :: "nat \<Rightarrow> string \<times> read_end \<Rightarrow> string \<times> read_end" where
  "limited n b = (if n < length (fst b) then (take n (fst b), Too_large) else b)"

text \<open>
  One value off the stream, as \<^verbatim>\<open>Decoder.Decode\<close> reads it: the value and the text after it, or why
  there is none: a bad character at an offset, or the way the stream ended. A value that is not
  closed by a bracket is known to be complete only at the next byte or the end of the stream.
\<close>

datatype decode_stop = Syntax_at nat | Ended_by read_end

definition bracketed :: "json \<Rightarrow> bool" where
  "bracketed v = (case v of JArr _ \<Rightarrow> True | JObj _ \<Rightarrow> True | _ \<Rightarrow> False)"

definition next_value :: "string \<Rightarrow> read_end \<Rightarrow> decode_stop + json \<times> string" where
  "next_value s e =
     (case scan Begin_value [] s of
        Parsed v rest \<Rightarrow>
          if bracketed v \<or> rest \<noteq> [] \<or> e = Eof then Inr (v, rest) else Inl (Ended_by e)
      | Ended v \<Rightarrow> if e = Eof then Inr (v, []) else Inl (Ended_by e)
      | Bad_at rest \<Rightarrow> Inl (Syntax_at (length s - length rest + 1))
      | Truncated \<Rightarrow>
          Inl (Ended_by (if e = Eof \<and> \<not> list_all json_space s then Unexpected_eof else e)))"

text \<open>
  The offset of an \<^verbatim>\<open>UnmarshalTypeError\<close> for the whole body: behind the bracket of an array, behind
  the last byte of another value.
\<close>

definition wrong_type_offset :: "json \<Rightarrow> string \<Rightarrow> string \<Rightarrow> nat" where
  "wrong_type_offset v s rest =
     (case v of
        JArr _ \<Rightarrow> length (takeWhile json_space s) + 1
      | _ \<Rightarrow> length s - length rest)"

definition maxBytes :: nat where "maxBytes = 1048576"

definition stop_text :: "decode_stop \<Rightarrow> string" where
  "stop_text x =
     (case x of
        Syntax_at n \<Rightarrow> ''body contains badly-formed JSON (at character '' @ FormatInt (int n) @ '')''
      | Ended_by Unexpected_eof \<Rightarrow> ''body contains badly-formed JSON''
      | Ended_by Eof \<Rightarrow> ''body must not be empty''
      | Ended_by Too_large \<Rightarrow>
          ''body must not be larger than '' @ FormatInt (int maxBytes) @ '' bytes''
      | Ended_by (Broken m) \<Rightarrow> m)"

definition decode_text :: "(int \<Rightarrow> bool) \<Rightarrow> nat \<Rightarrow> decode_error \<Rightarrow> string" where
  "decode_text printable offset x =
     (case x of
        Wrong_type f \<Rightarrow> ''body contains incorrect JSON type for field '' @ quote printable f
      | Wrong_value_type \<Rightarrow>
          ''body contains incorrect JSON type (at character '' @ FormatInt (int offset) @ '')''
      | Unknown_field k \<Rightarrow> ''body contains unknown key: '' @ quote printable k
      | Rejected m \<Rightarrow> m)"

text \<open>
  \<^verbatim>\<open>readJSON\<close>: one value into the destination, members the struct does not have refused, and
  nothing but space after it.
\<close>

definition readJSON ::
  "(int \<Rightarrow> bool) \<Rightarrow> string list \<Rightarrow> (string \<Rightarrow> json \<Rightarrow> string \<Rightarrow> 'r \<Rightarrow> decode_error + 'r) \<Rightarrow> 'r \<Rightarrow>
   http_request \<Rightarrow> 'r result" where
  "readJSON printable names set_field dst r =
     (let (s, e) = limited maxBytes (rq_Body r, rq_End r) in
      case next_value s e of
        Inl stop \<Rightarrow> Inl (TextError (stop_text stop))
      | Inr (v, rest) \<Rightarrow>
          (case decode_struct True names set_field v dst of
             Inl x \<Rightarrow> Inl (TextError (decode_text printable (wrong_type_offset v s rest) x))
           | Inr input \<Rightarrow>
               if next_value rest e = Inl (Ended_by Eof) then Inr input
               else Inl (TextError ''body must only contain a single JSON value'')))"

end
