(* ===== verification/Requests.thy ===== *)
theory Requests
  imports Http Service
begin

text \<open>
  \<^verbatim>\<open>internal/handler/validator.go\<close> and \<^verbatim>\<open>requests.go\<close>: the validator, the requests with their
  decoding and their checks, and the documents of the responses.
\<close>

section \<open>The validator\<close>

text \<open>The map from field to message, in the order of the first error of each field.\<close>

record validator =
  v_Errors :: "(string \<times> string) list"

definition newValidator :: validator where
  "newValidator = \<lparr>v_Errors = []\<rparr>"

definition Valid :: "validator \<Rightarrow> bool" where
  "Valid v \<longleftrightarrow> length (v_Errors v) = 0"

definition AddError :: "string \<Rightarrow> string \<Rightarrow> validator \<Rightarrow> validator" where
  "AddError key message v =
     (if map_of (v_Errors v) key \<noteq> None then v else v\<lparr>v_Errors := v_Errors v @ [(key, message)]\<rparr>)"

definition Check :: "bool \<Rightarrow> string \<Rightarrow> string \<Rightarrow> validator \<Rightarrow> validator" where
  "Check ok key message v = (if \<not> ok then AddError key message v else v)"

section \<open>Requests\<close>

record transfer_request =
  tr_FromAccountID :: int64
  tr_ToAccountID :: int64
  tr_Amount :: int64

record deposit_request =
  dr_AccountID :: int64
  dr_Amount :: int64
  dr_Source :: string

record withdraw_request =
  wr_AccountID :: int64
  wr_Amount :: int64
  wr_Destination :: string

definition transfer_fields :: "string list" where
  "transfer_fields = [''from_account_id'', ''to_account_id'', ''amount'']"

definition set_transfer_field ::
  "string \<Rightarrow> json \<Rightarrow> string \<Rightarrow> transfer_request \<Rightarrow> decode_error + transfer_request" where
  "set_transfer_field f v raw r =
     (if f = ''from_account_id''
      then map_sum (\<lambda>x. x) (\<lambda>i. r\<lparr>tr_FromAccountID := i\<rparr>) (set_int f v (tr_FromAccountID r))
      else if f = ''to_account_id''
      then map_sum (\<lambda>x. x) (\<lambda>i. r\<lparr>tr_ToAccountID := i\<rparr>) (set_int f v (tr_ToAccountID r))
      else map_sum (\<lambda>x. x) (\<lambda>i. r\<lparr>tr_Amount := i\<rparr>) (set_int f v (tr_Amount r)))"

definition zero_transfer :: transfer_request where
  "zero_transfer = \<lparr>tr_FromAccountID = 0, tr_ToAccountID = 0, tr_Amount = 0\<rparr>"

definition deposit_fields :: "string list" where
  "deposit_fields = [''account_id'', ''amount'', ''source'']"

definition set_deposit_field ::
  "string \<Rightarrow> json \<Rightarrow> string \<Rightarrow> deposit_request \<Rightarrow> decode_error + deposit_request" where
  "set_deposit_field f v raw r =
     (if f = ''account_id''
      then map_sum (\<lambda>x. x) (\<lambda>i. r\<lparr>dr_AccountID := i\<rparr>) (set_int f v (dr_AccountID r))
      else if f = ''amount''
      then map_sum (\<lambda>x. x) (\<lambda>i. r\<lparr>dr_Amount := i\<rparr>) (set_int f v (dr_Amount r))
      else map_sum (\<lambda>x. x) (\<lambda>s. r\<lparr>dr_Source := s\<rparr>) (set_text f v (dr_Source r)))"

definition zero_deposit :: deposit_request where
  "zero_deposit = \<lparr>dr_AccountID = 0, dr_Amount = 0, dr_Source = ''''\<rparr>"

definition withdraw_fields :: "string list" where
  "withdraw_fields = [''account_id'', ''amount'', ''destination'']"

definition set_withdraw_field ::
  "string \<Rightarrow> json \<Rightarrow> string \<Rightarrow> withdraw_request \<Rightarrow> decode_error + withdraw_request" where
  "set_withdraw_field f v raw r =
     (if f = ''account_id''
      then map_sum (\<lambda>x. x) (\<lambda>i. r\<lparr>wr_AccountID := i\<rparr>) (set_int f v (wr_AccountID r))
      else if f = ''amount''
      then map_sum (\<lambda>x. x) (\<lambda>i. r\<lparr>wr_Amount := i\<rparr>) (set_int f v (wr_Amount r))
      else map_sum (\<lambda>x. x) (\<lambda>s. r\<lparr>wr_Destination := s\<rparr>) (set_text f v (wr_Destination r)))"

definition zero_withdraw :: withdraw_request where
  "zero_withdraw = \<lparr>wr_AccountID = 0, wr_Amount = 0, wr_Destination = ''''\<rparr>"

subsection \<open>Checks\<close>

definition validate_transfer :: "transfer_request \<Rightarrow> validator \<Rightarrow> validator" where
  "validate_transfer r v =
     (let v = Check (0 < tr_FromAccountID r) ''from_account_id'' ''must be provided'' v;
          v = Check (0 < tr_ToAccountID r) ''to_account_id'' ''must be provided'' v;
          v = Check (tr_FromAccountID r \<noteq> tr_ToAccountID r) ''to_account_id''
                (''account id'' @ [CHR 0x27] @ ''s must be distinct'') v
      in Check (0 < tr_Amount r) ''amount'' ''must be greater than zero'' v)"

definition validate_deposit :: "deposit_request \<Rightarrow> validator \<Rightarrow> validator" where
  "validate_deposit r v =
     (let v = Check (0 < dr_AccountID r) ''account_id'' ''must be provided'' v;
          v = Check (0 < dr_Amount r) ''amount'' ''must be greater than zero'' v
      in Check (dr_Source r = ''ATM'' \<or> dr_Source r = ''BANK'') ''source'' ''must be ATM or BANK'' v)"

definition validate_withdraw :: "withdraw_request \<Rightarrow> validator \<Rightarrow> validator" where
  "validate_withdraw r v =
     (let v = Check (0 < wr_AccountID r) ''account_id'' ''must be provided'' v;
          v = Check (0 < wr_Amount r) ''amount'' ''must be greater than zero'' v
      in Check (wr_Destination r = ''ATM'' \<or> wr_Destination r = ''BANK'') ''destination''
           ''must be ATM or BANK'' v)"

section \<open>Responses\<close>

definition reversal_member :: "int64 option \<Rightarrow> (string \<times> doc) list" where
  "reversal_member x = (case x of None \<Rightarrow> [] | Some i \<Rightarrow> [(''reversal_of'', int_doc i)])"

record transaction_response =
  rt_TransactionID :: int64
  rt_SourceID :: int64
  rt_DestinationID :: int64
  rt_Amount :: int64
  rt_Status :: string
  rt_Type :: string
  rt_ReversalOf :: "int64 option"
  rt_CreatedAt :: time

record account_balance_response =
  rb_AccountID :: int64
  rb_Currency :: string
  rb_Balance :: int64

definition newResponse :: "result_t \<Rightarrow> transaction_response" where
  "newResponse r =
     \<lparr>rt_TransactionID = r_TransactionID r, rt_SourceID = r_SourceID r,
      rt_DestinationID = r_DestinationID r, rt_Amount = r_Amount r, rt_Status = r_Status r,
      rt_Type = r_Type r, rt_ReversalOf = r_ReversalOf r, rt_CreatedAt = r_CreatedAt r\<rparr>"

definition newBalanceResponse :: "account_balance \<Rightarrow> account_balance_response" where
  "newBalanceResponse b =
     \<lparr>rb_AccountID = ab_AccountID b, rb_Currency = ab_Currency b, rb_Balance = ab_Balance b\<rparr>"

text \<open>The documents, by the tags of the fields.\<close>

definition transaction_doc :: "transaction_response \<Rightarrow> doc result" where
  "transaction_doc r =
     map_sum (\<lambda>err. err)
       (\<lambda>t. Obj_doc ([(''transaction_id'', int_doc (rt_TransactionID r)),
                      (''source_id'', int_doc (rt_SourceID r)),
                      (''destination_id'', int_doc (rt_DestinationID r)),
                      (''amount'', int_doc (rt_Amount r)),
                      (''status'', text_doc (rt_Status r)),
                      (''type'', text_doc (rt_Type r))]
                     @ reversal_member (rt_ReversalOf r) @ [(''created_at'', t)]))
       (time_doc (rt_CreatedAt r))"

definition balance_doc :: "account_balance_response \<Rightarrow> doc" where
  "balance_doc b =
     Obj_doc [(''account_id'', int_doc (rb_AccountID b)), (''currency'', text_doc (rb_Currency b)),
              (''balance'', int_doc (rb_Balance b))]"

text \<open>\<^verbatim>\<open>omitempty\<close> on an integer.\<close>

definition nonzero_member :: "string \<Rightarrow> int64 \<Rightarrow> (string \<times> doc) list" where
  "nonzero_member k i = (if i = 0 then [] else [(k, int_doc i)])"

record statement_entry_response =
  re_EntryID :: int64
  re_TransactionID :: int64
  re_Amount :: int64
  re_CounterpartyID :: int64
  re_Type :: string
  re_ReversalOf :: "int64 option"
  re_CreatedAt :: time

record account_history_response =
  rh_Transactions :: "statement_entry_response list"
  rh_NextCursor :: int64

definition statement_entry_doc :: "statement_entry_response \<Rightarrow> doc result" where
  "statement_entry_doc e =
     map_sum (\<lambda>err. err)
       (\<lambda>t. Obj_doc ([(''entry_id'', int_doc (re_EntryID e)),
                      (''transaction_id'', int_doc (re_TransactionID e)),
                      (''amount'', int_doc (re_Amount e))]
                     @ nonzero_member ''counterparty_id'' (re_CounterpartyID e)
                     @ [(''type'', text_doc (re_Type e))]
                     @ reversal_member (re_ReversalOf e) @ [(''created_at'', t)]))
       (time_doc (re_CreatedAt e))"

text \<open>One turn of the loop of \<^verbatim>\<open>newAccountHistoryResponse\<close>.\<close>

definition newStatementEntryResponse :: "statement_entry \<Rightarrow> statement_entry_response" where
  "newStatementEntryResponse e =
     (let counterpartyID = (if se_Type e \<noteq> TxTypeTransfer then 0 else se_CounterpartyID e) in
      \<lparr>re_EntryID = se_EntryID e, re_TransactionID = se_TransactionID e, re_Amount = se_Amount e,
       re_CounterpartyID = counterpartyID, re_Type = se_Type e, re_ReversalOf = se_ReversalOf e,
       re_CreatedAt = se_CreatedAt e\<rparr>)"

definition newAccountHistoryResponse :: "statement \<Rightarrow> account_history_response" where
  "newAccountHistoryResponse s =
     \<lparr>rh_Transactions = map newStatementEntryResponse (st_Entries s),
      rh_NextCursor = st_NextCursor s\<rparr>"

text \<open>The first error of a list of documents, or the documents.\<close>

fun all_docs :: "doc result list \<Rightarrow> doc list result" where
  "all_docs [] = Inr []"
| "all_docs (x # xs) =
     (case x of
        Inl err \<Rightarrow> Inl err
      | Inr d \<Rightarrow> map_sum (\<lambda>err. err) (\<lambda>ds. d # ds) (all_docs xs))"

definition history_doc :: "account_history_response \<Rightarrow> doc result" where
  "history_doc r =
     map_sum (\<lambda>err. err)
       (\<lambda>ds. Obj_doc ((''transactions'', Arr_doc ds) # nonzero_member ''next_cursor'' (rh_NextCursor r)))
       (all_docs (map statement_entry_doc (rh_Transactions r)))"

end
