(* ===== verification/Handler.thy ===== *)
theory Handler
  imports Requests
begin

text \<open>
  \<^verbatim>\<open>internal/handler/errors.go\<close> and \<^verbatim>\<open>handler.go\<close>: the responses to errors, the handlers over a
  \<^verbatim>\<open>Service\<close>, and the routes. The service is a record of operations on a state \<open>'s\<close>; which route
  a request takes is decided by the router, a parameter. Logging and the time limit of an operation
  are not modelled: a service may fail at any time anyway.
\<close>

section \<open>Errors\<close>

definition error_doc :: "doc \<Rightarrow> doc" where
  "error_doc message = Obj_doc [(''error'', message)]"

definition errorResponse :: "int \<Rightarrow> doc \<Rightarrow> http_response" where
  "errorResponse status message =
     (case writeJSON status (Inr (error_doc message)) of
        Inl err \<Rightarrow> \<lparr>rs_Status = 500, rs_Content_Type = None, rs_Body = ''''\<rparr>
      | Inr resp \<Rightarrow> resp)"

definition serverErrorResponse :: "go_error \<Rightarrow> http_response" where
  "serverErrorResponse err =
     errorResponse 500
       (text_doc ''the server encountered a problem and could not process your request'')"

definition badRequestResponse :: "go_error \<Rightarrow> http_response" where
  "badRequestResponse err = errorResponse 400 (text_doc (error_text err))"

definition notFoundResponse :: "go_error \<Rightarrow> http_response" where
  "notFoundResponse err = errorResponse 404 (text_doc (error_text err))"

definition unprocessableEntityResponse :: "go_error \<Rightarrow> http_response" where
  "unprocessableEntityResponse err = errorResponse 422 (text_doc (error_text err))"

definition conflictResponse :: "go_error \<Rightarrow> http_response" where
  "conflictResponse err = errorResponse 409 (text_doc (error_text err))"

definition failedValidationResponse :: "(string \<times> string) list \<Rightarrow> http_response" where
  "failedValidationResponse errors = errorResponse 400 (map_doc errors)"

definition routeNotFoundResponse :: "http_request \<Rightarrow> http_response" where
  "routeNotFoundResponse r =
     errorResponse 404 (text_doc (''the requested resource could not be found: '' @ rq_RequestURI r))"

definition methodNotAllowedResponse :: "http_request \<Rightarrow> http_response" where
  "methodNotAllowedResponse r =
     errorResponse 405
       (text_doc (''the '' @ rq_Method r @ '' method is not supported for this resource: ''
                    @ rq_RequestURI r))"

text \<open>\<^verbatim>\<open>errors.Is\<close> for one of several sentinels of the service.\<close>

definition is_one_of :: "go_error \<Rightarrow> service_error list \<Rightarrow> bool" where
  "is_one_of err es = list_ex (\<lambda>e. errors_Is err (ServiceError e)) es"

definition handleError :: "go_error \<Rightarrow> http_response" where
  "handleError err =
     (if is_one_of err [ErrInvalidAmount, ErrSameAccount] then badRequestResponse err
      else if is_one_of err [ErrSourceAccountNotFound, ErrDestinationAccountNotFound,
                ErrSystemAccountNotFound, ErrTransactionNotFound, ErrAccountNotFound]
      then notFoundResponse err
      else if is_one_of err [ErrNotEnough, ErrCurrencyMismatch, ErrSystemAccountNotAllowed,
                ErrInvalidWithdrawSource, ErrInvalidDepositDestination]
      then unprocessableEntityResponse err
      else if is_one_of err [ErrTransactionsMismatch, ErrReverseIncompletedTx, ErrReverseReversalTx]
      then conflictResponse err
      else serverErrorResponse err)"

section \<open>The service\<close>

text \<open>The methods that return a pointer may return nil (\<open>None\<close>) with or without an error.\<close>

type_synonym 's money_method = "'s \<Rightarrow> (result_t option \<times> go_error option) \<times> 's"

record 's service_api =
  api_Transfer :: "int64 \<Rightarrow> int64 \<Rightarrow> int64 \<Rightarrow> string \<Rightarrow> 's money_method"
  api_Deposit :: "int64 \<Rightarrow> int64 \<Rightarrow> string \<Rightarrow> string \<Rightarrow> 's money_method"
  api_Withdraw :: "int64 \<Rightarrow> int64 \<Rightarrow> string \<Rightarrow> string \<Rightarrow> 's money_method"
  api_Reverse :: "int64 \<Rightarrow> string \<Rightarrow> 's money_method"
  api_AccountBalance :: "int64 \<Rightarrow> 's \<Rightarrow> account_balance result \<times> 's"
  api_AccountTransactionsHistory :: "int64 \<Rightarrow> int64 \<Rightarrow> int64 \<Rightarrow> 's \<Rightarrow> statement result \<times> 's"

record build_info =
  bi_Env :: string
  bi_Version :: string

text \<open>A handler answers, or dereferences a nil pointer.\<close>

datatype reply = Reply http_response | Nil_pointer

section \<open>Helpers\<close>

definition idempotencyKey :: "http_request \<Rightarrow> string result" where
  "idempotencyKey r =
     (let key = get_value (rq_Header r) ''Idempotency-Key''
      in if key = '''' then Inl (TextError ''Idempotency-Key header: empty or not exist'') else Inr key)"

definition readInt64 :: "(string \<times> string) list \<Rightarrow> string \<Rightarrow> int64 \<Rightarrow> validator \<Rightarrow> int64 \<times> validator" where
  "readInt64 qs key defaultValue v =
     (let val = get_value qs key in
      if val = '''' then (defaultValue, v)
      else case ParseInt val of
             Inl _ \<Rightarrow> (defaultValue, AddError key ''must be an integer value'' v)
           | Inr i \<Rightarrow> (i, v))"

text \<open>A document under one key, or the server error.\<close>

definition respond :: "int \<Rightarrow> string \<Rightarrow> doc result \<Rightarrow> http_response" where
  "respond status key data =
     (case writeJSON status (map_sum (\<lambda>err. err) (\<lambda>d. Obj_doc [(key, d)]) data) of
        Inl err \<Rightarrow> serverErrorResponse err
      | Inr resp \<Rightarrow> resp)"

definition writeTransaction :: "result_t \<Rightarrow> http_response" where
  "writeTransaction res =
     respond (if r_Replayed res then 200 else 201) ''transaction'' (transaction_doc (newResponse res))"

text \<open>The end of the handlers that move money: the outcome of the service's method.\<close>

definition money_reply :: "result_t option \<times> go_error option \<Rightarrow> reply" where
  "money_reply outcome =
     (case outcome of
        (_, Some err) \<Rightarrow> Reply (handleError err)
      | (None, None) \<Rightarrow> Nil_pointer
      | (Some res, None) \<Rightarrow> Reply (writeTransaction res))"

section \<open>Handlers\<close>

definition healthcheckHandler :: "build_info \<Rightarrow> http_response" where
  "healthcheckHandler build =
     (case writeJSON 200 (Inr (Obj_doc [(''status'', text_doc ''available''),
             (''system_info'', map_doc [(''environment'', bi_Env build), (''version'', bi_Version build)])])) of
        Inl err \<Rightarrow> serverErrorResponse err
      | Inr resp \<Rightarrow> resp)"

definition transferHandler ::
  "(int \<Rightarrow> bool) \<Rightarrow> 's service_api \<Rightarrow> http_request \<Rightarrow> 's \<Rightarrow> reply \<times> 's" where
  "transferHandler printable service r s =
     (case idempotencyKey r of
        Inl err \<Rightarrow> (Reply (badRequestResponse err), s)
      | Inr key \<Rightarrow>
          (case readJSON printable transfer_fields set_transfer_field zero_transfer r of
             Inl err \<Rightarrow> (Reply (badRequestResponse err), s)
           | Inr input \<Rightarrow>
               (let v = validate_transfer input newValidator in
                if \<not> Valid v then (Reply (failedValidationResponse (v_Errors v)), s)
                else case api_Transfer service (tr_FromAccountID input) (tr_ToAccountID input)
                            (tr_Amount input) key s of
                       (outcome, s') \<Rightarrow> (money_reply outcome, s'))))"

definition depositHandler ::
  "(int \<Rightarrow> bool) \<Rightarrow> 's service_api \<Rightarrow> http_request \<Rightarrow> 's \<Rightarrow> reply \<times> 's" where
  "depositHandler printable service r s =
     (case idempotencyKey r of
        Inl err \<Rightarrow> (Reply (badRequestResponse err), s)
      | Inr key \<Rightarrow>
          (case readJSON printable deposit_fields set_deposit_field zero_deposit r of
             Inl err \<Rightarrow> (Reply (badRequestResponse err), s)
           | Inr input \<Rightarrow>
               (let v = validate_deposit input newValidator in
                if \<not> Valid v then (Reply (failedValidationResponse (v_Errors v)), s)
                else case api_Deposit service (dr_AccountID input) (dr_Amount input)
                            (dr_Source input) key s of
                       (outcome, s') \<Rightarrow> (money_reply outcome, s'))))"

definition withdrawHandler ::
  "(int \<Rightarrow> bool) \<Rightarrow> 's service_api \<Rightarrow> http_request \<Rightarrow> 's \<Rightarrow> reply \<times> 's" where
  "withdrawHandler printable service r s =
     (case idempotencyKey r of
        Inl err \<Rightarrow> (Reply (badRequestResponse err), s)
      | Inr key \<Rightarrow>
          (case readJSON printable withdraw_fields set_withdraw_field zero_withdraw r of
             Inl err \<Rightarrow> (Reply (badRequestResponse err), s)
           | Inr input \<Rightarrow>
               (let v = validate_withdraw input newValidator in
                if \<not> Valid v then (Reply (failedValidationResponse (v_Errors v)), s)
                else case api_Withdraw service (wr_AccountID input) (wr_Amount input)
                            (wr_Destination input) key s of
                       (outcome, s') \<Rightarrow> (money_reply outcome, s'))))"

text \<open>The response to a path parameter that is no number.\<close>

definition bad_id :: http_response where
  "bad_id = notFoundResponse (TextError ''invalid id parameter'')"

definition reverseHandler :: "'s service_api \<Rightarrow> http_request \<Rightarrow> 's \<Rightarrow> reply \<times> 's" where
  "reverseHandler service r s =
     (case idempotencyKey r of
        Inl err \<Rightarrow> (Reply (badRequestResponse err), s)
      | Inr key \<Rightarrow>
          (case ParseInt (get_value (rq_Params r) ''id'') of
             Inl _ \<Rightarrow> (Reply bad_id, s)
           | Inr i \<Rightarrow>
               (case api_Reverse service i key s of
                  (outcome, s') \<Rightarrow> (money_reply outcome, s'))))"

definition accountBalanceHandler :: "'s service_api \<Rightarrow> http_request \<Rightarrow> 's \<Rightarrow> reply \<times> 's" where
  "accountBalanceHandler service r s =
     (case ParseInt (get_value (rq_Params r) ''id'') of
        Inl _ \<Rightarrow> (Reply bad_id, s)
      | Inr i \<Rightarrow>
          (case api_AccountBalance service i s of
             (Inl err, s') \<Rightarrow> (Reply (handleError err), s')
           | (Inr b, s') \<Rightarrow> (Reply (respond 200 ''account'' (Inr (balance_doc (newBalanceResponse b)))), s')))"

text \<open>The parameters of a history page, with what is wrong with them.\<close>

definition history_params :: "(string \<times> string) list \<Rightarrow> (int64 \<times> int64) \<times> validator" where
  "history_params qs =
     (let v = newValidator;
          (limit, v) = readInt64 qs ''limit'' 10 v;
          (before, v) = readInt64 qs ''before'' 0 v;
          v = Check (0 < limit) ''limit'' ''must be greater than zero'' v;
          v = Check (limit \<le> MaxLimit) ''limit'' (''must not exceed '' @ FormatInt MaxLimit) v
      in ((limit, before), Check (0 \<le> before) ''before'' ''must not be negative'' v))"

definition accountHistoryHandler :: "'s service_api \<Rightarrow> http_request \<Rightarrow> 's \<Rightarrow> reply \<times> 's" where
  "accountHistoryHandler service r s =
     (case ParseInt (get_value (rq_Params r) ''id'') of
        Inl _ \<Rightarrow> (Reply bad_id, s)
      | Inr i \<Rightarrow>
          (let ((limit, before), v) = history_params (rq_Query r) in
           if \<not> Valid v then (Reply (failedValidationResponse (v_Errors v)), s)
           else case api_AccountTransactionsHistory service i limit before s of
                  (Inl err, s') \<Rightarrow> (Reply (handleError err), s')
                | (Inr history, s') \<Rightarrow> (Reply (respond 200 ''history'' (history_doc (newAccountHistoryResponse history))), s')))"

section \<open>Routes\<close>

datatype endpoint =
    Healthcheck
  | Account_balance
  | Account_history
  | Transfers
  | Deposits
  | Withdrawals
  | Reversals

definition routes :: "(string \<times> string \<times> endpoint) list" where
  "routes =
     [(''GET'', ''/v1/healthcheck'', Healthcheck),
      (''GET'', ''/v1/accounts/{id}/balance'', Account_balance),
      (''GET'', ''/v1/accounts/{id}/transactions'', Account_history),
      (''POST'', ''/v1/transfers'', Transfers),
      (''POST'', ''/v1/deposits'', Deposits),
      (''POST'', ''/v1/withdrawals'', Withdrawals),
      (''POST'', ''/v1/transactions/{id}/reversal'', Reversals)]"

text \<open>What the router makes of a request: a route with its parameters, or neither path nor method.\<close>

datatype route_match = Route endpoint "(string \<times> string) list" | No_route | No_method

type_synonym router = "(string \<times> string \<times> endpoint) list \<Rightarrow> http_request \<Rightarrow> route_match"

fun dispatch ::
  "(int \<Rightarrow> bool) \<Rightarrow> build_info \<Rightarrow> 's service_api \<Rightarrow> endpoint \<Rightarrow> http_request \<Rightarrow> 's \<Rightarrow> reply \<times> 's" where
  "dispatch printable build service Healthcheck r s = (Reply (healthcheckHandler build), s)"
| "dispatch printable build service Account_balance r s = accountBalanceHandler service r s"
| "dispatch printable build service Account_history r s = accountHistoryHandler service r s"
| "dispatch printable build service Transfers r s = transferHandler printable service r s"
| "dispatch printable build service Deposits r s = depositHandler printable service r s"
| "dispatch printable build service Withdrawals r s = withdrawHandler printable service r s"
| "dispatch printable build service Reversals r s = reverseHandler service r s"

definition Routes ::
  "(int \<Rightarrow> bool) \<Rightarrow> router \<Rightarrow> build_info \<Rightarrow> 's service_api \<Rightarrow> http_request \<Rightarrow> 's \<Rightarrow> reply \<times> 's" where
  "Routes printable chi build service r s =
     (case chi routes r of
        No_route \<Rightarrow> (Reply (routeNotFoundResponse r), s)
      | No_method \<Rightarrow> (Reply (methodNotAllowedResponse r), s)
      | Route e params \<Rightarrow> dispatch printable build service e (r\<lparr>rq_Params := params\<rparr>) s)"

end
