(* ===== verification/Error_Origins.thy ===== *)
theory Error_Origins
  imports Operations
begin

text \<open>
  Which of the service's sentinels an operation can return, in any environment: every statement may
  fail with a driver's error, but a sentinel comes from the code's own checks. The rules follow the
  structure of the queries (collected in \<open>query_errors\<close>).
\<close>

section \<open>Sentinels\<close>

named_theorems query_errors \<open>which sentinels a query can return\<close>

text \<open>The sentinels an error is, or wraps, are among those given.\<close>

definition from_set :: "service_error set \<Rightarrow> go_error \<Rightarrow> bool" where
  "from_set S e \<longleftrightarrow> (\<forall>x. errors_Is e (ServiceError x) \<longrightarrow> x \<in> S)"

definition errs :: "service_error set \<Rightarrow> 'a query \<Rightarrow> bool" where
  "errs S m \<longleftrightarrow> (\<forall>s e s'. m s = (Inl e, s') \<longrightarrow> from_set S e)"

lemma from_set_simps [simp]:
  "from_set S (StorageError y)" "from_set S (DriverError msg)" "from_set S (JsonError msg)"
  "from_set S (ServiceError x) \<longleftrightarrow> x \<in> S" "from_set S (Wrapped msg e) \<longleftrightarrow> from_set S e"
  by (auto simp: from_set_def)

lemma from_set_mono: "from_set S e \<Longrightarrow> S \<subseteq> T \<Longrightarrow> from_set T e"
  by (auto simp: from_set_def)

lemma errsD: "errs S m \<Longrightarrow> m s = (Inl e, s') \<Longrightarrow> from_set S e"
  unfolding errs_def by blast

lemma errs_mono: "errs S m \<Longrightarrow> S \<subseteq> T \<Longrightarrow> errs T m"
  unfolding errs_def using from_set_mono by blast

section \<open>Statements\<close>

lemma errs_ret [query_errors]: "errs S (ret a)"
  by (simp add: errs_def ret_def)

lemma errs_throw [query_errors]: "from_set S e \<Longrightarrow> errs S (throw e)"
  by (simp add: errs_def throw_def)

lemma errs_acquire [query_errors]: "errs S (acquire r)"
  by (simp add: errs_def acquire_def)

lemma errs_bindQ [query_errors]: "errs S m \<Longrightarrow> (\<And>a. errs S (f a)) \<Longrightarrow> errs S (bindQ m f)"
  by (auto simp: errs_def bindQ_def split: prod.splits sum.splits)

lemma errs_onErr: "(\<And>s e s'. m s = (Inl e, s') \<Longrightarrow> errs S (h e)) \<Longrightarrow> errs S (onErr m h)"
  by (auto simp: errs_def onErr_def split: prod.splits sum.splits)

lemma errs_if [query_errors]: "(b \<Longrightarrow> errs S m) \<Longrightarrow> (\<not> b \<Longrightarrow> errs S m') \<Longrightarrow> errs S (if b then m else m')"
  by simp

lemma errs_exec_sql:
  "(\<And>d e d'. f d = (Inl e, d') \<Longrightarrow> from_set S e) \<Longrightarrow> errs S (exec_sql env f)"
  by (auto simp: errs_def exec_sql_def Let_def split: option.splits prod.splits)

lemma errs_read_sql: "(\<And>d e. f d = Inl e \<Longrightarrow> from_set S e) \<Longrightarrow> errs S (read_sql env f)"
  unfolding read_sql_def by (rule errs_exec_sql) auto

lemma errs_select_account [query_errors]: "errs S (select_account env P)"
  unfolding select_account_def by (rule errs_read_sql) (auto split: option.splits)

lemma errs_GetAccount [query_errors]: "errs S (GetAccount env i)"
  unfolding GetAccount_def by (rule query_errors)

lemma errs_GetAccountForUpdate [query_errors]: "errs S (GetAccountForUpdate env i)"
  unfolding GetAccountForUpdate_def by (intro query_errors)

lemma errs_GetSystemAccountByCode [query_errors]: "errs S (GetSystemAccountByCode env c)"
  unfolding GetSystemAccountByCode_def by (rule query_errors)

lemma errs_GetAccountBalance [query_errors]: "errs S (GetAccountBalance env i)"
  unfolding GetAccountBalance_def by (rule errs_read_sql) (auto simp: Let_def split: if_splits)

lemma errs_GetTransaction [query_errors]: "errs S (GetTransaction env k)"
  unfolding GetTransaction_def by (rule errs_read_sql) (auto split: option.splits)

lemma errs_GetTransactionByID [query_errors]: "errs S (GetTransactionByID env i)"
  unfolding GetTransactionByID_def
  by (intro query_errors errs_read_sql) (auto split: option.splits)

lemma errs_GetAccountHistory [query_errors]: "errs S (GetAccountHistory env i lim before)"
  unfolding GetAccountHistory_def Let_def by (rule errs_read_sql) (auto split: if_splits)

lemma errs_lock_references [query_errors]: "errs S (lock_references t)"
  unfolding lock_references_def by (cases "tx_ReversalOf t") (simp_all, (intro query_errors)+)

lemma errs_CreateTransaction [query_errors]: "errs S (CreateTransaction env t)"
  unfolding CreateTransaction_def
  by (intro query_errors errs_exec_sql) (auto simp: insert_transaction_def Let_def split: if_splits)

lemma errs_CreateLedgerEntry [query_errors]: "errs S (CreateLedgerEntry env i a n)"
  unfolding CreateLedgerEntry_def
  by (intro query_errors errs_exec_sql) (auto simp: insert_ledger_entry_def Let_def split: if_splits)

lemma marshal_entry_error: "marshal_entry e = Inl err \<Longrightarrow> from_set S err"
  by (auto simp: marshal_entry_def split: sum.splits)

lemma errs_CreateOutboxEvent [query_errors]: "errs S (CreateOutboxEvent env ty k e)"
proof (cases "marshal_entry e")
  case (Inl err)
  then show ?thesis
    by (simp add: CreateOutboxEvent_def errs_throw marshal_entry_error)
next
  case (Inr js)
  have "errs S (exec_sql env (insert_outbox_event env ty k js))"
    by (rule errs_exec_sql) (auto simp: insert_outbox_event_def Let_def split: option.splits if_splits)
  with Inr show ?thesis by (simp add: CreateOutboxEvent_def)
qed

lemma errs_UpdateTransactionStatus [query_errors]: "errs S (UpdateTransactionStatus env i st)"
  unfolding UpdateTransactionStatus_def by (intro query_errors errs_onErr from_set_simps)

section \<open>The service\<close>

lemma errs_named [query_errors]: "errs S m \<Longrightarrow> x \<in> S \<Longrightarrow> errs S (onErr m (not_found_as x))"
  by (rule errs_onErr) (auto simp: not_found_as_def intro!: query_errors dest: errsD)

lemma errs_lock_account [query_errors]:
  "ErrSourceAccountNotFound \<in> S \<Longrightarrow> ErrDestinationAccountNotFound \<in> S \<Longrightarrow> errs S (lock_account (queries env) i from)"
  unfolding lock_account_queries
  by (rule errs_onErr) (auto intro!: errs_throw dest: errsD [OF errs_GetAccountForUpdate])

text \<open>The sentinels of the transfer core.\<close>

definition core_errors :: "service_error set" where
  "core_errors = {ErrSourceAccountNotFound, ErrDestinationAccountNotFound, ErrCurrencyMismatch,
     ErrTransactionsMismatch, ErrNotEnough}"

lemma errs_replay [query_errors]: "errs core_errors (replay (queries env) p)"
  unfolding replay_queries by (intro query_errors) (simp add: core_errors_def)

lemma errs_write_entries [query_errors]: "errs S (write_entries (queries env) p sa da c)"
  unfolding write_entries_queries Let_def by (intro query_errors)

lemma errs_post_entries [query_errors]: "errs core_errors (post_entries (queries env) p sa da c)"
  unfolding post_entries_queries by (intro query_errors) (simp add: core_errors_def)

lemma errs_post_or_replay [query_errors]: "errs core_errors (post_or_replay (queries env) p sa da)"
  unfolding errs_def post_or_replay_queries
  by (auto split: prod.splits sum.splits if_splits
      dest: errsD [OF errs_replay] errsD [OF errs_post_entries] errsD [OF errs_CreateTransaction])

lemma errs_transfer [query_errors]: "errs core_errors (transfer (queries env) p)"
proof -
  have "errs core_errors (lock_account (queries env) i src)" for i src
    by (rule errs_lock_account) (simp_all add: core_errors_def)
  then show ?thesis
    unfolding transfer_queries Let_def
    by (intro query_errors) (auto split: prod.split intro!: query_errors simp: core_errors_def [THEN eqset_imp_iff])
qed

definition transfer_errors :: "service_error set" where
  "transfer_errors = core_errors \<union> {ErrSystemAccountNotAllowed}"

definition deposit_errors :: "service_error set" where
  "deposit_errors = core_errors \<union> {ErrSystemAccountNotFound, ErrInvalidDepositDestination}"

definition withdraw_errors :: "service_error set" where
  "withdraw_errors = core_errors \<union> {ErrSystemAccountNotFound, ErrInvalidWithdrawSource}"

definition reverse_errors :: "service_error set" where
  "reverse_errors = core_errors \<union> {ErrTransactionNotFound, ErrReverseIncompletedTx, ErrReverseReversalTx}"

lemma errs_transfer_closure: "errs transfer_errors (transfer_closure (queries env) f t a k)"
  unfolding transfer_closure_queries
  by (intro query_errors errs_mono [OF errs_transfer])
    (simp_all add: transfer_errors_def core_errors_def)

lemma errs_reversible: "errs reverse_errors (reversible (queries env) i)"
  unfolding reversible_queries by (intro query_errors) (simp_all add: reverse_errors_def)

text \<open>
  A user account and a system account differ in their ids, so the check of the operations on one
  side of the ledger for the same account never fires.
\<close>

lemma system_account_differs:
  assumes "GetAccount env i s = (Inr a, s1)" "GetSystemAccountByCode env c s1 = (Inr y, s2)"
    "acc_Type a = accountTypeUser" "acc_Type y = accountTypeSystem" "distinct (map a_id (accounts (s_db s)))"
  shows "acc_ID a \<noteq> acc_ID y"
proof -
  from assms(1) obtain ra where ra: "account_of (s_db s) i = Some ra" "a = scan_account ra" "s_db s1 = s_db s"
    by (rule GetAccount_InrE)
  from assms(2) ra(3) obtain ry where ry: "ry \<in> set (accounts (s_db s))" "y = scan_account ry"
    by (auto elim: GetSystemAccountByCode_InrE)
  have "ra \<in> set (accounts (s_db s))" using ra(1) by (auto dest: account_of_SomeD)
  moreover have "inj_on a_id (set (accounts (s_db s)))" using assms(5) by (simp add: distinct_map)
  moreover have "ra \<noteq> ry"
    using assms(3,4) ra(2) ry(2) by (auto simp: scan_account_def accountTypeUser_def accountTypeSystem_def)
  ultimately have "a_id ra \<noteq> a_id ry" using ry(1) by (auto dest: inj_onD)
  then show ?thesis using ra(2) ry(2) by (simp add: scan_account_def)
qed

lemma bindQ_InlE:
  assumes "bindQ m f s = (Inl e, s')"
  obtains "m s = (Inl e, s')" | a s1 where "m s = (Inr a, s1)" "f a s1 = (Inl e, s')"
  using assms by (auto simp: bindQ_def split: prod.splits sum.splits)

lemma errs_mono_D: "errs S m \<Longrightarrow> m s = (Inl e, s') \<Longrightarrow> S \<subseteq> T \<Longrightarrow> from_set T e"
  by (blast dest: errsD intro: from_set_mono)

lemma system_lookup_errors:
  assumes "bindQ (onErr (GetSystemAccountByCode env c) (not_found_as ErrSystemAccountNotFound)) (\<lambda>y.
     if acc_Type y \<noteq> accountTypeSystem then throw (ServiceError ErrSystemAccountNotFound)
     else if acc_ID a = acc_ID y then throw (ServiceError ErrSameAccount)
     else transfer (queries env) (p y)) s1 = (Inl e, s')"
    "GetAccount env i s = (Inr a, s1)" "acc_Type a = accountTypeUser"
    "distinct (map a_id (accounts (s_db s)))"
  shows "from_set (core_errors \<union> {ErrSystemAccountNotFound}) e"
proof -
  let ?S = "core_errors \<union> {ErrSystemAccountNotFound}"
  have look: "errs ?S (onErr (GetSystemAccountByCode env c) (not_found_as ErrSystemAccountNotFound))"
    by (intro query_errors) simp
  from assms(1) show ?thesis
  proof (rule bindQ_InlE)
    assume "onErr (GetSystemAccountByCode env c) (not_found_as ErrSystemAccountNotFound) s1 = (Inl e, s')"
    with look show ?thesis by (rule errsD)
  next
    fix y s2
    assume y: "onErr (GetSystemAccountByCode env c) (not_found_as ErrSystemAccountNotFound) s1 = (Inr y, s2)"
      and rest: "(if acc_Type y \<noteq> accountTypeSystem then throw (ServiceError ErrSystemAccountNotFound)
         else if acc_ID a = acc_ID y then throw (ServiceError ErrSameAccount)
         else transfer (queries env) (p y)) s2 = (Inl e, s')"
    from y have "GetSystemAccountByCode env c s1 = (Inr y, s2)" by (rule onErr_not_found_InrE)
    with assms(2-4) have differs: "acc_Type y = accountTypeSystem \<longrightarrow> acc_ID a \<noteq> acc_ID y"
      using system_account_differs by blast
    show ?thesis
    proof (cases "acc_Type y = accountTypeSystem")
      case True
      with rest differs have "transfer (queries env) (p y) s2 = (Inl e, s')" by simp
      then show ?thesis by (rule errs_mono_D [OF errs_transfer]) blast
    next
      case False
      with rest show ?thesis by (auto simp: throw_def)
    qed
  qed
qed

lemma deposit_closure_errors:
  assumes "deposit_closure (queries env) i n src k s = (Inl e, s')" "distinct (map a_id (accounts (s_db s)))"
  shows "from_set deposit_errors e"
proof -
  let ?rest = "\<lambda>a. bindQ (onErr (GetSystemAccountByCode env (src @ ''_IN_'' @ acc_Currency a))
        (not_found_as ErrSystemAccountNotFound)) (\<lambda>y.
      if acc_Type y \<noteq> accountTypeSystem then throw (ServiceError ErrSystemAccountNotFound)
      else if acc_ID a = acc_ID y then throw (ServiceError ErrSameAccount)
      else transfer (queries env) \<lparr>p_From = acc_ID y, p_To = i, p_Amount = n, p_Type = TxTypeDeposit,
        p_IdempotencyKey = k, p_ReversalOf = None\<rparr>)"
  let ?get = "onErr (GetAccount env i) (not_found_as ErrDestinationAccountNotFound)"
  have get: "errs deposit_errors ?get"
    by (intro query_errors) (simp add: deposit_errors_def core_errors_def)
  from assms(1) show ?thesis
    unfolding deposit_closure_queries
  proof (rule bindQ_InlE)
    assume "?get s = (Inl e, s')"
    with get show ?thesis by (rule errsD)
  next
    fix a s1
    assume a: "?get s = (Inr a, s1)" and rest: "(if acc_Type a \<noteq> accountTypeUser
      then throw (ServiceError ErrInvalidDepositDestination) else ?rest a) s1 = (Inl e, s')"
    show ?thesis
    proof (cases "acc_Type a = accountTypeUser")
      case True
      with rest have rest: "?rest a s1 = (Inl e, s')" by simp
      from a have "GetAccount env i s = (Inr a, s1)" by (rule onErr_not_found_InrE)
      from system_lookup_errors [OF rest this True assms(2)] show ?thesis
        by (rule from_set_mono) (auto simp: deposit_errors_def)
    next
      case False
      with rest show ?thesis by (auto simp: throw_def deposit_errors_def)
    qed
  qed
qed

lemma withdraw_closure_errors:
  assumes "withdraw_closure (queries env) i n dst k s = (Inl e, s')" "distinct (map a_id (accounts (s_db s)))"
  shows "from_set withdraw_errors e"
proof -
  let ?rest = "\<lambda>a. bindQ (onErr (GetSystemAccountByCode env (dst @ ''_OUT_'' @ acc_Currency a))
        (not_found_as ErrSystemAccountNotFound)) (\<lambda>y.
      if acc_Type y \<noteq> accountTypeSystem then throw (ServiceError ErrSystemAccountNotFound)
      else if acc_ID a = acc_ID y then throw (ServiceError ErrSameAccount)
      else transfer (queries env) \<lparr>p_From = i, p_To = acc_ID y, p_Amount = n, p_Type = TxTypeWithdrawal,
        p_IdempotencyKey = k, p_ReversalOf = None\<rparr>)"
  let ?get = "onErr (GetAccount env i) (not_found_as ErrSourceAccountNotFound)"
  have get: "errs withdraw_errors ?get"
    by (intro query_errors) (simp add: withdraw_errors_def core_errors_def)
  from assms(1) show ?thesis
    unfolding withdraw_closure_queries
  proof (rule bindQ_InlE)
    assume "?get s = (Inl e, s')"
    with get show ?thesis by (rule errsD)
  next
    fix a s1
    assume a: "?get s = (Inr a, s1)" and rest: "(if acc_Type a \<noteq> accountTypeUser
      then throw (ServiceError ErrInvalidWithdrawSource) else ?rest a) s1 = (Inl e, s')"
    show ?thesis
    proof (cases "acc_Type a = accountTypeUser")
      case True
      with rest have rest: "?rest a s1 = (Inl e, s')" by simp
      from a have "GetAccount env i s = (Inr a, s1)" by (rule onErr_not_found_InrE)
      from system_lookup_errors [OF rest this True assms(2)] show ?thesis
        by (rule from_set_mono) (auto simp: withdraw_errors_def)
    next
      case False
      with rest show ?thesis by (auto simp: throw_def withdraw_errors_def)
    qed
  qed
qed

section \<open>Requests\<close>

text \<open>The error of a transaction is its function's, or the driver's.\<close>

lemma WithTx_error:
  "WithTx env fn d = ((res, Some e), d') \<Longrightarrow>
   (\<exists>msg. e = DriverError msg) \<or> (\<exists>r s'. fn (fresh_session d) = ((r, Some e), s'))"
  by (auto simp: WithTx_def split: option.splits prod.splits commit_outcome.splits)

lemma capture_error: "capture m s = ((r, Some e), s') \<Longrightarrow> m s = (Inl e, s')"
  by (auto simp: capture_def split: prod.splits sum.splits)

lemma WithTx_capture_error:
  assumes "WithTx env (capture m) d = ((res, Some e), d')"
    and "\<And>s'. m (fresh_session d) = (Inl e, s') \<Longrightarrow> from_set S e"
  shows "from_set S e"
  using WithTx_error [OF assms(1)] assms(2) by (auto dest: capture_error)

text \<open>The sentinels a request may be answered with.\<close>

fun request_errors :: "request \<Rightarrow> service_error set" where
  "request_errors (Transfer_req a b n k) = transfer_errors
     \<union> (if n \<le> 0 then {ErrInvalidAmount} else {}) \<union> (if a = b then {ErrSameAccount} else {})"
| "request_errors (Deposit_req i n src k) = deposit_errors \<union> (if n \<le> 0 then {ErrInvalidAmount} else {})"
| "request_errors (Withdraw_req i n dst k) = withdraw_errors \<union> (if n \<le> 0 then {ErrInvalidAmount} else {})"
| "request_errors (Reverse_req i k) = reverse_errors"

lemma reverse_closure_errors:
  assumes "reverse_closure (queries env) i k s = ((r, Some e), s')"
  shows "from_set reverse_errors e"
proof -
  have "errs reverse_errors (bindQ (reversible (queries env) i) (\<lambda>tx. transfer (queries env) (reversal_params tx k)))"
    by (intro query_errors errs_reversible errs_mono [OF errs_transfer]) (auto simp: reverse_errors_def)
  with assms show ?thesis
    by (auto simp: reverse_closure_queries split: sum.splits prod.splits dest: errsD
        errsD [OF errs_UpdateTransactionStatus [of reverse_errors]])
qed

lemma serve_errors:
  assumes "serve env req d = ((res, Some e), d')" "distinct (map a_id (accounts d))"
  shows "from_set (request_errors req) e"
proof (cases req)
  case (Transfer_req a b n k)
  with assms(1) show ?thesis
    by (auto simp: Transfer_def split: if_splits
        elim!: WithTx_capture_error dest!: errsD [OF errs_transfer_closure] intro: from_set_mono)
next
  case (Deposit_req i n src k)
  with assms show ?thesis
    by (auto simp: Deposit_def fresh_session_def split: if_splits
        elim!: WithTx_capture_error dest!: deposit_closure_errors)
next
  case (Withdraw_req i n dst k)
  with assms show ?thesis
    by (auto simp: Withdraw_def fresh_session_def split: if_splits
        elim!: WithTx_capture_error dest!: withdraw_closure_errors)
next
  case (Reverse_req i k)
  with assms(1) show ?thesis
    by (auto simp: Reverse_def dest!: WithTx_error reverse_closure_errors)
qed

text \<open>A sentinel never comes with a change of the tables.\<close>

lemma serve_sentinel:
  assumes "serve env req d = ((res, Some e), d')" "errors_Is e (ServiceError x)"
  shows "same_tables d d'"
  using assms(1)
  by (cases rule: serve_cases) (use assms(2) in \<open>auto simp: reported_def\<close>)

text \<open>The reading operations.\<close>

lemma reading_errors:
  "AccountBalance env i d = (Inl e, d') \<Longrightarrow> from_set {ErrAccountNotFound} e"
  "AccountTransactionsHistory env i lim before d = (Inl e, d') \<Longrightarrow> from_set {ErrAccountNotFound} e"
proof -
  have b: "errs {ErrAccountNotFound} (account_balance_closure (queries env) i)"
    unfolding account_balance_closure_queries by (intro query_errors) simp
  show "AccountBalance env i d = (Inl e, d') \<Longrightarrow> from_set {ErrAccountNotFound} e"
    by (auto simp: AccountBalance_def split: prod.splits option.splits
        elim!: WithTx_capture_error dest: errsD [OF b])
  have h: "errs {ErrAccountNotFound} (history_closure (queries env) i n before)" for n
    unfolding history_closure_queries by (intro query_errors) simp
  show "AccountTransactionsHistory env i lim before d = (Inl e, d') \<Longrightarrow> from_set {ErrAccountNotFound} e"
    by (auto simp: AccountTransactionsHistory_def Let_def split: prod.splits option.splits
        elim!: WithTx_capture_error dest: errsD [OF h])
qed

end
