(* ===== verification/Handler_Facts.thy ===== *)
theory Handler_Facts
  imports Handler Error_Origins Evolution Effects
begin

text \<open>
  The handlers taken apart: what a request to move money asks for once its key, body and parameters
  have been read and checked (\<open>ask\<close>), and the service's method that is then performed. The contract
  between handlers and service is a locale; the ledger's operations are its interpretation.
\<close>

section \<open>Responses\<close>

lemma writeJSON_Inr [simp]:
  "writeJSON status (Inr d) =
     Inr \<lparr>rs_Status = status, rs_Content_Type = Some ''application/json'', rs_Body = render 0 d @ [CHR 0x0A]\<rparr>"
  by (simp add: writeJSON_def)

lemma errorResponse_eq:
  "errorResponse status m =
     \<lparr>rs_Status = status, rs_Content_Type = Some ''application/json'',
      rs_Body = render 0 (error_doc m) @ [CHR 0x0A]\<rparr>"
  by (simp add: errorResponse_def)

lemma response_status [simp]:
  "rs_Status (errorResponse status m) = status" "rs_Status (serverErrorResponse e) = 500"
  "rs_Status (badRequestResponse e) = 400" "rs_Status (notFoundResponse e) = 404"
  "rs_Status (unprocessableEntityResponse e) = 422" "rs_Status (conflictResponse e) = 409"
  "rs_Status (failedValidationResponse es) = 400" "rs_Status (routeNotFoundResponse r) = 404"
  "rs_Status (methodNotAllowedResponse r) = 405" "rs_Status bad_id = 404"
  by (simp_all add: errorResponse_eq serverErrorResponse_def badRequestResponse_def notFoundResponse_def
      unprocessableEntityResponse_def conflictResponse_def failedValidationResponse_def
      routeNotFoundResponse_def methodNotAllowedResponse_def bad_id_def)

lemma serverErrorResponse_same: "serverErrorResponse e = serverErrorResponse e'"
  by (simp add: serverErrorResponse_def)

text \<open>A response is the document under its key, or the server error.\<close>

lemma respond_cases:
  obtains d where "data = Inr d" "respond status k data =
      \<lparr>rs_Status = status, rs_Content_Type = Some ''application/json'',
       rs_Body = render 0 (Obj_doc [(k, d)]) @ [CHR 0x0A]\<rparr>"
  | e where "data = Inl e" "respond status k data = serverErrorResponse e"
  by (cases data) (auto simp: respond_def writeJSON_def)

lemma respond_status: "rs_Status (respond status k data) \<in> {status, 500}"
  by (rule respond_cases [of data status k]) auto

text \<open>The status of an error, by the sentinel it is or wraps.\<close>

definition domain_statuses :: "int set" where "domain_statuses = {400, 404, 409, 422}"

lemma handleError_status:
  "rs_Status (handleError e) = 500 \<and> handleError e = serverErrorResponse e \<or>
   rs_Status (handleError e) \<in> domain_statuses \<and> (\<exists>x. errors_Is e (ServiceError x))"
  by (auto simp: handleError_def domain_statuses_def is_one_of_def)

lemma handleError_bad_request:
  "rs_Status (handleError e) = 400 \<longleftrightarrow>
     errors_Is e (ServiceError ErrInvalidAmount) \<or> errors_Is e (ServiceError ErrSameAccount)"
  by (auto simp: handleError_def is_one_of_def)

section \<open>What a request asks for\<close>

definition ask_transfer :: "(int \<Rightarrow> bool) \<Rightarrow> http_request \<Rightarrow> http_response + request" where
  "ask_transfer printable r =
     (case idempotencyKey r of
        Inl err \<Rightarrow> Inl (badRequestResponse err)
      | Inr key \<Rightarrow>
          (case readJSON printable transfer_fields set_transfer_field zero_transfer r of
             Inl err \<Rightarrow> Inl (badRequestResponse err)
           | Inr i \<Rightarrow>
               (let v = validate_transfer i newValidator in
                if \<not> Valid v then Inl (failedValidationResponse (v_Errors v))
                else Inr (Transfer_req (tr_FromAccountID i) (tr_ToAccountID i) (tr_Amount i) key))))"

definition ask_deposit :: "(int \<Rightarrow> bool) \<Rightarrow> http_request \<Rightarrow> http_response + request" where
  "ask_deposit printable r =
     (case idempotencyKey r of
        Inl err \<Rightarrow> Inl (badRequestResponse err)
      | Inr key \<Rightarrow>
          (case readJSON printable deposit_fields set_deposit_field zero_deposit r of
             Inl err \<Rightarrow> Inl (badRequestResponse err)
           | Inr i \<Rightarrow>
               (let v = validate_deposit i newValidator in
                if \<not> Valid v then Inl (failedValidationResponse (v_Errors v))
                else Inr (Deposit_req (dr_AccountID i) (dr_Amount i) (dr_Source i) key))))"

definition ask_withdraw :: "(int \<Rightarrow> bool) \<Rightarrow> http_request \<Rightarrow> http_response + request" where
  "ask_withdraw printable r =
     (case idempotencyKey r of
        Inl err \<Rightarrow> Inl (badRequestResponse err)
      | Inr key \<Rightarrow>
          (case readJSON printable withdraw_fields set_withdraw_field zero_withdraw r of
             Inl err \<Rightarrow> Inl (badRequestResponse err)
           | Inr i \<Rightarrow>
               (let v = validate_withdraw i newValidator in
                if \<not> Valid v then Inl (failedValidationResponse (v_Errors v))
                else Inr (Withdraw_req (wr_AccountID i) (wr_Amount i) (wr_Destination i) key))))"

definition ask_reversal :: "http_request \<Rightarrow> http_response + request" where
  "ask_reversal r =
     (case idempotencyKey r of
        Inl err \<Rightarrow> Inl (badRequestResponse err)
      | Inr key \<Rightarrow>
          (case ParseInt (get_value (rq_Params r) ''id'') of
             Inl _ \<Rightarrow> Inl bad_id
           | Inr i \<Rightarrow> Inr (Reverse_req i key)))"

fun moves_money :: "endpoint \<Rightarrow> bool" where
  "moves_money e = (e \<in> {Transfers, Deposits, Withdrawals, Reversals})"

fun ask :: "(int \<Rightarrow> bool) \<Rightarrow> endpoint \<Rightarrow> http_request \<Rightarrow> http_response + request" where
  "ask printable Transfers r = ask_transfer printable r"
| "ask printable Deposits r = ask_deposit printable r"
| "ask printable Withdrawals r = ask_withdraw printable r"
| "ask printable _ r = ask_reversal r"

fun perform :: "'s service_api \<Rightarrow> request \<Rightarrow> 's money_method" where
  "perform service (Transfer_req a b n k) = api_Transfer service a b n k"
| "perform service (Deposit_req i n src k) = api_Deposit service i n src k"
| "perform service (Withdraw_req i n dst k) = api_Withdraw service i n dst k"
| "perform service (Reverse_req i k) = api_Reverse service i k"

lemma dispatch_money:
  "moves_money e \<Longrightarrow> dispatch printable build service e r s =
     (case ask printable e r of
        Inl resp \<Rightarrow> (Reply resp, s)
      | Inr req \<Rightarrow> (case perform service req s of (out, s') \<Rightarrow> (money_reply out, s')))"
  by (auto simp: transferHandler_def depositHandler_def withdrawHandler_def reverseHandler_def
      ask_transfer_def ask_deposit_def ask_withdraw_def ask_reversal_def Let_def split: sum.splits)

lemma ask_refuses: "ask printable e r = Inl resp \<Longrightarrow> rs_Status resp \<in> {400, 404}"
  by (cases "(printable, e, r)" rule: ask.cases)
    (auto simp: ask_transfer_def ask_deposit_def ask_withdraw_def ask_reversal_def Let_def
      split: sum.splits if_splits)

section \<open>Validation\<close>

lemma v_Errors_newValidator [simp]: "v_Errors newValidator = []"
  by (simp add: newValidator_def)

lemma Valid_newValidator [simp]: "Valid newValidator"
  by (simp add: Valid_def)

lemma Valid_Check [simp]: "Valid (Check ok k m v) \<longleftrightarrow> ok \<and> Valid v"
  by (cases "v_Errors v") (auto simp: Valid_def Check_def AddError_def)

text \<open>The message of a field is the one of its first failed check.\<close>

lemma errors_Check [simp]:
  "map_of (v_Errors (Check ok k m v)) x =
     (if x = k \<and> \<not> ok \<and> map_of (v_Errors v) k = None then Some m else map_of (v_Errors v) x)"
  by (auto simp: Check_def AddError_def map_add_def split: option.splits)

lemma Valid_transfer:
  "Valid (validate_transfer i newValidator) \<longleftrightarrow>
     0 < tr_FromAccountID i \<and> 0 < tr_ToAccountID i \<and> tr_FromAccountID i \<noteq> tr_ToAccountID i \<and> 0 < tr_Amount i"
  by (auto simp: validate_transfer_def Let_def)

lemma Valid_deposit:
  "Valid (validate_deposit i newValidator) \<longleftrightarrow>
     0 < dr_AccountID i \<and> 0 < dr_Amount i \<and> dr_Source i \<in> {''ATM'', ''BANK''}"
  by (auto simp: validate_deposit_def Let_def)

lemma Valid_withdraw:
  "Valid (validate_withdraw i newValidator) \<longleftrightarrow>
     0 < wr_AccountID i \<and> 0 < wr_Amount i \<and> wr_Destination i \<in> {''ATM'', ''BANK''}"
  by (auto simp: validate_withdraw_def Let_def)

section \<open>Decoded integers\<close>

lemma decode_members_keeps:
  assumes "\<And>f v raw r r'. P r \<Longrightarrow> set_field f v raw r = Inr r' \<Longrightarrow> P r'"
  shows "decode_members strict names set_field ms r = Inr r' \<Longrightarrow> P r \<Longrightarrow> P r'"
proof (induction ms arbitrary: r)
  case (Cons m ms)
  obtain k v raw where m: "m = (k, v, raw)" by (cases m)
  from Cons show ?case
    by (auto simp: m split: option.splits sum.splits if_splits dest: assms)
qed simp

lemma readJSON_keeps:
  assumes "readJSON printable names set_field dst r = Inr i" "P dst"
    and "\<And>f v raw r r'. P r \<Longrightarrow> set_field f v raw r = Inr r' \<Longrightarrow> P r'"
  shows "P i"
proof -
  have keeps: "decode_members strict names set_field ms dst = Inr i \<Longrightarrow> P i" for strict ms
    by (rule decode_members_keeps [where P = P, OF assms(3) _ assms(2)])
  from assms(1,2) keeps show ?thesis
    by (auto simp: readJSON_def decode_struct_def Let_def split: prod.splits sum.splits json.splits if_splits)
qed

lemma set_int_in_int64: "set_int f v old = Inr i \<Longrightarrow> in_int64 old \<Longrightarrow> in_int64 i"
  by (auto simp: set_int_def ParseInt_def Let_def split: json.splits sum.splits prod.splits option.splits if_splits)

lemma ParseInt_in_int64: "ParseInt s = Inr i \<Longrightarrow> in_int64 i"
  by (auto simp: ParseInt_def Let_def split: prod.splits option.splits if_splits)

lemma in_int64_0 [simp]: "in_int64 0"
  by (simp add: in_int64_def)

lemma transfer_amount: "readJSON printable transfer_fields set_transfer_field zero_transfer r = Inr i \<Longrightarrow> in_int64 (tr_Amount i)"
  by (erule readJSON_keeps [where P = "\<lambda>x. in_int64 (tr_Amount x)"])
    (auto simp: zero_transfer_def set_transfer_field_def map_sum_def split: if_splits sum.splits dest: set_int_in_int64)

lemma deposit_amount: "readJSON printable deposit_fields set_deposit_field zero_deposit r = Inr i \<Longrightarrow> in_int64 (dr_Amount i)"
  by (erule readJSON_keeps [where P = "\<lambda>x. in_int64 (dr_Amount x)"])
    (auto simp: zero_deposit_def set_deposit_field_def map_sum_def split: if_splits sum.splits dest: set_int_in_int64)

lemma withdraw_amount: "readJSON printable withdraw_fields set_withdraw_field zero_withdraw r = Inr i \<Longrightarrow> in_int64 (wr_Amount i)"
  by (erule readJSON_keeps [where P = "\<lambda>x. in_int64 (wr_Amount x)"])
    (auto simp: zero_withdraw_def set_withdraw_field_def map_sum_def split: if_splits sum.splits dest: set_int_in_int64)

text \<open>What holds of every request a handler passes on.\<close>

definition key_of :: "http_request \<Rightarrow> string" where
  "key_of r = get_value (rq_Header r) ''Idempotency-Key''"

fun screened :: "request \<Rightarrow> bool" where
  "screened (Transfer_req a b n k) \<longleftrightarrow> 0 < a \<and> 0 < b \<and> a \<noteq> b \<and> 0 < n"
| "screened (Deposit_req i n src k) \<longleftrightarrow> 0 < i \<and> 0 < n \<and> src \<in> {''ATM'', ''BANK''}"
| "screened (Withdraw_req i n dst k) \<longleftrightarrow> 0 < i \<and> 0 < n \<and> dst \<in> {''ATM'', ''BANK''}"
| "screened (Reverse_req i k) \<longleftrightarrow> in_int64 i"

lemma ask_passes:
  assumes "ask printable e r = Inr req"
  shows "screened req \<and> typed req \<and> request_key req = key_of r \<and> key_of r \<noteq> ''''"
  using assms
  by (cases "(printable, e, r)" rule: ask.cases)
    (auto simp: ask_transfer_def ask_deposit_def ask_withdraw_def ask_reversal_def Let_def idempotencyKey_def
      key_of_def Valid_transfer Valid_deposit Valid_withdraw transfer_amount deposit_amount withdraw_amount
      ParseInt_in_int64 split: sum.splits if_splits)

section \<open>The contract of the service\<close>

text \<open>
  What the handlers rely on: a success comes with a result, an error that is a sentinel comes with no
  visible change, and reading changes nothing. \<open>same\<close> is what cannot be told apart.
\<close>

lemma money_reply_simps [simp]:
  "money_reply (res, Some e) = Reply (handleError e)" "money_reply (None, None) = Nil_pointer"
  "money_reply (Some x, None) = Reply (writeTransaction x)"
  by (simp_all add: money_reply_def split: option.split)

locale money_service =
  fixes service :: "'s service_api" and same :: "'s \<Rightarrow> 's \<Rightarrow> bool"
  assumes same_refl: "same s s"
    and success_has_result: "perform service req s = ((res, None), s') \<Longrightarrow> res \<noteq> None"
    and sentinel_same: "perform service req s = ((res, Some err), s') \<Longrightarrow> errors_Is err (ServiceError x) \<Longrightarrow> same s s'"
    and balance_reads: "api_AccountBalance service i s = (b, s') \<Longrightarrow> same s s'"
    and history_reads: "api_AccountTransactionsHistory service i limit before s = (h, s') \<Longrightarrow> same s s'"
begin

lemma money_reply_cases:
  assumes "perform service req s = (out, s')"
  shows "\<exists>resp. money_reply out = Reply resp \<and>
    (rs_Status resp \<in> domain_statuses \<and> same s s' \<or> rs_Status resp \<in> {200, 201, 500})"
proof -
  obtain res err where out: "out = (res, err)" by fastforce
  show ?thesis
  proof (cases err)
    case None
    with assms out success_has_result [of req s res s'] obtain x where "res = Some x" by auto
    moreover have "rs_Status (writeTransaction x) \<in> {200, 201, 500}"
      using respond_status [of "if r_Replayed x then 200 else 201" "''transaction''" "transaction_doc (newResponse x)"]
      by (auto simp: writeTransaction_def split: if_splits)
    ultimately show ?thesis using None out by auto
  next
    case (Some e)
    with assms out sentinel_same handleError_status [of e] show ?thesis
      by auto
  qed
qed

definition statuses :: "int set" where "statuses = {200, 201, 400, 404, 405, 409, 422, 500}"

lemma read_replies:
  assumes "\<not> moves_money e" "dispatch printable build service e r s = (rep, s')"
  shows "same s s' \<and> (\<exists>resp. rep = Reply resp \<and> rs_Status resp \<in> insert 200 (insert 500 domain_statuses))"
proof -
  have st: "rs_Status (handleError x) \<in> insert 500 domain_statuses" for x
    using handleError_status [of x] by auto
  have ok: "rs_Status (respond 200 k data) \<in> {200, 500}" for k data by (rule respond_status)
  have hist: "rs_Status (failedValidationResponse es) \<in> domain_statuses" "rs_Status bad_id \<in> domain_statuses" for es
    by (simp_all add: domain_statuses_def)
  have hc: "rs_Status (healthcheckHandler build) = 200" by (simp add: healthcheckHandler_def)
  show ?thesis
  proof (cases e)
    case Healthcheck
    with assms hc same_refl show ?thesis by auto
  next
    case Account_balance
    with assms(2) st ok hist same_refl show ?thesis
      by (fastforce simp: accountBalanceHandler_def split: sum.splits prod.splits dest: balance_reads)
  next
    case Account_history
    with assms(2) st ok hist same_refl show ?thesis
      by (fastforce simp: accountHistoryHandler_def Let_def split: sum.splits prod.splits if_splits dest: history_reads)
  qed (use assms(1) in simp_all)
qed

lemma money_replies:
  assumes "moves_money e" "dispatch printable build service e r s = (rep, s')"
  shows "\<exists>resp. rep = Reply resp \<and>
    (rs_Status resp \<in> domain_statuses \<and> same s s' \<or> rs_Status resp \<in> {200, 201, 500})"
proof (cases "ask printable e r")
  case (Inl resp)
  with assms ask_refuses [OF Inl] show ?thesis
    by (auto simp: dispatch_money domain_statuses_def same_refl)
next
  case (Inr req)
  obtain out s1 where run: "perform service req s = (out, s1)" by fastforce
  with assms Inr money_reply_cases [OF run] show ?thesis by (auto simp: dispatch_money)
qed

text \<open>A created transaction comes from a request that was performed.\<close>

lemma created:
  assumes "Routes printable chi build service r s = (Reply resp, s')" "rs_Status resp = 201"
  obtains req res where "screened req" "typed req" "request_key req = key_of r"
    "perform service req s = ((Some res, None), s')" "\<not> r_Replayed res" "resp = writeTransaction res"
proof (cases "chi routes r")
  case (Route e ps)
  let ?r = "r\<lparr>rq_Params := ps\<rparr>"
  from assms(1) Route have run: "dispatch printable build service e ?r s = (Reply resp, s')"
    by (simp add: Routes_def)
  have money: "moves_money e"
    using read_replies [OF _ run] assms(2) by (auto simp: domain_statuses_def)
  show thesis
  proof (cases "ask printable e ?r")
    case (Inl resp')
    with run money ask_refuses [OF Inl] assms(2) show thesis by (simp add: dispatch_money)
  next
    case (Inr req)
    obtain res err s1 where p: "perform service req s = ((res, err), s1)" by (metis prod.collapse)
    with run money Inr have reply: "money_reply (res, err) = Reply resp" "s' = s1"
      by (simp_all add: dispatch_money)
    have none: "err = None"
    proof (cases err)
      case (Some e)
      with reply(1) have "resp = handleError e" by simp
      with handleError_status [of e] assms(2) show ?thesis by (auto simp: domain_statuses_def)
    qed
    with reply(1) obtain x where x: "res = Some x" "resp = writeTransaction x" by (cases res) auto
    have "\<not> r_Replayed x"
      using x(2) assms(2) respond_status [of 200 "''transaction''" "transaction_doc (newResponse x)"]
      by (auto simp: writeTransaction_def)
    with ask_passes [OF Inr] p x none reply that [of req x] show thesis by (simp add: key_of_def)
  qed
qed (use assms in \<open>auto simp: Routes_def\<close>)

text \<open>Every request is answered, and an answer that blames the client changed nothing.\<close>

lemma answers:
  assumes "Routes printable chi build service r s = (rep, s')"
  obtains resp where "rep = Reply resp" "rs_Status resp \<in> statuses"
    "400 \<le> rs_Status resp \<Longrightarrow> rs_Status resp < 500 \<Longrightarrow> same s s'"
proof (cases "chi routes r")
  case (Route e ps)
  with assms have run: "dispatch printable build service e (r\<lparr>rq_Params := ps\<rparr>) s = (rep, s')"
    by (simp add: Routes_def)
  show thesis
  proof (cases "moves_money e")
    case True
    from money_replies [OF True run] that show thesis by (auto simp: statuses_def domain_statuses_def)
  next
    case False
    from read_replies [OF False run] that show thesis by (auto simp: statuses_def domain_statuses_def)
  qed
qed (use assms that same_refl in \<open>auto simp: Routes_def statuses_def\<close>)

end

text \<open>The ledger's operations as the service of the handlers, each call in the environment given.\<close>

definition ledger_service :: "env \<Rightarrow> db service_api" where
  "ledger_service env =
     \<lparr>api_Transfer = Transfer env, api_Deposit = Deposit env, api_Withdraw = Withdraw env,
      api_Reverse = Reverse env, api_AccountBalance = AccountBalance env,
      api_AccountTransactionsHistory = AccountTransactionsHistory env\<rparr>"

lemma perform_ledger [simp]: "perform (ledger_service env) req = serve env req"
  by (cases req) (simp_all add: ledger_service_def fun_eq_iff)

lemma ledger_service_reads [simp]:
  "api_AccountBalance (ledger_service env) = AccountBalance env"
  "api_AccountTransactionsHistory (ledger_service env) = AccountTransactionsHistory env"
  by (simp_all add: ledger_service_def)

interpretation ledger: money_service "ledger_service env" same_tables
  for env :: env
proof unfold_locales
  fix req s res s'
  assume "perform (ledger_service env) req s = ((res, None), s')"
  then have "serve env req s = ((res, None), s')" by simp
  then show "res \<noteq> None" by (cases rule: serve_cases) auto
next
  fix i s b s'
  assume "api_AccountBalance (ledger_service env) i s = (b, s')"
  then show "same_tables s s'" using AccountBalance_reads [of env i s] by simp
next
  fix i limit before s h s'
  assume "api_AccountTransactionsHistory (ledger_service env) i limit before s = (h, s')"
  then show "same_tables s s'" using AccountTransactionsHistory_reads [of env i limit before s] by simp
qed (auto dest: serve_sentinel)

text \<open>A 400 to a reading request is decided before the ledger is asked.\<close>

lemma reading_never_bad_request:
  assumes "from_set {ErrAccountNotFound} err"
  shows "rs_Status (handleError err) \<noteq> 400"
  using assms by (auto simp: handleError_bad_request from_set_def)

lemma read_bad_request:
  assumes "\<not> moves_money e" "dispatch printable build (ledger_service env) e r d = (Reply resp, d')"
    "rs_Status resp = 400"
  shows "d' = d \<and> dispatch printable build service e r s = (Reply resp, s)"
proof -
  have ok: "rs_Status (respond 200 k data) \<noteq> 400" for k data
    using respond_status [of 200 k data] by auto
  show ?thesis
  proof (cases e)
    case Healthcheck
    with assms(2,3) show ?thesis by (auto simp: healthcheckHandler_def)
  next
    case Account_balance
    with assms(2,3) ok show ?thesis
      by (auto simp: accountBalanceHandler_def reading_never_bad_request split: sum.splits prod.splits
          dest!: reading_errors(1))
  next
    case Account_history
    obtain limit before v where hp: "history_params (rq_Query r) = ((limit, before), v)"
      by (metis prod.collapse)
    show ?thesis
    proof (cases "Valid v")
      case True
      with Account_history hp assms(2,3) ok show ?thesis
        by (auto simp: accountHistoryHandler_def reading_never_bad_request split: sum.splits prod.splits
            dest!: reading_errors(2))
    next
      case False
      with Account_history hp assms(2) show ?thesis
        by (auto simp: accountHistoryHandler_def split: sum.splits)
    qed
  qed (use assms(1) in simp_all)
qed

lemma handleError_client:
  assumes "money_reply (res, err) = Reply resp" "rs_Status resp = 400"
  obtains e where "err = Some e" "resp = handleError e"
proof (cases err)
  case None
  with assms(1) obtain x where "res = Some x" "resp = writeTransaction x" by (cases res) auto
  with assms(2) respond_status [of "if r_Replayed x then 200 else 201" "''transaction''" "transaction_doc (newResponse x)"]
  show thesis by (auto simp: writeTransaction_def split: if_splits)
qed (use assms(1) that in auto)

section \<open>A response that reports a transaction\<close>

text \<open>The response to a request that posted or replayed: the document of that transaction.\<close>

definition reports :: "http_response \<Rightarrow> transaction_row \<Rightarrow> bool" where
  "reports resp t \<longleftrightarrow>
     (\<exists>d. transaction_doc (newResponse (newResult (scan_transaction t))) = Inr d \<and>
        rs_Body resp = render 0 (Obj_doc [(''transaction'', d)]) @ [CHR 0x0A])"

lemma writeTransaction_reports:
  assumes "rs_Status (writeTransaction r) \<noteq> 500" "r = (newResult (scan_transaction t))\<lparr>r_Replayed := b\<rparr>"
  shows "reports (writeTransaction r) t"
proof -
  let ?st = "if r_Replayed r then 200 else 201"
  have doc: "transaction_doc (newResponse r) = transaction_doc (newResponse (newResult (scan_transaction t)))"
    using assms(2) by (simp add: transaction_doc_def newResponse_def)
  show ?thesis
    by (rule respond_cases [of "transaction_doc (newResponse r)" ?st "''transaction''"])
      (use assms(1) doc in \<open>auto simp: writeTransaction_def reports_def\<close>)
qed

lemma moved_net_effect:
  "p_From p \<noteq> p_To p \<Longrightarrow> moved p bal a = bal a + net_effect a (new_transaction env p d)"
  by (simp add: moved_def net_effect_def)

end
