(* ===== verification/Body_Facts.thy ===== *)
theory Body_Facts
  imports Requests Json_Facts
begin

text \<open>
  Reading a request's body: what the streaming decoder of \<^verbatim>\<open>readJSON\<close> accepts is what a parser of
  the whole text accepts, and the bodies that clients write are read back.
\<close>

section \<open>One value\<close>

lemma scan_space:
  "list_all json_space ws \<Longrightarrow> scan Begin_value [] (ws @ s) = scan Begin_value [] s"
  by (induction ws) (simp_all add: scan.simps)

lemma scan_only_space: "list_all json_space ws \<Longrightarrow> scan Begin_value [] ws = Truncated"
  using scan_space [of ws "[]"] by (simp add: scan.simps)

lemma next_value_end: "next_value s e = Inl (Ended_by Eof) \<longleftrightarrow> e = Eof \<and> list_all json_space s"
proof
  assume "next_value s e = Inl (Ended_by Eof)"
  then show "e = Eof \<and> list_all json_space s"
    by (auto simp: next_value_def split: scanned.splits if_splits)
next
  assume "e = Eof \<and> list_all json_space s"
  then show "next_value s e = Inl (Ended_by Eof)"
    by (simp add: next_value_def scan_only_space)
qed

text \<open>The first value, when nothing but space follows it.\<close>

lemma next_value_whole:
  "(\<exists>rest. next_value s Eof = Inr (v, rest) \<and> list_all json_space rest) \<longleftrightarrow> json_value s = Some v"
  by (auto simp: next_value_def json_value_def split: scanned.splits)

lemma limited_cases:
  "limited n (s, e) = (if n < length s then (take n s, Too_large) else (s, e))"
  by (simp add: limited_def)

section \<open>The decoder and the whole text\<close>

lemma readJSON_steps:
  "readJSON printable names set_field dst r = Inr i \<longleftrightarrow>
     (\<exists>s v rest. limited maxBytes (rq_Body r, rq_End r) = (s, Eof) \<and> next_value s Eof = Inr (v, rest) \<and>
        decode_struct True names set_field v dst = Inr i \<and> list_all json_space rest)"
  by (cases "limited maxBytes (rq_Body r, rq_End r)")
    (auto simp: readJSON_def Let_def next_value_end split: sum.splits)

lemma readJSON_whole:
  "readJSON printable names set_field dst r = Inr i \<longleftrightarrow>
     length (rq_Body r) \<le> maxBytes \<and> rq_End r = Eof \<and>
     (\<exists>v. json_value (rq_Body r) = Some v \<and> decode_struct True names set_field v dst = Inr i)"
proof -
  have "limited maxBytes (rq_Body r, rq_End r) = (s, Eof) \<longleftrightarrow>
      length (rq_Body r) \<le> maxBytes \<and> rq_End r = Eof \<and> s = rq_Body r" for s
    by (auto simp: limited_cases)
  then show ?thesis
    unfolding readJSON_steps using next_value_whole [of "rq_Body r"] by metis
qed

section \<open>Bodies that clients write\<close>

text \<open>An object, with space around it.\<close>

definition spaced :: "string \<Rightarrow> string \<Rightarrow> bool" where
  "spaced obj body \<longleftrightarrow> (\<exists>ws ws'. body = ws @ obj @ ws' \<and> list_all json_space ws \<and> list_all json_space ws')"

lemma json_value_spaced:
  assumes "list_all2 (\<lambda>(k, t). value_text n t) ms vs" "ms \<noteq> []" "Suc n \<le> maxNestingDepth"
    "spaced (json_object ms) body"
  shows "json_value body = Some (JObj (parsed_members ms vs))"
proof -
  from assms(4) obtain ws ws' where body: "body = ws @ json_object ms @ ws'" "list_all json_space ws"
    "list_all json_space ws'" by (auto simp: spaced_def)
  have "scan Begin_value [] body = Parsed (JObj (parsed_members ms vs)) ws'"
    using scan_object [OF assms(1,2), of "[]" ws'] assms(3)
    by (simp add: body scan_space finish_value_def)
  then show ?thesis using body(3) by (simp add: json_value_def)
qed

lemma request_keys:
  "map (\<lambda>k. unquote (json_body k)) transfer_fields = transfer_fields"
  "map (\<lambda>k. unquote (json_body k)) deposit_fields = deposit_fields"
  "map (\<lambda>k. unquote (json_body k)) withdraw_fields = withdraw_fields"
  by code_simp+

definition transfer_text :: "transfer_request \<Rightarrow> string" where
  "transfer_text i =
     json_object [(''from_account_id'', FormatInt (tr_FromAccountID i)),
       (''to_account_id'', FormatInt (tr_ToAccountID i)), (''amount'', FormatInt (tr_Amount i))]"

definition deposit_text :: "deposit_request \<Rightarrow> string" where
  "deposit_text i =
     json_object [(''account_id'', FormatInt (dr_AccountID i)), (''amount'', FormatInt (dr_Amount i)),
       (''source'', json_string (dr_Source i))]"

definition withdraw_text :: "withdraw_request \<Rightarrow> string" where
  "withdraw_text i =
     json_object [(''account_id'', FormatInt (wr_AccountID i)), (''amount'', FormatInt (wr_Amount i)),
       (''destination'', json_string (wr_Destination i))]"

lemma read_transfer:
  assumes "in_int64 (tr_FromAccountID i)" "in_int64 (tr_ToAccountID i)" "in_int64 (tr_Amount i)"
    "spaced (transfer_text i) (rq_Body r)" "length (rq_Body r) \<le> maxBytes" "rq_End r = Eof"
  shows "readJSON printable transfer_fields set_transfer_field zero_transfer r = Inr i"
proof -
  let ?ms = "[(''from_account_id'', FormatInt (tr_FromAccountID i)),
       (''to_account_id'', FormatInt (tr_ToAccountID i)), (''amount'', FormatInt (tr_Amount i))]"
  let ?vs = "[JNum (FormatInt (tr_FromAccountID i)), JNum (FormatInt (tr_ToAccountID i)), JNum (FormatInt (tr_Amount i))]"
  have "json_value (rq_Body r) = Some (JObj (parsed_members ?ms ?vs))"
    using assms(1-4) by (intro json_value_spaced [of 0])
      (simp_all add: value_text_number transfer_text_def maxNestingDepth_def)
  moreover have "decode_struct True transfer_fields set_transfer_field (JObj (parsed_members ?ms ?vs)) zero_transfer = Inr i"
    using assms(1-3) request_keys(1)
    by (simp add: decode_struct_def parsed_members_def decode_members_exact transfer_fields_def
        set_transfer_field_def set_int_def ParseInt_FormatInt zero_transfer_def del: decode_members.simps(2))
  ultimately show ?thesis using assms(5,6) by (auto simp: readJSON_whole)
qed

lemma read_deposit:
  assumes "in_int64 (dr_AccountID i)" "in_int64 (dr_Amount i)" "ascii (dr_Source i)"
    "spaced (deposit_text i) (rq_Body r)" "length (rq_Body r) \<le> maxBytes" "rq_End r = Eof"
  shows "readJSON printable deposit_fields set_deposit_field zero_deposit r = Inr i"
proof -
  let ?ms = "[(''account_id'', FormatInt (dr_AccountID i)), (''amount'', FormatInt (dr_Amount i)),
       (''source'', json_string (dr_Source i))]"
  let ?vs = "[JNum (FormatInt (dr_AccountID i)), JNum (FormatInt (dr_Amount i)), JStr (unquote (json_body (dr_Source i)))]"
  have "json_value (rq_Body r) = Some (JObj (parsed_members ?ms ?vs))"
    using assms(1-4) by (intro json_value_spaced [of 0])
      (simp_all add: value_text_number value_text_string deposit_text_def maxNestingDepth_def)
  moreover have "decode_struct True deposit_fields set_deposit_field (JObj (parsed_members ?ms ?vs)) zero_deposit = Inr i"
    using assms(1-3) request_keys(2)
    by (simp add: decode_struct_def parsed_members_def decode_members_exact deposit_fields_def unquote_json_body
        set_deposit_field_def set_int_def set_text_def ParseInt_FormatInt zero_deposit_def del: decode_members.simps(2))
  ultimately show ?thesis using assms(5,6) by (auto simp: readJSON_whole)
qed

lemma read_withdraw:
  assumes "in_int64 (wr_AccountID i)" "in_int64 (wr_Amount i)" "ascii (wr_Destination i)"
    "spaced (withdraw_text i) (rq_Body r)" "length (rq_Body r) \<le> maxBytes" "rq_End r = Eof"
  shows "readJSON printable withdraw_fields set_withdraw_field zero_withdraw r = Inr i"
proof -
  let ?ms = "[(''account_id'', FormatInt (wr_AccountID i)), (''amount'', FormatInt (wr_Amount i)),
       (''destination'', json_string (wr_Destination i))]"
  let ?vs = "[JNum (FormatInt (wr_AccountID i)), JNum (FormatInt (wr_Amount i)), JStr (unquote (json_body (wr_Destination i)))]"
  have "json_value (rq_Body r) = Some (JObj (parsed_members ?ms ?vs))"
    using assms(1-4) by (intro json_value_spaced [of 0])
      (simp_all add: value_text_number value_text_string withdraw_text_def maxNestingDepth_def)
  moreover have "decode_struct True withdraw_fields set_withdraw_field (JObj (parsed_members ?ms ?vs)) zero_withdraw = Inr i"
    using assms(1-3) request_keys(3)
    by (simp add: decode_struct_def parsed_members_def decode_members_exact withdraw_fields_def unquote_json_body
        set_withdraw_field_def set_int_def set_text_def ParseInt_FormatInt zero_withdraw_def del: decode_members.simps(2))
  ultimately show ?thesis using assms(5,6) by (auto simp: readJSON_whole)
qed

end
