(* ===== verification/Handler_Properties.thy ===== *)
theory Handler_Properties
  imports Handler_Facts Body_Facts Samples
begin

text \<open>
  The properties of the HTTP interface, each for every router, every request (its body cut short,
  oversized or garbage included) and every environment of the ledger behind it.
\<close>

section \<open>A sample\<close>

text \<open>A router for paths without parameters, and requests to it.\<close>

definition plain_router :: router where
  "plain_router rs r =
     (case find (\<lambda>(m, path, e). m = rq_Method r \<and> path = rq_RequestURI r) rs of
        None \<Rightarrow> No_route
      | Some (m, path, e) \<Rightarrow> Route e [])"

definition post_request :: "string \<Rightarrow> string \<Rightarrow> string \<Rightarrow> http_request" where
  "post_request path key body =
     \<lparr>rq_Method = ''POST'', rq_RequestURI = path, rq_Header = [(''Idempotency-Key'', key)],
      rq_Query = [], rq_Params = [], rq_Body = body, rq_End = Eof\<rparr>"

definition transfer_input :: "int64 \<Rightarrow> transfer_request" where
  "transfer_input n = \<lparr>tr_FromAccountID = 3, tr_ToAccountID = 4, tr_Amount = n\<rparr>"

definition sample_build :: build_info where
  "sample_build = \<lparr>bi_Env = ''test'', bi_Version = ''1''\<rparr>"

abbreviation serve_http :: "env \<Rightarrow> http_request \<Rightarrow> db \<Rightarrow> reply \<times> db" where
  "serve_http env r d \<equiv> Routes (\<lambda>_. True) plain_router sample_build (ledger_service env) r d"

definition sample_post :: http_request where
  "sample_post = post_request ''/v1/transfers'' ''k3'' (transfer_text (transfer_input 30))"

lemma serve_http_ask:
  assumes "plain_router routes r = Route e []" "ask (\<lambda>_. True) e (r\<lparr>rq_Params := []\<rparr>) = Inr req" "moves_money e"
  shows "serve_http env r d = (case serve env req d of (out, d') \<Rightarrow> (money_reply out, d'))"
  using assms by (simp add: Routes_def dispatch_money)

lemma ask_transfer_text:
  assumes "0 < n" "in_int64 n" "key \<noteq> ''''" "length (transfer_text (transfer_input n)) \<le> maxBytes"
  shows "ask printable Transfers ((post_request path key (transfer_text (transfer_input n)))\<lparr>rq_Params := []\<rparr>) =
    Inr (Transfer_req 3 4 n key)"
proof -
  let ?r = "(post_request path key (transfer_text (transfer_input n)))\<lparr>rq_Params := []\<rparr>"
  have "spaced (transfer_text (transfer_input n)) (rq_Body ?r)"
    unfolding spaced_def by (rule exI [of _ "[]"], rule exI [of _ "[]"]) (simp add: post_request_def)
  then have "readJSON printable transfer_fields set_transfer_field zero_transfer ?r = Inr (transfer_input n)"
    using assms by (intro read_transfer) (simp_all add: transfer_input_def in_int64_def post_request_def)
  moreover have "idempotencyKey ?r = Inr key"
    using assms(3) by (simp add: idempotencyKey_def post_request_def get_value_def Let_def)
  ultimately show ?thesis
    using assms(1) by (simp add: ask_transfer_def Valid_transfer Let_def) (simp add: transfer_input_def)
qed

lemma transfer_text_length:
  "length (transfer_text (transfer_input 30)) \<le> maxBytes" "length (transfer_text (transfer_input 71)) \<le> maxBytes"
proof -
  have "length (transfer_text (transfer_input 30)) = 51" "length (transfer_text (transfer_input 71)) = 51"
    by code_simp+
  then show "length (transfer_text (transfer_input 30)) \<le> maxBytes"
    "length (transfer_text (transfer_input 71)) \<le> maxBytes"
    by (simp_all add: maxBytes_def)
qed

lemma sample_post_asks:
  "plain_router routes sample_post = Route Transfers []"
  "ask (\<lambda>_. True) Transfers (sample_post\<lparr>rq_Params := []\<rparr>) = Inr (Transfer_req 3 4 30 ''k3'')"
proof -
  show "plain_router routes sample_post = Route Transfers []" by code_simp
  show "ask (\<lambda>_. True) Transfers (sample_post\<lparr>rq_Params := []\<rparr>) = Inr (Transfer_req 3 4 30 ''k3'')"
    unfolding sample_post_def by (rule ask_transfer_text) (simp_all add: in_int64_def transfer_text_length)
qed

section \<open>Success\<close>

text \<open>
  C13: A 201 is the truth: exactly one transaction was added, under the request's idempotency key,
  completed, and every balance changed by exactly its effect; the body is the document of that
  transaction. Earlier transactions stay, but for the mark on the one a reversal undoes.
\<close>

theorem created_means_posted:
  assumes "Routes printable chi build (ledger_service env) r d = (Reply resp, d')"
    "rs_Status resp = 201" "ledger_inv d"
  shows "\<exists>ts t. transactions d' = ts @ [t] \<and>
    (ts = transactions d \<or> (\<exists>i. ts = map (set_status i txStatusReversed) (transactions d))) \<and>
    t_idempotency_key t = key_of r \<and> t_status t = txStatusCompleted \<and>
    (\<forall>a. balance_of d' a = balance_of d a + net_effect a t) \<and> reports resp t"
proof -
  have base: "ledger_base d" using assms(3) by (simp add: ledger_inv_def)
  from assms(1,2) obtain req res where req: "typed req" "request_key req = key_of r"
    and run: "perform (ledger_service env) req d = ((Some res, None), d')" "\<not> r_Replayed res"
    and resp: "resp = writeTransaction res"
    by (rule ledger.created)
  have bnd: "bounded (stands_for req) d" using base req(1) by (rule bounded_stands_for)
  from run obtain p w where p: "stands_for req d p" "posts env p d w"
    "d' = finish req (posted_db env p (credit_doc w) (debit_doc w) d)"
    "res = newResult (created_transaction env p d)"
    by simp (rule served.fresh_success)
  let ?t = "new_transaction env p d"
  have wf: "p_From p \<noteq> p_To p"
    using stands_for_well_formed [OF base req(1) p(1)] by (simp add: well_formed_def)
  have bal: "balance_of d' a = balance_of d a + net_effect a ?t" for a
    using served.balance_of_post [OF base bnd p(1,2)] p(3) by (simp add: moved_net_effect [OF wf])
  have key: "t_idempotency_key ?t = key_of r"
    using stands_for_key [OF p(1)] req(2) by simp
  have rep: "reports resp ?t"
    unfolding resp
  proof (rule writeTransaction_reports [where b = False])
    show "rs_Status (writeTransaction res) \<noteq> 500" using assms(2) resp by simp
    show "res = (newResult (scan_transaction ?t))\<lparr>r_Replayed := False\<rparr>"
      using p(4) by (simp add: created_transaction_def newResult_def)
  qed
  have "\<exists>ts. transactions d' = ts @ [?t] \<and>
      (ts = transactions d \<or> (\<exists>i. ts = map (set_status i txStatusReversed) (transactions d)))"
  proof (cases req)
    case (Reverse_req i k)
    from p(1) Reverse_req obtain t0 where "transaction_of d i = Some t0" by auto
    then have "t_id ?t \<noteq> i"
      using base by (fastforce simp: ledger_base_def ids_ok_def ids_below_def dest: transaction_of_SomeD)
    then have "set_status i txStatusReversed ?t = ?t" by (simp add: set_status_def)
    then show ?thesis using p(3) Reverse_req by auto
  qed (use p(3) in simp_all)
  then show ?thesis using bal key rep by fastforce
qed

lemma sample_post_created:
  "serve_http quiet_env sample_post moved_db =
     (Reply (writeTransaction (newResult (created_transaction quiet_env (sample_params 30) moved_db))),
      post quiet_env (sample_params 30) ''USD'' moved_db)"
  by (subst serve_http_ask [OF sample_post_asks]) (simp_all add: sample_transfer del: serve.simps)

lemma sample_post_status:
  "rs_Status (writeTransaction (newResult (created_transaction quiet_env (sample_params 30) moved_db))) = 201"
  by code_simp

theorem created_means_posted_witness:
  "\<exists>resp d'. serve_http quiet_env sample_post moved_db = (Reply resp, d') \<and>
     (\<exists>t. t_idempotency_key t = ''k3'' \<and> reports resp t \<and>
        (\<forall>a. balance_of d' a = balance_of moved_db a + net_effect a t))"
proof -
  have "key_of sample_post = ''k3''" by code_simp
  with created_means_posted [OF sample_post_created sample_post_status moved_db_inv] show ?thesis
    unfolding sample_post_created by auto
qed

section \<open>Errors\<close>

text \<open>
  C14: Every request is answered, with one of eight status codes, and never by dereferencing a nil
  result; and an answer that blames the client (any 4xx) changed no table, whatever the environment
  did, the commit of unknown outcome included.
\<close>

theorem client_errors_change_nothing:
  assumes "Routes printable chi build (ledger_service env) r d = (rep, d')"
  shows "\<exists>resp. rep = Reply resp \<and> rs_Status resp \<in> {200, 201, 400, 404, 405, 409, 422, 500} \<and>
    (rs_Status resp \<in> {400..499} \<longrightarrow> same_tables d d')"
proof -
  from assms obtain resp where "rep = Reply resp" "rs_Status resp \<in> ledger.statuses"
    "400 \<le> rs_Status resp \<Longrightarrow> rs_Status resp < 500 \<Longrightarrow> same_tables d d'"
    by (rule ledger.answers) blast
  then show ?thesis by (auto simp: ledger.statuses_def)
qed

definition poor_post :: http_request where
  "poor_post = post_request ''/v1/transfers'' ''k3'' (transfer_text (transfer_input 71))"

lemma poor_post_refused:
  "\<exists>resp d'. serve_http quiet_env poor_post moved_db = (Reply resp, d') \<and> rs_Status resp = 422"
proof -
  have asks: "plain_router routes poor_post = Route Transfers []"
    "ask (\<lambda>_. True) Transfers (poor_post\<lparr>rq_Params := []\<rparr>) = Inr (Transfer_req 3 4 71 ''k3'')"
    unfolding poor_post_def
    by (code_simp, rule ask_transfer_text) (simp_all add: in_int64_def transfer_text_length)
  have "transfer_verdict moved_db (sample_params 71) = Refuse (ServiceError ErrNotEnough)" by code_simp
  with Transfer_settles [OF ready_moved_db sample_params_def [of 71]]
  have "fst (serve quiet_env (Transfer_req 3 4 71 ''k3'') moved_db) = (None, Some (ServiceError ErrNotEnough))"
    by (simp add: settles_def)
  then obtain d' where "serve quiet_env (Transfer_req 3 4 71 ''k3'') moved_db =
      ((None, Some (ServiceError ErrNotEnough)), d')" by (metis prod.collapse)
  then show ?thesis
    by (subst serve_http_ask [OF asks])
      (auto simp del: serve.simps simp: handleError_def is_one_of_def)
qed

theorem client_errors_change_nothing_witness:
  "\<exists>resp d'. serve_http quiet_env poor_post moved_db = (Reply resp, d') \<and> rs_Status resp = 422 \<and>
     same_tables moved_db d'"
proof -
  from poor_post_refused obtain resp d' where
    "serve_http quiet_env poor_post moved_db = (Reply resp, d')" "rs_Status resp = 422" by blast
  with client_errors_change_nothing [OF this(1)] show ?thesis by auto
qed

text \<open>
  C15: A 400 is decided before the ledger is asked: whoever is behind the interface, the same request
  gets the same answer and that service is not called at all. In particular what validation lets
  through never fails the ledger's own checks of the amount and of the two accounts.
\<close>

theorem bad_requests_never_reach_the_ledger:
  assumes "Routes printable chi build (ledger_service env) r d = (Reply resp, d')"
    "rs_Status resp = 400" "ledger_inv d"
  shows "d' = d \<and> Routes printable chi build service r s = (Reply resp, s)"
proof (cases "chi routes r")
  case (Route e ps)
  let ?r = "r\<lparr>rq_Params := ps\<rparr>"
  from assms(1) Route have run: "dispatch printable build (ledger_service env) e ?r d = (Reply resp, d')"
    by (simp add: Routes_def)
  have distinct: "distinct (map a_id (accounts d))"
    using assms(3) by (simp add: ledger_inv_def ledger_base_def ids_ok_def)
  show ?thesis
  proof (cases "moves_money e")
    case True
    show ?thesis
    proof (cases "ask printable e ?r")
      case (Inl x)
      with run True Route show ?thesis by (simp add: Routes_def dispatch_money)
    next
      case (Inr req)
      obtain res err d1 where p: "serve env req d = ((res, err), d1)" by (metis prod.collapse)
      with run True Inr have reply: "money_reply (res, err) = Reply resp" by (simp add: dispatch_money)
      from reply assms(2) obtain e where e: "err = Some e" "resp = handleError e"
        by (rule handleError_client)
      from serve_errors [OF p [unfolded e] distinct] ask_passes [OF Inr] assms(2) e
      show ?thesis
        by (cases req) (auto simp: handleError_bad_request from_set_def transfer_errors_def
            deposit_errors_def withdraw_errors_def reverse_errors_def core_errors_def)
    qed
  next
    case False
    from read_bad_request [OF this run assms(2)] Route show ?thesis by (simp add: Routes_def)
  qed
qed (use assms in \<open>auto simp: Routes_def\<close>)

text \<open>The two accounts are the same, and the amount is missing: both problems are reported.\<close>

definition wrong_input :: transfer_request where
  "wrong_input = \<lparr>tr_FromAccountID = 3, tr_ToAccountID = 3, tr_Amount = 0\<rparr>"

definition wrong_post :: http_request where
  "wrong_post = post_request ''/v1/transfers'' ''k3'' (transfer_text wrong_input)"

lemma wrong_post_refused:
  "serve_http env wrong_post d =
     (Reply (failedValidationResponse [(''to_account_id'', ''account id'' @ [CHR 0x27] @ ''s must be distinct''),
        (''amount'', ''must be greater than zero'')]), d)"
proof -
  let ?r = "wrong_post\<lparr>rq_Params := []\<rparr>"
  have len: "length (transfer_text wrong_input) = 50" by code_simp
  have "spaced (transfer_text wrong_input) (rq_Body ?r)"
    unfolding spaced_def by (rule exI [of _ "[]"], rule exI [of _ "[]"]) (simp add: wrong_post_def post_request_def)
  then have "readJSON (\<lambda>_. True) transfer_fields set_transfer_field zero_transfer ?r = Inr wrong_input"
    using len by (intro read_transfer)
      (simp_all add: wrong_input_def in_int64_def wrong_post_def post_request_def maxBytes_def)
  moreover have "plain_router routes wrong_post = Route Transfers []" "idempotencyKey ?r = Inr ''k3''"
    "v_Errors (validate_transfer wrong_input newValidator) =
      [(''to_account_id'', ''account id'' @ [CHR 0x27] @ ''s must be distinct''),
        (''amount'', ''must be greater than zero'')]" by code_simp+
  ultimately show ?thesis
    by (simp add: Routes_def transferHandler_def Let_def Valid_def)
qed

theorem bad_requests_never_reach_the_ledger_witness:
  "Routes (\<lambda>_. True) plain_router sample_build
     \<lparr>api_Transfer = (\<lambda>a b n k s. ((None, None), Suc s)), api_Deposit = (\<lambda>i n src k s. ((None, None), Suc s)),
      api_Withdraw = (\<lambda>i n dst k s. ((None, None), Suc s)), api_Reverse = (\<lambda>i k s. ((None, None), Suc s)),
      api_AccountBalance = (\<lambda>i s. (Inl (TextError ''''), Suc s)),
      api_AccountTransactionsHistory = (\<lambda>i l b s. (Inl (TextError ''''), Suc s))\<rparr> wrong_post 7 =
   (fst (serve_http quiet_env wrong_post moved_db), 7)"
  unfolding wrong_post_refused fst_conv
  by (rule bad_requests_never_reach_the_ledger [OF wrong_post_refused [of quiet_env] _ moved_db_inv, THEN conjunct2])
    simp

text \<open>
  No internal detail leaks: whatever service and whatever failure, a response with the status 500
  has always the same body, the generic message, and a response that passes on an error of the service
  does so only for an error that is, or wraps, one of its sentinels.
\<close>

theorem internal_errors_are_opaque:
  assumes "Routes printable chi build service r s = (Reply resp, s')"
  shows "(rs_Status resp \<ge> 500 \<longrightarrow> resp = serverErrorResponse (TextError ''unknown'')) \<and>
    (\<forall>err. \<not> (\<exists>x. errors_Is err (ServiceError x)) \<longrightarrow> handleError err = serverErrorResponse (TextError ''unknown''))"
proof -
  let ?opaque = "serverErrorResponse (TextError ''unknown'')"
  have same: "serverErrorResponse err = ?opaque" for err by (rule serverErrorResponse_same)
  have he: "500 \<le> rs_Status (handleError err) \<longrightarrow> handleError err = ?opaque" for err
    using handleError_status [of err] same by (auto simp: domain_statuses_def)
  have ok: "500 \<le> rs_Status (respond st k data) \<longrightarrow> respond st k data = ?opaque" if "st < 500" for st k data
    by (rule respond_cases [of data st k]) (use that same in auto)
  have wt: "500 \<le> rs_Status (writeTransaction x) \<longrightarrow> writeTransaction x = ?opaque" for x
    unfolding writeTransaction_def by (rule ok) simp
  have mr: "money_reply out = Reply resp \<Longrightarrow> 500 \<le> rs_Status resp \<longrightarrow> resp = ?opaque" for out
    by (cases out rule: prod.exhaust; cases "snd out"; cases "fst out") (use he wt in auto)
  have "500 \<le> rs_Status resp \<longrightarrow> resp = ?opaque"
  proof (cases "chi routes r")
    case (Route e ps)
    let ?r = "r\<lparr>rq_Params := ps\<rparr>"
    from assms Route have run: "dispatch printable build service e ?r s = (Reply resp, s')"
      by (simp add: Routes_def)
    show ?thesis
    proof (cases "moves_money e")
      case True
      show ?thesis
      proof (cases "ask printable e ?r")
        case (Inl x)
        with run True ask_refuses [OF Inl] show ?thesis by (auto simp: dispatch_money)
      next
        case (Inr req)
        with run True show ?thesis by (auto simp: dispatch_money split: prod.splits dest: mr)
      qed
    next
      case False
      then consider "e = Healthcheck" | "e = Account_balance" | "e = Account_history" by (cases e) auto
      then show ?thesis
      proof cases
        case 1
        with run show ?thesis by (auto simp: healthcheckHandler_def)
      next
        case 2
        with run he ok [of 200] show ?thesis
          by (fastforce simp: accountBalanceHandler_def split: sum.splits prod.splits)
      next
        case 3
        with run he ok [of 200] show ?thesis
          by (fastforce simp: accountHistoryHandler_def Let_def split: sum.splits prod.splits if_splits)
      qed
    qed
  qed (use assms in \<open>auto simp: Routes_def\<close>)
  moreover have "handleError err = ?opaque" if "\<not> (\<exists>x. errors_Is err (ServiceError x))" for err
    using handleError_status [of err] that same by auto
  ultimately show ?thesis by blast
qed

theorem internal_errors_are_opaque_witness:
  "\<exists>resp d'. serve_http (faulty_env 7) sample_post moved_db = (Reply resp, d') \<and>
     resp = serverErrorResponse (TextError ''unknown'')"
proof -
  have "snd (fst (serve (faulty_env 7) (Transfer_req 3 4 30 ''k3'') moved_db)) = Some (DriverError ''conn closed'')"
    by code_simp
  then obtain res d' where "serve (faulty_env 7) (Transfer_req 3 4 30 ''k3'') moved_db =
      ((res, Some (DriverError ''conn closed'')), d')" by (metis prod.collapse)
  then have run: "serve_http (faulty_env 7) sample_post moved_db =
      (Reply (handleError (DriverError ''conn closed'')), d')"
    by (subst serve_http_ask [OF sample_post_asks]) (simp_all del: serve.simps)
  have "rs_Status (handleError (DriverError ''conn closed'')) = 500"
    by (simp add: handleError_def is_one_of_def)
  with internal_errors_are_opaque [OF run] run show ?thesis by auto
qed

section \<open>Bodies\<close>

text \<open>
  C16: The streaming decoder agrees with a parser of the whole text: \<open>readJSON\<close> accepts a request
  exactly if its body has at most 1 MiB, ends at its end, is one JSON value with nothing but space
  around it, and that value decodes into the struct without an unknown member. A body that is cut
  short, oversized or followed by anything is refused, however much of it was well formed.
\<close>

theorem readJSON_is_whole_text_parsing:
  "readJSON printable names set_field dst r = Inr i \<longleftrightarrow>
     length (rq_Body r) \<le> 1048576 \<and> rq_End r = Eof \<and>
     (\<exists>v. json_value (rq_Body r) = Some v \<and> decode_struct True names set_field v dst = Inr i)"
  unfolding readJSON_whole by (simp add: maxBytes_def)

text \<open>
  C17: Round trip: the JSON text of any transfer, deposit or withdrawal request, with any space around
  it, is read back as that request, up to the size limit.
\<close>

theorem requests_read_back:
  assumes "length (rq_Body r) \<le> 1048576" "rq_End r = Eof"
    "in_int64 a" "in_int64 b" "in_int64 n" "ascii name"
  shows "(spaced (transfer_text \<lparr>tr_FromAccountID = a, tr_ToAccountID = b, tr_Amount = n\<rparr>) (rq_Body r) \<longrightarrow>
      readJSON printable transfer_fields set_transfer_field zero_transfer r =
        Inr \<lparr>tr_FromAccountID = a, tr_ToAccountID = b, tr_Amount = n\<rparr>) \<and>
    (spaced (deposit_text \<lparr>dr_AccountID = a, dr_Amount = n, dr_Source = name\<rparr>) (rq_Body r) \<longrightarrow>
      readJSON printable deposit_fields set_deposit_field zero_deposit r =
        Inr \<lparr>dr_AccountID = a, dr_Amount = n, dr_Source = name\<rparr>) \<and>
    (spaced (withdraw_text \<lparr>wr_AccountID = a, wr_Amount = n, wr_Destination = name\<rparr>) (rq_Body r) \<longrightarrow>
      readJSON printable withdraw_fields set_withdraw_field zero_withdraw r =
        Inr \<lparr>wr_AccountID = a, wr_Amount = n, wr_Destination = name\<rparr>)"
  using assms by (intro conjI impI read_transfer read_deposit read_withdraw) (simp_all add: maxBytes_def)

theorem requests_read_back_witness:
  "readJSON (\<lambda>_. True) deposit_fields set_deposit_field zero_deposit
     (post_request ''/v1/deposits'' ''k'' (deposit_text \<lparr>dr_AccountID = 3, dr_Amount = 50, dr_Source = ''ATM''\<rparr>)) =
   Inr \<lparr>dr_AccountID = 3, dr_Amount = 50, dr_Source = ''ATM''\<rparr>"
proof -
  let ?i = "\<lparr>dr_AccountID = 3, dr_Amount = 50, dr_Source = ''ATM''\<rparr>"
  let ?r = "post_request ''/v1/deposits'' ''k'' (deposit_text ?i)"
  have "length (deposit_text ?i) = 43" by code_simp
  then have small: "length (rq_Body ?r) \<le> 1048576" by (simp add: post_request_def)
  have body: "spaced (deposit_text ?i) (rq_Body ?r)"
    unfolding spaced_def by (rule exI [of _ "[]"], rule exI [of _ "[]"]) (simp add: post_request_def)
  have "rq_End ?r = Eof" "ascii ''ATM''" by (simp add: post_request_def, code_simp)
  from requests_read_back [OF small this(1) _ _ _ this(2), of 3 3 50] body show ?thesis
    by (simp add: in_int64_def)
qed

end
