(* ===== verification/History_Properties.thy ===== *)
theory History_Properties
  imports Handler_Facts Reading Samples
begin

text \<open>
  The answers to reading requests: what a page of an account's history looks like on the wire, which
  pages a client may ask for, and the balance.
\<close>

section \<open>Documents of entries\<close>

text \<open>
  What the object of an entry says: entry, transaction, amount, type and reversed transaction, and
  the transaction's other account only for the type \<open>transfer\<close>.
\<close>

definition other_account :: "ledger_entry_row \<Rightarrow> transaction_row \<Rightarrow> int64" where
  "other_account l t = (if t_source_id t = l_account_id l then t_destination_id t else t_source_id t)"

definition shows_entry :: "db \<Rightarrow> ledger_entry_row \<Rightarrow> doc \<Rightarrow> bool" where
  "shows_entry d l doc \<longleftrightarrow>
     (\<exists>ms t. doc = Obj_doc ms \<and> transaction_of d (l_transaction_id l) = Some t \<and>
        map_of ms ''entry_id'' = Some (int_doc (l_id l)) \<and>
        map_of ms ''transaction_id'' = Some (int_doc (t_id t)) \<and>
        map_of ms ''amount'' = Some (int_doc (l_amount l)) \<and>
        map_of ms ''type'' = Some (text_doc (t_type t)) \<and>
        map_of ms ''reversal_of'' = map_option int_doc (t_reversal_of t) \<and>
        map_of ms ''counterparty_id'' =
          (if t_type t = ''transfer'' \<and> other_account l t \<noteq> 0 then Some (int_doc (other_account l t)) else None))"

text \<open>The instant has a text.\<close>

definition printable_time :: "time \<Rightarrow> bool" where
  "printable_time t \<longleftrightarrow> (case rfc3339 t of Inl _ \<Rightarrow> False | Inr _ \<Rightarrow> True)"

lemma time_doc_printable: "printable_time t \<Longrightarrow> \<exists>x. time_doc t = Inr x"
  by (auto simp: printable_time_def time_doc_def split: sum.splits)

lemma statement_entry_shown:
  assumes "transaction_of d (l_transaction_id l) = Some t" "printable_time (l_created_at l)"
  shows "\<exists>doc. statement_entry_doc (newStatementEntryResponse (entry_view d l)) = Inr doc \<and> shows_entry d l doc"
proof -
  obtain x where "time_doc (l_created_at l) = Inr x" using time_doc_printable assms(2) by blast
  with assms(1) show ?thesis
    by (auto simp: statement_entry_doc_def newStatementEntryResponse_def entry_view_def shows_entry_def other_account_def Let_def
        TxTypeTransfer_def nonzero_member_def reversal_member_def split: option.splits)
qed

lemma all_docs_shown:
  assumes "\<forall>l \<in> set ls. \<exists>doc. f l = Inr doc \<and> P l doc"
  shows "\<exists>docs. all_docs (map f ls) = Inr docs \<and> list_all2 P ls docs"
  using assms by (induction ls) auto

section \<open>Parameters\<close>

text \<open>The page parameters a request may have.\<close>

lemma readInt64_Valid:
  assumes "readInt64 qs k def v = (i, v')"
  shows "(Valid v' \<longrightarrow> Valid v) \<and> (Valid v' \<longrightarrow> i = def \<and> get_value qs k = '''' \<or> ParseInt (get_value qs k) = Inr i)"
  using assms by (auto simp: readInt64_def AddError_def Valid_def Let_def split: if_splits sum.splits)

lemma history_params_Valid:
  assumes "history_params qs = ((limit, before), v)" "Valid v"
  shows "0 < limit \<and> limit \<le> 999 \<and> 0 \<le> before \<and>
    (limit = 10 \<and> get_value qs ''limit'' = '''' \<or> ParseInt (get_value qs ''limit'') = Inr limit) \<and>
    (before = 0 \<and> get_value qs ''before'' = '''' \<or> ParseInt (get_value qs ''before'') = Inr before)"
proof -
  obtain l v1 where 1: "readInt64 qs ''limit'' 10 newValidator = (l, v1)" by fastforce
  obtain b v2 where 2: "readInt64 qs ''before'' 0 v1 = (b, v2)" by fastforce
  from assms(1) have eq: "limit = l" "before = b"
    and v: "v = Check (0 \<le> b) ''before'' ''must not be negative''
      (Check (l \<le> MaxLimit) ''limit'' (''must not exceed '' @ FormatInt MaxLimit)
        (Check (0 < l) ''limit'' ''must be greater than zero'' v2))"
    by (auto simp: history_params_def 1 2 Let_def)
  with assms(2) readInt64_Valid [OF 1] readInt64_Valid [OF 2] show ?thesis
    by (auto simp: MaxLimit_def)
qed

section \<open>Pages\<close>

text \<open>
  C18: A page on the wire: a valid request for an existing account's history is answered with one
  object per entry of the page (the newest below the cursor, newest first, as many as asked for, at
  most 999), each with its transaction's type and reversed transaction, and with a \<open>next_cursor\<close> when
  the page is full. The other account is shown for the type \<open>transfer\<close> only: a reversal of a transfer
  between two users does not say between whom.
\<close>

theorem history_answer:
  assumes "healthy env" "ledger_inv d" "chi routes r = Route Account_history ps"
    "ParseInt (get_value ps ''id'') = Inr i" "account_of d i = Some a"
    "history_params (rq_Query r) = ((limit, before), v)" "Valid v"
    "\<forall>l \<in> set (page_of d i limit before). printable_time (l_created_at l)"
  shows "\<exists>docs. list_all2 (shows_entry d) (page_of d i limit before) docs \<and>
    length docs \<le> nat limit \<and> limit \<le> 999 \<and>
    Routes printable chi build (ledger_service env) r d =
      (Reply \<lparr>rs_Status = 200, rs_Content_Type = Some ''application/json'',
         rs_Body = render 0 (Obj_doc [(''history'', Obj_doc ((''transactions'', Arr_doc docs) #
           (if int (length docs) < limit then [] else
              nonzero_member ''next_cursor'' (l_id (last (page_of d i limit before))))))]) @ [CHR 0x0A]\<rparr>, d)"
proof -
  let ?page = "page_of d i limit before"
  have lim: "0 < limit" "limit \<le> 999" using history_params_Valid [OF assms(6,7)] by simp_all
  then have clamp: "clamp_limit limit = limit" by (simp add: clamp_limit_def MaxLimit_def Let_def)
  have base: "ledger_base d" using assms(2) by (simp add: ledger_inv_def)
  have "\<forall>l \<in> set ?page. \<exists>doc. (statement_entry_doc \<circ> newStatementEntryResponse \<circ> entry_view d) l = Inr doc \<and> shows_entry d l doc"
  proof
    fix l
    assume l: "l \<in> set ?page"
    then have "l \<in> set (ledger_entries d)" by (auto simp: page_of_def entries_of_def dest: in_set_takeD)
    with base obtain t where "transaction_of d (l_transaction_id l) = Some t" by (rule entry_transaction)
    with statement_entry_shown [OF this] l assms(8)
    show "\<exists>doc. (statement_entry_doc \<circ> newStatementEntryResponse \<circ> entry_view d) l = Inr doc \<and> shows_entry d l doc" by simp
  qed
  from all_docs_shown [OF this] obtain docs where docs:
    "all_docs (map (statement_entry_doc \<circ> newStatementEntryResponse \<circ> entry_view d) ?page) = Inr docs" "list_all2 (shows_entry d) ?page docs"
    by blast
  have len: "length docs = length ?page" using docs(2) by (simp add: list_all2_lengthD)
  have "length ?page \<le> nat limit" by (simp add: page_of_def clamp)
  moreover have "Routes printable chi build (ledger_service env) r d =
      (Reply (respond 200 ''history'' (history_doc (newAccountHistoryResponse \<lparr>st_Entries = map (entry_view d) ?page,
         st_NextCursor = (if int (length ?page) < limit then 0 else l_id (last ?page))\<rparr>))), d)"
    using AccountTransactionsHistory_page [OF assms(1) base, of i limit before] assms(3-7)
    by (simp add: Routes_def accountHistoryHandler_def Let_def clamp)
  ultimately show ?thesis
    using docs lim(2) len
    by (intro exI [of _ docs]) (simp add: history_doc_def newAccountHistoryResponse_def respond_def nonzero_member_def comp_assoc)
qed

definition history_request :: http_request where
  "history_request = \<lparr>rq_Method = ''GET'', rq_RequestURI = ''/v1/accounts/3/transactions?limit=1'',
     rq_Header = [], rq_Query = [(''limit'', ''1'')], rq_Params = [], rq_Body = '''', rq_End = Eof\<rparr>"

theorem history_answer_witness:
  "\<exists>doc. shows_entry moved_db (sample_entry 3 2 3 (-30)) doc \<and>
     Routes (\<lambda>_. True) (\<lambda>_ _. Route Account_history [(''id'', ''3'')])
       \<lparr>bi_Env = ''test'', bi_Version = ''1''\<rparr> (ledger_service quiet_env) history_request moved_db =
     (Reply \<lparr>rs_Status = 200, rs_Content_Type = Some ''application/json'',
        rs_Body = render 0 (Obj_doc [(''history'', Obj_doc [(''transactions'', Arr_doc [doc]),
          (''next_cursor'', int_doc 3)])]) @ [CHR 0x0A]\<rparr>, moved_db)"
proof -
  have acc: "account_of moved_db 3 = Some (user_account 3 ''USD'')" by code_simp
  have page: "page_of moved_db 3 1 0 = [sample_entry 3 2 3 (-30)]" by code_simp
  have id: "ParseInt (get_value [(''id'', ''3'')] ''id'') = Inr 3" by code_simp
  have hp: "history_params (rq_Query history_request) = ((1, 0), newValidator)" by code_simp
  have "printable_time noon" using noon_text by (auto simp: printable_time_def)
  then have times: "\<forall>l \<in> set (page_of moved_db 3 1 0). printable_time (l_created_at l)"
    by (simp add: page sample_entry_def)
  from history_answer [OF quiet_env_healthy moved_db_inv refl id acc hp Valid_newValidator times,
      of "\<lambda>_. True" "\<lparr>bi_Env = ''test'', bi_Version = ''1''\<rparr>"]
  show ?thesis
    by (auto simp: page list_all2_Cons1 nonzero_member_def sample_entry_def)
qed

end
