(* ===== verification/Locks.thy ===== *)
theory Locks
  imports Operations "HOL-Library.Product_Lexorder" "HOL-Library.List_Lexorder" "HOL-Library.Char_ord"
begin

text \<open>
  The locks a request takes, in the order in which it takes them, and what that order means for
  requests that run at the same time. \<^verbatim>\<open>transfer\<close> of \<^verbatim>\<open>internal/service/service.go\<close> locks its two
  accounts in the order of their ids; with the row of the reversed transaction before them and the
  unique keys after them, every request climbs one linear order of resources, so that sessions
  waiting for each other can never form a cycle.
\<close>

section \<open>The order of the resources\<close>

text \<open>By row or key first; the mode only tells resources of one row apart.\<close>

definition rank :: "resource \<Rightarrow> (nat \<times> int \<times> string) \<times> nat" where
  "rank r = (place r, strength r)"

lemma rank_inject [simp]: "rank r = rank r' \<longleftrightarrow> r = r'"
  by (cases r; cases r') (simp_all add: rank_def)

instantiation resource :: linorder
begin

definition less_eq_resource :: "resource \<Rightarrow> resource \<Rightarrow> bool" where
  "less_eq_resource r r' \<longleftrightarrow> rank r \<le> rank r'"

definition less_resource :: "resource \<Rightarrow> resource \<Rightarrow> bool" where
  "less_resource r r' \<longleftrightarrow> rank r < rank r'"

instance
proof
  fix r r' :: resource
  show "r \<le> r' \<or> r' \<le> r" by (simp add: less_eq_resource_def linear)
qed (auto simp: less_eq_resource_def less_resource_def order.strict_iff_order)

end

text \<open>
  \<open>r\<close> is on an earlier row or key than \<open>r'\<close>. A session that ascends in this order never asks for a
  stronger lock on a row it has already locked.
\<close>

definition below :: "resource \<Rightarrow> resource \<Rightarrow> bool" where
  "below r r' \<longleftrightarrow> place r < place r'"

lemma below_less: "below r r' \<Longrightarrow> r < r'"
  by (simp add: below_def less_resource_def rank_def)

lemma below_distinct: "sorted_wrt below L \<Longrightarrow> distinct (map place L)"
  by (induction L) (auto simp: below_def)

section \<open>Climbing a list of locks\<close>

named_theorems query_locks \<open>how far a query climbs a list of locks\<close>

text \<open>At least the first \<open>n\<close> locks of the list are held, in its order, and nothing else is.\<close>

definition climbed :: "resource list \<Rightarrow> nat \<Rightarrow> session \<Rightarrow> bool" where
  "climbed L n s \<longleftrightarrow> (\<exists>j. n \<le> j \<and> j \<le> length L \<and> s_locks s = take j L)"

definition climbs :: "resource list \<Rightarrow> nat \<Rightarrow> 'a query \<Rightarrow> nat \<Rightarrow> bool" where
  "climbs L n m k \<longleftrightarrow>
     (\<forall>s. climbed L n s \<longrightarrow>
        (case m s of (Inl e, s') \<Rightarrow> climbed L n s' | (Inr a, s') \<Rightarrow> climbed L k s'))"

lemma climbed_mono: "climbed L k s \<Longrightarrow> n \<le> k \<Longrightarrow> climbed L n s"
  unfolding climbed_def by (meson le_trans)

lemma climbsI:
  assumes "\<And>s e s'. climbed L n s \<Longrightarrow> m s = (Inl e, s') \<Longrightarrow> climbed L n s'"
    and "\<And>s a s'. climbed L n s \<Longrightarrow> m s = (Inr a, s') \<Longrightarrow> climbed L k s'"
  shows "climbs L n m k"
  using assms by (auto simp: climbs_def split: prod.split sum.split)

lemma climbs_InlD: "climbs L n m k \<Longrightarrow> climbed L n s \<Longrightarrow> m s = (Inl e, s') \<Longrightarrow> climbed L n s'"
  by (auto simp: climbs_def)

lemma climbs_InrD: "climbs L n m k \<Longrightarrow> climbed L n s \<Longrightarrow> m s = (Inr a, s') \<Longrightarrow> climbed L k s'"
  by (auto simp: climbs_def)

text \<open>Every run of a query that climbs ends on the list, at or above where it began.\<close>

lemma climbs_run: "climbs L n m k \<Longrightarrow> n \<le> k \<Longrightarrow> climbed L n s \<Longrightarrow> climbed L n (snd (m s))"
  by (cases "m s", cases "fst (m s)") (auto dest: climbs_InlD climbs_InrD climbed_mono)

lemma climbs_ret [query_locks]: "climbs L n (ret a) n"
  by (rule climbsI) (auto simp: ret_def)

lemma climbs_throw [query_locks]: "climbs L n (throw e) k"
  by (rule climbsI) (auto simp: throw_def)

lemma climbs_bindQ:
  assumes "climbs L n m k" "n \<le> k" "\<And>a. climbs L k (f a) l"
  shows "climbs L n (bindQ m f) l"
proof (rule climbsI)
  fix s e s'
  assume s: "climbed L n s" and run: "bindQ m f s = (Inl e, s')"
  show "climbed L n s'"
  proof (cases "m s")
    case (Pair r s1)
    show ?thesis
    proof (cases r)
      case (Inl x)
      with run Pair have "s' = s1" by (simp add: bindQ_def)
      with climbs_InlD [OF assms(1) s] Pair Inl show ?thesis by simp
    next
      case (Inr a)
      with run Pair have "f a s1 = (Inl e, s')" by (simp add: bindQ_def)
      with assms climbs_InrD [OF assms(1) s] Pair Inr show ?thesis
        by (meson climbs_InlD climbed_mono)
    qed
  qed
next
  fix s b s'
  assume s: "climbed L n s" and "bindQ m f s = (Inr b, s')"
  then obtain a s1 where "m s = (Inr a, s1)" "f a s1 = (Inr b, s')" by (elim bindQ_InrE)
  with assms climbs_InrD [OF assms(1) s] show "climbed L l s'" by (meson climbs_InrD)
qed

text \<open>The two shapes of a step: it takes the next lock, or none.\<close>

lemma climbs_seq [query_locks]:
  "climbs L n m n \<Longrightarrow> (\<And>a. climbs L n (f a) l) \<Longrightarrow> climbs L n (bindQ m f) l"
  by (rule climbs_bindQ) auto

lemma climbs_next: "climbs L n m (Suc n) \<Longrightarrow> (\<And>a. climbs L (Suc n) (f a) l) \<Longrightarrow> climbs L n (bindQ m f) l"
  by (rule climbs_bindQ) auto

lemma climbs_onErr:
  assumes "climbs L n m k" "\<And>e. climbs L n (h e) k"
  shows "climbs L n (onErr m h) k"
proof (rule climbsI)
  fix s e s'
  assume s: "climbed L n s" and "onErr m h s = (Inl e, s')"
  then obtain x s1 where "m s = (Inl x, s1)" "h x s1 = (Inl e, s')"
    by (auto simp: onErr_def split: prod.splits sum.splits)
  with assms climbs_InlD [OF assms(1) s] show "climbed L n s'" by (meson climbs_InlD)
next
  fix s b s'
  assume s: "climbed L n s" and "onErr m h s = (Inr b, s')"
  then consider "m s = (Inr b, s')" | x s1 where "m s = (Inl x, s1)" "h x s1 = (Inr b, s')"
    by (elim onErr_InrE)
  then show "climbed L k s'"
    using assms climbs_InlD [OF assms(1) s] by cases (meson climbs_InrD s)+
qed

lemma climbs_if [query_locks]:
  "climbs L n m k \<Longrightarrow> climbs L n m' k \<Longrightarrow> climbs L n (if b then m else m') k"
  by simp

lemma climbs_exec_sql [query_locks]: "climbs L n (exec_sql env f) n"
  by (rule climbsI) (auto simp: exec_sql_def Let_def climbed_def split: option.splits prod.splits)

lemma climbs_read_sql [query_locks]: "climbs L n (read_sql env f) n"
  unfolding read_sql_def by (rule query_locks)

text \<open>The next lock of the list, or one that is held already.\<close>

lemma climbs_acquire:
  assumes "distinct (map place L)" "n < length L" "L ! n = r"
  shows "climbs L n (acquire r) (Suc n)"
proof (rule climbsI)
  fix s a s'
  assume "climbed L n s" and run: "acquire r s = (Inr a, s')"
  then obtain j where j: "n \<le> j" "j \<le> length L" "s_locks s = take j L" by (auto simp: climbed_def)
  show "climbed L (Suc n) s'"
  proof (cases "j = n")
    case True
    have "place (L ! i) \<noteq> place (L ! n)" if "i < n" for i
      using assms(1,2) that nth_eq_iff_index_eq [of "map place L" i n] by simp
    then have "\<not> list_ex (\<lambda>h. dominates h r) (take n L)"
      using assms(2,3) by (auto simp: list_ex_iff dominates_def in_set_conv_nth)
    with True j run assms have "s_locks s' = take (Suc n) L"
      by (auto simp: acquire_def take_Suc_conv_app_nth)
    with assms(2) show ?thesis unfolding climbed_def by (intro exI [of _ "Suc n"]) simp
  next
    case False
    with j have "n < j" by simp
    with j assms have "r \<in> set (s_locks s)" by (auto simp: in_set_conv_nth intro!: exI [of _ n])
    then have "list_ex (\<lambda>h. dominates h r) (s_locks s)" by (auto simp: list_ex_iff intro: bexI [of _ r])
    with run have "s' = s" by (simp add: acquire_def)
    with j \<open>n < j\<close> show ?thesis unfolding climbed_def by (intro exI [of _ j]) simp
  qed
qed (simp add: acquire_def)

lemma climbs_held:
  assumes "\<exists>h \<in> set (take n L). dominates h r"
  shows "climbs L n (acquire r) n"
proof (rule climbsI)
  fix s a s'
  assume "climbed L n s" and run: "acquire r s = (Inr a, s')"
  then obtain j where j: "n \<le> j" "j \<le> length L" "s_locks s = take j L" by (auto simp: climbed_def)
  then have "set (take n L) \<subseteq> set (s_locks s)" by (simp add: set_take_subset_set_take)
  with assms run have "s' = s" by (fastforce simp: acquire_def list_ex_iff split: if_splits)
  with \<open>climbed L n s\<close> show "climbed L n s'" by simp
qed (simp add: acquire_def)


lemma climbs_lower: "climbs L n m k \<Longrightarrow> j \<le> k \<Longrightarrow> climbs L n m j"
  by (rule climbsI) (auto dest: climbs_InlD climbs_InrD climbed_mono)

section \<open>The queries of the storage\<close>

lemma climbs_select_account [query_locks]: "climbs L n (select_account env P) n"
  unfolding select_account_def by (rule query_locks)

lemma climbs_GetAccount [query_locks]: "climbs L n (GetAccount env i) n"
  unfolding GetAccount_def by (rule query_locks)

lemma climbs_GetSystemAccountByCode [query_locks]: "climbs L n (GetSystemAccountByCode env c) n"
  unfolding GetSystemAccountByCode_def by (rule query_locks)

lemma climbs_GetAccountBalance [query_locks]: "climbs L n (GetAccountBalance env i) n"
  unfolding GetAccountBalance_def by (rule query_locks)

lemma climbs_GetTransaction [query_locks]: "climbs L n (GetTransaction env k) n"
  unfolding GetTransaction_def by (rule query_locks)

lemma climbs_GetAccountForUpdate:
  assumes "climbs L n (acquire (AccountRow i)) k"
  shows "climbs L n (GetAccountForUpdate env i) k"
  unfolding GetAccountForUpdate_def
proof (rule climbs_seq [OF climbs_select_account])
  fix a
  show "climbs L n (bindQ (acquire (AccountRow i)) (\<lambda>_. ret a)) k"
  proof (rule climbsI)
    fix s e s'
    assume "climbed L n s" "bindQ (acquire (AccountRow i)) (\<lambda>_. ret a) s = (Inl e, s')"
    then show "climbed L n s'" by (simp add: bindQ_def acquire_def ret_def)
  next
    fix s b s'
    assume s: "climbed L n s" and "bindQ (acquire (AccountRow i)) (\<lambda>_. ret a) s = (Inr b, s')"
    then show "climbed L k s'"
      by (auto simp: bindQ_def ret_def split: prod.splits sum.splits dest: climbs_InrD [OF assms])
  qed
qed

lemma climbs_lock_account:
  "climbs L n (acquire (AccountRow i)) k \<Longrightarrow> climbs L n (lock_account (queries env) i src) k"
  unfolding lock_account_queries
  by (rule climbs_onErr) (auto intro!: climbs_GetAccountForUpdate climbs_throw)

lemma climbs_CreateLedgerEntry [query_locks]:
  "AccountRow a \<in> set (take n L) \<Longrightarrow> climbs L n (CreateLedgerEntry env i a amount) n"
  unfolding CreateLedgerEntry_def by (intro query_locks climbs_held) (force simp: dominates_def)

lemma climbs_CreateOutboxEvent [query_locks]: "climbs L n (CreateOutboxEvent env ty k e) n"
  by (cases "marshal_entry e") (auto simp: CreateOutboxEvent_def intro: query_locks)

lemma climbs_UpdateTransactionStatus [query_locks]:
  "TxRow i \<in> set (take n L) \<Longrightarrow> climbs L n (UpdateTransactionStatus env i st) n"
  unfolding UpdateTransactionStatus_def
  by (intro query_locks climbs_held climbs_onErr) (force simp: dominates_def)

text \<open>
  The insert of a transaction waits for its idempotency key first. Its references to accounts are
  locked already; a reversal also waits for the unique key of the reversed transaction, whose row
  it has locked before.
\<close>

definition reversal_key :: "int64 option \<Rightarrow> resource list" where
  "reversal_key = case_option [] (\<lambda>i. [ReversalKey i])"

definition references_held :: "resource list \<Rightarrow> nat \<Rightarrow> transaction \<Rightarrow> bool" where
  "references_held L n t \<longleftrightarrow>
     AccountRow (tx_SourceID t) \<in> set (take n L) \<and> AccountRow (tx_DestinationID t) \<in> set (take n L) \<and>
     (case tx_ReversalOf t of None \<Rightarrow> True | Some i \<Rightarrow> TxRow i \<in> set (take n L))"

lemma references_held_Suc: "references_held L n t \<Longrightarrow> references_held L (Suc n) t"
  using set_take_subset_set_take [of n "Suc n" L]
  by (auto simp: references_held_def split: option.splits)

lemma climbs_lock_references:
  assumes "distinct (map place L)" "references_held L n t" "drop n L = reversal_key (tx_ReversalOf t)"
  shows "climbs L n (lock_references t) n"
proof (cases "tx_ReversalOf t")
  case None
  with assms(2) show ?thesis
    by (force simp: lock_references_def references_held_def dominates_def intro!: query_locks climbs_held)
next
  case (Some i)
  with assms(3) have "n < length L" "L ! n = ReversalKey i"
    by (auto simp: reversal_key_def) (metis drop_all leI list.distinct(1), metis hd_drop_conv_nth list.sel(1) drop_all leI list.distinct(1))
  then have key: "climbs L n (acquire (ReversalKey i)) (Suc n)" using assms(1) by (intro climbs_acquire)
  have "references_held L (Suc n) t" using assms(2) by (rule references_held_Suc)
  with Some have rest: "climbs L (Suc n) (bindQ (acquire (AccountShare (tx_SourceID t))) (\<lambda>_.
     bindQ (acquire (AccountShare (tx_DestinationID t))) (\<lambda>_. acquire (TxShare i)))) (Suc n)"
    by (force simp: references_held_def dominates_def intro!: query_locks climbs_held)
  have "climbs L n (lock_references t) (Suc n)"
    using key rest Some by (simp add: lock_references_def climbs_next)
  then show ?thesis by (rule climbs_lower) simp
qed

lemma climbs_CreateTransaction:
  assumes "distinct (map place L)" "references_held L n t"
    and "drop n L = IdempotencyKey (tx_IdempotencyKey t) # reversal_key (tx_ReversalOf t)"
  shows "climbs L n (CreateTransaction env t) n"
proof -
  from assms(3) have n: "n < length L" by (metis drop_all leI list.distinct(1))
  with assms(3) have "L ! n = IdempotencyKey (tx_IdempotencyKey t)"
    and rest: "drop (Suc n) L = reversal_key (tx_ReversalOf t)"
    by (metis hd_drop_conv_nth list.sel(1), metis Cons_nth_drop_Suc list.inject n)
  with n assms(1) have key: "climbs L n (acquire (IdempotencyKey (tx_IdempotencyKey t))) (Suc n)"
    by (intro climbs_acquire)
  have "climbs L (Suc n) (lock_references t) (Suc n)"
    using assms(1,2) rest by (intro climbs_lock_references references_held_Suc)
  with key have "climbs L n (CreateTransaction env t) (Suc n)"
    unfolding CreateTransaction_def by (intro climbs_next [OF key] query_locks)
  then show ?thesis by (rule climbs_lower) simp
qed


section \<open>The transfer core\<close>

text \<open>The locks of \<^verbatim>\<open>transfer\<close>: the accounts in the order of their ids, then the unique keys.\<close>

definition account_locks :: "transfer_params \<Rightarrow> resource list" where
  "account_locks p =
     AccountRow (min (p_From p) (p_To p)) #
       (if p_From p = p_To p then [] else [AccountRow (max (p_From p) (p_To p))])"

definition core_locks :: "transfer_params \<Rightarrow> resource list" where
  "core_locks p =
     account_locks p @ IdempotencyKey (p_IdempotencyKey p) # reversal_key (p_ReversalOf p)"

text \<open>A reversal comes with the row of its target locked.\<close>

definition entry_locks :: "transfer_params \<Rightarrow> resource list" where
  "entry_locks p = case_option [] (\<lambda>i. [TxRow i]) (p_ReversalOf p)"

lemma locks_sorted: "sorted_wrt below (entry_locks p @ core_locks p)"
  by (auto simp: entry_locks_def core_locks_def account_locks_def reversal_key_def below_def
      split: option.split)

lemma locks_distinct: "distinct (map place (entry_locks p @ core_locks p))"
  using locks_sorted by (rule below_distinct)

lemma climbs_replay [query_locks]: "climbs L n (replay (queries env) p) n"
  unfolding replay_queries by (intro query_locks)

lemma climbs_write_entries:
  "AccountRow (p_From p) \<in> set (take n L) \<Longrightarrow> AccountRow (p_To p) \<in> set (take n L) \<Longrightarrow>
   climbs L n (write_entries (queries env) p sa da c) n"
  unfolding write_entries_queries Let_def by (intro query_locks)

lemma climbs_post_entries:
  "AccountRow (p_From p) \<in> set (take n L) \<Longrightarrow> AccountRow (p_To p) \<in> set (take n L) \<Longrightarrow>
   climbs L n (post_entries (queries env) p sa da c) n"
  unfolding post_entries_queries by (intro query_locks climbs_write_entries)

lemma climbs_post_or_replay:
  assumes "climbs L n (CreateTransaction env (requested p)) n"
    and "AccountRow (p_From p) \<in> set (take n L)" "AccountRow (p_To p) \<in> set (take n L)"
  shows "climbs L n (post_or_replay (queries env) p sa da) n"
proof -
  have "case post_or_replay (queries env) p sa da s of (Inl e, s') \<Rightarrow> climbed L n s' | (Inr a, s') \<Rightarrow> climbed L n s'"
    if s: "climbed L n s" for s
  proof -
    obtain r s1 where run: "CreateTransaction env (requested p) s = (r, s1)" by fastforce
    with climbs_run [OF assms(1) order_refl s] have s1: "climbed L n s1" by simp
    have "climbed L n (snd (post_or_replay (queries env) p sa da s))"
    proof (cases r)
      case (Inl e)
      with run s1 climbs_run [OF climbs_replay order_refl s1] show ?thesis
        by (simp add: post_or_replay_queries)
    next
      case (Inr c)
      with run climbs_run [OF climbs_post_entries [OF assms(2,3)] order_refl s1] show ?thesis
        by (simp add: post_or_replay_queries)
    qed
    then show ?thesis by (simp add: case_prod_beta split: sum.split)
  qed
  then show ?thesis by (simp add: climbs_def)
qed

text \<open>With the accounts locked, \<open>pre\<close> being the locks held so far.\<close>

lemma climbs_locked_core:
  assumes L: "L = pre @ IdempotencyKey (p_IdempotencyKey p) # reversal_key (p_ReversalOf p)"
    and "distinct (map place L)" "references_held L (length pre) (requested p)"
  shows "climbs L (length pre) (post_or_replay (queries env) p sa da) (length pre)"
proof (rule climbs_post_or_replay)
  show "climbs L (length pre) (CreateTransaction env (requested p)) (length pre)"
    using assms by (intro climbs_CreateTransaction) (simp_all add: requested_def)
qed (use assms(3) in \<open>simp_all add: references_held_def requested_def\<close>)

lemma climbs_transfer:
  defines "L \<equiv> \<lambda>p. entry_locks p @ core_locks p"
  shows "climbs (L p) (length (entry_locks p)) (transfer (queries env) p) (length (entry_locks p))"
proof -
  let ?e = "entry_locks p" and ?L = "L p"
  let ?n = "length ?e"
  let ?k = "length (?e @ account_locks p)"
  let ?first = "min (p_From p) (p_To p)" and ?second = "max (p_From p) (p_To p)"
  have dist: "distinct (map place ?L)" unfolding L_def by (rule locks_distinct)
  have "climbs ?L ?n (acquire (AccountRow ?first)) (Suc ?n)"
    using dist by (intro climbs_acquire) (auto simp: L_def core_locks_def account_locks_def)
  then have one: "climbs ?L ?n (lock_account (queries env) ?first (p_From p)) (Suc ?n)"
    by (rule climbs_lock_account)
  have "climbs ?L (Suc ?n) (acquire (AccountRow ?second)) ?k"
  proof (cases "p_From p = p_To p")
    case True
    then show ?thesis by (auto simp: L_def core_locks_def account_locks_def intro!: climbs_held)
  next
    case False
    then have "climbs ?L (Suc ?n) (acquire (AccountRow ?second)) (Suc (Suc ?n))"
      using dist
      by (intro climbs_acquire) (auto simp: L_def core_locks_def account_locks_def nth_append)
    with False show ?thesis by (simp add: account_locks_def)
  qed
  then have two: "climbs ?L (Suc ?n) (lock_account (queries env) ?second (p_From p)) ?k"
    by (rule climbs_lock_account)
  have "references_held ?L ?k (requested p)"
    by (auto simp: references_held_def L_def core_locks_def account_locks_def entry_locks_def
        requested_def min_def max_def split: option.split)
  then have core: "climbs ?L ?k (post_or_replay (queries env) p sa da) ?k" for sa da
    using dist by (intro climbs_locked_core) (simp_all add: L_def core_locks_def)
  have "climbs ?L ?n (transfer (queries env) p) ?k"
    unfolding transfer_queries Let_def
  proof (rule climbs_bindQ [OF one], simp, rule climbs_bindQ [OF two])
    show "Suc ?n \<le> ?k" by (simp add: account_locks_def)
  next
    fix x y
    show "climbs ?L ?k (case if ?first \<noteq> p_From p then (y, x) else (x, y) of (sa, da) \<Rightarrow>
       if acc_Currency sa \<noteq> acc_Currency da then throw (ServiceError ErrCurrencyMismatch)
       else post_or_replay (queries env) p sa da) ?k"
      by (auto simp del: length_append intro!: core climbs_throw)
  qed
  then show ?thesis by (rule climbs_lower) simp
qed


section \<open>The requests\<close>

text \<open>
  The locks held at the end of a request's transaction, in the order they were taken: none when the
  request is refused before its transaction begins, or the transaction cannot begin.
\<close>

definition trace :: "'c closure \<Rightarrow> db \<Rightarrow> resource list" where
  "trace fn d = s_locks (snd (fn (fresh_session d)))"

fun request_trace :: "env \<Rightarrow> request \<Rightarrow> db \<Rightarrow> resource list" where
  "request_trace env (Transfer_req from to amount key) d =
     (if amount \<le> 0 \<or> from = to then []
      else trace (capture (transfer_closure (queries env) from to amount key)) d)"
| "request_trace env (Deposit_req dest amount source key) d =
     (if amount \<le> 0 then [] else trace (capture (deposit_closure (queries env) dest amount source key)) d)"
| "request_trace env (Withdraw_req source amount dest key) d =
     (if amount \<le> 0 then [] else trace (capture (withdraw_closure (queries env) source amount dest key)) d)"
| "request_trace env (Reverse_req txid key) d = trace (reverse_closure (queries env) txid key) d"

definition lock_trace :: "env \<Rightarrow> request \<Rightarrow> db \<Rightarrow> resource list" where
  "lock_trace env req d = (if begin_fault env = None then request_trace env req d else [])"

lemma trace_capture: "trace (capture m) d = s_locks (snd (m (fresh_session d)))"
  by (simp add: trace_def capture_def case_prod_beta split: sum.split)

text \<open>A query that takes no locks before it runs \<open>transfer\<close> without a reversal.\<close>

definition ascends :: "'a query \<Rightarrow> bool" where
  "ascends m \<longleftrightarrow> (\<forall>s. s_locks s = [] \<longrightarrow> sorted_wrt below (s_locks (snd (m s))))"

lemma climbed_sorted: "climbed L n s \<Longrightarrow> sorted_wrt below L \<Longrightarrow> sorted_wrt below (s_locks s)"
  by (auto simp: climbed_def sorted_wrt_take)

lemma ascends_transfer [query_locks]: "p_ReversalOf p = None \<Longrightarrow> ascends (transfer (queries env) p)"
  unfolding ascends_def
proof (intro allI impI)
  fix s :: session
  assume p: "p_ReversalOf p = None" and "s_locks s = []"
  then have "climbed (entry_locks p @ core_locks p) (length (entry_locks p)) s"
    by (auto simp: climbed_def entry_locks_def intro: exI [of _ 0])
  from climbs_run [OF climbs_transfer order_refl this]
  show "sorted_wrt below (s_locks (snd (transfer (queries env) p s)))"
    using locks_sorted by (rule climbed_sorted)
qed

lemma ascends_throw [query_locks]: "ascends (throw e)"
  by (simp add: ascends_def throw_def)

lemma ascends_if [query_locks]: "ascends m \<Longrightarrow> ascends m' \<Longrightarrow> ascends (if b then m else m')"
  by simp

lemma ascends_bindQ:
  assumes "climbs [] 0 m 0" "\<And>a. ascends (f a)"
  shows "ascends (bindQ m f)"
  unfolding ascends_def
proof (intro allI impI)
  fix s :: session
  assume s: "s_locks s = []"
  obtain r s1 where run: "m s = (r, s1)" by fastforce
  have "climbed [] 0 (snd (m s))" by (rule climbs_run [OF assms(1)]) (simp_all add: climbed_def s)
  then have "s_locks s1 = []" by (simp add: run climbed_def)
  with run assms(2) show "sorted_wrt below (s_locks (snd (bindQ m f s)))"
    by (cases r) (simp_all add: bindQ_def ascends_def)
qed

lemma climbs_named [query_locks]: "climbs L n m n \<Longrightarrow> climbs L n (onErr m (not_found_as e)) n"
  by (rule climbs_onErr) (auto simp: not_found_as_def intro: query_locks)

lemma ascends_transfer_closure: "ascends (transfer_closure (queries env) from to amount key)"
  unfolding transfer_closure_queries by (intro ascends_bindQ query_locks) simp

lemma ascends_deposit_closure: "ascends (deposit_closure (queries env) dest amount source key)"
  unfolding deposit_closure_queries by (intro ascends_bindQ query_locks) simp

lemma ascends_withdraw_closure: "ascends (withdraw_closure (queries env) source amount dest key)"
  unfolding withdraw_closure_queries by (intro ascends_bindQ query_locks) simp

text \<open>A reversal locks the row of its target, then runs \<open>transfer\<close>, then marks that row.\<close>

lemma reversible_locks:
  assumes "reversible (queries env) i s = (r, s')" "s_locks s = []"
  shows "s_locks s' \<in> {[], [TxRow i]} \<and>
     (\<forall>tx. r = Inr tx \<longrightarrow> s_locks s' = [TxRow i] \<and> tx_ID tx = i)"
  using assms
  by (auto simp: reversible_queries GetTransactionByID_def bindQ_def onErr_def read_sql_def exec_sql_def
      Let_def acquire_def ret_def throw_def not_found_as_def scan_transaction_def transaction_of_def
      find_Some_iff split: prod.splits sum.splits option.splits if_splits)


lemma trace_reverse_closure: "sorted_wrt below (trace (reverse_closure (queries env) i key) d)"
proof -
  let ?s = "fresh_session d"
  obtain r s1 where rev: "reversible (queries env) i ?s = (r, s1)" by fastforce
  then have held: "s_locks s1 \<in> {[], [TxRow i]}"
      "\<And>tx. r = Inr tx \<Longrightarrow> s_locks s1 = [TxRow i] \<and> tx_ID tx = i"
    using reversible_locks [OF rev] by (simp_all add: fresh_session_def)
  show ?thesis
  proof (cases r)
    case (Inl e)
    with rev held(1) show ?thesis by (auto simp: trace_def reverse_closure_queries bindQ_def)
  next
    case (Inr tx)
    define p where "p = reversal_params tx key"
    define L where "L = entry_locks p @ core_locks p"
    from held(2) [OF Inr] have e: "entry_locks p = [TxRow i]" and s1: "climbed L 1 s1"
      by (auto simp: L_def p_def reversal_params_def entry_locks_def climbed_def intro: exI [of _ 1])
    have tr: "climbs L 1 (transfer (queries env) p) 1"
      using climbs_transfer [of p env] by (simp add: L_def e)
    have mark: "climbs L 1 (UpdateTransactionStatus env i st) 1" for st
      by (intro query_locks) (simp add: L_def e)
    obtain r2 s2 where run: "transfer (queries env) p s1 = (r2, s2)" by fastforce
    with climbs_run [OF tr order_refl s1] have s2: "climbed L 1 s2" by simp
    from climbs_run [OF mark order_refl s2]
    have s3: "climbed L 1 (snd (UpdateTransactionStatus env i txStatusReversed s2))" .
    obtain r3 s4 where upd: "UpdateTransactionStatus env i txStatusReversed s2 = (r3, s4)" by fastforce
    with s3 have s4: "climbed L 1 s4" by simp
    have "climbed L 1 (snd (reverse_closure (queries env) i key ?s))"
      using s2 s4 by (cases r2; cases r3)
        (simp_all add: reverse_closure_queries bindQ_def rev Inr run upd flip: p_def)
    then show ?thesis
      unfolding trace_def L_def using locks_sorted by (rule climbed_sorted)
  qed
qed

lemma request_trace_sorted: "sorted_wrt below (request_trace env req d)"
proof (cases req)
  case (Reverse_req txid key)
  then show ?thesis by (simp add: trace_reverse_closure)
qed (use ascends_transfer_closure ascends_deposit_closure ascends_withdraw_closure in
    \<open>simp_all add: trace_capture ascends_def fresh_session_def\<close>)

lemma lock_trace_sorted: "sorted_wrt below (lock_trace env req d)"
  by (simp add: lock_trace_def request_trace_sorted)

section \<open>Sessions that run at the same time\<close>

text \<open>
  A worker has the locks it holds and those it will ask for. It takes its next lock when no other
  worker holds one that conflicts with it, and commits, which releases everything, once it has them
  all.
\<close>

record worker =
  w_held :: "resource list"
  w_todo :: "resource list"

definition spawn :: "resource list \<Rightarrow> worker" where
  "spawn L = \<lparr>w_held = [], w_todo = L\<rparr>"

definition idle :: worker where
  "idle = spawn []"

definition free_for :: "nat \<Rightarrow> resource \<Rightarrow> worker list \<Rightarrow> bool" where
  "free_for j r ws \<longleftrightarrow> (\<forall>i < length ws. i \<noteq> j \<longrightarrow> \<not> list_ex (\<lambda>h. conflicts h r) (w_held (ws ! i)))"

definition move :: "nat \<Rightarrow> worker list \<Rightarrow> worker list option" where
  "move j ws =
     (if j < length ws
      then (case w_todo (ws ! j) of
              [] \<Rightarrow> if w_held (ws ! j) = [] then None else Some (ws[j := idle])
            | r # rs \<Rightarrow>
                if free_for j r ws
                then Some (ws[j := \<lparr>w_held = w_held (ws ! j) @ [r], w_todo = rs\<rparr>])
                else None)
      else None)"

fun moves :: "nat list \<Rightarrow> worker list \<Rightarrow> worker list option" where
  "moves [] ws = Some ws"
| "moves (j # js) ws = Option.bind (move j ws) (moves js)"

definition stuck :: "worker list \<Rightarrow> bool" where
  "stuck ws \<longleftrightarrow> (\<forall>j < length ws. move j ws = None)"

text \<open>What every worker keeps: its locks, past and future, ascend.\<close>

definition orderly :: "worker \<Rightarrow> bool" where
  "orderly w \<longleftrightarrow> sorted_wrt below (w_held w @ w_todo w)"

text \<open>The moves a worker still makes: a lock each, and one commit if it ever holds a lock.\<close>

definition pending :: "worker \<Rightarrow> nat" where
  "pending w = length (w_todo w) + (if w = idle then 0 else 1)"

lemma orderly_spawn: "sorted_wrt below L \<Longrightarrow> orderly (spawn L)"
  by (simp add: orderly_def spawn_def)

lemma move_SomeE:
  assumes "move j ws = Some ws'"
  obtains (take) r rs where "j < length ws" "w_todo (ws ! j) = r # rs" "free_for j r ws"
      "ws' = ws[j := \<lparr>w_held = w_held (ws ! j) @ [r], w_todo = rs\<rparr>]"
    | (commit) "j < length ws" "w_todo (ws ! j) = []" "w_held (ws ! j) \<noteq> []" "ws' = ws[j := idle]"
  using assms by (auto simp: move_def split: if_splits list.splits)

lemma move_orderly:
  assumes "move j ws = Some ws'" "list_all orderly ws"
  shows "list_all orderly ws'"
  using assms(1)
proof (cases rule: move_SomeE)
  case (take r rs)
  with assms(2) have "orderly (ws ! j)" by (simp add: list_all_length)
  with take assms(2) show ?thesis by (auto simp: list_all_length nth_list_update orderly_def)
next
  case commit
  with assms(2) show ?thesis
    by (auto simp: list_all_length nth_list_update idle_def intro: orderly_spawn)
qed

lemma move_pending:
  assumes "move j ws = Some ws'"
  shows "(\<Sum>w\<leftarrow>ws. pending w) = Suc (\<Sum>w\<leftarrow>ws'. pending w)"
proof -
  have upd: "(\<Sum>w\<leftarrow>ws[j := x]. pending w) + pending (ws ! j) = (\<Sum>w\<leftarrow>ws. pending w) + pending x"
    if "j < length ws" for x
    using that
  proof (induction ws arbitrary: j)
    case (Cons w ws)
    then show ?case by (cases j) auto
  qed simp
  show ?thesis
    using assms
  proof (cases rule: move_SomeE)
    case (take r rs)
    then have "pending (ws ! j) = Suc (pending \<lparr>w_held = w_held (ws ! j) @ [r], w_todo = rs\<rparr>)"
      by (auto simp: pending_def idle_def spawn_def)
    with upd [OF take(1), of "\<lparr>w_held = w_held (ws ! j) @ [r], w_todo = rs\<rparr>"] take(4)
    show ?thesis by simp
  next
    case commit
    then have "pending (ws ! j) = Suc (pending idle)"
      by (auto simp: pending_def idle_def spawn_def)
    with upd [OF commit(1), of idle] commit(4) show ?thesis by simp
  qed
qed

lemma moves_orderly: "moves js ws = Some ws' \<Longrightarrow> list_all orderly ws \<Longrightarrow> list_all orderly ws'"
  by (induction js arbitrary: ws) (auto simp: bind_eq_Some_conv dest: move_orderly)

lemma moves_pending:
  "moves js ws = Some ws' \<Longrightarrow> (\<Sum>w\<leftarrow>ws. pending w) = length js + (\<Sum>w\<leftarrow>ws'. pending w)"
  by (induction js arbitrary: ws) (auto simp: bind_eq_Some_conv dest!: move_pending)

text \<open>The worker that waits for the greatest lock would wait for nobody.\<close>

lemma stuck_idle:
  assumes ok: "list_all orderly ws" and "stuck ws"
  shows "list_all (\<lambda>w. w = idle) ws"
proof -
  have "w_todo (ws ! j) = []" if j: "j < length ws" for j
  proof (rule ccontr)
    assume "w_todo (ws ! j) \<noteq> []"
    define W where "W = {hd (w_todo w) |w. w \<in> set ws \<and> w_todo w \<noteq> []}"
    have fin: "finite W" unfolding W_def by auto
    from j \<open>w_todo (ws ! j) \<noteq> []\<close> have ne: "W \<noteq> {}" by (auto simp: W_def intro: nth_mem)
    from Max_in [OF fin ne] obtain i where i: "i < length ws" "w_todo (ws ! i) \<noteq> []"
      "hd (w_todo (ws ! i)) = Max W"
      by (auto simp: W_def in_set_conv_nth)
    then obtain rs where todo: "w_todo (ws ! i) = Max W # rs" by (metis list.collapse)
    with assms(2) i(1) have "\<not> free_for i (Max W) ws" by (auto simp: stuck_def move_def split: if_splits)
    then obtain k h where k: "k < length ws" "h \<in> set (w_held (ws ! k))" "conflicts h (Max W)"
      by (auto simp: free_for_def list_ex_iff)
    with assms(2) have "w_todo (ws ! k) \<noteq> []" by (auto simp: stuck_def move_def split: if_splits list.splits)
    then obtain r qs where next_k: "w_todo (ws ! k) = r # qs" by (cases "w_todo (ws ! k)") auto
    from ok k(1) have "orderly (ws ! k)" by (simp add: list_all_length)
    with k(2) next_k have "below h r" by (auto simp: orderly_def sorted_wrt_append)
    with conflicts_place [OF k(3)] have "Max W < r" by (intro below_less) (simp add: below_def)
    moreover from k(1) next_k have "r \<in> W"
      unfolding W_def by (intro CollectI exI [of _ "ws ! k"]) simp
    with fin have "r \<le> Max W" by simp
    ultimately show False by simp
  qed
  moreover have "w_held (ws ! j) = []" if "j < length ws" "w_todo (ws ! j) = []" for j
    using assms(2) that by (auto simp: stuck_def move_def split: if_splits)
  ultimately show ?thesis by (simp add: list_all_length idle_def spawn_def)
qed


text \<open>The workers of some requests, each with the lock trace of a run of its own.\<close>

type_synonym job = "env \<times> request \<times> db"

definition job_locks :: "job \<Rightarrow> resource list" where
  "job_locks = (\<lambda>(env, req, d). lock_trace env req d)"

definition workers :: "job list \<Rightarrow> worker list" where
  "workers jobs = map (spawn \<circ> job_locks) jobs"

lemma workers_orderly: "list_all orderly (workers jobs)"
  by (auto simp: workers_def list_all_length job_locks_def case_prod_beta
      intro!: orderly_spawn lock_trace_sorted)

lemma pending_spawn: "pending (spawn L) = (if L = [] then 0 else Suc (length L))"
  by (simp add: pending_def spawn_def idle_def)

lemma pending_workers: "(\<Sum>w\<leftarrow>workers jobs. pending w) \<le> (\<Sum>job\<leftarrow>jobs. Suc (length (job_locks job)))"
  by (induction jobs) (simp_all add: workers_def pending_spawn)

end
