(* ===== verification/Lock_Properties.thy ===== *)
theory Lock_Properties
  imports Locks Samples
begin

text \<open>Requests that run at the same time never wait for each other in a circle.\<close>

text \<open>The transfers of two clients to each other lock the same accounts in the same order.\<close>

definition crossing_jobs :: "job list" where
  "crossing_jobs = [(quiet_env, Transfer_req 3 4 30 ''k3'', moved_db),
     (quiet_env, Transfer_req 4 3 20 ''k4'', moved_db), (quiet_env, Reverse_req 2 ''k5'', moved_db)]"

lemma crossing_locks:
  "map job_locks crossing_jobs =
     [[AccountRow 3, AccountRow 4, IdempotencyKey ''k3''],
      [AccountRow 3, AccountRow 4, IdempotencyKey ''k4''],
      [TxRow 2, AccountRow 3, AccountRow 4, IdempotencyKey ''k5'', ReversalKey 2]]"
  by code_simp

text \<open>
  C22: Deadlock freedom. Whatever requests run at the same time and in whatever order their
  transactions get to take their next lock, the run ends after at most one step per lock and one
  per commit, and when no transaction can go on, all of them are done: no set of transactions
  waits for each other.
\<close>

theorem requests_never_deadlock:
  assumes "moves js (workers jobs) = Some ws"
  shows "length js \<le> (\<Sum>job\<leftarrow>jobs. Suc (length (job_locks job))) \<and>
    (stuck ws \<longrightarrow> list_all (\<lambda>w. w = idle) ws)"
proof
  show "length js \<le> (\<Sum>job\<leftarrow>jobs. Suc (length (job_locks job)))"
    using moves_pending [OF assms] pending_workers [of jobs] by simp
  show "stuck ws \<longrightarrow> list_all (\<lambda>w. w = idle) ws"
    using moves_orderly [OF assms workers_orderly] stuck_idle by blast
qed

theorem requests_never_deadlock_witness:
  "\<exists>ws. moves [2, 0, 2] (workers crossing_jobs) = None \<and>
     moves [2, 0, 0, 0, 0, 2] (workers crossing_jobs) = Some ws \<and> \<not> stuck ws \<and>
     6 \<le> (\<Sum>job\<leftarrow>crossing_jobs. Suc (length (job_locks job)))"
proof -
  have w: "workers crossing_jobs = map spawn (map job_locks crossing_jobs)"
    by (simp add: workers_def)
  have blocked: "moves [2, 0, 2] (workers crossing_jobs) = None"
    unfolding w crossing_locks by code_simp
  obtain ws where ws: "moves [2, 0, 0, 0, 0, 2] (workers crossing_jobs) = Some ws" and "\<not> stuck ws"
  proof -
    have "case moves [2, 0, 0, 0, 0, 2] (workers crossing_jobs) of None \<Rightarrow> False
        | Some ws \<Rightarrow> move 2 ws \<noteq> None \<and> length ws = 3"
      unfolding w crossing_locks by code_simp
    then obtain ws where run: "moves [2, 0, 0, 0, 0, 2] (workers crossing_jobs) = Some ws"
      and "move 2 ws \<noteq> None" "length ws = 3"
      by (auto split: option.splits)
    then have "\<not> stuck ws"
      unfolding stuck_def by (intro notI) (auto dest!: spec [of _ "2::nat"])
    with run show thesis by (rule that)
  qed
  with blocked requests_never_deadlock [OF ws] show ?thesis by auto
qed

end
