(* ===== verification/Isolation.thy ===== *)
theory Isolation
  imports Locks Decision Effects
begin

text \<open>
  What locks are for: everything a request changes is covered by an exclusive lock that it holds when
  it changes it (for a row, \<^verbatim>\<open>FOR UPDATE\<close>: the share of a foreign key is not enough), and everything its answer depends on by a lock that it has taken. Requests without a
  common lock therefore do not notice each other, and together with the ascending order of the
  locks (theory \<open>Locks\<close>) the serial histories of the other theories stand for the concurrent ones.
\<close>

section \<open>Writes\<close>

text \<open>A transaction's row without its status, the only column that ever changes.\<close>

definition unmarked :: "transaction_row \<Rightarrow> transaction_row" where
  "unmarked t = t\<lparr>t_status := ''''\<rparr>"

definition reversed_ids :: "db \<Rightarrow> int64 set" where
  "reversed_ids d = {i. Some i \<in> t_reversal_of ` set (transactions d)}"

text \<open>The locks \<open>R\<close> cover the difference between two states of the database.\<close>

definition covered :: "resource set \<Rightarrow> db \<Rightarrow> db \<Rightarrow> bool" where
  "covered R d d' \<longleftrightarrow>
     accounts d' = accounts d \<and>
     (\<forall>i. balance_of d' i \<noteq> balance_of d i \<longrightarrow> AccountRow i \<in> R) \<and>
     (\<forall>k. map_option unmarked (keyed d' k) \<noteq> map_option unmarked (keyed d k) \<longrightarrow> IdempotencyKey k \<in> R) \<and>
     (\<forall>i t. transaction_of d i = Some t \<longrightarrow> transaction_of d' i \<noteq> Some t \<longrightarrow> TxRow i \<in> R) \<and>
     (\<forall>i. (i \<in> reversed_ids d') \<noteq> (i \<in> reversed_ids d) \<longrightarrow> ReversalKey i \<in> R)"

lemma covered_same_tables: "same_tables d d' \<Longrightarrow> covered R d d'"
  by (simp add: covered_def same_tables_def balance_of_def keyed_def transaction_of_def reversed_ids_def)

lemma covered_mono: "covered R d d' \<Longrightarrow> R \<subseteq> R' \<Longrightarrow> covered R' d d'"
  by (auto simp: covered_def)

lemma covered_trans:
  assumes "covered R d d1" "covered R d1 d2"
  shows "covered R d d2"
proof -
  have "AccountRow i \<in> R" if "balance_of d2 i \<noteq> balance_of d i" for i
    using assms that by (cases "balance_of d1 i = balance_of d i") (auto simp: covered_def)
  moreover have "IdempotencyKey k \<in> R"
    if "map_option unmarked (keyed d2 k) \<noteq> map_option unmarked (keyed d k)" for k
    using assms that unfolding covered_def by metis
  moreover have "TxRow i \<in> R" if "transaction_of d i = Some t" "transaction_of d2 i \<noteq> Some t" for i t
    using assms that by (cases "transaction_of d1 i = Some t") (auto simp: covered_def)
  moreover have "ReversalKey i \<in> R" if "(i \<in> reversed_ids d2) \<noteq> (i \<in> reversed_ids d)" for i
    using assms that by (cases "(i \<in> reversed_ids d1) = (i \<in> reversed_ids d)") (auto simp: covered_def)
  moreover have "accounts d2 = accounts d" using assms by (simp add: covered_def)
  ultimately show ?thesis unfolding covered_def by (intro conjI allI impI)
qed

section \<open>Queries that keep their locks\<close>

named_theorems query_growing \<open>queries that release no lock\<close>

definition growing :: "'a query \<Rightarrow> bool" where
  "growing m \<longleftrightarrow> (\<forall>s. set (s_locks s) \<subseteq> set (s_locks (snd (m s))))"

lemma growingI: "(\<And>s r s'. m s = (r, s') \<Longrightarrow> set (s_locks s) \<subseteq> set (s_locks s')) \<Longrightarrow> growing m"
  unfolding growing_def by (metis prod.collapse)

lemma growingD: "growing m \<Longrightarrow> m s = (r, s') \<Longrightarrow> set (s_locks s) \<subseteq> set (s_locks s')"
  unfolding growing_def by (metis snd_conv)

lemma growing_ret [query_growing]: "growing (ret a)"
  by (simp add: growing_def ret_def)

lemma growing_throw [query_growing]: "growing (throw e)"
  by (simp add: growing_def throw_def)

lemma growing_acquire [query_growing]: "growing (acquire r)"
  by (auto simp: growing_def acquire_def)

lemma growing_if [query_growing]: "growing m \<Longrightarrow> growing m' \<Longrightarrow> growing (if b then m else m')"
  by simp

lemma growing_bindQ [query_growing]:
  assumes "growing m" "\<And>a. growing (f a)"
  shows "growing (bindQ m f)"
proof (rule growingI)
  fix s r s'
  assume run: "bindQ m f s = (r, s')"
  obtain r1 s1 where m: "m s = (r1, s1)" by fastforce
  note 1 = growingD [OF assms(1) m]
  show "set (s_locks s) \<subseteq> set (s_locks s')"
  proof (cases r1)
    case (Inr a)
    with run m have "f a s1 = (r, s')" by (simp add: bindQ_def)
    from 1 growingD [OF assms(2) this] show ?thesis by (rule order_trans)
  qed (use run m 1 in \<open>simp add: bindQ_def\<close>)
qed

lemma growing_onErr [query_growing]:
  assumes "growing m" "\<And>e. growing (h e)"
  shows "growing (onErr m h)"
proof (rule growingI)
  fix s r s'
  assume run: "onErr m h s = (r, s')"
  obtain r1 s1 where m: "m s = (r1, s1)" by fastforce
  note 1 = growingD [OF assms(1) m]
  show "set (s_locks s) \<subseteq> set (s_locks s')"
  proof (cases r1)
    case (Inl e)
    with run m have "h e s1 = (r, s')" by (simp add: onErr_def)
    from 1 growingD [OF assms(2) this] show ?thesis by (rule order_trans)
  qed (use run m 1 in \<open>simp add: onErr_def\<close>)
qed

lemma growing_exec_sql [query_growing]: "growing (exec_sql env f)"
  by (rule growingI) (auto simp: exec_sql_def Let_def split: option.splits prod.splits)

lemma growing_read_sql [query_growing]: "growing (read_sql env f)"
  unfolding read_sql_def by (rule query_growing)

lemma growing_select_account [query_growing]: "growing (select_account env P)"
  unfolding select_account_def by (rule query_growing)

lemma growing_GetAccount [query_growing]: "growing (GetAccount env i)"
  unfolding GetAccount_def by (rule query_growing)

lemma growing_GetAccountForUpdate [query_growing]: "growing (GetAccountForUpdate env i)"
  unfolding GetAccountForUpdate_def by (intro query_growing)

lemma growing_GetSystemAccountByCode [query_growing]: "growing (GetSystemAccountByCode env c)"
  unfolding GetSystemAccountByCode_def by (rule query_growing)

lemma growing_GetAccountBalance [query_growing]: "growing (GetAccountBalance env i)"
  unfolding GetAccountBalance_def by (rule query_growing)

lemma growing_GetTransaction [query_growing]: "growing (GetTransaction env k)"
  unfolding GetTransaction_def by (rule query_growing)

lemma growing_GetTransactionByID [query_growing]: "growing (GetTransactionByID env i)"
  unfolding GetTransactionByID_def by (intro query_growing)

lemma growing_lock_references [query_growing]: "growing (lock_references t)"
  unfolding lock_references_def by (cases "tx_ReversalOf t") (simp_all, (intro query_growing)+)

lemma growing_CreateTransaction [query_growing]: "growing (CreateTransaction env t)"
  unfolding CreateTransaction_def by (intro query_growing)

lemma growing_CreateLedgerEntry [query_growing]: "growing (CreateLedgerEntry env i a n)"
  unfolding CreateLedgerEntry_def by (intro query_growing)

lemma growing_UpdateTransactionStatus [query_growing]: "growing (UpdateTransactionStatus env i st)"
  unfolding UpdateTransactionStatus_def by (intro query_growing)

lemma growing_CreateOutboxEvent [query_growing]: "growing (CreateOutboxEvent env ty k e)"
  by (cases "marshal_entry e") (auto simp: CreateOutboxEvent_def intro: query_growing)

lemma growing_not_found_as [query_growing]: "growing (not_found_as e err)"
  unfolding not_found_as_def by (intro query_growing)

lemma growing_lock_account [query_growing]: "growing (lock_account (queries env) i src)"
  unfolding lock_account_queries by (intro query_growing)

lemma growing_replay [query_growing]: "growing (replay (queries env) p)"
  unfolding replay_queries by (intro query_growing)

lemma growing_post_entries [query_growing]: "growing (post_entries (queries env) p sa da c)"
  unfolding post_entries_queries write_entries_queries Let_def by (intro query_growing)

lemma growing_post_or_replay [query_growing]: "growing (post_or_replay (queries env) p sa da)"
proof (rule growingI)
  fix s r s'
  assume run: "post_or_replay (queries env) p sa da s = (r, s')"
  obtain c s1 where ct: "CreateTransaction env (requested p) s = (c, s1)" by fastforce
  have "set (s_locks s) \<subseteq> set (s_locks s1)" by (rule growingD [OF growing_CreateTransaction ct])
  moreover have "set (s_locks s1) \<subseteq> set (s_locks s')"
    using run ct growingD [OF growing_replay, of env p s1 r s'] growingD [OF growing_post_entries, of env p sa da _ s1 r s']
    by (auto simp: post_or_replay_queries split: sum.splits if_splits)
  ultimately show "set (s_locks s) \<subseteq> set (s_locks s')" by (rule order_trans)
qed

lemma growing_transfer [query_growing]: "growing (transfer (queries env) p)"
  unfolding transfer_queries Let_def by (intro query_growing) (auto intro!: query_growing)

lemma growing_reversible [query_growing]: "growing (reversible (queries env) i)"
  unfolding reversible_queries by (intro query_growing)

section \<open>Queries that change what their locks cover\<close>

text \<open>
  A query that is run with the locks \<open>P\<close> held changes only what the locks it then holds cover. A
  statement that writes an entry or a status has its locks from earlier statements: the ones it
  takes itself, for a foreign key or for the update, are not the ones that cover it.
\<close>

named_theorems query_guarded \<open>queries that change only what their locks cover\<close>

definition guarded :: "resource set \<Rightarrow> 'a query \<Rightarrow> bool" where
  "guarded P m \<longleftrightarrow>
     (\<forall>s. P \<subseteq> set (s_locks s) \<longrightarrow> covered (set (s_locks (snd (m s)))) (s_db s) (s_db (snd (m s))))"

text \<open>A query that succeeds only with the locks \<open>R\<close>.\<close>

definition secures :: "resource set \<Rightarrow> 'a query \<Rightarrow> bool" where
  "secures R m \<longleftrightarrow> (\<forall>s a s'. m s = (Inr a, s') \<longrightarrow> R \<subseteq> set (s_locks s'))"

lemma guardedI:
  "(\<And>s r s'. P \<subseteq> set (s_locks s) \<Longrightarrow> m s = (r, s') \<Longrightarrow> covered (set (s_locks s')) (s_db s) (s_db s')) \<Longrightarrow>
   guarded P m"
  unfolding guarded_def by (metis prod.collapse)

lemma guardedD:
  "guarded P m \<Longrightarrow> P \<subseteq> set (s_locks s) \<Longrightarrow> m s = (r, s') \<Longrightarrow> covered (set (s_locks s')) (s_db s) (s_db s')"
  unfolding guarded_def by (metis snd_conv)

lemma guarded_ret [query_guarded]: "guarded P (ret a)"
  by (rule guardedI) (simp add: ret_def covered_same_tables)

lemma guarded_throw [query_guarded]: "guarded P (throw e)"
  by (rule guardedI) (simp add: throw_def covered_same_tables)

lemma guarded_acquire [query_guarded]: "guarded P (acquire r)"
  by (rule guardedI) (auto simp: acquire_def covered_same_tables split: if_splits)

lemma guarded_if [query_guarded]: "guarded P m \<Longrightarrow> guarded P m' \<Longrightarrow> guarded P (if b then m else m')"
  by simp

text \<open>Two covered runs after each other are one.\<close>

lemma covered_chain:
  assumes "covered (set (s_locks s1)) (s_db s) (s_db s1)" "set (s_locks s1) \<subseteq> set (s_locks s')"
    and "covered (set (s_locks s')) (s_db s1) (s_db s')"
  shows "covered (set (s_locks s')) (s_db s) (s_db s')"
  using assms by (meson covered_mono covered_trans)

lemma guarded_after:
  assumes m: "guarded P m" "growing m" "secures R m" and f: "\<And>a. guarded (R \<union> P) (f a)" "\<And>a. growing (f a)"
  shows "guarded P (bindQ m f)"
proof (rule guardedI)
  fix s r s'
  assume P: "P \<subseteq> set (s_locks s)" and run: "bindQ m f s = (r, s')"
  obtain r1 s1 where r1: "m s = (r1, s1)" by fastforce
  note 1 = guardedD [OF m(1) P r1]
  show "covered (set (s_locks s')) (s_db s) (s_db s')"
  proof (cases r1)
    case (Inl e)
    with run r1 1 show ?thesis by (simp add: bindQ_def)
  next
    case (Inr a)
    with run r1 have fa: "f a s1 = (r, s')" by (simp add: bindQ_def)
    have "R \<subseteq> set (s_locks s1)" using m(3) r1 Inr by (simp add: secures_def)
    with P growingD [OF m(2) r1] have "R \<union> P \<subseteq> set (s_locks s1)" by blast
    from 1 growingD [OF f(2) fa] guardedD [OF f(1) this fa] show ?thesis by (rule covered_chain)
  qed
qed

lemma secures_nothing: "secures {} m"
  by (simp add: secures_def)

lemma guarded_bindQ [query_guarded]:
  assumes "guarded P m" "growing m" "\<And>a. guarded P (f a)" "\<And>a. growing (f a)"
  shows "guarded P (bindQ m f)"
  using assms by (intro guarded_after [OF _ _ secures_nothing]) simp_all

lemma guarded_onErr [query_guarded]:
  assumes "guarded P m" "growing m" "\<And>e. guarded P (h e)" "\<And>e. growing (h e)"
  shows "guarded P (onErr m h)"
proof (rule guardedI)
  fix s r s'
  assume P: "P \<subseteq> set (s_locks s)" and run: "onErr m h s = (r, s')"
  obtain r1 s1 where m: "m s = (r1, s1)" by fastforce
  note 1 = guardedD [OF assms(1) P m]
  show "covered (set (s_locks s')) (s_db s) (s_db s')"
  proof (cases r1)
    case (Inr a)
    with run m 1 show ?thesis by (simp add: onErr_def)
  next
    case (Inl e)
    with run m have he: "h e s1 = (r, s')" by (simp add: onErr_def)
    have "P \<subseteq> set (s_locks s1)" using P growingD [OF assms(2) m] by (rule order_trans)
    from 1 growingD [OF assms(4) he] guardedD [OF assms(3) this he] show ?thesis by (rule covered_chain)
  qed
qed

text \<open>A statement whose effect, if it has one, is covered by \<open>R\<close>.\<close>

lemma exec_sql_effect:
  assumes run: "exec_sql env f s = (r, s')"
    and eff: "\<And>d r d'. f d = (r, d') \<Longrightarrow> covered R d d'"
  shows "s_locks s' = s_locks s \<and> covered R (s_db s) (s_db s')"
  using run eff [of "s_db s"]
  by (auto simp: exec_sql_def Let_def covered_same_tables split: option.splits prod.splits)

lemma guarded_exec_sql:
  assumes "\<And>d r d'. f d = (r, d') \<Longrightarrow> covered P d d'"
  shows "guarded P (exec_sql env f)"
  by (rule guardedI) (use exec_sql_effect [of env f _ _ _ P] assms in \<open>fastforce intro: covered_mono\<close>)

lemma guarded_read_sql [query_guarded]: "guarded P (read_sql env f)"
  unfolding read_sql_def by (rule guarded_exec_sql) (auto simp: covered_same_tables)

section \<open>The statements\<close>

lemma insert_ledger_entry_covered:
  "insert_ledger_entry env i a n d = (r, d') \<Longrightarrow> covered (case r of Inl _ \<Rightarrow> {} | Inr _ \<Rightarrow> {AccountRow a}) d d'"
  by (auto simp: insert_ledger_entry_def Let_def covered_def balance_of_def keyed_def transaction_of_def
      reversed_ids_def split: if_splits)

lemma insert_transaction_covered:
  assumes "insert_transaction env t d = (r, d')"
  shows "covered (case r of Inl _ \<Rightarrow> {}
      | Inr _ \<Rightarrow> insert (IdempotencyKey (tx_IdempotencyKey t)) (set (reversal_key (tx_ReversalOf t)))) d d'"
proof (cases r)
  case (Inl e)
  with assms have "same_tables d d'"
    by (auto simp: insert_transaction_def Let_def same_tables_def split: if_splits)
  then show ?thesis by (rule covered_same_tables)
next
  case (Inr row)
  with assms have d': "transactions d' = transactions d @ [inserted_transaction env t (transactions_seq d + 1)]"
    "accounts d' = accounts d" "ledger_entries d' = ledger_entries d"
    by (auto simp: insert_transaction_def Let_def split: if_splits)
  have rev: "reversed_ids d' = reversed_ids d \<union> {i. tx_ReversalOf t = Some i}"
    by (auto simp: reversed_ids_def d' inserted_transaction_def)
  have key: "keyed d' k = keyed d k" if "k \<noteq> tx_IdempotencyKey t" for k
    using that by (simp add: keyed_def d' find_append inserted_transaction_def split: option.split)
  have old: "transaction_of d' i = Some x" if "transaction_of d i = Some x" for i x
    using that by (simp add: transaction_of_def d' find_append)
  have changed: "k = tx_IdempotencyKey t"
    if "map_option unmarked (keyed d' k) \<noteq> map_option unmarked (keyed d k)" for k
    using key [of k] that by (cases "k = tx_IdempotencyKey t") auto
  have "balance_of d' = balance_of d" using d'(3) by (rule balance_of_cong)
  then show ?thesis
    using changed old by (auto simp: covered_def Inr d'(2) rev reversal_key_def)
qed

lemma insert_outbox_event_covered: "insert_outbox_event env ty k js d = (r, d') \<Longrightarrow> covered {} d d'"
  by (auto simp: insert_outbox_event_def Let_def covered_def balance_of_def keyed_def transaction_of_def
      reversed_ids_def split: if_splits option.splits)

lemma unmarked_set_status [simp]: "unmarked (set_status i st t) = unmarked t"
  by (simp add: unmarked_def set_status_def)

lemma update_status_covered:
  assumes "update_status i st d = (r, d')"
  shows "covered {TxRow i} d d'"
proof (cases r)
  case (Inl e)
  with assms have "d' = d" by (auto simp: update_status_def Let_def split: if_splits)
  then show ?thesis by (simp add: covered_same_tables)
next
  case (Inr n)
  with assms have d': "transactions d' = map (set_status i st) (transactions d)"
    "accounts d' = accounts d" "ledger_entries d' = ledger_entries d"
    by (auto simp: update_status_def Let_def split: if_splits)
  have "map_option unmarked (keyed d' k) = map_option unmarked (keyed d k)" for k
    by (simp add: keyed_def d' find_map option.map_comp comp_def)
  moreover have "transaction_of d' j = Some t" if "transaction_of d j = Some t" "j \<noteq> i" for j t
  proof -
    have "transaction_of d' j = map_option (set_status i st) (transaction_of d j)"
      by (simp add: transaction_of_def d' find_map comp_def)
    moreover have "set_status i st t = t"
      using that by (auto simp: set_status_def dest: transaction_of_SomeD)
    ultimately show ?thesis using that(1) by simp
  qed
  moreover have "reversed_ids d' = reversed_ids d"
    by (auto simp: reversed_ids_def d' image_image)
  moreover have "balance_of d' = balance_of d" using d'(3) by (rule balance_of_cong)
  ultimately show ?thesis by (auto simp: covered_def d'(2))
qed

section \<open>The queries\<close>

lemma guarded_select_account [query_guarded]: "guarded P (select_account env Q)"
  unfolding select_account_def by (rule query_guarded)

lemma guarded_GetAccount [query_guarded]: "guarded P (GetAccount env i)"
  unfolding GetAccount_def by (rule query_guarded)

lemma guarded_GetAccountForUpdate [query_guarded]: "guarded P (GetAccountForUpdate env i)"
  unfolding GetAccountForUpdate_def by (intro query_guarded query_growing)

lemma guarded_GetSystemAccountByCode [query_guarded]: "guarded P (GetSystemAccountByCode env c)"
  unfolding GetSystemAccountByCode_def by (rule query_guarded)

lemma guarded_GetAccountBalance [query_guarded]: "guarded P (GetAccountBalance env i)"
  unfolding GetAccountBalance_def by (rule query_guarded)

lemma guarded_GetTransaction [query_guarded]: "guarded P (GetTransaction env k)"
  unfolding GetTransaction_def by (rule query_guarded)

lemma guarded_GetTransactionByID [query_guarded]: "guarded P (GetTransactionByID env i)"
  unfolding GetTransactionByID_def by (intro query_guarded query_growing)

lemma guarded_CreateOutboxEvent [query_guarded]: "guarded P (CreateOutboxEvent env ty k e)"
proof (cases "marshal_entry e")
  case (Inr js)
  have "guarded P (exec_sql env (insert_outbox_event env ty k js))"
    by (rule guarded_exec_sql) (auto intro: covered_mono [OF insert_outbox_event_covered])
  with Inr show ?thesis by (simp add: CreateOutboxEvent_def)
qed (simp add: CreateOutboxEvent_def query_guarded)

text \<open>The two statements that write under locks they have from others.\<close>

lemma guarded_CreateLedgerEntry [query_guarded]:
  assumes "AccountRow a \<in> P"
  shows "guarded P (CreateLedgerEntry env i a n)"
proof -
  have "covered P d d'" if "insert_ledger_entry env i a n d = (r, d')" for d r d'
    using insert_ledger_entry_covered [OF that] by (rule covered_mono) (use assms in \<open>auto split: sum.splits\<close>)
  then show ?thesis unfolding CreateLedgerEntry_def by (intro query_guarded query_growing guarded_exec_sql)
qed

lemma guarded_UpdateTransactionStatus [query_guarded]:
  assumes "TxRow i \<in> P"
  shows "guarded P (UpdateTransactionStatus env i st)"
proof -
  have "covered P d d'" if "update_status i st d = (r, d')" for d r d'
    using update_status_covered [OF that] by (rule covered_mono) (use assms in simp)
  then show ?thesis unfolding UpdateTransactionStatus_def by (intro query_guarded query_growing guarded_exec_sql)
qed

text \<open>
  The insert of a transaction takes the locks that cover it: its unique keys. They may be recorded
  after the statement that takes them, so the statement and its locks are treated as one.
\<close>

lemma acquire_key:
  assumes "\<And>h. dominates h r \<Longrightarrow> h = r"
  shows "\<exists>s'. acquire r s = (Inr (), s') \<and> s_db s' = s_db s \<and> set (s_locks s') = insert r (set (s_locks s))"
  using assms by (auto simp: acquire_def list_ex_iff)

lemma dominates_IdempotencyKey: "dominates h (IdempotencyKey k) \<Longrightarrow> h = IdempotencyKey k"
  by (cases h) (simp_all add: dominates_def)

lemma dominates_ReversalKey: "dominates h (ReversalKey i) \<Longrightarrow> h = ReversalKey i"
  by (cases h) (simp_all add: dominates_def)

lemmas acquire_IdempotencyKey = acquire_key [OF dominates_IdempotencyKey]

lemma lock_references_run:
  "\<exists>s'. lock_references t s = (Inr (), s') \<and> s_db s' = s_db s \<and>
     set (s_locks s) \<union> set (reversal_key (tx_ReversalOf t)) \<subseteq> set (s_locks s')"
  by (auto simp: lock_references_def bindQ_def acquire_def ret_def reversal_key_def list_ex_iff
      dest: dominates_ReversalKey split: option.split)

lemma exec_sql_cases:
  assumes "exec_sql env f s = (r, s')" "\<And>d r d'. f d = (r, d') \<Longrightarrow> covered (R r) d d'"
  shows "s_locks s' = s_locks s \<and> covered (case r of Inl _ \<Rightarrow> R r | Inr _ \<Rightarrow> R r) (s_db s) (s_db s')"
  using assms(1) assms(2) [of "s_db s"]
  by (auto simp: exec_sql_def Let_def covered_same_tables split: option.splits prod.splits sum.splits)

lemma guarded_CreateTransaction [query_guarded]: "guarded P (CreateTransaction env t)"
proof (rule guardedI)
  fix s r s'
  assume run: "CreateTransaction env t s = (r, s')"
  let ?K = "IdempotencyKey (tx_IdempotencyKey t)" and ?V = "set (reversal_key (tx_ReversalOf t))"
  obtain s1 where acq: "acquire ?K s = (Inr (), s1)" "s_db s1 = s_db s"
    "set (s_locks s1) = insert ?K (set (s_locks s))" using acquire_IdempotencyKey by blast
  obtain r2 s2 where ins: "exec_sql env (insert_transaction env t) s1 = (r2, s2)" by fastforce
  from exec_sql_cases [OF ins, of "case_sum (\<lambda>_. {}) (\<lambda>_. insert ?K ?V)"] insert_transaction_covered
  have 2: "s_locks s2 = s_locks s1"
    "covered (case r2 of Inl _ \<Rightarrow> {} | Inr _ \<Rightarrow> insert ?K ?V) (s_db s1) (s_db s2)"
    by (auto split: sum.splits)
  show "covered (set (s_locks s')) (s_db s) (s_db s')"
  proof (cases r2)
    case (Inl e)
    with run acq ins have "s' = s2" by (simp add: CreateTransaction_def bindQ_def)
    with acq 2 Inl show ?thesis by (auto intro: covered_mono)
  next
    case (Inr row)
    obtain s3 where ref: "lock_references t s2 = (Inr (), s3)" "s_db s3 = s_db s2"
      "set (s_locks s2) \<union> ?V \<subseteq> set (s_locks s3)" using lock_references_run by blast
    with run acq ins Inr have "s' = s3" by (simp add: CreateTransaction_def bindQ_def ret_def)
    moreover have "insert ?K ?V \<subseteq> set (s_locks s3)" using ref(3) 2(1) acq(3) by auto
    then have "covered (set (s_locks s3)) (s_db s1) (s_db s2)" using 2(2) Inr by (auto intro: covered_mono)
    ultimately show ?thesis using acq 2(1) ref by auto
  qed
qed

section \<open>The requests\<close>

text \<open>The locks \<^verbatim>\<open>FOR UPDATE\<close> that the service takes.\<close>

lemma secures_onErr: "secures R m \<Longrightarrow> (\<And>e s a s'. h e s \<noteq> (Inr a, s')) \<Longrightarrow> secures R (onErr m h)"
  by (fastforce simp: secures_def elim: onErr_InrE)

lemma dominates_AccountRow: "dominates h (AccountRow i) \<Longrightarrow> h = AccountRow i"
  by (cases h) (simp_all add: dominates_def)

lemma dominates_TxRow: "dominates h (TxRow i) \<Longrightarrow> h = TxRow i"
  by (cases h) (simp_all add: dominates_def)

lemma secures_GetAccountForUpdate: "secures {AccountRow i} (GetAccountForUpdate env i)"
  unfolding secures_def GetAccountForUpdate_def
  by (auto simp: acquire_def list_ex_iff dest: dominates_AccountRow elim!: bindQ_InrE ret_InrE split: if_splits)

lemma secures_lock_account: "secures {AccountRow i} (lock_account (queries env) i src)"
  unfolding lock_account_queries
  by (rule secures_onErr [OF secures_GetAccountForUpdate]) (simp add: throw_def)

lemma secures_GetTransactionByID: "secures {TxRow i} (GetTransactionByID env i)"
  unfolding secures_def GetTransactionByID_def
  by (auto simp: acquire_def list_ex_iff dest: dominates_TxRow elim!: bindQ_InrE ret_InrE split: if_splits)

lemma secures_bindQ:
  assumes "secures R m" "\<And>a. growing (f a)"
  shows "secures R (bindQ m f)"
  unfolding secures_def
proof (intro allI impI)
  fix s b s'
  assume "bindQ m f s = (Inr b, s')"
  then obtain a s1 where "m s = (Inr a, s1)" "f a s1 = (Inr b, s')" by (rule bindQ_InrE)
  with assms show "R \<subseteq> set (s_locks s')" unfolding secures_def by (meson growingD order_trans)
qed

lemma secures_reversible: "secures {TxRow i} (reversible (queries env) i)"
  unfolding reversible_queries
  by (intro secures_bindQ secures_onErr secures_GetTransactionByID query_growing)
    (simp add: not_found_as_def throw_def)

lemma guarded_not_found_as [query_guarded]: "guarded P (not_found_as e err)"
  unfolding not_found_as_def by (intro query_guarded)

lemma guarded_lock_account [query_guarded]: "guarded P (lock_account (queries env) i src)"
  unfolding lock_account_queries by (intro query_guarded query_growing)

lemma guarded_replay [query_guarded]: "guarded P (replay (queries env) p)"
  unfolding replay_queries by (intro query_guarded query_growing)

text \<open>With both accounts locked the entries may be written.\<close>

lemma guarded_post_entries:
  assumes "AccountRow (p_From p) \<in> P" "AccountRow (p_To p) \<in> P"
  shows "guarded P (post_entries (queries env) p sa da c)"
  unfolding post_entries_queries write_entries_queries Let_def
  using assms by (intro query_guarded query_growing)

lemma guarded_post_or_replay:
  assumes locks: "AccountRow (p_From p) \<in> P" "AccountRow (p_To p) \<in> P"
  shows "guarded P (post_or_replay (queries env) p sa da)"
proof (rule guardedI)
  fix s r s'
  assume P: "P \<subseteq> set (s_locks s)" and run: "post_or_replay (queries env) p sa da s = (r, s')"
  obtain c s1 where ct: "CreateTransaction env (requested p) s = (c, s1)" by fastforce
  note 1 = guardedD [OF guarded_CreateTransaction P ct]
  have P1: "P \<subseteq> set (s_locks s1)" using P growingD [OF growing_CreateTransaction ct] by (rule order_trans)
  show "covered (set (s_locks s')) (s_db s) (s_db s')"
  proof (cases c)
    case (Inl e)
    show ?thesis
    proof (cases "errors_Is e (StorageError ErrDuplicateKey)")
      case True
      with run ct Inl have rep: "replay (queries env) p s1 = (r, s')" by (simp add: post_or_replay_queries)
      from 1 growingD [OF growing_replay rep] guardedD [OF guarded_replay P1 rep] show ?thesis by (rule covered_chain)
    qed (use run ct Inl 1 in \<open>simp add: post_or_replay_queries\<close>)
  next
    case (Inr created)
    with run ct have post: "post_entries (queries env) p sa da created s1 = (r, s')" by (simp add: post_or_replay_queries)
    from 1 growingD [OF growing_post_entries post] guardedD [OF guarded_post_entries [OF locks] P1 post]
    show ?thesis by (rule covered_chain)
  qed
qed

lemma guarded_transfer [query_guarded]: "guarded P (transfer (queries env) p)"
  unfolding transfer_queries Let_def
proof (rule guarded_after [OF _ _ secures_lock_account], goal_cases)
  case (3 x)
  show ?case
  proof (rule guarded_after [OF _ _ secures_lock_account], goal_cases)
    case (3 y)
    have "AccountRow (p_From p) \<in> {AccountRow (max (p_From p) (p_To p))} \<union> ({AccountRow (min (p_From p) (p_To p))} \<union> P)"
      "AccountRow (p_To p) \<in> {AccountRow (max (p_From p) (p_To p))} \<union> ({AccountRow (min (p_From p) (p_To p))} \<union> P)"
      by (auto simp: min_def max_def)
    then show ?case by (auto intro!: query_guarded guarded_post_or_replay)
  qed (auto intro!: query_guarded query_growing)
next
  case (4 x)
  show ?case by (intro query_growing) (auto intro!: query_growing)
qed (intro query_guarded query_growing)+

lemma guarded_transfer_closure: "guarded P (transfer_closure (queries env) f t a k)"
  unfolding transfer_closure_queries by (intro query_guarded query_growing)

lemma guarded_deposit_closure: "guarded P (deposit_closure (queries env) i a src k)"
  unfolding deposit_closure_queries by (intro query_guarded query_growing)

lemma guarded_withdraw_closure: "guarded P (withdraw_closure (queries env) i a dst k)"
  unfolding withdraw_closure_queries by (intro query_guarded query_growing)

lemma guarded_reversible [query_guarded]: "guarded P (reversible (queries env) i)"
  unfolding reversible_queries by (intro query_guarded query_growing)

text \<open>A reversal has locked the row of its target before it marks it.\<close>

lemma guarded_reverse_closure:
  assumes "reverse_closure (queries env) i k s = (r, s')"
  shows "covered (set (s_locks s')) (s_db s) (s_db s')"
proof -
  let ?m = "bindQ (reversible (queries env) i) (\<lambda>tx. transfer (queries env) (reversal_params tx k))"
  have m: "guarded {} ?m" "secures {TxRow i} ?m"
    by (intro query_guarded query_growing secures_bindQ secures_reversible)+
  obtain c s1 where run: "?m s = (c, s1)" by fastforce
  note 1 = guardedD [OF m(1) empty_subsetI run]
  show ?thesis
  proof (cases c)
    case (Inl e)
    with assms run 1 show ?thesis by (simp add: reverse_closure_queries)
  next
    case (Inr res)
    have held: "{TxRow i} \<subseteq> set (s_locks s1)" using m(2) run Inr by (simp add: secures_def)
    obtain u s2 where upd: "UpdateTransactionStatus env i txStatusReversed s1 = (u, s2)" by fastforce
    with assms run Inr have "s' = s2" by (cases u) (simp_all add: reverse_closure_queries)
    moreover have "covered (set (s_locks s2)) (s_db s1) (s_db s2)"
      using held upd by (rule guardedD [OF guarded_UpdateTransactionStatus, rotated]) simp
    ultimately show ?thesis
      using covered_chain [OF 1 growingD [OF growing_UpdateTransactionStatus upd]] by simp
  qed
qed

text \<open>After \<^verbatim>\<open>WithTx\<close> the tables are the old ones or those of the closure.\<close>

lemma WithTx_covered:
  assumes "WithTx env fn d = (r, d')"
    and "begin_fault env = None \<Longrightarrow> covered (set (trace fn d)) d (s_db (snd (fn (fresh_session d))))"
  shows "covered (if begin_fault env = None then set (trace fn d) else {}) d d'"
  using assms
  by (auto simp: WithTx_def trace_def case_prod_beta covered_same_tables
      split: option.splits commit_outcome.splits)

lemma capture_covered:
  assumes "guarded {} m"
  shows "covered (set (trace (capture m) d)) d (s_db (snd (capture m (fresh_session d))))"
proof -
  obtain r s' where run: "m (fresh_session d) = (r, s')" by fastforce
  with guardedD [OF assms empty_subsetI run] show ?thesis
    by (cases r) (simp_all add: trace_def capture_def fresh_session_def)
qed

lemma serve_covered:
  assumes "serve env req d = (out, d')"
  shows "covered (set (lock_trace env req d)) d d'"
proof (cases req)
  case (Transfer_req a b amount key)
  show ?thesis
  proof (cases "amount \<le> 0 \<or> a = b")
    case True
    with assms Transfer_req have "d' = d" by (auto simp: Transfer_def split: if_splits)
    then show ?thesis by (simp add: covered_same_tables)
  next
    case False
    with assms Transfer_req have "WithTx env (capture (transfer_closure (queries env) a b amount key)) d = (out, d')"
      by (simp add: Transfer_def)
    from WithTx_covered [OF this capture_covered [OF guarded_transfer_closure]] False Transfer_req
    show ?thesis by (cases "begin_fault env") (auto simp: lock_trace_def)
  qed
next
  case (Deposit_req a amount name key)
  show ?thesis
  proof (cases "amount \<le> 0")
    case True
    with assms Deposit_req show ?thesis by (auto simp: Deposit_def covered_same_tables)
  next
    case False
    with assms Deposit_req have "WithTx env (capture (deposit_closure (queries env) a amount name key)) d = (out, d')"
      by (simp add: Deposit_def)
    from WithTx_covered [OF this capture_covered [OF guarded_deposit_closure]] False Deposit_req
    show ?thesis by (cases "begin_fault env") (auto simp: lock_trace_def)
  qed
next
  case (Withdraw_req a amount name key)
  show ?thesis
  proof (cases "amount \<le> 0")
    case True
    with assms Withdraw_req show ?thesis by (auto simp: Withdraw_def covered_same_tables)
  next
    case False
    with assms Withdraw_req have "WithTx env (capture (withdraw_closure (queries env) a amount name key)) d = (out, d')"
      by (simp add: Withdraw_def)
    from WithTx_covered [OF this capture_covered [OF guarded_withdraw_closure]] False Withdraw_req
    show ?thesis by (cases "begin_fault env") (auto simp: lock_trace_def)
  qed
next
  case (Reverse_req txid key)
  with assms have run: "WithTx env (reverse_closure (queries env) txid key) d = (out, d')" by (simp add: Reverse_def)
  obtain r s' where cl: "reverse_closure (queries env) txid key (fresh_session d) = (r, s')" by fastforce
  have "s_db (fresh_session d) = d" by (simp add: fresh_session_def)
  with guarded_reverse_closure [OF cl] have "covered (set (trace (reverse_closure (queries env) txid key) d)) d
      (s_db (snd (reverse_closure (queries env) txid key (fresh_session d))))"
    by (simp add: trace_def cl)
  from WithTx_covered [OF run this] Reverse_req show ?thesis by (cases "begin_fault env") (auto simp: lock_trace_def)
qed

end
