(* ===== verification/Independence.thy ===== *)
theory Independence
  imports Isolation
begin

text \<open>
  The other half of isolation: the answer of a request depends only on accounts, which never change,
  and on what its locks protect. Two requests without a common lock therefore get the same answers
  and leave the same ledger in either order.
\<close>

section \<open>The verdict on a request\<close>

fun params_of :: "db \<Rightarrow> request \<Rightarrow> transfer_params" where
  "params_of d (Transfer_req from to amount key) =
     \<lparr>p_From = from, p_To = to, p_Amount = amount, p_Type = TxTypeTransfer,
      p_IdempotencyKey = key, p_ReversalOf = None\<rparr>"
| "params_of d (Deposit_req dest amount source key) =
     \<lparr>p_From = counterpart_id d dest source ''_IN_'', p_To = dest, p_Amount = amount,
      p_Type = TxTypeDeposit, p_IdempotencyKey = key, p_ReversalOf = None\<rparr>"
| "params_of d (Withdraw_req source amount dest key) =
     \<lparr>p_From = source, p_To = counterpart_id d source dest ''_OUT_'', p_Amount = amount,
      p_Type = TxTypeWithdrawal, p_IdempotencyKey = key, p_ReversalOf = None\<rparr>"
| "params_of d (Reverse_req txid key) =
     (case transaction_of d txid of
        Some t \<Rightarrow> reversal_params (scan_transaction t) key
      | None \<Rightarrow> \<lparr>p_From = 0, p_To = 0, p_Amount = 0, p_Type = TxTypeReversal,
                 p_IdempotencyKey = key, p_ReversalOf = Some txid\<rparr>)"

fun verdict_of :: "db \<Rightarrow> request \<Rightarrow> verdict" where
  "verdict_of d (Transfer_req from to amount key) =
     transfer_verdict d (params_of d (Transfer_req from to amount key))"
| "verdict_of d (Deposit_req dest amount source key) =
     system_verdict d (params_of d (Deposit_req dest amount source key)) dest source ''_IN_''
       ErrDestinationAccountNotFound ErrInvalidDepositDestination"
| "verdict_of d (Withdraw_req source amount dest key) =
     system_verdict d (params_of d (Withdraw_req source amount dest key)) source dest ''_OUT_''
       ErrSourceAccountNotFound ErrInvalidWithdrawSource"
| "verdict_of d (Reverse_req txid key) = reverse_verdict d txid key"

lemma serve_settles:
  assumes "ready env d"
  shows "settles env (params_of d req) d (verdict_of d req) (finish req) (serve env req d)"
proof (cases req)
  case (Transfer_req a b amount key)
  with Transfer_settles [OF assms, of "params_of d req" a b amount key] show ?thesis
    by (simp add: settles_def split: verdict.splits)
next
  case (Deposit_req a amount name key)
  with Deposit_settles [OF assms, of "params_of d req" a name amount key] show ?thesis
    by (simp add: settles_def split: verdict.splits)
next
  case (Withdraw_req a amount name key)
  with Withdraw_settles [OF assms, of "params_of d req" a name amount key] show ?thesis
    by (simp add: settles_def split: verdict.splits)
next
  case (Reverse_req txid key)
  with Reverse_settles [OF assms, of txid "params_of d req" key] show ?thesis
    by (simp add: settles_def split: verdict.splits)
qed

section \<open>Locks that are certainly taken\<close>

text \<open>However the query ends, from every session on \<open>d\<close> it has taken these locks.\<close>

definition takes :: "resource set \<Rightarrow> 'a query \<Rightarrow> db \<Rightarrow> bool" where
  "takes R m d \<longleftrightarrow> (\<forall>s. s_db s = d \<longrightarrow> R \<subseteq> set (s_locks (snd (m s))))"

text \<open>The locks \<^verbatim>\<open>FOR UPDATE\<close>: no weaker lock of the row stands for one.\<close>

lemma takes_acquire: "(\<And>h. dominates h r \<Longrightarrow> h = r) \<Longrightarrow> takes {r} (acquire r) d"
  by (auto simp: takes_def acquire_def list_ex_iff)

lemma takes_first:
  assumes "takes R m d" "\<And>a. growing (f a)"
  shows "takes R (bindQ m f) d"
  unfolding takes_def
proof (intro allI impI)
  fix s :: session
  assume s: "s_db s = d"
  obtain r s1 where run: "m s = (r, s1)" by fastforce
  with assms(1) s have R: "R \<subseteq> set (s_locks s1)" unfolding takes_def by (metis snd_conv)
  show "R \<subseteq> set (s_locks (snd (bindQ m f s)))"
  proof (cases r)
    case (Inl e)
    with run R show ?thesis by (simp add: bindQ_def)
  next
    case (Inr a)
    obtain r2 s2 where f: "f a s1 = (r2, s2)" by fastforce
    from growingD [OF assms(2) f] R have "R \<subseteq> set (s_locks s2)" by blast
    with f run Inr show ?thesis by (simp add: bindQ_def)
  qed
qed

lemma takes_after:
  assumes "gives m d (Inr a) d1" "takes R (f a) d1"
  shows "takes R (bindQ m f) d"
  unfolding takes_def
proof (intro allI impI)
  fix s :: session
  assume "s_db s = d"
  with assms(1) obtain s1 where "m s = (Inr a, s1)" "s_db s1 = d1" by (auto simp: gives_def)
  with assms(2) show "R \<subseteq> set (s_locks (snd (bindQ m f s)))" by (simp add: bindQ_def takes_def)
qed

lemma takes_onErr:
  assumes "gives m d (Inr a) d1" "takes R m d"
  shows "takes R (onErr m h) d"
  unfolding takes_def
proof (intro allI impI)
  fix s :: session
  assume s: "s_db s = d"
  with assms(1) obtain s1 where "m s = (Inr a, s1)" by (auto simp: gives_def)
  moreover from assms(2) s have "R \<subseteq> set (s_locks (snd (m s)))" by (simp add: takes_def)
  ultimately show "R \<subseteq> set (s_locks (snd (onErr m h s)))" by (simp add: onErr_def)
qed

lemma takes_Un: "takes R m d \<Longrightarrow> takes R' m d \<Longrightarrow> takes (R \<union> R') m d"
  by (simp add: takes_def)


lemma takes_locked: "(\<And>h. dominates h r \<Longrightarrow> h = r) \<Longrightarrow> takes {r} (bindQ (acquire r) (\<lambda>_. ret a)) d"
  by (rule takes_first [OF takes_acquire growing_ret])

text \<open>The key of a transaction, also when the key turns out to be used.\<close>

lemma CreateTransaction_takes_key:
  "IdempotencyKey (tx_IdempotencyKey t) \<in> set (s_locks (snd (CreateTransaction env t s)))"
proof -
  let ?K = "IdempotencyKey (tx_IdempotencyKey t)"
  obtain s1 where acq: "acquire ?K s = (Inr (), s1)" "set (s_locks s1) = insert ?K (set (s_locks s))"
    using acquire_IdempotencyKey by blast
  obtain r2 s2 where ins: "exec_sql env (insert_transaction env t) s1 = (r2, s2)" by fastforce
  then have same: "s_locks s2 = s_locks s1"
    by (auto simp: exec_sql_def Let_def split: option.splits prod.splits)
  show ?thesis
  proof (cases r2)
    case (Inl e)
    with acq ins same show ?thesis by (simp add: CreateTransaction_def bindQ_def)
  next
    case (Inr row)
    obtain s3 where ref: "lock_references t s2 = (Inr (), s3)" "set (s_locks s2) \<subseteq> set (s_locks s3)"
      using lock_references_run [of t s2] by auto
    with acq ins same Inr show ?thesis by (auto simp: CreateTransaction_def bindQ_def ret_def)
  qed
qed

lemma takes_post_or_replay: "takes {IdempotencyKey (p_IdempotencyKey p)} (post_or_replay (queries env) p sa da) d"
proof -
  have "IdempotencyKey (p_IdempotencyKey p) \<in> set (s_locks (snd (post_or_replay (queries env) p sa da s)))" for s
  proof -
    obtain c s1 where ct: "CreateTransaction env (requested p) s = (c, s1)" by fastforce
    with CreateTransaction_takes_key [of "requested p" env s]
    have key: "IdempotencyKey (p_IdempotencyKey p) \<in> set (s_locks s1)" by (simp add: requested_def)
    obtain r2 s2 where rep: "replay (queries env) p s1 = (r2, s2)" by fastforce
    obtain r3 s3 where post: "post_entries (queries env) p sa da (case c of Inr x \<Rightarrow> x | Inl e \<Rightarrow> requested p) s1 = (r3, s3)"
      by fastforce
    have "set (s_locks s1) \<subseteq> set (s_locks s2)" "set (s_locks s1) \<subseteq> set (s_locks s3)"
      using growingD [OF growing_replay rep] growingD [OF growing_post_entries post] by blast+
    with key ct rep post show ?thesis by (cases c) (auto simp: post_or_replay_queries)
  qed
  then show ?thesis by (simp add: takes_def)
qed

lemma takes_lock_account:
  assumes "healthy env" "account_of d i = Some a"
  shows "takes {AccountRow i} (lock_account (queries env) i src) d"
proof -
  have "gives (select_account env (\<lambda>a. a_id a = i)) d (Inr (scan_account a)) d"
    using gives_GetAccount [OF assms(1), of i d] assms(2) by (simp add: GetAccount_def)
  then have "takes {AccountRow i} (GetAccountForUpdate env i) d"
    unfolding GetAccountForUpdate_def
    by (rule takes_after) (rule takes_locked [OF dominates_AccountRow])
  moreover have "gives (GetAccountForUpdate env i) d (Inr (scan_account a)) d"
    using gives_locked [OF gives_GetAccount [OF assms(1), of i d]] assms(2)
    by (simp add: GetAccountForUpdate_def GetAccount_def)
  ultimately show ?thesis unfolding lock_account_queries by (intro takes_onErr)
qed

text \<open>Both accounts and the key, when the transfer gets as far as looking for the key.\<close>

lemma takes_transfer:
  assumes h: "healthy env" and ab: "account_of d (p_From p) = Some a" "account_of d (p_To p) = Some b"
    and cur: "a_currency a = a_currency b"
  shows "takes {AccountRow (p_From p), AccountRow (p_To p), IdempotencyKey (p_IdempotencyKey p)} (transfer (queries env) p) d"
proof -
  let ?first = "min (p_From p) (p_To p)" and ?second = "max (p_From p) (p_To p)"
  obtain a1 a2 where a12: "account_of d ?first = Some a1" "account_of d ?second = Some a2"
    and same: "a_currency a1 = a_currency a2"
    using ab cur by (cases "p_From p \<le> p_To p") (auto simp: min_def max_def)
  have l1: "gives (lock_account (queries env) ?first (p_From p)) d (Inr (scan_account a1)) d"
    and l2: "gives (lock_account (queries env) ?second (p_From p)) d (Inr (scan_account a2)) d"
    using gives_lock_account [OF h, of ?first "p_From p" d] gives_lock_account [OF h, of ?second "p_From p" d]
    by (simp_all add: a12)
  have 1: "takes {AccountRow ?first} (transfer (queries env) p) d"
    unfolding transfer_queries Let_def
    by (rule takes_first [OF takes_lock_account [OF h a12(1)]])
      (intro query_growing, auto intro!: query_growing)
  have 2: "takes {AccountRow ?second} (transfer (queries env) p) d"
    unfolding transfer_queries Let_def
    by (rule takes_after [OF l1], rule takes_first [OF takes_lock_account [OF h a12(2)]])
      (auto intro!: query_growing)
  have 3: "takes {IdempotencyKey (p_IdempotencyKey p)} (transfer (queries env) p) d"
    unfolding transfer_queries Let_def
    by (rule takes_after [OF l1], rule takes_after [OF l2])
      (use same in \<open>auto simp: takes_post_or_replay\<close>)
  have "{AccountRow (p_From p), AccountRow (p_To p), IdempotencyKey (p_IdempotencyKey p)} =
      {AccountRow ?first} \<union> {AccountRow ?second} \<union> {IdempotencyKey (p_IdempotencyKey p)}"
    by (auto simp: min_def max_def)
  then show ?thesis using takes_Un [OF takes_Un [OF 1 2] 3] by simp
qed


section \<open>Requests that reach the transfer core\<close>

fun reaches_core :: "db \<Rightarrow> request \<Rightarrow> bool" where
  "reaches_core d (Transfer_req from to amount key) \<longleftrightarrow>
     0 < amount \<and> from \<noteq> to \<and> map_option a_type (account_of d from) = Some accountTypeUser \<and>
     map_option a_type (account_of d to) = Some accountTypeUser"
| "reaches_core d (Deposit_req dest amount source key) \<longleftrightarrow>
     0 < amount \<and> map_option a_type (account_of d dest) = Some accountTypeUser \<and>
     map_option a_type (system_counterpart d dest source ''_IN_'') = Some accountTypeSystem \<and>
     dest \<noteq> counterpart_id d dest source ''_IN_''"
| "reaches_core d (Withdraw_req source amount dest key) \<longleftrightarrow>
     0 < amount \<and> map_option a_type (account_of d source) = Some accountTypeUser \<and>
     map_option a_type (system_counterpart d source dest ''_OUT_'') = Some accountTypeSystem \<and>
     source \<noteq> counterpart_id d source dest ''_OUT_''"
| "reaches_core d (Reverse_req txid key) \<longleftrightarrow>
     (\<exists>t. transaction_of d txid = Some t \<and> t_status t = txStatusCompleted \<and> t_type t \<noteq> TxTypeReversal)"

lemma verdict_core: "reaches_core d req \<Longrightarrow> verdict_of d req = core_verdict d (params_of d req)"
  by (cases req)
    (auto simp: transfer_verdict_def system_verdict_def reverse_verdict_def counterpart_id_def
      split: option.splits)

text \<open>Before the core only accounts and the row of the reversed transaction count.\<close>

fun same_target :: "db \<Rightarrow> db \<Rightarrow> request \<Rightarrow> bool" where
  "same_target d d' (Reverse_req txid key) = (transaction_of d' txid = transaction_of d txid)"
| "same_target d d' req = True"

lemma lookups_cong:
  assumes "accounts d' = accounts d"
  shows "account_of d' = account_of d" "system_counterpart d' = system_counterpart d"
    "counterpart_id d' = counterpart_id d"
proof -
  show acc: "account_of d' = account_of d" using assms by (simp add: account_of_def fun_eq_iff)
  have "coded d' = coded d" using assms by (simp add: coded_def fun_eq_iff)
  with acc show sys: "system_counterpart d' = system_counterpart d"
    by (simp add: fun_eq_iff system_counterpart_def split: option.split)
  then show "counterpart_id d' = counterpart_id d" by (simp add: counterpart_id_def [abs_def])
qed

lemma params_cong: "accounts d' = accounts d \<Longrightarrow> same_target d d' req \<Longrightarrow> params_of d' req = params_of d req"
  by (cases req) (simp_all add: lookups_cong [of d' d])

lemma reaches_cong: "accounts d' = accounts d \<Longrightarrow> same_target d d' req \<Longrightarrow> reaches_core d' req = reaches_core d req"
  by (cases req) (simp_all add: lookups_cong [of d' d])

lemma verdict_early:
  assumes "accounts d' = accounts d" "same_target d d' req" "\<not> reaches_core d req"
  shows "verdict_of d' req = verdict_of d req"
proof (cases req)
  case (Transfer_req a b amount key)
  with assms(3) lookups_cong [OF assms(1)] show ?thesis
    by (auto simp: transfer_verdict_def split: option.split)
next
  case (Deposit_req a amount name key)
  with assms(3) lookups_cong [OF assms(1)] show ?thesis
    by (auto simp: system_verdict_def counterpart_id_def split: option.split)
next
  case (Withdraw_req a amount name key)
  with assms(3) lookups_cong [OF assms(1)] show ?thesis
    by (auto simp: system_verdict_def counterpart_id_def split: option.split)
next
  case (Reverse_req txid key)
  with assms(2,3) show ?thesis by (auto simp: reverse_verdict_def split: option.split)
qed

text \<open>The locks of a request that reaches the core with accounts of one currency.\<close>

lemma takes_system_closure:
  assumes h: "healthy env" and a: "account_of d i = Some a" "a_type a = accountTypeUser"
    and y: "system_counterpart d i name direction = Some y" "a_type y = accountTypeSystem" "i \<noteq> a_id y"
    and core: "takes R (transfer (queries env) (params (a_id y))) d"
  shows "takes R (system_closure env i name direction missing wrong params) d"
proof -
  have s1: "gives (onErr (GetAccount env i) (not_found_as missing)) d (Inr (scan_account a)) d"
    using gives_GetAccount [OF h, of i d, THEN gives_not_found_as, of missing] a by simp
  have "coded d (name @ direction @ a_currency a) = Some y"
    using y(1) by (simp add: system_counterpart_def a)
  then have s2: "gives (onErr (GetSystemAccountByCode env (name @ direction @ a_currency a))
      (not_found_as ErrSystemAccountNotFound)) d (Inr (scan_account y)) d"
    using gives_GetSystemAccountByCode [OF h, of "name @ direction @ a_currency a" d,
        THEN gives_not_found_as, of ErrSystemAccountNotFound] by simp
  have "a_id a = i" using a(1) by (simp add: account_of_SomeD)
  with s2 y(2,3) core a(2) show ?thesis
    unfolding system_closure_def
    by (intro takes_after [OF s1]) (auto intro!: takes_after [OF s2])
qed

definition core_set :: "transfer_params \<Rightarrow> resource set" where
  "core_set p = {AccountRow (p_From p), AccountRow (p_To p), IdempotencyKey (p_IdempotencyKey p)}"

lemma takes_trace: "takes R m d \<Longrightarrow> R \<subseteq> set (trace (capture m) d)"
  by (simp add: takes_def trace_capture fresh_session_def)

lemma trace_core:
  assumes h: "healthy env" and reach: "reaches_core d req"
    and ab: "account_of d (p_From (params_of d req)) = Some a" "account_of d (p_To (params_of d req)) = Some b"
      "a_currency a = a_currency b"
  shows "core_set (params_of d req) \<subseteq> set (lock_trace env req d)"
proof -
  have begun: "begin_fault env = None" using h by (simp add: healthy_def)
  have core: "takes (core_set (params_of d req)) (transfer (queries env) (params_of d req)) d"
    unfolding core_set_def using h ab by (rule takes_transfer)
  show ?thesis
  proof (cases req)
    case (Transfer_req f t amount key)
    from reach Transfer_req obtain x y where xy: "account_of d f = Some x" "a_type x = accountTypeUser"
      "account_of d t = Some y" "a_type y = accountTypeUser" by auto
    have s1: "gives (onErr (GetAccount env f) (not_found_as ErrSourceAccountNotFound)) d (Inr (scan_account x)) d"
      using gives_GetAccount [OF h, of f d, THEN gives_not_found_as, of ErrSourceAccountNotFound] xy by simp
    have s2: "gives (onErr (GetAccount env t) (not_found_as ErrDestinationAccountNotFound)) d (Inr (scan_account y)) d"
      using gives_GetAccount [OF h, of t d, THEN gives_not_found_as, of ErrDestinationAccountNotFound] xy by simp
    have "takes (core_set (params_of d req)) (transfer_closure (queries env) f t amount key) d"
      unfolding transfer_closure_queries
      by (rule takes_after [OF s1], rule takes_after [OF s2]) (use core xy Transfer_req in simp)
    with Transfer_req reach begun show ?thesis by (auto simp: lock_trace_def dest: takes_trace)
  next
    case (Deposit_req i amount name key)
    from reach Deposit_req obtain x y where xy: "account_of d i = Some x" "a_type x = accountTypeUser"
      "system_counterpart d i name ''_IN_'' = Some y" "a_type y = accountTypeSystem" "i \<noteq> a_id y"
      by (auto simp: counterpart_id_def)
    then have "takes (core_set (params_of d req)) (deposit_closure (queries env) i amount name key) d"
      unfolding deposit_closure_shape
      by (rule takes_system_closure [OF h]) (use core Deposit_req xy in \<open>simp add: counterpart_id_def\<close>)
    with Deposit_req reach begun show ?thesis by (auto simp: lock_trace_def dest: takes_trace)
  next
    case (Withdraw_req i amount name key)
    from reach Withdraw_req obtain x y where xy: "account_of d i = Some x" "a_type x = accountTypeUser"
      "system_counterpart d i name ''_OUT_'' = Some y" "a_type y = accountTypeSystem" "i \<noteq> a_id y"
      by (auto simp: counterpart_id_def)
    then have "takes (core_set (params_of d req)) (withdraw_closure (queries env) i amount name key) d"
      unfolding withdraw_closure_shape
      by (rule takes_system_closure [OF h]) (use core Withdraw_req xy in \<open>simp add: counterpart_id_def\<close>)
    with Withdraw_req reach begun show ?thesis by (auto simp: lock_trace_def dest: takes_trace)
  next
    case (Reverse_req i key)
    from reach Reverse_req obtain t where t: "transaction_of d i = Some t" "t_status t = txStatusCompleted"
      "t_type t \<noteq> TxTypeReversal" by auto
    have s1: "gives (reversible (queries env) i) d (Inr (scan_transaction t)) d"
      using gives_reversible [OF h, of i d] t by simp
    let ?m = "bindQ (reversible (queries env) i) (\<lambda>tx. transfer (queries env) (reversal_params tx key))"
    have "takes (core_set (params_of d req)) ?m d"
      by (rule takes_after [OF s1]) (use core Reverse_req t in simp)
    moreover obtain c s2 where run: "?m (fresh_session d) = (c, s2)" by fastforce
    ultimately have "core_set (params_of d req) \<subseteq> set (s_locks s2)"
      unfolding takes_def by (metis fresh_session_def session.select_convs(1) snd_conv)
    moreover obtain u s3 where upd: "UpdateTransactionStatus env i txStatusReversed s2 = (u, s3)" by fastforce
    have "set (s_locks s2) \<subseteq> set (s_locks s3)" using growingD [OF growing_UpdateTransactionStatus upd] by blast
    ultimately have "core_set (params_of d req) \<subseteq> set (trace (reverse_closure (queries env) i key) d)"
      by (cases c; cases u) (auto simp: trace_def reverse_closure_queries run upd)
    with Reverse_req begun show ?thesis by (simp add: lock_trace_def)
  qed
qed


text \<open>The row of a transaction that is to be reversed.\<close>

lemma trace_target:
  assumes h: "healthy env" and t: "transaction_of d i = Some t"
  shows "TxRow i \<in> set (lock_trace env (Reverse_req i key) d)"
proof -
  have get: "gives (GetTransactionByID env i) d (Inr (scan_transaction t)) d"
    using gives_GetTransactionByID [OF h, of i d] t by simp
  have "takes {TxRow i} (GetTransactionByID env i) d"
    unfolding GetTransactionByID_def
  proof (rule takes_after)
    show "gives (read_sql env (\<lambda>d. case transaction_of d i of None \<Rightarrow> Inl (StorageError ErrNotFound)
        | Some t \<Rightarrow> Inr (scan_transaction t))) d (Inr (scan_transaction t)) d"
      using h t by (intro gives_read_sql) simp_all
    show "takes {TxRow i} (bindQ (acquire (TxRow i)) (\<lambda>_. ret (scan_transaction t))) d"
      by (rule takes_locked [OF dominates_TxRow])
  qed
  then have named: "takes {TxRow i} (onErr (GetTransactionByID env i) (not_found_as ErrTransactionNotFound)) d"
    by (rule takes_onErr [OF get])
  have "takes {TxRow i} (reversible (queries env) i) d"
    unfolding reversible_queries by (rule takes_first [OF named]) (intro query_growing)
  then have "takes {TxRow i} (bindQ (reversible (queries env) i) (\<lambda>tx. transfer (queries env) (reversal_params tx key))) d"
    by (rule takes_first) (rule query_growing)
  moreover obtain c s2 where
    run: "bindQ (reversible (queries env) i) (\<lambda>tx. transfer (queries env) (reversal_params tx key)) (fresh_session d) = (c, s2)"
    by fastforce
  ultimately have "TxRow i \<in> set (s_locks s2)"
    unfolding takes_def
    by (metis fresh_session_def insert_subset session.select_convs(1) snd_conv)
  moreover obtain u s3 where upd: "UpdateTransactionStatus env i txStatusReversed s2 = (u, s3)" by fastforce
  have "set (s_locks s2) \<subseteq> set (s_locks s3)" using growingD [OF growing_UpdateTransactionStatus upd] by blast
  ultimately have "TxRow i \<in> set (trace (reverse_closure (queries env) i key) d)"
    by (cases c; cases u) (auto simp: trace_def reverse_closure_queries run upd)
  with h show ?thesis by (simp add: lock_trace_def healthy_def)
qed

section \<open>Isolation\<close>

text \<open>A verdict without the status of the transaction it may replay.\<close>

fun shape :: "verdict \<Rightarrow> verdict" where
  "shape (Answer t) = Answer (unmarked t)"
| "shape v = v"

lemma matches_unmarked: "unmarked t = unmarked t' \<Longrightarrow> matches p t = matches p t'"
proof -
  assume "unmarked t = unmarked t'"
  then have "t_source_id (unmarked t) = t_source_id (unmarked t')"
    "t_destination_id (unmarked t) = t_destination_id (unmarked t')"
    "t_amount (unmarked t) = t_amount (unmarked t')" by simp_all
  then show ?thesis by (simp add: matches_def unmarked_def)
qed

lemma keyed_verdict_cong:
  assumes "balance_of d' (p_From p) = balance_of d (p_From p)"
    and key: "map_option unmarked (keyed d' (p_IdempotencyKey p)) = map_option unmarked (keyed d (p_IdempotencyKey p))"
    and "\<not> reversal_taken d (requested p)" "\<not> reversal_taken d' (requested p)"
  shows "shape (keyed_verdict d' p a) = shape (keyed_verdict d p a)"
proof (cases "keyed d (p_IdempotencyKey p)")
  case None
  with key assms show ?thesis by (simp add: keyed_verdict_def short_of_funds_def)
next
  case (Some t)
  with key obtain t' where t': "keyed d' (p_IdempotencyKey p) = Some t'" "unmarked t' = unmarked t" by auto
  with Some matches_unmarked [OF t'(2), of p] show ?thesis by (simp add: keyed_verdict_def)
qed

text \<open>A transaction that can still be reversed has no reversal.\<close>

lemma no_reversal_yet:
  assumes inv: "ledger_inv d" and reach: "reaches_core d req"
  shows "\<not> reversal_taken d (requested (params_of d req))"
proof (cases req)
  case (Reverse_req i key)
  with reach obtain t where t: "transaction_of d i = Some t" "t_status t = txStatusCompleted" by auto
  then have mem: "t \<in> set (transactions d)" "t_id t = i" by (auto dest: transaction_of_SomeD)
  have "t_reversal_of r \<noteq> Some i" if "r \<in> set (transactions d)" for r
    using inv that mem t(2)
    by (auto simp: ledger_inv_def reversal_marks_def txStatusCompleted_def txStatusReversed_def)
  with Reverse_req t mem show ?thesis
    by (auto simp: reversal_taken_def requested_def reversal_params_def list_ex_iff)
qed (simp_all add: reversal_taken_def requested_def)

text \<open>The verdict of a request survives every change that its own locks exclude.\<close>

lemma verdict_isolated:
  assumes env: "healthy env" and inv: "ledger_inv d" "ledger_inv d'"
    and cov: "covered R d d'" and disj: "R \<inter> set (lock_trace env req d) = {}"
    and found: "\<And>i k. req = Reverse_req i k \<Longrightarrow> transaction_of d i \<noteq> None"
  shows "same_target d d' req" "shape (verdict_of d' req) = shape (verdict_of d req)"
proof -
  have acc: "accounts d' = accounts d" using cov by (simp add: covered_def)
  show target: "same_target d d' req"
  proof (cases req)
    case (Reverse_req i key)
    with found obtain t where t: "transaction_of d i = Some t" by blast
    with trace_target [OF env t, of key] disj Reverse_req have "TxRow i \<notin> R" by auto
    with cov t Reverse_req show ?thesis by (auto simp: covered_def)
  qed simp_all
  show "shape (verdict_of d' req) = shape (verdict_of d req)"
  proof (cases "reaches_core d req")
    case False
    with verdict_early [OF acc target] show ?thesis by simp
  next
    case True
    then have True': "reaches_core d' req" using reaches_cong [OF acc target] by simp
    let ?p = "params_of d req"
    have p': "params_of d' req = ?p" using params_cong [OF acc target] .
    have taken: "\<not> reversal_taken d (requested ?p)" "\<not> reversal_taken d' (requested ?p)"
      using no_reversal_yet [OF inv(1) True] no_reversal_yet [OF inv(2) True'] by (simp_all add: p')
    have "shape (core_verdict d' ?p) = shape (core_verdict d ?p)"
    proof (cases "\<exists>a b. account_of d (p_From ?p) = Some a \<and> account_of d (p_To ?p) = Some b \<and>
        a_currency a = a_currency b")
      case True
      then obtain a b where ab: "account_of d (p_From ?p) = Some a" "account_of d (p_To ?p) = Some b"
        "a_currency a = a_currency b" by blast
      have "core_set ?p \<subseteq> set (lock_trace env req d)"
        using env \<open>reaches_core d req\<close> ab by (rule trace_core)
      with disj have "AccountRow (p_From ?p) \<notin> R" "IdempotencyKey (p_IdempotencyKey ?p) \<notin> R"
        by (auto simp: core_set_def)
      with cov have "balance_of d' (p_From ?p) = balance_of d (p_From ?p)"
        "map_option unmarked (keyed d' (p_IdempotencyKey ?p)) = map_option unmarked (keyed d (p_IdempotencyKey ?p))"
        by (auto simp: covered_def)
      from keyed_verdict_cong [OF this taken] show ?thesis
        by (simp add: core_verdict_def lookups_cong [OF acc] split: option.split)
    next
      case False
      then show ?thesis
        by (cases "p_From ?p \<le> p_To ?p")
          (auto simp: core_verdict_def lookups_cong [OF acc] min_def max_def split: option.split)
    qed
    with verdict_core [OF True] verdict_core [OF True'] p' show ?thesis by simp
  qed
qed

end
