(* ===== verification/Isolation_Properties.thy ===== *)
theory Isolation_Properties
  imports Independence Samples
begin

text \<open>Requests that run at the same time are isolated from each other by their locks.\<close>

section \<open>Writes\<close>

text \<open>
  C19: Every change is covered by an exclusive lock: whatever its environment and whatever the
  database, a request changes the balance of an account only if it has locked that account's row
  \<^verbatim>\<open>FOR UPDATE\<close> (the share its foreign keys take does not count), adds a transaction under an
  idempotency key or as the reversal of another only if it holds that unique key, changes the row of an
  existing transaction only if it has locked that row \<^verbatim>\<open>FOR UPDATE\<close> (the lock of the update itself does
  not count), and never changes an account.
\<close>

theorem writes_are_locked:
  "covered (set (lock_trace env req d)) d (snd (serve env req d))"
  by (rule serve_covered [OF surjective_pairing])

section \<open>Independent requests\<close>

text \<open>The effect of a request on the abstract ledger, by its verdict.\<close>

lemma spec_post_commute:
  assumes "p_IdempotencyKey p \<noteq> p_IdempotencyKey q"
  shows "spec_post p (spec_post q l) = spec_post q (spec_post p l)"
  using assms by (auto simp: spec_post_def moved_def fun_eq_iff)


lemma Post_reaches: "verdict_of d req = Post \<Longrightarrow> reaches_core d req"
  by (cases req)
    (auto simp: transfer_verdict_def system_verdict_def reverse_verdict_def counterpart_id_def
      split: option.splits if_splits)

lemma reaches_well_formed:
  assumes "reaches_core d req" "typed req" "ledger_inv d"
  shows "p_From (params_of d req) \<noteq> p_To (params_of d req) \<and> 0 < p_Amount (params_of d req) \<and>
    in_int64 (p_Amount (params_of d req))"
proof (cases req)
  case (Reverse_req i key)
  with assms(1) obtain t where t: "transaction_of d i = Some t" by auto
  then have "t \<in> set (transactions d)" by (auto dest: transaction_of_SomeD)
  with assms(3) have "tx_ok d t" by (simp add: ledger_inv_def ledger_base_def)
  with Reverse_req t show ?thesis by (simp add: reversal_params_def tx_ok_def)
qed (use assms(1,2) in auto)

lemma Post_fresh_key: "core_verdict d p = Post \<Longrightarrow> keyed d (p_IdempotencyKey p) = None"
  by (auto simp: core_verdict_def keyed_verdict_def split: option.splits if_splits)

lemma Post_accounts:
  "core_verdict d p = Post \<Longrightarrow> \<exists>a b. account_of d (p_From p) = Some a \<and> account_of d (p_To p) = Some b \<and>
     a_currency a = a_currency b"
  by (cases "p_From p \<le> p_To p")
    (auto simp: core_verdict_def min_def max_def split: option.splits if_splits)

lemma abs_finish: "abs_ledger (finish req d) = abs_ledger d"
  by (simp add: abs_ledger_def keyed_finish)

lemma abs_of_posted:
  assumes "keyed d (p_IdempotencyKey p) = None" "p_From p \<noteq> p_To p" "0 < p_Amount p" "in_int64 (p_Amount p)"
  shows "abs_ledger (posted_db env p doc1 doc2 d) = spec_post p (abs_ledger d)"
proof -
  have "balance_of (posted_db env p doc1 doc2 d) = moved p (balance_of d)"
    using assms(2-4) by (rule balance_of_posted)
  then show ?thesis
    by (simp add: abs_ledger_def spec_post_def keyed_posted [OF assms(1)] fun_eq_iff key_args_def)
qed

lemma abs_serve:
  assumes rd: "ready env d" and ty: "typed req"
  shows "abs_ledger (snd (serve env req d)) =
    (if verdict_of d req = Post then spec_post (params_of d req) (abs_ledger d) else abs_ledger d)"
proof (cases "verdict_of d req")
  case Post
  let ?p = "params_of d req"
  have reach: "reaches_core d req" using Post by (rule Post_reaches)
  have wf: "p_From ?p \<noteq> p_To ?p \<and> 0 < p_Amount ?p \<and> in_int64 (p_Amount ?p)"
    using reach ty readyD(3) [OF rd] by (rule reaches_well_formed)
  have "keyed d (p_IdempotencyKey ?p) = None"
    using Post verdict_core [OF reach] by (intro Post_fresh_key) simp
  then have "abs_ledger (post env ?p c d) = spec_post ?p (abs_ledger d)" for c
    unfolding post_def using wf by (intro abs_of_posted) auto
  with serve_settles [OF rd, of req] Post show ?thesis by (simp add: settles_def abs_finish)
next
  case (Answer t)
  with serve_settles [OF rd, of req] abs_ledger_same_tables [of "finish req d" "snd (serve env req d)"]
  show ?thesis by (simp add: settles_def abs_finish)
next
  case (Refuse e)
  with serve_settles [OF rd, of req] abs_ledger_same_tables [of d "snd (serve env req d)"]
  show ?thesis by (simp add: settles_def)
qed

lemma shape_Post [simp]: "shape v = Post \<longleftrightarrow> v = Post"
  by (cases v) simp_all

text \<open>The id a reversal names must exist: a transaction that does not exist cannot be locked.\<close>

fun names_target :: "db \<Rightarrow> request \<Rightarrow> bool" where
  "names_target d (Reverse_req txid key) = (transaction_of d txid \<noteq> None)"
| "names_target d req = True"

lemma independent_verdict:
  assumes "ready env d" "ready env d'" "names_target d req"
    and "d' = snd (serve env' req' d)" "set (lock_trace env' req' d) \<inter> set (lock_trace env req d) = {}"
  shows "shape (verdict_of d' req) = shape (verdict_of d req) \<and> params_of d' req = params_of d req"
proof -
  have cov: "covered (set (lock_trace env' req' d)) d d'"
    unfolding assms(4) by (rule serve_covered [OF surjective_pairing])
  have found: "transaction_of d i \<noteq> None" if "req = Reverse_req i k" for i k
    using assms(3) that by simp
  have acc: "accounts d' = accounts d" using cov by (simp add: covered_def)
  show ?thesis
    using verdict_isolated [OF readyD(1,3) [OF assms(1)] readyD(3) [OF assms(2)] cov assms(5) found]
      params_cong [OF acc] by simp
qed

text \<open>
  C20: Requests without a common lock do not notice each other: each gets the same answer before and
  after the other (a replayed transaction may by then have been reversed, its status apart), and
  either order leaves the same ledger, the same balances and the same used keys. With the ascending
  order of the locks this is what makes the concurrent execution of requests equivalent to some
  serial one.
\<close>

theorem independent_requests_commute:
  assumes "ready env1 d" "ready env2 d" "typed r1" "typed r2" "names_target d r1" "names_target d r2"
    and "d1 = snd (serve env1 r1 d)" "d2 = snd (serve env2 r2 d)" "ready env1 d2" "ready env2 d1"
    and "set (lock_trace env1 r1 d) \<inter> set (lock_trace env2 r2 d) = {}"
  shows "shape (verdict_of d2 r1) = shape (verdict_of d r1) \<and>
    shape (verdict_of d1 r2) = shape (verdict_of d r2) \<and>
    abs_ledger (snd (serve env2 r2 d1)) = abs_ledger (snd (serve env1 r1 d2))"
proof -
  note v1 = independent_verdict [OF assms(1,9,5,8)]
  note v2 = independent_verdict [OF assms(2,10,6,7)]
  have s1: "shape (verdict_of d2 r1) = shape (verdict_of d r1)" "params_of d2 r1 = params_of d r1"
    and s2: "shape (verdict_of d1 r2) = shape (verdict_of d r2)" "params_of d1 r2 = params_of d r2"
    using v1 v2 assms(11) by blast+
  then have p1: "verdict_of d2 r1 = Post \<longleftrightarrow> verdict_of d r1 = Post"
    and p2: "verdict_of d1 r2 = Post \<longleftrightarrow> verdict_of d r2 = Post"
    using shape_Post by metis+
  have keys: "p_IdempotencyKey (params_of d r1) \<noteq> p_IdempotencyKey (params_of d r2)"
    if "verdict_of d r1 = Post" "verdict_of d r2 = Post"
  proof -
    have "IdempotencyKey (p_IdempotencyKey (params_of d r)) \<in> set (lock_trace env r d)"
      if rd: "ready env d" and post: "verdict_of d r = Post" for env r
    proof -
      have reach: "reaches_core d r" using post by (rule Post_reaches)
      with post have "core_verdict d (params_of d r) = Post" by (simp add: verdict_core)
      from Post_accounts [OF this] trace_core [OF readyD(1) [OF rd] reach] show ?thesis
        by (auto simp: core_set_def)
    qed
    with assms(1,2,11) that show ?thesis by (metis disjoint_iff)
  qed
  have "abs_ledger (snd (serve env2 r2 d1)) = abs_ledger (snd (serve env1 r1 d2))"
    using abs_serve [OF assms(1,3)] abs_serve [OF assms(2,4)] abs_serve [OF assms(10,4)]
      abs_serve [OF assms(9,3)] p1 p2 s1(2) s2(2) assms(7,8) spec_post_commute [OF keys]
    by (auto simp: spec_post_commute)
  with s1 s2 show ?thesis by simp
qed


text \<open>The quiet environment is ready for every small ledger whose events it has named.\<close>

lemma balance_bounded: "\<bar>balance_of d i\<bar> \<le> (\<Sum>l\<leftarrow>ledger_entries d. \<bar>l_amount l\<bar>)"
proof -
  have "\<bar>\<Sum>l\<leftarrow>filter (\<lambda>l. l_account_id l = i) ls. l_amount l\<bar> \<le> (\<Sum>l\<leftarrow>ls. \<bar>l_amount l\<bar>)" for ls
    by (induction ls) auto
  then show ?thesis by (simp add: balance_of_def)
qed

definition small :: "db \<Rightarrow> bool" where
  "small d \<longleftrightarrow>
     transactions_seq d < 1000 \<and> ledger_entries_seq d < 1000 \<and> outbox_seq d < 1000 \<and> 0 \<le> outbox_seq d \<and>
     (\<Sum>l\<leftarrow>ledger_entries d. \<bar>l_amount l\<bar>) < 100000 \<and>
     list_all (\<lambda>r. o_event_id r = FormatInt (o_id r) \<and> o_id r \<le> outbox_seq d \<and> 0 < o_id r) (outbox d)"

lemma small_ready:
  assumes "small d" "ledger_inv d"
  shows "ready quiet_env d"
proof -
  have "in_int64 (balance_of d i)" for i
    using balance_bounded [of d i] assms(1) by (auto simp: small_def in_int64_def)
  moreover have fresh: "FormatInt (outbox_seq d + k) \<notin> o_event_id ` set (outbox d)" if "k = 1 \<or> k = 2" for k
  proof
    assume "FormatInt (outbox_seq d + k) \<in> o_event_id ` set (outbox d)"
    then obtain r where r: "r \<in> set (outbox d)" "FormatInt (o_id r) = FormatInt (outbox_seq d + k)"
      using assms(1) by (auto simp: small_def list_all_iff)
    moreover have "in_int64 (o_id r)" "in_int64 (outbox_seq d + k)"
      using r(1) assms(1) that by (auto simp: small_def list_all_iff in_int64_def)
    ultimately have "o_id r = outbox_seq d + k" by (simp add: FormatInt_inj)
    with r(1) assms(1) that show False by (auto simp: small_def list_all_iff)
  qed
  moreover have "FormatInt (outbox_seq d + 2) \<noteq> FormatInt (outbox_seq d + 1)"
    using assms(1) by (subst FormatInt_inj) (auto simp: small_def in_int64_def)
  ultimately show ?thesis
    using assms noon_text
    by (simp add: ready_def small_def) (simp add: quiet_env_def healthy_def)
qed

lemma small_served:
  assumes "small (snd (serve quiet_env req d))" "ledger_inv d" "typed req"
  shows "ready quiet_env (snd (serve quiet_env req d))"
  using assms serve_keeps_inv [OF _ _ surjective_pairing] by (intro small_ready) auto

theorem independent_requests_commute_witness:
  "abs_ledger (snd (serve quiet_env (Deposit_req 6 50 ''ATM'' ''k4'')
      (snd (serve quiet_env (Transfer_req 3 4 30 ''k3'') moved_db)))) =
   abs_ledger (snd (serve quiet_env (Transfer_req 3 4 30 ''k3'')
      (snd (serve quiet_env (Deposit_req 6 50 ''ATM'' ''k4'') moved_db))))"
proof -
  let ?r1 = "Transfer_req 3 4 30 ''k3''" and ?r2 = "Deposit_req 6 50 ''ATM'' ''k4''"
  have small: "small (snd (serve quiet_env ?r1 moved_db))" "small (snd (serve quiet_env ?r2 moved_db))"
    by code_simp+
  have "lock_trace quiet_env ?r1 moved_db = [AccountRow 3, AccountRow 4, IdempotencyKey ''k3'']"
    "lock_trace quiet_env ?r2 moved_db = [AccountRow 1, AccountRow 6, IdempotencyKey ''k4'']"
    by code_simp+
  then have "set (lock_trace quiet_env ?r1 moved_db) \<inter> set (lock_trace quiet_env ?r2 moved_db) = {}" by simp
  moreover have typed: "typed ?r1" "typed ?r2" by (simp_all add: in_int64_def)
  ultimately show ?thesis
    using independent_requests_commute [OF ready_moved_db ready_moved_db typed _ _ refl refl
        small_served [OF small(2) _ typed(2)] small_served [OF small(1) _ typed(1)]] by simp
qed

end
