(* ===== verification/Typing.thy ===== *)
theory Typing
  imports Evolution
begin

text \<open>
  The types of the tables: every \<^verbatim>\<open>BIGINT\<close> column holds an \<^verbatim>\<open>int64\<close>, and the columns the migrations
  restrict by a check hold one of the allowed texts. The model keeps integers without bound where
  SQL and Go have 64 bits, so that this is a theorem: no operation ever stores a number the column
  could not hold.
\<close>

section \<open>Typed rows\<close>

definition account_types :: "string list" where
  "account_types = [''user'', ''system'']"

definition account_row_typed :: "account_row \<Rightarrow> bool" where
  "account_row_typed a \<longleftrightarrow> in_int64 (a_id a) \<and> a_type a \<in> set account_types"

definition transaction_row_typed :: "transaction_row \<Rightarrow> bool" where
  "transaction_row_typed t \<longleftrightarrow>
     in_int64 (t_id t) \<and> in_int64 (t_source_id t) \<and> in_int64 (t_destination_id t) \<and>
     in_int64 (t_amount t) \<and> list_all in_int64 (case_option [] (\<lambda>i. [i]) (t_reversal_of t)) \<and>
     t_status t \<in> set status_values \<and> t_type t \<in> set transaction_types"

definition ledger_entry_row_typed :: "ledger_entry_row \<Rightarrow> bool" where
  "ledger_entry_row_typed l \<longleftrightarrow>
     in_int64 (l_id l) \<and> in_int64 (l_transaction_id l) \<and> in_int64 (l_account_id l) \<and>
     in_int64 (l_amount l)"

definition outbox_row_typed :: "outbox_row \<Rightarrow> bool" where
  "outbox_row_typed r \<longleftrightarrow>
     in_int64 (o_id r) \<and> o_event_type r = EntryTypePosted \<and>
     (case ParseInt (o_partition_key r) of Inl _ \<Rightarrow> False | Inr i \<Rightarrow> in_int64 i)"

definition db_typed :: "db \<Rightarrow> bool" where
  "db_typed d \<longleftrightarrow>
     list_all account_row_typed (accounts d) \<and> list_all transaction_row_typed (transactions d) \<and>
     list_all ledger_entry_row_typed (ledger_entries d) \<and> list_all outbox_row_typed (outbox d)"

section \<open>Kept by every operation\<close>

lemma typed_sequence: "ids_below is n \<Longrightarrow> n + k \<le> MaxInt64 \<Longrightarrow> 0 < k \<Longrightarrow> in_int64 (n + k)"
  by (simp add: ids_below_def in_int64_def)

lemma account_id_typed:
  "list_all account_row_typed (accounts d) \<Longrightarrow> account_of d i = Some a \<Longrightarrow> in_int64 i"
  by (auto simp: list_all_iff account_row_typed_def dest: account_of_SomeD)

lemma reversal_target_typed:
  assumes "list_all transaction_row_typed (transactions d)" "\<not> missing_reference d (requested p)"
    "p_ReversalOf p = Some i"
  shows "in_int64 i"
proof -
  have "transaction_of d i \<noteq> None" using assms(2,3) by (simp add: missing_reference_def requested_def)
  then obtain t where "transaction_of d i = Some t" by blast
  with assms(1) show ?thesis
    by (auto simp: list_all_iff transaction_row_typed_def dest!: transaction_of_SomeD)
qed

lemma posted_typed:
  assumes ty: "db_typed d" and inv: "ledger_base d" and w: "posts env p d w" and amt: "in_int64 (p_Amount p)"
  shows "db_typed (posted_db env p doc1 doc2 d)"
proof -
  have "account_of d (p_From p) = Some (src_row w)" "account_of d (p_To p) = Some (dst_row w)"
    and no_ref: "\<not> missing_reference d (requested p)" and type: "p_Type p \<in> set transaction_types"
    and bounds: "transactions_seq d + 1 \<le> MaxInt64" "ledger_entries_seq d + 2 \<le> MaxInt64"
      "outbox_seq d + 2 \<le> MaxInt64" and pos: "0 < p_Amount p"
    using w by (simp_all add: posts_def)
  then have ids: "in_int64 (p_From p)" "in_int64 (p_To p)"
    using ty by (auto simp: db_typed_def intro: account_id_typed)
  have seqs: "in_int64 (transactions_seq d + 1)"
    "in_int64 (ledger_entries_seq d + 1)" "in_int64 (ledger_entries_seq d + 2)"
    "in_int64 (outbox_seq d + 1)" "in_int64 (outbox_seq d + 2)"
    using inv bounds
    by (auto simp: ledger_base_def ids_ok_def intro: typed_sequence)
  have neg: "in_int64 (neg64 (p_Amount p))" using pos amt by (simp add: in_int64_def)
  have "list_all in_int64 (case_option [] (\<lambda>i. [i]) (p_ReversalOf p))"
    using ty no_ref by (auto simp: db_typed_def split: option.split intro: reversal_target_typed)
  then have "transaction_row_typed (new_transaction env p d)"
    using seqs(1) ids amt type
    by (simp add: transaction_row_typed_def txStatusCompleted_def status_values_def)
  then show ?thesis
    using ty ids seqs neg amt
    by (simp add: db_typed_def posted_db_def ledger_entry_row_typed_def new_entry_def
        outbox_row_typed_def new_outbox_row_def ParseInt_FormatInt)
qed

lemma set_status_typed:
  "transaction_row_typed t \<Longrightarrow> st \<in> set status_values \<Longrightarrow> transaction_row_typed (set_status i st t)"
  by (simp add: transaction_row_typed_def) (simp add: set_status_def)

lemma finish_typed: "db_typed d \<Longrightarrow> db_typed (finish req d)"
  by (cases req)
    (auto simp: db_typed_def list_all_iff txStatusReversed_def status_values_def
      intro!: set_status_typed)

lemma same_tables_typed: "same_tables d d' \<Longrightarrow> db_typed d' = db_typed d"
  by (simp add: same_tables_def db_typed_def)

lemma serve_typed:
  assumes run: "serve env req d = (out, d')" and inv: "ledger_inv d" and ty: "typed req" and dt: "db_typed d"
  shows "db_typed d'"
proof -
  obtain res err where out: "out = (res, err)" by fastforce
  have base: "ledger_base d" using inv by (simp add: ledger_inv_def)
  from run [unfolded out] show ?thesis
  proof (cases rule: serve_cases)
    case unchanged
    with dt same_tables_typed show ?thesis by blast
  next
    case (replayed p t d1)
    with dt same_tables_typed finish_typed show ?thesis by blast
  next
    case (posted p w)
    have "well_formed d p" using stands_for_well_formed [OF base ty posted(1)] .
    with posted_typed [OF dt base posted(2)] posted(3) finish_typed show ?thesis
      by (simp add: well_formed_def)
  qed
qed

lemma batch_typed:
  assumes dt: "db_typed d" and run: "publishBatch env publish n b m d = (res, b', m', d')"
  shows "db_typed d'"
  using publishBatch_outcome [of publish n b m d env]
proof
  assume "batch_kept publish n b m d (publishBatch env publish n b m d)"
  with dt show ?thesis by (simp add: run batch_kept_def)
next
  have mark: "outbox_row_typed (mark_published now ids r) = outbox_row_typed r" for now ids r
    by (simp add: outbox_row_typed_def mark_published_def)
  assume "batch_marked env publish n b m d (publishBatch env publish n b m d)"
  then have "d' = mark_rows (tx_now env) (batch_rows n d) d" by (simp add: run batch_marked_def)
  with dt show ?thesis by (simp add: db_typed_def mark_rows_def list_all_iff mark)
qed

lemma act_typed:
  "db_typed (w_db w) \<Longrightarrow> ledger_inv (w_db w) \<Longrightarrow> action_typed a \<Longrightarrow> db_typed (w_db (act publish n a w))"
  by (cases a)
    (auto simp: AccountBalance_reads AccountTransactionsHistory_reads split: prod.splits
      intro: batch_typed serve_typed [OF surjective_pairing])

lemma reachable_typed:
  "reachable publish n w0 w \<Longrightarrow> ledger_inv (w_db w0) \<Longrightarrow> db_typed (w_db w0) \<Longrightarrow> db_typed (w_db w)"
  by (induction rule: reachable.induct) (simp_all add: act_typed reachable_inv)

lemma history_typed:
  "ledger_inv (w_db w) \<Longrightarrow> db_typed (w_db w) \<Longrightarrow> \<forall>a \<in> set as. action_typed a \<Longrightarrow>
   db_typed (w_db (fold (act publish n) as w))"
  by (induction as arbitrary: w) (simp_all add: act_keeps_inv act_typed)

text \<open>A fresh database is typed when its accounts are.\<close>

lemma genesis_typed: "genesis d \<Longrightarrow> list_all account_row_typed (accounts d) \<Longrightarrow> db_typed d"
  by (simp add: genesis_def db_typed_def)

end
