(* ===== verification/Pipeline_Properties.thy ===== *)
theory Pipeline_Properties
  imports Outbox_Properties Typing Notification_Facts Json_Facts
begin

text \<open>
  The parts of the program put together: what a posting of the ledger becomes on its way through the
  outbox, the relay, the broker and the notification service, and that the tables are typed all
  along.
\<close>

section \<open>Typed tables\<close>

lemma bank_accounts_typed: "list_all account_row_typed (accounts bank_db)"
  by code_simp

text \<open>
  C26: Every reachable database is typed: whatever the requests and the relay did in whatever
  environments, every identity, reference and amount that was stored is a 64-bit integer, every
  status and type is one that the table's check allows, and every outbox row is an entry event
  whose partition key is the decimal text of an account id.
\<close>

theorem reachable_rows_typed:
  assumes "reachable publish n w0 w" "genesis (w_db w0)"
    "list_all account_row_typed (accounts (w_db w0))"
  shows "db_typed (w_db w)"
  using assms genesis_ledger_inv genesis_typed reachable_typed by blast

theorem reachable_rows_typed_witness:
  "db_typed (w_db (act memory_publish 10 (Publish_batch quiet_env)
     (act memory_publish 10 (Serve quiet_env (Deposit_req 3 100 ''ATM'' ''k1'')) (world_of bank_db))))"
  by (rule reachable_rows_typed [OF reachable.action [OF reachable.action [OF reachable.start]]])
    (simp_all add: in_int64_def bank_accounts_typed)

section \<open>Events that are read back\<close>

text \<open>What the documents of the outbox must satisfy for a reader to get the entry back.\<close>

definition readable :: "entry_posted \<Rightarrow> bool" where
  "readable e \<longleftrightarrow>
     entry_in_range e \<and> ascii (ev_TransactionType e) \<and> ascii (ev_Currency e) \<and>
     time_reads_back (ev_OccurredAt e)"

text \<open>
  \<^verbatim>\<open>JSONB\<close> keeps the value of a document, not its text: the document of an event that reads back as
  that event still does when it comes out of the column.
\<close>

definition keeps_value :: "(string \<Rightarrow> string option) \<Rightarrow> bool" where
  "keeps_value store \<longleftrightarrow>
     (\<forall>e js doc. marshal_entry e = Inr js \<longrightarrow> store js = Some doc \<longrightarrow> unmarshal_entry js = Inr e \<longrightarrow>
        unmarshal_entry doc = Inr e)"

definition times_read_back :: "db \<Rightarrow> bool" where
  "times_read_back d \<longleftrightarrow> list_all (\<lambda>t. time_reads_back (t_created_at t)) (transactions d)"

definition currencies_ascii :: "db \<Rightarrow> bool" where
  "currencies_ascii d \<longleftrightarrow> list_all (\<lambda>a. ascii (a_currency a)) (accounts d)"

lemma currency_ascii: "currencies_ascii d \<Longrightarrow> ascii (currency_of d i)"
  by (cases "account_of d i")
    (auto simp: currency_of_def currencies_ascii_def list_all_iff ascii_def dest!: account_of_SomeD)

lemma transaction_type_ascii: "ty \<in> set transaction_types \<Longrightarrow> ascii ty"
proof -
  have "list_all (\<lambda>ty. list_all (\<lambda>c. (of_char c :: int) < 128) ty) transaction_types" by code_simp
  then show "ty \<in> set transaction_types \<Longrightarrow> ascii ty" by (simp add: list_all_iff ascii_def)
qed

lemma events_readable:
  assumes "db_typed d" "ledger_inv d" "times_read_back d" "currencies_ascii d" "t \<in> set (transactions d)"
  shows "readable (credit_of d t)" "readable (debit_of d t)"
proof -
  have ty: "transaction_row_typed t" using assms(1,5) by (simp add: db_typed_def list_all_iff)
  have "0 < t_amount t" using assms(2,5) by (auto simp: ledger_inv_def ledger_base_def tx_ok_def)
  with ty have "in_int64 (- t_amount t)" by (simp add: transaction_row_typed_def in_int64_def)
  moreover have "time_reads_back (t_created_at t)" using assms(3,5) by (simp add: times_read_back_def list_all_iff)
  ultimately show "readable (credit_of d t)" "readable (debit_of d t)"
    using ty currency_ascii [OF assms(4)] transaction_type_ascii
    by (auto simp: readable_def entry_in_range_def credit_of_def debit_of_def transaction_row_typed_def)
qed

lemma stored_event_reads_back:
  assumes "readable e" "keeps_value store" "outbox_content r = stored_event store e"
  shows "o_partition_key r = Key e" "unmarshal_entry (o_payload r) = Inr e"
proof -
  show "o_partition_key r = Key e" using assms(3) by (simp add: outbox_content_def stored_event_def)
  have "\<exists>js. marshal_entry e = Inr js"
    using assms(1) by (auto simp: readable_def time_reads_back_def marshal_entry_def split: sum.splits)
  then obtain js where js: "marshal_entry e = Inr js" ..
  with assms(1) have "unmarshal_entry js = Inr e" by (simp add: readable_def unmarshal_marshal_entry)
  moreover have "store js = Some (o_payload r)"
    using assms(3) js by (simp add: outbox_content_def stored_event_def)
  ultimately show "unmarshal_entry (o_payload r) = Inr e" using assms(2) js unfolding keeps_value_def by blast
qed

text \<open>Every row of the outbox is read back as an event of a transaction.\<close>

lemma outbox_row_reads_back:
  assumes "mirrors store d" "keeps_value store" "r \<in> set (outbox d)"
    "db_typed d" "ledger_inv d" "times_read_back d" "currencies_ascii d"
  obtains t e where "t \<in> set (transactions d)" "e = credit_of d t \<or> e = debit_of d t" "readable e"
    "o_partition_key r = Key e" "unmarshal_entry (o_payload r) = Inr e"
proof -
  have "outbox_content r \<in> set (map outbox_content (outbox d))" using assms(3) by simp
  with assms(1) obtain t e where t: "t \<in> set (transactions d)" and e: "e = credit_of d t \<or> e = debit_of d t"
    and stored: "outbox_content r = stored_event store e"
    unfolding mirrors_def by fastforce
  have "readable e" using e events_readable [OF assms(4-7) t] by blast
  with t e stored_event_reads_back [OF this assms(2) stored] show thesis by (intro that)
qed


section \<open>Histories\<close>

text \<open>The accounts never change; the times of transactions are those of the environments.\<close>

lemma serve_times:
  assumes run: "serve env req d = (out, d')" and "time_reads_back (tx_now env)" "times_read_back d"
  shows "accounts d' = accounts d \<and> times_read_back d'"
proof -
  have "t_created_at (set_status i st t) = t_created_at t" for i st t by (simp add: set_status_def)
  then have fin: "times_read_back (finish req x) = times_read_back x" for x
    by (cases req) (simp_all add: times_read_back_def list.pred_map comp_def)
  obtain res err where out: "out = (res, err)" by fastforce
  from run [unfolded out] show ?thesis
  proof (cases rule: serve_cases)
    case unchanged
    with assms(3) show ?thesis by (simp add: same_tables_def times_read_back_def)
  next
    case (replayed p t d1)
    then have "accounts d' = accounts d" "times_read_back d' = times_read_back d"
      by (simp_all add: fin) (simp_all add: same_tables_def times_read_back_def)
    with assms(3) show ?thesis by simp
  next
    case (posted p w)
    have "accounts d' = accounts d" using posted(3) by (simp add: posted_db_def)
    with posted(3) assms(2,3) show ?thesis by (simp add: fin) (simp add: times_read_back_def)
  qed
qed

lemma act_times:
  assumes "time_reads_back (tx_now (action_env a))" "times_read_back (w_db w)"
  shows "accounts (w_db (act publish n a w)) = accounts (w_db w) \<and>
    times_read_back (w_db (act publish n a w))"
proof (cases a)
  case (Serve env req)
  obtain out d' where run: "serve env req (w_db w) = (out, d')" by fastforce
  with serve_times [OF run] assms Serve show ?thesis by simp
next
  case (Publish_batch env)
  obtain res b' m' d' where
    run: "publishBatch env publish n (w_broker w) (w_metrics w) (w_db w) = (res, b', m', d')"
    by (metis prod_cases4)
  with publishBatch_keeps_tables [OF run] assms(2) show ?thesis
    by (simp add: Publish_batch times_read_back_def)
qed (use assms in \<open>simp_all add: AccountBalance_reads AccountTransactionsHistory_reads\<close>)

lemma history_times:
  "\<forall>a \<in> set as. time_reads_back (tx_now (action_env a)) \<Longrightarrow> times_read_back (w_db w) \<Longrightarrow>
   accounts (w_db (fold (act publish n) as w)) = accounts (w_db w) \<and>
   times_read_back (w_db (fold (act publish n) as w))"
  by (induction as arbitrary: w) (simp_all add: act_times)

section \<open>From a posting to the browser\<close>

text \<open>What \<^verbatim>\<open>Handle\<close> does with a claimed event when it publishes \<open>msg\<close> for \<open>account\<close>.\<close>

definition announced ::
  "'w done_op \<Rightarrow> 'w publish_op \<Rightarrow> string \<Rightarrow> int64 \<Rightarrow> string \<Rightarrow> 'w \<Rightarrow> note_metrics \<Rightarrow>
   handled \<times> 'w \<times> note_metrics" where
  "announced mark publish eventID account msg w m =
     (case publish account msg w of
        (Some err, w1) \<Rightarrow> (Returned (Some err), w1, m)
      | (None, w1) \<Rightarrow> (Returned None, snd (mark eventID w1), m\<lparr>nm_published := nm_published m + 1\<rparr>))"

text \<open>\<open>msg\<close> is the notification of the event, and its envelope is read back.\<close>

definition carries :: "string \<Rightarrow> entry_posted \<Rightarrow> string \<Rightarrow> bool" where
  "carries eventID e msg \<longleftrightarrow>
     marshal_notification \<lparr>n_EventID = eventID, n_EntryPosted = e\<rparr> = Inr msg \<and>
     (\<exists>pkt. marshal_envelope \<lparr>en_AccountID = ev_AccountID e, en_Message = msg\<rparr> = Inr pkt \<and>
        unmarshal_envelope pkt = Inr \<lparr>en_AccountID = ev_AccountID e, en_Message = msg\<rparr>)"

lemma readable_announced:
  assumes "readable e" "unmarshal_entry payload = Inr e"
  obtains msg where "carries eventID e msg"
    "\<And>mark publish w m. notify mark publish eventID payload w m =
       announced mark publish eventID (ev_AccountID e) msg w m"
proof -
  obtain msg where msg: "marshal_notification \<lparr>n_EventID = eventID, n_EntryPosted = e\<rparr> = Inr msg"
    using assms(1) by (auto simp: readable_def time_reads_back_def marshal_notification_def split: sum.splits)
  have range: "entry_in_range e" "in_int64 (ev_AccountID e)"
    using assms(1) by (simp_all add: readable_def entry_in_range_def)
  obtain pkt where "marshal_envelope \<lparr>en_AccountID = ev_AccountID e, en_Message = msg\<rparr> = Inr pkt"
    "unmarshal_envelope pkt = Inr \<lparr>en_AccountID = ev_AccountID e, en_Message = msg\<rparr>"
    by (rule notification_crosses [OF msg, of "ev_AccountID e"]) (simp_all add: range)
  with msg have "carries eventID e msg" by (auto simp: carries_def)
  moreover have "notify mark publish eventID payload w m =
      announced mark publish eventID (ev_AccountID e) msg w m" for mark publish w m
    by (simp add: notify_unfold announced_def assms(2) msg split: prod.split option.split)
  ultimately show thesis by (rule that)
qed


text \<open>
  C23: From the ledger to the browser: after every history, every record in the broker, whichever
  delivery of whichever attempt it is, is keyed by the account of one entry of one transaction, and
  a copy of the notification service that has claimed it publishes, to exactly that account,
  exactly the notification of that entry (with the signed amount, the counterparty and the rest of
  the posting), in an envelope that the subscriber reads back unchanged. PostgreSQL may rewrite the
  text of the documents as long as it keeps their value.
\<close>

theorem records_announce_entries:
  assumes "kafka_client produce ranged records"
    "genesis (w_db w)" "records (w_broker w) = []"
    "list_all account_row_typed (accounts (w_db w))" "currencies_ascii (w_db w)"
    "\<forall>a \<in> set as. action_typed a \<and> jsonb_text (action_env a) = store \<and>
       time_reads_back (tx_now (action_env a))"
    "keeps_value store"
    "w' = fold (act (Publish_kafka produce ranged) n) as w"
    "(key, Some eventID, ty, payload) \<in> set (kafka_log records w')"
  shows "\<exists>t \<in> set (transactions (w_db w')). \<exists>e \<in> {credit_of (w_db w') t, debit_of (w_db w') t}. \<exists>msg.
    key = Key e \<and> carries eventID e msg \<and>
    (\<forall>(mark :: 'w done_op) publish x m. notify mark publish eventID payload x m =
       announced mark publish eventID (ev_AccountID e) msg x m)"
proof -
  let ?pub = "Publish_kafka produce ranged" and ?d = "w_db w'"
  have typed: "\<forall>a \<in> set as. action_typed a" using assms(6) by simp
  have inv0: "ledger_inv (w_db w)" using assms(2) by (rule genesis_ledger_inv)
  have "message_publisher ?pub (\<lambda>b. map delivery_of_record (records b))"
    using assms(1) by (rule kafka_client.publisher_contract)
  then have "faithful (kafka_log records w') ?d"
    unfolding kafka_log_def assms(8)
    using assms(2,3) inv0 typed genesis_outbox by (intro message_publisher.history_faithful) auto
  with assms(9) obtain r where r: "r \<in> set (outbox ?d)" "key = o_partition_key r" "payload = o_payload r"
    by (auto simp: faithful_def delivery_of_row_def)
  have "mirrors store ?d"
    unfolding assms(8) using assms(2,6) inv0
    by (intro history_mirrors) (auto simp: mirrors_def genesis_def)
  moreover have "db_typed ?d" "ledger_inv ?d"
    unfolding assms(8) using inv0 typed genesis_typed [OF assms(2,4)]
    by (simp_all add: history_typed history_inv)
  moreover have "times_read_back ?d" "currencies_ascii ?d"
    unfolding assms(8) using history_times [of as w ?pub n] assms(2,5,6)
    by (auto simp: times_read_back_def genesis_def currencies_ascii_def)
  ultimately obtain t e where t: "t \<in> set (transactions ?d)" "e = credit_of ?d t \<or> e = debit_of ?d t"
    and e: "readable e" "o_partition_key r = Key e" "unmarshal_entry (o_payload r) = Inr e"
    by (rule outbox_row_reads_back [OF _ assms(7) r(1)])
  obtain msg where "carries eventID e msg"
    "\<And>(mark :: 'w done_op) publish x m. notify mark publish eventID payload x m =
       announced mark publish eventID (ev_AccountID e) msg x m"
    by (rule readable_announced [OF e(1) e(3) [folded r(3)], where eventID = eventID]) (rule that)
  with t e(2) r(2) show ?thesis by blast
qed


definition fresh_notes :: note_metrics where
  "fresh_notes = \<lparr>nm_published = 0, nm_duplicate = 0, nm_malformed = 0, nm_no_event_id = 0, nm_errors = 0\<rparr>"

definition one_deposit :: "action list" where
  "one_deposit = [Serve quiet_env (Deposit_req 3 100 ''ATM'' ''k1''), Publish_batch quiet_env]"

lemma one_deposit_log:
  "map (\<lambda>(key, eventID, ty, payload). (key, eventID)) (kafka_log (\<lambda>b. b)
     (fold (act (Publish_kafka memory_produce rev) 10) one_deposit (world_of bank_db))) =
   [(''3'', Some ''1''), (''1'', Some ''2'')]"
  by code_simp


theorem records_announce_entries_witness:
  "\<exists>payload t e msg.
     t \<in> set (transactions (w_db (fold (act (Publish_kafka memory_produce rev) 10) one_deposit
       (world_of bank_db)))) \<and> ev_TransactionID e = t_id t \<and>
     ''3'' = Key e \<and> carries ''1'' e msg \<and>
     notify (\<lambda>_ x. (None, x)) (\<lambda>a m x. (None, x @ [(a, m)])) ''1'' payload [] fresh_notes =
       (Returned None, [(ev_AccountID e, msg)], fresh_notes\<lparr>nm_published := nm_published fresh_notes + 1\<rparr>)"
proof -
  let ?w = "fold (act (Publish_kafka memory_produce rev) 10) one_deposit (world_of bank_db)"
  have noon: "time_reads_back noon" "list_all (\<lambda>a. ascii (a_currency a)) (accounts bank_db)" by code_simp+
  obtain ty payload where log: "(''3'', Some ''1'', ty, payload) \<in> set (kafka_log (\<lambda>b. b) ?w)"
    using one_deposit_log by (auto simp: map_eq_Cons_conv)
  have "\<exists>t \<in> set (transactions (w_db ?w)). \<exists>e \<in> {credit_of (w_db ?w) t, debit_of (w_db ?w) t}. \<exists>msg.
    ''3'' = Key e \<and> carries ''1'' e msg \<and>
    (\<forall>(mark :: (int64 \<times> string) list done_op) publish x m. notify mark publish ''1'' payload x m =
       announced mark publish ''1'' (ev_AccountID e) msg x m)"
    by (rule records_announce_entries [OF memory.kafka_client_axioms, where store = Some, OF _ _ _ _ _ _ refl log])
      (use noon bank_accounts_typed in \<open>simp_all add: world_of_def one_deposit_def in_int64_def quiet_env_def
        keeps_value_def currencies_ascii_def\<close>)
  then obtain t e msg where t: "t \<in> set (transactions (w_db ?w))"
    and e: "e = credit_of (w_db ?w) t \<or> e = debit_of (w_db ?w) t" "''3'' = Key e" "carries ''1'' e msg"
    and ann: "notify (\<lambda>_ x. (None, x)) (\<lambda>a m x. (None, x @ [(a, m)])) ''1'' payload [] fresh_notes =
      announced (\<lambda>_ x. (None, x)) (\<lambda>a m x. (None, x @ [(a, m)])) ''1'' (ev_AccountID e) msg [] fresh_notes"
    by blast
  have "ev_TransactionID e = t_id t" using e(1) by (auto simp: credit_of_def debit_of_def)
  moreover have "notify (\<lambda>_ x. (None, x)) (\<lambda>a m x. (None, x @ [(a, m)])) ''1'' payload [] fresh_notes =
      (Returned None, [(ev_AccountID e, msg)], fresh_notes\<lparr>nm_published := nm_published fresh_notes + 1\<rparr>)"
    using ann by (simp add: announced_def)
  ultimately show ?thesis using t e(2,3) by blast
qed

end
