(* ===== verification/Commands.thy ===== *)
theory Commands
  imports Go_Errors
begin

text \<open>
  \<^verbatim>\<open>internal/config\<close> and the commands under \<^verbatim>\<open>cmd\<close>: configuration, the order in which a process opens
  what it needs and closes it again, and the group of goroutines (\<^verbatim>\<open>errgroup\<close>) in which the relay
  and the notification service run until a signal or an error. The library that reads the
  environment and the clients are parameters; a group is a state machine over what its goroutines
  and the outside do.
\<close>

section \<open>Configuration\<close>

text \<open>Durations are in nanoseconds.\<close>

record database_config =
  DSN :: string
  MaxConns :: int
  MinConns :: int
  MinIdleConns :: int
  MaxConnLifetime :: int64
  MaxConnIdleTime :: int64
  MaxConnLifetimeJitter :: int64

record kafka_config =
  Brokers :: "string list"
  Topic :: string

record relay_config =
  RelayInterval :: int64
  RelayBatchSize :: int64
  RelayMetricsPort :: int64

record notification_settings =
  NotificationPort :: int64
  ConsumerGroup :: string
  NotificationMetricsPort :: int64

record redis_config =
  Addr :: string

record config =
  Database :: database_config
  Kafka :: kafka_config
  Relay :: relay_config
  Notification :: notification_settings
  Redis :: redis_config
  Env :: string
  Version :: string
  Port :: int64

record notification_config =
  NKafka :: kafka_config
  NRedis :: redis_config
  NNotification :: notification_settings
  LogLevel :: int64

text \<open>The tag of a field: its variable, its default, and whether the variable is required.\<close>

record field_tag =
  tag_var :: string
  tag_default :: "string option"
  tag_required :: bool

definition defaults_to :: "string \<Rightarrow> string \<Rightarrow> field_tag" where
  "defaults_to v text = \<lparr>tag_var = v, tag_default = Some text, tag_required = False\<rparr>"

definition requires :: "string \<Rightarrow> field_tag" where
  "requires v = \<lparr>tag_var = v, tag_default = None, tag_required = True\<rparr>"

definition database_tags :: "field_tag list" where
  "database_tags =
     [requires ''DB_DSN'', defaults_to ''DB_MAX_CONNS'' ''10'', defaults_to ''DB_MIN_CONNS'' ''0'',
      defaults_to ''DB_MIN_IDLE_CONNS'' ''0'', defaults_to ''DB_MAX_CONN_LIFETIME'' ''1h'',
      defaults_to ''DB_MAX_CONN_IDLE_TIME'' ''30m'', defaults_to ''DB_MAX_CONN_LIFETIME_JITTER'' ''5m'']"

definition kafka_tags :: "field_tag list" where
  "kafka_tags = [defaults_to ''KAFKA_BROKERS'' ''kafka:19092'', defaults_to ''KAFKA_TOPIC'' ''ledger.entries'']"

definition relay_tags :: "field_tag list" where
  "relay_tags = [defaults_to ''RELAY_INTERVAL'' ''500ms'', defaults_to ''RELAY_BATCH_SIZE'' ''100'',
     defaults_to ''RELAY_METRICS_PORT'' ''2112'']"

definition notification_tags :: "field_tag list" where
  "notification_tags = [defaults_to ''NOTIFICATION_PORT'' ''8081'',
     defaults_to ''NOTIFICATION_CONSUMER_GROUP'' ''notification'',
     defaults_to ''NOTIFICATION_METRICS_PORT'' ''2112'']"

definition redis_tags :: "field_tag list" where
  "redis_tags = [defaults_to ''REDIS_ADDR'' ''redis:6379'']"

definition config_tags :: "field_tag list" where
  "config_tags = database_tags @ kafka_tags @ relay_tags @ notification_tags @ redis_tags @
     [requires ''ENV'', requires ''VERSION'', defaults_to ''PORT'' ''8080'']"

definition notification_config_tags :: "field_tag list" where
  "notification_config_tags = kafka_tags @ redis_tags @ notification_tags @
     [defaults_to ''LOG_LEVEL'' ''INFO'']"

text \<open>\<^verbatim>\<open>env.Parse\<close> on the environment of the process.\<close>

type_synonym environment = "string \<Rightarrow> string option"
type_synonym 'c parser = "environment \<Rightarrow> 'c result"

definition zero_config :: config where
  "zero_config =
     \<lparr>Database = \<lparr>DSN = '''', MaxConns = 0, MinConns = 0, MinIdleConns = 0, MaxConnLifetime = 0,
                  MaxConnIdleTime = 0, MaxConnLifetimeJitter = 0\<rparr>,
      Kafka = \<lparr>Brokers = [], Topic = ''''\<rparr>,
      Relay = \<lparr>RelayInterval = 0, RelayBatchSize = 0, RelayMetricsPort = 0\<rparr>,
      Notification = \<lparr>NotificationPort = 0, ConsumerGroup = '''', NotificationMetricsPort = 0\<rparr>,
      Redis = \<lparr>Addr = ''''\<rparr>, Env = '''', Version = '''', Port = 0\<rparr>"

definition zero_notification_config :: notification_config where
  "zero_notification_config =
     \<lparr>NKafka = \<lparr>Brokers = [], Topic = ''''\<rparr>, NRedis = \<lparr>Addr = ''''\<rparr>,
      NNotification = \<lparr>NotificationPort = 0, ConsumerGroup = '''', NotificationMetricsPort = 0\<rparr>,
      LogLevel = 0\<rparr>"

definition Load :: "config parser \<Rightarrow> environment \<Rightarrow> config \<times> go_error option" where
  "Load parse vars =
     (case parse vars of Inl err \<Rightarrow> (zero_config, Some err) | Inr cfg \<Rightarrow> (cfg, None))"

definition LoadNotification ::
  "notification_config parser \<Rightarrow> environment \<Rightarrow> notification_config \<times> go_error option" where
  "LoadNotification parse vars =
     (case parse vars of Inl err \<Rightarrow> (zero_notification_config, Some err) | Inr cfg \<Rightarrow> (cfg, None))"

text \<open>What the library documents of a required field.\<close>

definition honours_required :: "field_tag list \<Rightarrow> 'c parser \<Rightarrow> bool" where
  "honours_required tags parse \<longleftrightarrow>
     (\<forall>t \<in> set tags. \<forall>vars. tag_required t \<longrightarrow> vars (tag_var t) = None \<longrightarrow> (\<exists>err. parse vars = Inl err))"

section \<open>Opening and closing\<close>

text \<open>
  What a command does to the outside: it creates clients, and closes them by \<^verbatim>\<open>defer\<close> on its way
  out. \<open>Served\<close> stands for the time in which it serves.
\<close>

datatype deed = Opened string | Closed string | Served

datatype exit_error = Failed go_error | Joined "go_error list"

type_synonym run_result = "deed list \<times> exit_error option"

text \<open>What opening a client did to the outside, and the client or the error.\<close>

type_synonym 'x opened = "deed list \<times> 'x result"

text \<open>\<^verbatim>\<open>x, err := open(); if err != nil { return err }; defer x.Close()\<close>, then the rest.\<close>

definition deferred :: "string \<Rightarrow> 'x opened \<Rightarrow> ('x \<Rightarrow> run_result) \<Rightarrow> run_result" where
  "deferred name op rest =
     (case op of
        (before, Inl err) \<Rightarrow> (before, Some (Failed err))
      | (before, Inr x) \<Rightarrow> (case rest x of (deeds, err) \<Rightarrow> (before @ deeds @ [Closed name], err)))"

text \<open>\<^verbatim>\<open>x, err := create(); if err != nil { return err }\<close>\<close>

definition created :: "string \<Rightarrow> 'x result \<Rightarrow> 'x opened" where
  "created name r = (case r of Inl err \<Rightarrow> ([], Inl err) | Inr x \<Rightarrow> ([Opened name], Inr x))"

subsection \<open>The database pool\<close>

text \<open>
  The fields of \<^verbatim>\<open>pgxpool.Config\<close> the program sets; \<open>pc_parsed\<close> is everything else the connection
  string says. Parsing it, creating the pool and pinging are pgx's.
\<close>

record 'o pool_config =
  pc_parsed :: 'o
  pc_MaxConnLifetime :: int64
  pc_MaxConnIdleTime :: int64
  pc_MaxConns :: int
  pc_MinConns :: int
  pc_MinIdleConns :: int
  pc_MaxConnLifetimeJitter :: int64

definition Open ::
  "(string \<Rightarrow> 'o pool_config result) \<Rightarrow> ('o pool_config \<Rightarrow> 'd result) \<Rightarrow> ('d \<Rightarrow> go_error option) \<Rightarrow>
   database_config \<Rightarrow> 'd opened" where
  "Open parse_dsn new_pool ping cfg =
     (case parse_dsn (DSN cfg) of
        Inl err \<Rightarrow> ([], Inl err)
      | Inr dbConfig \<Rightarrow>
          (case created ''db'' (new_pool (dbConfig\<lparr>pc_MaxConnLifetime := MaxConnLifetime cfg,
               pc_MaxConnIdleTime := MaxConnIdleTime cfg, pc_MaxConns := MaxConns cfg,
               pc_MinConns := MinConns cfg, pc_MinIdleConns := MinIdleConns cfg,
               pc_MaxConnLifetimeJitter := MaxConnLifetimeJitter cfg\<rparr>)) of
             (ds, Inl err) \<Rightarrow> (ds, Inl err)
           | (ds, Inr dbpool) \<Rightarrow>
               (case ping dbpool of
                  Some err \<Rightarrow> (ds @ [Closed ''db''], Inl err)
                | None \<Rightarrow> (ds, Inr dbpool))))"

subsection \<open>The Kafka and Redis clients\<close>

text \<open>The options of a \<^verbatim>\<open>kgo\<close> client the program sets.\<close>

record kgo_options =
  ko_SeedBrokers :: "string list"
  ko_DefaultProduceTopic :: "string option"
  ko_ConsumerGroup :: "string option"
  ko_ConsumeTopics :: "string list"
  ko_DisableAutoCommit :: bool

definition producer_options :: "kafka_config \<Rightarrow> kgo_options" where
  "producer_options cfg =
     \<lparr>ko_SeedBrokers = Brokers cfg, ko_DefaultProduceTopic = Some (Topic cfg), ko_ConsumerGroup = None,
      ko_ConsumeTopics = [], ko_DisableAutoCommit = False\<rparr>"

definition consumer_options :: "notification_config \<Rightarrow> kgo_options" where
  "consumer_options cfg =
     \<lparr>ko_SeedBrokers = Brokers (NKafka cfg), ko_DefaultProduceTopic = None,
      ko_ConsumerGroup = Some (ConsumerGroup (NNotification cfg)),
      ko_ConsumeTopics = [Topic (NKafka cfg)], ko_DisableAutoCommit = True\<rparr>"

text \<open>A new client that does not answer a ping is an error; nobody closes it.\<close>

definition openKafka ::
  "(kgo_options \<Rightarrow> 'k result) \<Rightarrow> ('k \<Rightarrow> go_error option) \<Rightarrow> notification_config \<Rightarrow> 'k opened" where
  "openKafka new_client ping cfg =
     (case created ''kafka'' (new_client (consumer_options cfg)) of
        (ds, Inl err) \<Rightarrow> (ds, Inl err)
      | (ds, Inr client) \<Rightarrow>
          (case ping client of Some err \<Rightarrow> (ds, Inl err) | None \<Rightarrow> (ds, Inr client)))"

definition openRedis ::
  "(redis_config \<Rightarrow> 'r) \<Rightarrow> ('r \<Rightarrow> go_error option) \<Rightarrow> notification_config \<Rightarrow> 'r opened" where
  "openRedis new_client ping cfg =
     (let rdb = new_client (NRedis cfg)
      in case ping rdb of Some err \<Rightarrow> ([Opened ''redis''], Inl err) | None \<Rightarrow> ([Opened ''redis''], Inr rdb))"

section \<open>The commands\<close>

text \<open>
  \<^verbatim>\<open>cmd/api/main.go\<close>: \<open>open_db\<close> is \<^verbatim>\<open>storage.Open\<close>, \<open>serve\<close> what \<^verbatim>\<open>serve\<close> returned.
\<close>

definition api_run ::
  "config parser \<Rightarrow> environment \<Rightarrow> (database_config \<Rightarrow> 'd opened) \<Rightarrow> (config \<Rightarrow> 'd \<Rightarrow> go_error option) \<Rightarrow>
   run_result" where
  "api_run parse vars open_db serve =
     (case Load parse vars of
        (_, Some err) \<Rightarrow> ([], Some (Failed err))
      | (cfg, None) \<Rightarrow>
          deferred ''db'' (open_db (Database cfg)) (\<lambda>db. ([Served], map_option Failed (serve cfg db))))"

text \<open>\<^verbatim>\<open>cmd/relay/main.go\<close>: \<open>wait\<close> is what \<^verbatim>\<open>g.Wait\<close> returned. Its Kafka client is not pinged.\<close>

definition relay_run ::
  "config parser \<Rightarrow> environment \<Rightarrow> (database_config \<Rightarrow> 'd opened) \<Rightarrow> (kgo_options \<Rightarrow> 'k result) \<Rightarrow>
   (relay_config \<Rightarrow> 'd \<Rightarrow> 'k \<Rightarrow> exit_error option) \<Rightarrow> run_result" where
  "relay_run parse vars open_db new_client wait =
     (case Load parse vars of
        (_, Some err) \<Rightarrow> ([], Some (Failed err))
      | (cfg, None) \<Rightarrow>
          deferred ''db'' (open_db (Database cfg)) (\<lambda>db.
          deferred ''kafka'' (created ''kafka'' (new_client (producer_options (Kafka cfg)))) (\<lambda>client.
            ([Served], wait (Relay cfg) db client))))"

definition notification_run ::
  "notification_config parser \<Rightarrow> environment \<Rightarrow> (notification_config \<Rightarrow> 'r opened) \<Rightarrow>
   (notification_config \<Rightarrow> 'k opened) \<Rightarrow> ('r \<Rightarrow> 'k \<Rightarrow> exit_error option) \<Rightarrow> run_result" where
  "notification_run parse vars open_redis open_kafka wait =
     (case LoadNotification parse vars of
        (_, Some err) \<Rightarrow> ([], Some (Failed err))
      | (cfg, None) \<Rightarrow>
          deferred ''redis'' (open_redis cfg) (\<lambda>rdb.
          deferred ''kafka'' (open_kafka cfg) (\<lambda>client.
            ([Served], wait rdb client))))"

text \<open>\<^verbatim>\<open>main\<close> of every command: \<^verbatim>\<open>log.Fatal\<close> ends the process with the exit code 1.\<close>

definition exit_code :: "run_result \<Rightarrow> int" where
  "exit_code r = (case snd r of Some _ \<Rightarrow> 1 | None \<Rightarrow> 0)"

section \<open>What is left open\<close>

fun still_open :: "deed list \<Rightarrow> string list \<Rightarrow> string list" where
  "still_open [] names = names"
| "still_open (Opened n # ds) names = still_open ds (n # names)"
| "still_open (Closed n # ds) names = still_open ds (remove1 n names)"
| "still_open (Served # ds) names = still_open ds names"

lemma still_open_append: "still_open (ds @ es) names = still_open es (still_open ds names)"
  by (induction ds names rule: still_open.induct) simp_all

text \<open>An opener either succeeds with its client open, or fails and leaves what it says.\<close>

definition opens :: "string \<Rightarrow> 'x opened \<Rightarrow> bool" where
  "opens name op \<longleftrightarrow> (\<forall>names. case snd op of
     Inl _ \<Rightarrow> still_open (fst op) names = names | Inr _ \<Rightarrow> still_open (fst op) names = name # names)"

lemma opens_created: "opens name (created name r)"
  by (simp add: opens_def created_def split: sum.split)

lemma opens_Open: "opens ''db'' (Open parse_dsn new_pool ping cfg)"
  by (simp add: opens_def Open_def created_def split: sum.split option.split)

lemma deferred_balanced:
  assumes "opens name op" "\<And>x names. still_open (fst (rest x)) names = names"
  shows "still_open (fst (deferred name op rest)) names = names"
proof (cases "snd op")
  case (Inl err)
  with assms(1) show ?thesis by (cases op) (simp add: opens_def deferred_def)
next
  case (Inr x)
  with assms(1) have "still_open (fst op) names = name # names" by (simp add: opens_def)
  with Inr assms(2) [of x] show ?thesis
    by (cases op; cases "rest x") (simp add: deferred_def still_open_append)
qed

end
