(* ===== verification/Supervision.thy ===== *)
theory Supervision
  imports Commands Relay_Progress Consumer Pubsub
begin

text \<open>
  The groups of goroutines of \<^verbatim>\<open>cmd/relay/main.go\<close> and \<^verbatim>\<open>cmd/notification/main.go\<close>: loops and HTTP
  servers run side by side, and one goroutine waits for the group's context and then stops the
  servers. \<^verbatim>\<open>errgroup\<close> cancels that context at the first error, keeps that error, and waits for all
  of them. The state machine takes one step per thing that happens, in any order the contracts of
  \<^verbatim>\<open>net/http\<close> and of the loops allow.
\<close>

section \<open>A group\<close>

text \<open>\<^verbatim>\<open>ListenAndServe\<close> never returns nil; it returns \<^verbatim>\<open>ErrServerClosed\<close> after \<^verbatim>\<open>Shutdown\<close> was called.\<close>

datatype listen_end = Server_closed | Listen_failed go_error

datatype stop_action = Close_hub | Shut string

text \<open>
  \<^verbatim>\<open>golang.org/x/sync/errgroup\<close>: a goroutine's result is noted when it returns; the group's error is
  the first that is not nil, which is also what cancels the context and what \<^verbatim>\<open>Wait\<close> returns.
\<close>

record 'g errgroup_ops =
  eg_fresh :: 'g
  eg_note :: "exit_error option \<Rightarrow> 'g \<Rightarrow> 'g"
  eg_first :: "'g \<Rightarrow> exit_error option"

locale errgroup =
  fixes ops :: "'g errgroup_ops"
  assumes first_fresh: "eg_first ops (eg_fresh ops) = None"
    and first_note: "eg_first ops (eg_note ops err s) =
      (case eg_first ops s of None \<Rightarrow> err | Some e \<Rightarrow> Some e)"

text \<open>The library as its documentation describes it.\<close>

definition keep_first :: "exit_error option errgroup_ops" where
  "keep_first =
     \<lparr>eg_fresh = None, eg_note = (\<lambda>err s. case s of None \<Rightarrow> err | Some e \<Rightarrow> Some e), eg_first = (\<lambda>s. s)\<rparr>"

interpretation kept: errgroup keep_first
  by unfold_locales (simp_all add: keep_first_def)

text \<open>
  Running loops and servers, what the stopping goroutine still has to do (\<open>None\<close> once it has
  returned) and the errors of its calls so far, the state of the \<^verbatim>\<open>errgroup\<close>, whether a signal came,
  the servers on which \<^verbatim>\<open>Shutdown\<close> was called, and whether \<^verbatim>\<open>hub.CloseAll\<close> was.
\<close>

record 'g group =
  g_loops :: "string list"
  g_servers :: "string list"
  g_stop :: "stop_action list option"
  g_stop_errs :: "go_error list"
  g_lib :: 'g
  g_signal :: bool
  g_shut :: "string list"
  g_hub_closed :: bool

definition new_group :: "'g errgroup_ops \<Rightarrow> string list \<Rightarrow> string list \<Rightarrow> stop_action list \<Rightarrow> 'g group" where
  "new_group ops loops servers plan =
     \<lparr>g_loops = loops, g_servers = servers, g_stop = Some plan, g_stop_errs = [], g_lib = eg_fresh ops,
      g_signal = False, g_shut = [], g_hub_closed = False\<rparr>"

definition group_error :: "'g errgroup_ops \<Rightarrow> 'g group \<Rightarrow> exit_error option" where
  "group_error ops g = eg_first ops (g_lib g)"

text \<open>\<^verbatim>\<open>gctx.Err() != nil\<close> while the group runs.\<close>

definition ctx_done :: "'g errgroup_ops \<Rightarrow> 'g group \<Rightarrow> bool" where
  "ctx_done ops g \<longleftrightarrow> g_signal g \<or> group_error ops g \<noteq> None"

definition task_returned :: "'g errgroup_ops \<Rightarrow> exit_error option \<Rightarrow> 'g group \<Rightarrow> 'g group" where
  "task_returned ops err g = g\<lparr>g_lib := eg_note ops err (g_lib g)\<rparr>"

section \<open>What the goroutines return\<close>

text \<open>\<^verbatim>\<open>if err == nil && gctx.Err() == nil { return errors.New("... stopped unexpectedly") }; return err\<close>\<close>

definition loop_result :: "string \<Rightarrow> go_error option \<Rightarrow> bool \<Rightarrow> exit_error option" where
  "loop_result name err ctx_is_done =
     (if err = None \<and> \<not> ctx_is_done then Some (Failed (TextError (name @ '' stopped unexpectedly'')))
      else map_option Failed err)"

definition server_result :: "listen_end \<Rightarrow> exit_error option" where
  "server_result r = (case r of Server_closed \<Rightarrow> None | Listen_failed err \<Rightarrow> Some (Failed err))"

text \<open>The relay stops one server and returns its error; the notification service joins the errors of two.\<close>

definition relay_stop_result :: "go_error list \<Rightarrow> exit_error option" where
  "relay_stop_result errs = (case errs of [] \<Rightarrow> None | err # _ \<Rightarrow> Some (Failed err))"

definition notification_stop_result :: "go_error list \<Rightarrow> exit_error option" where
  "notification_stop_result errs = (if errs = [] then None else Some (Joined errs))"

section \<open>Steps\<close>

text \<open>
  A signal arrives; a loop returns; a server's \<^verbatim>\<open>ListenAndServe\<close> returns; the stopping goroutine does
  its next action (with the error \<^verbatim>\<open>Shutdown\<close> gave), or returns after the last.
\<close>

datatype happening =
    Signal
  | Loop_returns string "go_error option"
  | Listen_returns string listen_end
  | Stop_step "go_error option"

type_synonym stop_result = "go_error list \<Rightarrow> exit_error option"

definition stop_step ::
  "'g errgroup_ops \<Rightarrow> stop_result \<Rightarrow> go_error option \<Rightarrow> 'g group \<Rightarrow> 'g group option" where
  "stop_step ops result err g =
     (if \<not> ctx_done ops g then None
      else case g_stop g of
             None \<Rightarrow> None
           | Some [] \<Rightarrow> Some (task_returned ops (result (g_stop_errs g)) (g\<lparr>g_stop := None\<rparr>))
           | Some (Close_hub # as) \<Rightarrow> Some (g\<lparr>g_stop := Some as, g_hub_closed := True\<rparr>)
           | Some (Shut name # as) \<Rightarrow>
               Some (g\<lparr>g_stop := Some as, g_shut := name # g_shut g,
                       g_stop_errs := g_stop_errs g @ (case err of None \<Rightarrow> [] | Some e \<Rightarrow> [e])\<rparr>))"

fun happens :: "'g errgroup_ops \<Rightarrow> stop_result \<Rightarrow> happening \<Rightarrow> 'g group \<Rightarrow> 'g group option" where
  "happens ops result Signal g = Some (g\<lparr>g_signal := True\<rparr>)"
| "happens ops result (Loop_returns name err) g =
     (if name \<in> set (g_loops g)
      then Some (task_returned ops (loop_result name err (ctx_done ops g)) (g\<lparr>g_loops := remove1 name (g_loops g)\<rparr>))
      else None)"
| "happens ops result (Listen_returns name r) g =
     (if name \<in> set (g_servers g) \<and> (r = Server_closed \<longrightarrow> name \<in> set (g_shut g))
      then Some (task_returned ops (server_result r) (g\<lparr>g_servers := remove1 name (g_servers g)\<rparr>))
      else None)"
| "happens ops result (Stop_step err) g = stop_step ops result err g"

fun run_group :: "'g errgroup_ops \<Rightarrow> stop_result \<Rightarrow> happening list \<Rightarrow> 'g group \<Rightarrow> 'g group option" where
  "run_group ops result [] g = Some g"
| "run_group ops result (h # hs) g = Option.bind (happens ops result h g) (run_group ops result hs)"

text \<open>\<^verbatim>\<open>g.Wait()\<close> returns once every goroutine has.\<close>

definition ended :: "'g group \<Rightarrow> bool" where
  "ended g \<longleftrightarrow> g_loops g = [] \<and> g_servers g = [] \<and> g_stop g = None"

definition relay_group :: "'g errgroup_ops \<Rightarrow> 'g group" where
  "relay_group ops = new_group ops [''relay''] [''metrics''] [Shut ''metrics'']"

definition notification_group :: "'g errgroup_ops \<Rightarrow> 'g group" where
  "notification_group ops =
     new_group ops [''consumer'', ''subscriber''] [''ws'', ''metrics'']
       [Close_hub, Shut ''ws'', Shut ''metrics'']"

text \<open>What the configuration hands the relay.\<close>

definition sending_of :: "relay_config \<Rightarrow> sending_params" where
  "sending_of cfg = \<lparr>BatchSize = RelayBatchSize cfg, Interval = RelayInterval cfg\<rparr>"

text \<open>The gauge of the relay's metrics: the age of the oldest unpublished event, \<open>None\<close> for \<^verbatim>\<open>NaN\<close>.\<close>

definition outbox_age_gauge :: "env \<Rightarrow> db \<Rightarrow> int option" where
  "outbox_age_gauge env d =
     (case WithTx env (capture (OldestUnpublishedOutboxAge env)) d of
        ((secs, None), _) \<Rightarrow> secs
      | ((_, Some err), _) \<Rightarrow> None)"

section \<open>The API server\<close>

text \<open>
  \<^verbatim>\<open>serve\<close> of \<^verbatim>\<open>cmd/api/server.go\<close> has one server and one goroutine that shuts it down on a signal:
  a failure to listen is returned at once, otherwise the result of the shutdown is awaited.
\<close>

definition serve_api :: "listen_end \<Rightarrow> go_error option \<Rightarrow> go_error option" where
  "serve_api listened shutdownError =
     (case listened of Listen_failed err \<Rightarrow> Some err | Server_closed \<Rightarrow> shutdownError)"

text \<open>
  Its two goroutines: a signal makes one call \<^verbatim>\<open>Shutdown\<close> and send its result to the other, which has
  been listening. \<^verbatim>\<open>ListenAndServe\<close> returns \<^verbatim>\<open>ErrServerClosed\<close> only after \<^verbatim>\<open>Shutdown\<close> was called.
\<close>

datatype api_event = Api_signal | Api_shutdown_ends "go_error option" | Api_listen_ends listen_end

record api_serving =
  av_signal :: bool
  av_shutdown :: "go_error option option"
  av_listen :: "listen_end option"

definition api_starts :: api_serving where
  "api_starts = \<lparr>av_signal = False, av_shutdown = None, av_listen = None\<rparr>"

fun api_step :: "api_event \<Rightarrow> api_serving \<Rightarrow> api_serving option" where
  "api_step Api_signal s = Some (s\<lparr>av_signal := True\<rparr>)"
| "api_step (Api_shutdown_ends r) s =
     (if av_signal s \<and> av_shutdown s = None then Some (s\<lparr>av_shutdown := Some r\<rparr>) else None)"
| "api_step (Api_listen_ends e) s =
     (if av_listen s = None \<and> (e = Server_closed \<longrightarrow> av_signal s) then Some (s\<lparr>av_listen := Some e\<rparr>) else None)"

fun api_steps :: "api_event list \<Rightarrow> api_serving \<Rightarrow> api_serving option" where
  "api_steps [] s = Some s"
| "api_steps (e # es) s = Option.bind (api_step e s) (api_steps es)"

text \<open>What \<^verbatim>\<open>serve\<close> has returned, \<open>None\<close> while it has not.\<close>

definition serve_result :: "api_serving \<Rightarrow> go_error option option" where
  "serve_result s =
     (case av_listen s of
        None \<Rightarrow> None
      | Some (Listen_failed err) \<Rightarrow> Some (serve_api (Listen_failed err) None)
      | Some Server_closed \<Rightarrow> map_option (serve_api Server_closed) (av_shutdown s))"

text \<open>The API ends without an error only when a signal came and the shutdown was clean.\<close>

lemma api_steps_inv:
  "api_steps es s = Some s' \<Longrightarrow> (av_shutdown s \<noteq> None \<longrightarrow> av_signal s) \<Longrightarrow> (av_shutdown s' \<noteq> None \<longrightarrow> av_signal s')"
proof (induction es arbitrary: s)
  case (Cons e es)
  then obtain s1 where s1: "api_step e s = Some s1" "api_steps es s1 = Some s'" by (auto simp: bind_eq_Some_conv)
  have "av_shutdown s1 \<noteq> None \<longrightarrow> av_signal s1"
    using s1(1) Cons.prems(2) by (cases e) (auto split: if_splits)
  with Cons.IH [OF s1(2)] show ?case by blast
qed simp

lemma api_ends_cleanly:
  assumes "api_steps es api_starts = Some s" "serve_result s = Some None"
  shows "av_signal s \<and> av_shutdown s = Some None"
  using api_steps_inv [OF assms(1)] assms(2)
  by (auto simp: serve_result_def serve_api_def api_starts_def split: option.splits listen_end.splits)

section \<open>The loops only return when they are asked to\<close>

lemma Run_relay_returns:
  "Run_relay publish sp ws r = (True, r') \<Longrightarrow> \<exists>w \<in> set ws. done_before w \<or> done_waiting w"
  by (induction ws arbitrary: r) (auto split: if_splits prod.splits)

lemma Run_consumer_returns:
  "Run_consumer handler commit ps s = (True, commits, s') \<Longrightarrow> \<exists>p \<in> set ps. po_stopped p \<or> po_ctx_done p"
  by (induction ps arbitrary: s commits s') (auto split: if_splits prod.splits)

lemma receive_loop_nil: "receive_loop send es h = (Some None, h') \<Longrightarrow> Sub_done \<in> set es"
  by (induction send es h rule: receive_loop.induct) (auto split: sum.splits)

section \<open>The invariant of a group\<close>

text \<open>What the actions of a plan have done.\<close>

definition shut_by :: "stop_action list \<Rightarrow> string list" where
  "shut_by as = rev (concat (map (\<lambda>a. case a of Close_hub \<Rightarrow> [] | Shut name \<Rightarrow> [name]) as))"

definition progress :: "'g group \<Rightarrow> stop_action list \<Rightarrow> stop_action list \<Rightarrow> bool" where
  "progress g plan did \<longleftrightarrow>
     (g_stop g = None \<and> did = plan \<or> (\<exists>as. g_stop g = Some as \<and> plan = did @ as)) \<and>
     g_shut g = shut_by did \<and> (g_hub_closed g \<longleftrightarrow> Close_hub \<in> set did)"

text \<open>Nothing has ended, and the plan has not begun, unless the context is done.\<close>

definition group_inv ::
  "'g errgroup_ops \<Rightarrow> string list \<Rightarrow> string list \<Rightarrow> stop_action list \<Rightarrow> 'g group \<Rightarrow> bool" where
  "group_inv ops loops servers plan g \<longleftrightarrow>
     (\<exists>did. progress g plan did) \<and>
     (ctx_done ops g \<or> g_loops g = loops \<and> g_servers g = servers \<and> g_stop g = Some plan)"

lemma group_inv_new: "group_inv ops loops servers plan (new_group ops loops servers plan)"
  by (simp add: group_inv_def new_group_def progress_def shut_by_def)

lemma shut_by_snoc [simp]:
  "shut_by (did @ [Close_hub]) = shut_by did" "shut_by (did @ [Shut name]) = name # shut_by did"
  by (simp_all add: shut_by_def)

lemma task_returned_sel [simp]:
  "g_loops (task_returned ops err g) = g_loops g" "g_servers (task_returned ops err g) = g_servers g"
  "g_stop (task_returned ops err g) = g_stop g" "g_shut (task_returned ops err g) = g_shut g"
  "g_hub_closed (task_returned ops err g) = g_hub_closed g" "g_signal (task_returned ops err g) = g_signal g"
  by (simp_all add: task_returned_def)

lemma ctx_done_updates [simp]:
  "ctx_done ops (g\<lparr>g_loops := ls\<rparr>) = ctx_done ops g" "ctx_done ops (g\<lparr>g_servers := ss\<rparr>) = ctx_done ops g"
  "ctx_done ops (g\<lparr>g_stop := st\<rparr>) = ctx_done ops g" "ctx_done ops (g\<lparr>g_shut := sh\<rparr>) = ctx_done ops g"
  "ctx_done ops (g\<lparr>g_stop_errs := es\<rparr>) = ctx_done ops g"
  "ctx_done ops (g\<lparr>g_hub_closed := b\<rparr>) = ctx_done ops g" "ctx_done ops (g\<lparr>g_signal := True\<rparr>)"
  by (simp_all add: ctx_done_def group_error_def)

context errgroup
begin

lemma ctx_done_task_returned [simp]:
  "ctx_done ops (task_returned ops err g) \<longleftrightarrow> ctx_done ops g \<or> err \<noteq> None"
  by (auto simp: task_returned_def ctx_done_def group_error_def first_note split: option.splits)

lemma stop_step_inv:
  assumes "group_inv ops loops servers plan g" "stop_step ops result err g = Some g'"
  shows "group_inv ops loops servers plan g'"
proof -
  from assms(2) have live: "ctx_done ops g" by (simp add: stop_step_def split: if_splits)
  from assms(1) obtain did where did: "progress g plan did" by (auto simp: group_inv_def)
  have "ctx_done ops g'" using assms(2) live
    by (auto simp: stop_step_def split: option.splits list.splits stop_action.splits)
  moreover have "\<exists>did'. progress g' plan did'"
  proof (cases "g_stop g")
    case None
    with assms(2) live show ?thesis by (simp add: stop_step_def)
  next
    case (Some as)
    show ?thesis
    proof (cases as)
      case Nil
      with assms(2) live Some did show ?thesis
        by (intro exI [of _ did]) (auto simp: stop_step_def progress_def)
    next
      case (Cons a as')
      with assms(2) live Some did show ?thesis
        by (intro exI [of _ "did @ [a]"]) (cases a; auto simp: stop_step_def progress_def)
    qed
  qed
  ultimately show ?thesis by (auto simp: group_inv_def)
qed

lemma happens_inv:
  assumes inv: "group_inv ops loops servers plan g" and step: "happens ops result h g = Some g'"
  shows "group_inv ops loops servers plan g'"
proof (cases h)
  case (Stop_step err)
  with inv step show ?thesis by (auto intro: stop_step_inv)
next
  case (Listen_returns name r)
  from inv obtain did where did: "progress g plan did" by (auto simp: group_inv_def)
  have "ctx_done ops g" if "name \<in> set (g_shut g)"
  proof (rule ccontr)
    assume "\<not> ctx_done ops g"
    with inv did have "did = []" by (auto simp: group_inv_def progress_def)
    with did that show False by (simp add: progress_def shut_by_def)
  qed
  with step Listen_returns have "ctx_done ops g'"
    by (cases r) (auto simp: server_result_def split: if_splits)
  moreover have "progress g' plan did"
    using did step Listen_returns by (auto simp: progress_def split: if_splits)
  ultimately show ?thesis by (auto simp: group_inv_def)
next
  case (Loop_returns name err)
  from inv obtain did where did: "progress g plan did" by (auto simp: group_inv_def)
  have "ctx_done ops g'" using step Loop_returns by (auto simp: loop_result_def split: if_splits)
  moreover have "progress g' plan did"
    using did step Loop_returns by (auto simp: progress_def split: if_splits)
  ultimately show ?thesis by (auto simp: group_inv_def)
next
  case Signal
  from inv obtain did where did: "progress g plan did" by (auto simp: group_inv_def)
  then have "progress g' plan did" using step Signal by (auto simp: progress_def)
  with step Signal show ?thesis by (auto simp: group_inv_def)
qed

lemma run_group_inv:
  "run_group ops result hs g = Some g' \<Longrightarrow> group_inv ops loops servers plan g \<Longrightarrow> group_inv ops loops servers plan g'"
  by (induction hs arbitrary: g) (auto simp: bind_eq_Some_conv dest: happens_inv)

end

section \<open>Winding down\<close>

text \<open>What the goroutines that still run have left to do.\<close>

definition work :: "'g group \<Rightarrow> nat" where
  "work g = length (g_loops g) + length (g_servers g) + (case g_stop g of None \<Rightarrow> 0 | Some as \<Rightarrow> Suc (length as))"

lemma task_returned_work [simp]: "work (task_returned ops err g) = work g"
  by (simp add: work_def)

lemma length_remove1_Suc: "x \<in> set xs \<Longrightarrow> length xs = Suc (length (remove1 x xs))"
  by (induction xs) auto

lemma happens_work:
  assumes "happens ops result h g = Some g'"
  shows "work g = work g' + (if h = Signal then 0 else 1)"
proof (cases h)
  case (Loop_returns name err)
  with assms have "name \<in> set (g_loops g)"
    and g': "g' = task_returned ops (loop_result name err (ctx_done ops g)) (g\<lparr>g_loops := remove1 name (g_loops g)\<rparr>)"
    by (auto split: if_splits)
  then have "length (g_loops g) = Suc (length (remove1 name (g_loops g)))" by (intro length_remove1_Suc)
  with Loop_returns show ?thesis unfolding g' by (simp add: work_def)
next
  case (Listen_returns name r)
  with assms have "name \<in> set (g_servers g)"
    and g': "g' = task_returned ops (server_result r) (g\<lparr>g_servers := remove1 name (g_servers g)\<rparr>)"
    by (auto split: if_splits)
  then have "length (g_servers g) = Suc (length (remove1 name (g_servers g)))" by (intro length_remove1_Suc)
  with Listen_returns show ?thesis unfolding g' by (simp add: work_def)
next
  case (Stop_step err)
  with assms show ?thesis
    by (auto simp: stop_step_def work_def split: if_splits option.splits list.splits stop_action.splits)
next
  case Signal
  with assms show ?thesis by (auto simp: work_def)
qed

lemma run_group_work:
  "run_group ops result hs g = Some g' \<Longrightarrow> work g = work g' + length (filter (\<lambda>h. h \<noteq> Signal) hs)"
  by (induction hs arbitrary: g) (auto simp: bind_eq_Some_conv dest!: happens_work)

text \<open>Servers never come back.\<close>

lemma happens_servers: "happens ops result h g = Some g' \<Longrightarrow> set (g_servers g') \<subseteq> set (g_servers g)"
  by (cases h)
    (auto simp: stop_step_def split: if_splits option.splits list.splits stop_action.splits
      dest: subsetD [OF set_remove1_subset])

lemma run_group_servers: "run_group ops result hs g = Some g' \<Longrightarrow> set (g_servers g') \<subseteq> set (g_servers g)"
  by (induction hs arbitrary: g) (auto simp: bind_eq_Some_conv dest: happens_servers)

definition idle_group :: "'g errgroup_ops \<Rightarrow> stop_result \<Rightarrow> 'g group \<Rightarrow> bool" where
  "idle_group ops result g \<longleftrightarrow> (\<forall>h. h \<noteq> Signal \<longrightarrow> happens ops result h g = None)"

lemma idle_group_ended:
  assumes inv: "group_inv ops loops servers plan g" and cover: "set (g_servers g) \<subseteq> set (shut_by plan)"
    and live: "ctx_done ops g" and idle: "idle_group ops result g"
  shows "ended g"
proof -
  from idle have none: "happens ops result h g = None" if "h \<noteq> Signal" for h
    using that by (simp add: idle_group_def)
  have loops: "g_loops g = []"
    using none [of "Loop_returns (hd (g_loops g)) None"] hd_in_set by (auto split: if_splits)
  have stop: "g_stop g = None"
    using none [of "Stop_step None"] live
    by (auto simp: stop_step_def split: option.splits list.splits stop_action.splits)
  with inv have "g_shut g = shut_by plan" by (auto simp: group_inv_def progress_def)
  with cover have "g_servers g = []"
    using none [of "Listen_returns (hd (g_servers g)) Server_closed"]
    hd_in_set by (auto split: if_splits)
  with loops stop show ?thesis by (simp add: ended_def)
qed

lemma ended_cause:
  assumes inv: "group_inv ops loops servers plan g" and "ended g"
  shows "ctx_done ops g" "g_shut g = shut_by plan" "g_hub_closed g \<longleftrightarrow> Close_hub \<in> set plan"
  using assms by (auto simp: group_inv_def progress_def ended_def)

section \<open>A batch size of zero\<close>

lemma publishBatch_zero:
  assumes "healthy env"
  shows "publishBatch env publish 0 b m d = (Inr 0, b, m, d)"
proof -
  have tx: "WithTx env (batch_closure (queries env) publish 0 b m) d =
      (if advisory_lock_free env then ((Some (0, b, m), None), d)
       else ((Some (0, b, m), Some (RelayError ErrOutboxLocked)), d))"
    using assms
    by (simp add: WithTx_def batch_closure_queries TryLockOutbox_def GetUnpublishedOutboxEvents_def
        read_sql_healthy fresh_session_def healthy_def restore_def)
  show ?thesis by (simp add: publishBatch_def tx)
qed

end
