(* ===== verification/Command_Properties.thy ===== *)
theory Command_Properties
  imports Supervision Samples
begin

text \<open>The commands: what they open they close, and their goroutines stop together.\<close>

section \<open>Starting and closing\<close>

text \<open>What \<^verbatim>\<open>openRedis\<close> and \<^verbatim>\<open>openKafka\<close> leave open.\<close>

definition abandoned ::
  "(redis_config \<Rightarrow> 'r) \<Rightarrow> ('r \<Rightarrow> go_error option) \<Rightarrow> (kgo_options \<Rightarrow> 'k result) \<Rightarrow> ('k \<Rightarrow> go_error option) \<Rightarrow>
   notification_config \<times> go_error option \<Rightarrow> string list" where
  "abandoned new_redis ping_redis new_kafka ping_kafka loaded =
     (case loaded of
        (_, Some _) \<Rightarrow> []
      | (cfg, None) \<Rightarrow>
          if ping_redis (new_redis (NRedis cfg)) \<noteq> None then [''redis'']
          else (case new_kafka (consumer_options cfg) of
                  Inl _ \<Rightarrow> []
                | Inr client \<Rightarrow> if ping_kafka client \<noteq> None then [''kafka''] else []))"

text \<open>
  C24: Whatever fails on the way, the API and the relay have closed every client they opened when they
  return, also when the database does not answer its first ping. The notification service has, except
  for a Redis or Kafka client that did not answer its first ping: that one stays open.
\<close>

theorem commands_close_what_they_open:
  "still_open (fst (api_run parse vars (Open parse_dsn new_pool ping) served)) [] = [] \<and>
   still_open (fst (relay_run parse vars (Open parse_dsn new_pool ping) new_client wait)) [] = [] \<and>
   still_open (fst (notification_run parse' vars (openRedis new_redis ping_redis)
       (openKafka new_kafka ping_kafka) wait')) [] =
     abandoned new_redis ping_redis new_kafka ping_kafka (LoadNotification parse' vars)"
proof (intro conjI)
  show "still_open (fst (api_run parse vars (Open parse_dsn new_pool ping) served)) [] = []"
    unfolding api_run_def
    by (auto split: prod.split option.split intro!: deferred_balanced opens_Open)
  show "still_open (fst (relay_run parse vars (Open parse_dsn new_pool ping) new_client wait)) [] = []"
    unfolding relay_run_def
    by (auto split: prod.split option.split intro!: deferred_balanced opens_Open opens_created)
  show "still_open (fst (notification_run parse' vars (openRedis new_redis ping_redis)
       (openKafka new_kafka ping_kafka) wait')) [] =
     abandoned new_redis ping_redis new_kafka ping_kafka (LoadNotification parse' vars)"
    by (auto simp: notification_run_def abandoned_def deferred_def openRedis_def openKafka_def created_def
        Let_def split: prod.split option.split sum.split)
qed

text \<open>Without one of the required variables nothing is opened and the error is returned.\<close>

lemma incomplete_configuration_opens_nothing:
  assumes "honours_required config_tags parse" "t \<in> set config_tags" "tag_required t" "vars (tag_var t) = None"
  shows "\<exists>err. api_run parse vars open_db served = ([], Some (Failed err)) \<and>
    relay_run parse vars open_db new_client wait = ([], Some (Failed err))"
proof -
  from assms obtain err where "parse vars = Inl err" unfolding honours_required_def by blast
  then show ?thesis by (intro exI [of _ err]) (simp add: api_run_def relay_run_def Load_def)
qed

lemma notification_needs_no_variable: "list_all (\<lambda>t. \<not> tag_required t) notification_config_tags"
  by code_simp

text \<open>
  A configured batch size of 0 is not refused: the relay then takes every empty batch for a full one
  and never rests between two batches, and nothing is ever published.
\<close>

lemma zero_batch_never_rests:
  assumes "RelayBatchSize cfg = 0" "list_all (\<lambda>w. \<not> done_before w \<and> healthy (round_env w)) ws"
  shows "Run_relay publish (sending_of cfg) ws r = (False, r)"
  using assms(2)
proof (induction ws)
  case (Cons w ws)
  then have "relay_iteration publish (sending_of cfg) (round_env w) r = (True, r)"
    using assms(1) by (simp add: relay_iteration_def sending_of_def publishBatch_zero)
  with Cons show ?case by simp
qed simp

section \<open>Stopping together\<close>

lemma both_groups:
  assumes "g0 = relay_group ops \<or> g0 = notification_group ops"
  obtains loops servers plan where "g0 = new_group ops loops servers plan"
    "set servers \<subseteq> set (shut_by plan)" "work g0 \<le> 8"
    "Close_hub \<in> set plan \<longleftrightarrow> g0 = notification_group ops"
  using assms
proof
  assume "g0 = relay_group ops"
  then show thesis
    by (intro that [of "[''relay'']" "[''metrics'']" "[Shut ''metrics'']"])
      (simp_all add: relay_group_def notification_group_def new_group_def shut_by_def work_def)
next
  assume "g0 = notification_group ops"
  then show thesis
    by (intro that [of "[''consumer'', ''subscriber'']" "[''ws'', ''metrics'']"
          "[Close_hub, Shut ''ws'', Shut ''metrics'']"])
      (simp_all add: notification_group_def new_group_def shut_by_def work_def)
qed

text \<open>
  C25: The goroutines of the relay and of the notification service stop together. Whatever ends
  first (a loop, a server that cannot listen, a signal) and in whatever order the rest follows: at
  most 8 returns and stop actions happen; once the context is done nothing can keep the group from
  ending; and when it has ended, \<^verbatim>\<open>Shutdown\<close> was called on every server, the hub's connections were
  closed if there is a hub, and no error is reported only if a signal asked the process to stop.
\<close>

theorem services_stop_together:
  assumes "errgroup ops" "g0 = relay_group ops \<or> g0 = notification_group ops"
    "run_group ops result hs g0 = Some g"
  shows "length (filter (\<lambda>h. h \<noteq> Signal) hs) \<le> 8 \<and>
    (ctx_done ops g \<and> idle_group ops result g \<longrightarrow> ended g) \<and>
    (ended g \<longrightarrow> set (g_servers g0) \<subseteq> set (g_shut g) \<and> (g_hub_closed g \<longleftrightarrow> g0 = notification_group ops) \<and>
       (group_error ops g = None \<longrightarrow> g_signal g))"
proof -
  obtain loops servers plan where g0: "g0 = new_group ops loops servers plan"
    and cover: "set servers \<subseteq> set (shut_by plan)" and bound: "work g0 \<le> 8"
    and hub: "Close_hub \<in> set plan \<longleftrightarrow> g0 = notification_group ops"
    using assms(2) by (rule both_groups)
  have inv: "group_inv ops loops servers plan g"
    using assms(3) group_inv_new unfolding g0 by (rule errgroup.run_group_inv [OF assms(1)])
  have servers: "g_servers g0 = servers" by (simp add: g0 new_group_def)
  have "length (filter (\<lambda>h. h \<noteq> Signal) hs) \<le> 8"
    using run_group_work [OF assms(3)] bound by simp
  moreover have "ended g" if "ctx_done ops g" "idle_group ops result g"
    using idle_group_ended [OF inv _ that] run_group_servers [OF assms(3)] cover servers by auto
  moreover have "set (g_servers g0) \<subseteq> set (g_shut g) \<and> (g_hub_closed g \<longleftrightarrow> g0 = notification_group ops) \<and>
      (group_error ops g = None \<longrightarrow> g_signal g)" if "ended g"
    using ended_cause [OF inv that] cover servers hub by (auto simp: ctx_done_def)
  ultimately show ?thesis by blast
qed

text \<open>The consumer dies first, the web server fails to shut down in time.\<close>

definition consumer_dies :: "happening list" where
  "consumer_dies =
     [Loop_returns ''consumer'' (Some (DriverError ''broker gone'')), Stop_step None, Loop_returns ''subscriber'' None,
      Stop_step (Some (DriverError ''context deadline exceeded'')), Listen_returns ''ws'' Server_closed,
      Stop_step None, Stop_step None, Listen_returns ''metrics'' Server_closed]"

theorem services_stop_together_witness:
  "\<exists>g. run_group keep_first notification_stop_result consumer_dies (notification_group keep_first) = Some g \<and> ended g \<and>
     group_error keep_first g = Some (Failed (DriverError ''broker gone'')) \<and> ''ws'' \<in> set (g_shut g) \<and> g_hub_closed g"
proof -
  have "case run_group keep_first notification_stop_result consumer_dies (notification_group keep_first) of None \<Rightarrow> False
      | Some g \<Rightarrow> ended g \<and> group_error keep_first g = Some (Failed (DriverError ''broker gone''))"
    by code_simp
  then obtain g where run: "run_group keep_first notification_stop_result consumer_dies (notification_group keep_first) = Some g"
    and g: "ended g" "group_error keep_first g = Some (Failed (DriverError ''broker gone''))"
    by (auto split: option.splits)
  from services_stop_together [OF kept.errgroup_axioms disjI2 [OF refl] run] g(1)
  have "set (g_servers (notification_group keep_first)) \<subseteq> set (g_shut g)" "g_hub_closed g" by simp_all
  with run g show ?thesis by (auto simp: notification_group_def new_group_def)
qed

end
