(* ===== verification/Assembly.thy ===== *)
theory Assembly
  imports Supervision Notification_Facts Handler_Facts Ws
begin

text \<open>
  How the commands put a process together: the constructors of the components, the HTTP servers with
  their time limits, \<^verbatim>\<open>http.ServeMux\<close>, and the metric registries. The Prometheus client is a parameter
  with the documented behaviour of \<^verbatim>\<open>MustRegister\<close>.
\<close>

section \<open>Servers\<close>

definition second_ns :: int64 where "second_ns = 1000000000"
definition minute_ns :: int64 where "minute_ns = 60 * second_ns"

text \<open>The fields of \<^verbatim>\<open>http.Server\<close> the program sets; a time limit of 0 is none.\<close>

record http_server =
  sv_Addr :: string
  sv_ReadHeaderTimeout :: int64
  sv_IdleTimeout :: int64
  sv_ReadTimeout :: int64
  sv_WriteTimeout :: int64

text \<open>\<^verbatim>\<open>fmt.Sprintf(":%d", port)\<close>\<close>

definition listen_addr :: "int64 \<Rightarrow> string" where
  "listen_addr port = '':'' @ FormatInt port"

definition api_server :: "config \<Rightarrow> http_server" where
  "api_server cfg =
     \<lparr>sv_Addr = listen_addr (Port cfg), sv_ReadHeaderTimeout = 0, sv_IdleTimeout = minute_ns,
      sv_ReadTimeout = 5 * second_ns, sv_WriteTimeout = 10 * second_ns\<rparr>"

definition relay_metrics_server :: "config \<Rightarrow> http_server" where
  "relay_metrics_server cfg =
     \<lparr>sv_Addr = listen_addr (RelayMetricsPort (Relay cfg)), sv_ReadHeaderTimeout = 0,
      sv_IdleTimeout = minute_ns, sv_ReadTimeout = 5 * second_ns, sv_WriteTimeout = 10 * second_ns\<rparr>"

definition notification_server :: "notification_config \<Rightarrow> http_server" where
  "notification_server cfg =
     \<lparr>sv_Addr = listen_addr (NotificationPort (NNotification cfg)),
      sv_ReadHeaderTimeout = 5 * second_ns, sv_IdleTimeout = 0, sv_ReadTimeout = 0,
      sv_WriteTimeout = 0\<rparr>"

definition notification_metrics_server :: "notification_config \<Rightarrow> http_server" where
  "notification_metrics_server cfg =
     \<lparr>sv_Addr = listen_addr (NotificationMetricsPort (NNotification cfg)), sv_ReadHeaderTimeout = 0,
      sv_IdleTimeout = minute_ns, sv_ReadTimeout = 5 * second_ns, sv_WriteTimeout = 10 * second_ns\<rparr>"

text \<open>The time limit of a money operation.\<close>

definition operationTimeout :: int64 where "operationTimeout = 10 * second_ns"

subsection \<open>\<^verbatim>\<open>http.ServeMux\<close>\<close>

text \<open>
  Patterns of a method and a literal path, for requests with a clean path: a \<^verbatim>\<open>GET\<close> pattern takes
  \<^verbatim>\<open>HEAD\<close> too, another method on a known path is 405, any other path 404.
\<close>

datatype 'h mux_answer = Mux_handler 'h | Mux_method_not_allowed | Mux_not_found

definition pattern_takes :: "string \<Rightarrow> string \<Rightarrow> bool" where
  "pattern_takes pattern_method request_method \<longleftrightarrow>
     request_method = pattern_method \<or> pattern_method = ''GET'' \<and> request_method = ''HEAD''"

definition mux_route :: "(string \<times> string \<times> 'h) list \<Rightarrow> string \<Rightarrow> string \<Rightarrow> 'h mux_answer" where
  "mux_route patterns request_method path =
     (case find (\<lambda>(m, p, h). p = path \<and> pattern_takes m request_method) patterns of
        Some (_, _, h) \<Rightarrow> Mux_handler h
      | None \<Rightarrow> if list_ex (\<lambda>(m, p, h). p = path) patterns then Mux_method_not_allowed else Mux_not_found)"

datatype process_handler = Ws_handler | Metrics_handler

definition notification_mux :: "(string \<times> string \<times> process_handler) list" where
  "notification_mux = [(''GET'', ''/v1/ws'', Ws_handler)]"

definition metrics_mux :: "(string \<times> string \<times> process_handler) list" where
  "metrics_mux = [(''GET'', ''/metrics'', Metrics_handler)]"

section \<open>Metrics\<close>

text \<open>
  A collector describes the names of its metrics. \<^verbatim>\<open>MustRegister\<close> panics (\<open>None\<close>) when a name is
  taken.
\<close>

type_synonym collector = "string list"

record 'g registry_ops =
  ro_new :: 'g
  ro_register :: "collector list \<Rightarrow> 'g \<Rightarrow> 'g option"
  ro_names :: "'g \<Rightarrow> string set"

locale metric_registry =
  fixes ops :: "'g registry_ops"
  assumes new_names: "ro_names ops (ro_new ops) = {}"
    and register_fresh: "distinct (concat cs) \<Longrightarrow> set (concat cs) \<inter> ro_names ops g = {} \<Longrightarrow>
      \<exists>g'. ro_register ops cs g = Some g' \<and> ro_names ops g' = ro_names ops g \<union> set (concat cs)"
    and register_taken: "\<not> distinct (concat cs) \<or> set (concat cs) \<inter> ro_names ops g \<noteq> {} \<Longrightarrow>
      ro_register ops cs g = None"

text \<open>The registry as its documentation describes it.\<close>

definition name_list :: "string list registry_ops" where
  "name_list =
     \<lparr>ro_new = [],
      ro_register = (\<lambda>cs g. if distinct (concat cs) \<and> list_all (\<lambda>n. n \<notin> set g) (concat cs)
                             then Some (g @ concat cs) else None),
      ro_names = set\<rparr>"

interpretation names: metric_registry name_list
  by unfold_locales (auto simp: name_list_def list_all_iff)

subsection \<open>\<^verbatim>\<open>internal/relay/metrics.go\<close>\<close>

definition zero_relay_metrics :: relay_metrics where
  "zero_relay_metrics =
     \<lparr>events_published_total = 0, batch_errors_total = 0, publish_durations = 0\<rparr>"

definition NewMetrics_relay :: "'g registry_ops \<Rightarrow> 'g \<Rightarrow> (relay_metrics \<times> 'g) option" where
  "NewMetrics_relay ops reg =
     map_option (Pair zero_relay_metrics)
       (ro_register ops [[''relay_events_published_total''], [''relay_batch_errors_total''],
          [''relay_batch_publish_duration_seconds'']] reg)"

text \<open>The registry of the relay: the gauge of the outbox's age, the collectors of the runtime (\<open>go\<close>) and
  of the process, and the relay's own metrics.\<close>

definition relay_registry ::
  "'g registry_ops \<Rightarrow> collector \<Rightarrow> collector \<Rightarrow> (relay_metrics \<times> 'g) option" where
  "relay_registry ops go process =
     Option.bind
       (ro_register ops [[''relay_outbox_oldest_unpublished_age_seconds''], go, process] (ro_new ops))
       (NewMetrics_relay ops)"

subsection \<open>\<^verbatim>\<open>internal/notification/metrics.go\<close>\<close>

definition labelValuePublished :: string where "labelValuePublished = ''published''"
definition labelValueDuplicate :: string where "labelValueDuplicate = ''duplicate''"
definition labelValueMalformed :: string where "labelValueMalformed = ''malformed''"
definition labelValueNoEventID :: string where "labelValueNoEventID = ''no_event_id''"

text \<open>The four label values exist from the start, at zero.\<close>

definition zero_note_metrics :: note_metrics where
  "zero_note_metrics =
     \<lparr>nm_published = 0, nm_duplicate = 0, nm_malformed = 0, nm_no_event_id = 0, nm_errors = 0\<rparr>"

definition NewMetrics_notification :: "'g registry_ops \<Rightarrow> 'g \<Rightarrow> (note_metrics \<times> 'g) option" where
  "NewMetrics_notification ops reg =
     map_option (Pair zero_note_metrics)
       (ro_register ops [[''notification_ws_connections''], [''notification_handle_errors_total''],
          [''notification_events_total'']] reg)"

definition notification_registry ::
  "'g registry_ops \<Rightarrow> collector \<Rightarrow> collector \<Rightarrow> (note_metrics \<times> 'g) option" where
  "notification_registry ops go process =
     Option.bind (ro_register ops [go, process] (ro_new ops)) (NewMetrics_notification ops)"

text \<open>What a scrape of the service's own metrics reads; the gauge asks the hub.\<close>

definition notification_samples :: "note_metrics \<Rightarrow> hub \<Rightarrow> (string \<times> (string \<times> string) list \<times> int) list" where
  "notification_samples m h =
     [(''notification_ws_connections'', [], Connections h),
      (''notification_handle_errors_total'', [], nm_errors m),
      (''notification_events_total'', [(''result'', labelValuePublished)], nm_published m),
      (''notification_events_total'', [(''result'', labelValueDuplicate)], nm_duplicate m),
      (''notification_events_total'', [(''result'', labelValueMalformed)], nm_malformed m),
      (''notification_events_total'', [(''result'', labelValueNoEventID)], nm_no_event_id m)]"

section \<open>Components\<close>

text \<open>The API: the service over the storage, and the handlers over the service.\<close>

record 's api =
  ap_service :: "'s service_api"
  ap_build :: build_info

definition New_api :: "'s service_api \<Rightarrow> build_info \<Rightarrow> 's api" where
  "New_api s build = \<lparr>ap_service = s, ap_build = build\<rparr>"

definition api_of :: "config \<Rightarrow> env \<Rightarrow> db api" where
  "api_of cfg env = New_api (ledger_service env) \<lparr>bi_Env = Env cfg, bi_Version = Version cfg\<rparr>"

definition api_handler ::
  "(int \<Rightarrow> bool) \<Rightarrow> router \<Rightarrow> config \<Rightarrow> env \<Rightarrow> http_request \<Rightarrow> db \<Rightarrow> reply \<times> db" where
  "api_handler printable chi cfg env =
     Routes printable chi (ap_build (api_of cfg env)) (ap_service (api_of cfg env))"

text \<open>The relay: a publisher on the producer, and what the configuration says.\<close>

record 'b relay_parts =
  rp_publisher :: "'b publisher"
  rp_send :: sending_params

definition New_publisher :: "'b producer \<Rightarrow> map_order \<Rightarrow> 'b publisher" where
  "New_publisher client ranged = Publish_kafka client ranged"

definition New_relay :: "'b publisher \<Rightarrow> sending_params \<Rightarrow> 'b relay_parts" where
  "New_relay p sp = \<lparr>rp_publisher = p, rp_send = sp\<rparr>"

definition relay_of :: "relay_config \<Rightarrow> 'b producer \<Rightarrow> map_order \<Rightarrow> 'b relay_parts" where
  "relay_of cfg client ranged = New_relay (New_publisher client ranged) (sending_of cfg)"

definition relay_process ::
  "'b relay_parts \<Rightarrow> relay_round list \<Rightarrow> 'b relay_state \<Rightarrow> bool \<times> 'b relay_state" where
  "relay_process r = Run_relay (rp_publisher r) (rp_send r)"

text \<open>The notification service: one Redis client behind the deduper, the publisher and the subscriber.\<close>

record 'w redis_client =
  rc_SetNX :: "'w setnx_cmd"
  rc_Get :: "'w get_cmd"
  rc_Set :: "'w set_cmd"
  rc_Publish :: "'w pub_cmd"

record 'w deduper_api =
  dd_Claim :: "'w claim_op"
  dd_Done :: "'w done_op"

definition NewRedisDeduper :: "'w redis_client \<Rightarrow> 'w deduper_api" where
  "NewRedisDeduper rdb =
     \<lparr>dd_Claim = Claim (rc_SetNX rdb) (rc_Get rdb), dd_Done = Done_redis (rc_Set rdb)\<rparr>"

definition NewRedisPublisher :: "'w redis_client \<Rightarrow> 'w publish_op" where
  "NewRedisPublisher rdb = Publish_redis (rc_Publish rdb)"

record 'w event_processor =
  ep_dedup :: "'w deduper_api"
  ep_publisher :: "'w publish_op"
  ep_retryInterval :: int64

definition NewProcessor :: "'w deduper_api \<Rightarrow> 'w publish_op \<Rightarrow> 'w event_processor" where
  "NewProcessor d p = \<lparr>ep_dedup = d, ep_publisher = p, ep_retryInterval = second_ns\<rparr>"

definition processor_Handle :: "'w event_processor \<Rightarrow> ('w wait_round list, 'w) handler" where
  "processor_Handle proc = Handle (dd_Claim (ep_dedup proc)) (dd_Done (ep_dedup proc)) (ep_publisher proc)"

record ('x, 'w) event_consumer =
  ec_handler :: "('x, 'w) handler"
  ec_retryInterval :: int64

definition NewConsumer :: "('x, 'w) handler \<Rightarrow> ('x, 'w) event_consumer" where
  "NewConsumer h = \<lparr>ec_handler = h, ec_retryInterval = second_ns\<rparr>"

definition consumer_of :: "'w redis_client \<Rightarrow> ('w wait_round list, 'w) event_consumer" where
  "consumer_of rdb =
     NewConsumer (processor_Handle (NewProcessor (NewRedisDeduper rdb) (NewRedisPublisher rdb)))"

definition consumer_process ::
  "('x, 'w) event_consumer \<Rightarrow> 'w commit_cmd \<Rightarrow> 'x poll list \<Rightarrow> 'w \<times> note_metrics \<Rightarrow>
   bool \<times> kafka_record list list \<times> 'w \<times> note_metrics" where
  "consumer_process c = Run_consumer (ec_handler c)"

text \<open>The subscriber's sender is the hub; every message meets it in some order of the clients.\<close>

definition subscriber_process ::
  "(nat list \<Rightarrow> nat list) \<Rightarrow> (nat \<Rightarrow> bool) \<Rightarrow> subscription \<Rightarrow> sub_event list \<Rightarrow> hub \<Rightarrow>
   go_error option option \<times> hub" where
  "subscriber_process ranged coin = Run_subscriber (Send ranged coin)"

section \<open>The parts fit\<close>

text \<open>Only a \<^verbatim>\<open>GET\<close> (or \<^verbatim>\<open>HEAD\<close>) of its one path reaches a handler of the two services.\<close>

lemma mux_reaches:
  "mux_route notification_mux m p = Mux_handler h \<longleftrightarrow>
     h = Ws_handler \<and> p = ''/v1/ws'' \<and> m \<in> {''GET'', ''HEAD''}"
  "mux_route metrics_mux m p = Mux_handler h \<longleftrightarrow>
     h = Metrics_handler \<and> p = ''/metrics'' \<and> m \<in> {''GET'', ''HEAD''}"
  by (auto simp: mux_route_def notification_mux_def metrics_mux_def pattern_takes_def)

text \<open>
  The names of the runtime's and the process's collectors start with their own prefixes and do not
  repeat, so the registrations of both services never panic.
\<close>

definition prefixed :: "string \<Rightarrow> collector \<Rightarrow> bool" where
  "prefixed pre c \<longleftrightarrow> distinct c \<and> (\<forall>n \<in> set c. take (length pre) n = pre)"

lemma prefixed_head: "prefixed (c # pre) xs \<Longrightarrow> n \<in> set xs \<Longrightarrow> \<exists>rest. n = c # rest"
  by (cases n) (auto simp: prefixed_def)

lemma prefixed_apart:
  assumes "prefixed (c # pre) xs" "prefixed (c' # pre') ys" "c \<noteq> c'"
  shows "set xs \<inter> set ys = {}"
  using prefixed_head [OF assms(1)] prefixed_head [OF assms(2)] assms(3) by fastforce

lemma prefixed_foreign: "prefixed (c # pre) xs \<Longrightarrow> hd n \<noteq> c \<Longrightarrow> n \<notin> set xs"
  using prefixed_head by fastforce

text \<open>Own names apart from each other and from those of the two collectors.\<close>

lemma names_apart:
  assumes go: "prefixed ''go_'' go" and pr: "prefixed ''process_'' process"
    and own: "distinct ns" "list_all (\<lambda>n. hd n \<noteq> CHR ''g'' \<and> hd n \<noteq> CHR ''p'') ns"
  shows "distinct (ns @ go @ process)"
proof -
  have "set go \<inter> set process = {}" by (rule prefixed_apart [OF go pr]) simp
  moreover have "distinct go" "distinct process" using go pr by (simp_all add: prefixed_def)
  moreover have "set ns \<inter> set go = {}" "set ns \<inter> set process = {}"
    using own(2) prefixed_foreign [OF go] prefixed_foreign [OF pr] by (auto simp: list_all_iff)
  ultimately show ?thesis using own(1) by auto
qed

definition relay_names :: "string list" where
  "relay_names = [''relay_events_published_total'', ''relay_batch_errors_total'',
     ''relay_batch_publish_duration_seconds'', ''relay_outbox_oldest_unpublished_age_seconds'']"

definition notification_names :: "string list" where
  "notification_names = [''notification_ws_connections'', ''notification_handle_errors_total'',
     ''notification_events_total'']"

lemma own_names:
  "distinct relay_names" "list_all (\<lambda>n. hd n \<noteq> CHR ''g'' \<and> hd n \<noteq> CHR ''p'') relay_names"
  "distinct notification_names" "list_all (\<lambda>n. hd n \<noteq> CHR ''g'' \<and> hd n \<noteq> CHR ''p'') notification_names"
  by code_simp+

context metric_registry
begin

lemma register_two:
  assumes "distinct (concat (cs @ ds))"
  shows "\<exists>g g'. ro_register ops cs (ro_new ops) = Some g \<and> ro_register ops ds g = Some g' \<and>
    ro_names ops g' = set (concat (cs @ ds))"
proof -
  from assms obtain g where g: "ro_register ops cs (ro_new ops) = Some g" "ro_names ops g = set (concat cs)"
    using register_fresh [of cs "ro_new ops"] new_names by auto
  moreover from assms g(2) obtain g' where "ro_register ops ds g = Some g'"
    "ro_names ops g' = set (concat cs) \<union> set (concat ds)"
    using register_fresh [of ds g] by auto
  ultimately show ?thesis by (metis concat_append set_append)
qed

lemma relay_registry_complete:
  assumes "prefixed ''go_'' go" "prefixed ''process_'' process"
  shows "\<exists>g. relay_registry ops go process = Some (zero_relay_metrics, g) \<and> set relay_names \<subseteq> ro_names ops g"
proof -
  obtain e1 e2 e3 e4 where names: "relay_names = [e1, e2, e3, e4]"
    and reg: "relay_registry ops go process =
      Option.bind (ro_register ops [[e4], go, process] (ro_new ops)) (NewMetrics_relay ops)"
      "\<And>g. NewMetrics_relay ops g = map_option (Pair zero_relay_metrics) (ro_register ops [[e1], [e2], [e3]] g)"
    unfolding relay_names_def relay_registry_def NewMetrics_relay_def by blast
  have "distinct (concat ([[e4], go, process] @ [[e1], [e2], [e3]]))"
    using names_apart [OF assms own_names(1,2)] unfolding names by auto
  from register_two [OF this] show ?thesis unfolding reg names by auto
qed

lemma notification_registry_complete:
  assumes "prefixed ''go_'' go" "prefixed ''process_'' process"
  shows "\<exists>g. notification_registry ops go process = Some (zero_note_metrics, g) \<and>
    set (map fst (notification_samples m h)) \<subseteq> ro_names ops g"
proof -
  obtain e1 e2 e3 where names: "notification_names = [e1, e2, e3]"
    and reg: "\<And>g. NewMetrics_notification ops g =
        map_option (Pair zero_note_metrics) (ro_register ops [[e1], [e2], [e3]] g)"
      "map fst (notification_samples m h) = [e1, e2, e3, e3, e3, e3]"
    unfolding notification_names_def NewMetrics_notification_def notification_samples_def list.map fst_conv
    by blast
  have "distinct (concat ([go, process] @ [[e1], [e2], [e3]]))"
    using names_apart [OF assms own_names(3,4)] unfolding names by auto
  from register_two [OF this] show ?thesis unfolding reg notification_registry_def by auto
qed

end

text \<open>
  The relay produces to the topic that the notification service consumes, on the same brokers, when
  both read the same environment: their configurations share the struct \<^verbatim>\<open>Kafka\<close> with its tags, which
  the library reads alike (\<open>read_kafka\<close>).
\<close>

lemma one_topic:
  assumes "\<And>cfg. parse vars = Inr cfg \<Longrightarrow> Kafka cfg = read_kafka kafka_tags vars"
    and "\<And>cfg. parse' vars = Inr cfg \<Longrightarrow> NKafka cfg = read_kafka kafka_tags vars"
    and "Load parse vars = (cfg, None)" "LoadNotification parse' vars = (cfg', None)"
  shows "\<exists>topic. ko_DefaultProduceTopic (producer_options (Kafka cfg)) = Some topic \<and>
      ko_ConsumeTopics (consumer_options cfg') = [topic] \<and>
      ko_SeedBrokers (producer_options (Kafka cfg)) = ko_SeedBrokers (consumer_options cfg')"
  using assms
  by (auto simp: Load_def LoadNotification_def producer_options_def consumer_options_def split: sum.splits)

end
