(* ===== verification/Interference.thy ===== *)
theory Interference
  imports Isolation
begin

text \<open>
  Requests that run side by side, statement by statement. A transaction in flight has its own writes
  on top of the committed tables, as under PostgreSQL's READ COMMITTED: each of its statements reads
  what is committed by then and what it has written itself. Between any two of its statements other
  transactions commit, except where that would need a lock this one holds, and take ids from the
  sequences. The functions of the service and of the relay are the same as before: they are given an
  implementation of \<^verbatim>\<open>storage.Querier\<close> that lets others in.
\<close>

section \<open>Requests as closures\<close>

text \<open>The closure a request passes to \<^verbatim>\<open>WithTx\<close>, once its arguments have been checked.\<close>

fun closure_of :: "'s querier \<Rightarrow> request \<Rightarrow> ('s, result_t) closure_on" where
  "closure_of q (Transfer_req from to amount key) = capture (transfer_closure q from to amount key)"
| "closure_of q (Deposit_req dest amount source key) = capture (deposit_closure q dest amount source key)"
| "closure_of q (Withdraw_req source amount dest key) = capture (withdraw_closure q source amount dest key)"
| "closure_of q (Reverse_req txid key) = reverse_closure q txid key"

fun begins_transaction :: "request \<Rightarrow> bool" where
  "begins_transaction (Transfer_req from to amount key) \<longleftrightarrow> 0 < amount \<and> from \<noteq> to"
| "begins_transaction (Deposit_req dest amount source key) \<longleftrightarrow> 0 < amount"
| "begins_transaction (Withdraw_req source amount dest key) \<longleftrightarrow> 0 < amount"
| "begins_transaction (Reverse_req txid key) \<longleftrightarrow> True"

lemma serve_by_closure:
  "begins_transaction req \<Longrightarrow> serve env req d = WithTx env (closure_of (queries env) req) d"
  by (cases req) (simp_all add: Transfer_def Deposit_def Withdraw_def Reverse_def)

text \<open>A request that begins no transaction fails at once.\<close>

lemma serve_refused:
  "\<not> begins_transaction req \<Longrightarrow> \<exists>e. serve env req d = ((None, Some (ServiceError e)), d)"
  by (cases req) (auto simp: Transfer_def Deposit_def Withdraw_def)

section \<open>Writes\<close>

text \<open>What a transaction adds and changes: rows, statuses of transactions, publications of events.\<close>

record writes =
  w_transactions :: "transaction_row list"
  w_entries :: "ledger_entry_row list"
  w_outbox :: "outbox_row list"
  w_marks :: "(int64 \<times> string) list"
  w_published :: "(int64 \<times> time) list"

definition no_writes :: writes where
  "no_writes = \<lparr>w_transactions = [], w_entries = [], w_outbox = [], w_marks = [], w_published = []\<rparr>"

definition mark :: "int64 \<times> string \<Rightarrow> transaction_row \<Rightarrow> transaction_row" where
  "mark m t = (if t_id t = fst m then t\<lparr>t_status := snd m\<rparr> else t)"

definition stamp :: "int64 \<times> time \<Rightarrow> outbox_row \<Rightarrow> outbox_row" where
  "stamp m r = (if o_id r = fst m then r\<lparr>o_published_at := Some (snd m)\<rparr> else r)"

definition apply_writes :: "writes \<Rightarrow> db \<Rightarrow> db" where
  "apply_writes w d =
     d\<lparr>transactions := map (fold mark (w_marks w)) (transactions d @ w_transactions w),
       ledger_entries := ledger_entries d @ w_entries w,
       outbox := map (fold stamp (w_published w)) (outbox d @ w_outbox w)\<rparr>"

text \<open>What a statement that made \<open>v'\<close> of \<open>v\<close> has written.\<close>

definition status_changes :: "transaction_row list \<Rightarrow> transaction_row list \<Rightarrow> (int64 \<times> string) list" where
  "status_changes ts ts' =
     concat (map (\<lambda>(t, t'). if t_status t' = t_status t then [] else [(t_id t, t_status t')]) (zip ts ts'))"

definition publications :: "outbox_row list \<Rightarrow> outbox_row list \<Rightarrow> (int64 \<times> time) list" where
  "publications rs rs' =
     concat (map (\<lambda>(r, r'). if o_published_at r' = o_published_at r then []
                             else (case o_published_at r' of None \<Rightarrow> [] | Some now \<Rightarrow> [(o_id r, now)]))
               (zip rs rs'))"

definition further_writes :: "db \<Rightarrow> db \<Rightarrow> writes \<Rightarrow> writes" where
  "further_writes v v' w =
     \<lparr>w_transactions = w_transactions w @ drop (length (transactions v)) (transactions v'),
      w_entries = w_entries w @ drop (length (ledger_entries v)) (ledger_entries v'),
      w_outbox = w_outbox w @ drop (length (outbox v)) (outbox v'),
      w_marks = w_marks w @ status_changes (transactions v) (transactions v'),
      w_published = w_published w @ publications (outbox v) (outbox v')\<rparr>"

text \<open>
  The locks that the database itself makes a transaction hold that commits these writes, whatever it
  has locked before: the shares its foreign keys take on the accounts of its entries, its unique keys,
  the rows it has updated.
\<close>

definition touched :: "writes \<Rightarrow> resource list" where
  "touched w =
     map (\<lambda>l. AccountShare (l_account_id l)) (w_entries w) @
     concat (map (\<lambda>t. IdempotencyKey (t_idempotency_key t) # reversal_key (t_reversal_of t)) (w_transactions w)) @
     map (\<lambda>m. TxUpdate (fst m)) (w_marks w)"

definition compatible :: "resource list \<Rightarrow> resource list \<Rightarrow> bool" where
  "compatible rs hs \<longleftrightarrow> \<not> list_ex (\<lambda>r. list_ex (conflicts r) hs) rs"

section \<open>Sound ledgers\<close>

text \<open>
  The ledger's invariant without the order in which the rows were inserted: ids are handed out before
  they are committed, so the tables are in commit order but not in the order of their ids.
\<close>

definition paired :: "db \<Rightarrow> bool" where
  "paired d \<longleftrightarrow>
     (\<forall>t \<in> set (transactions d).
        map posting_of (filter (\<lambda>l. l_transaction_id l = t_id t) (ledger_entries d)) = tx_postings t) \<and>
     (\<forall>l \<in> set (ledger_entries d). l_transaction_id l \<in> t_id ` set (transactions d))"

text \<open>On each account, and for each partition key, ids rise in the order of the commits.\<close>

definition entry_ids_of :: "db \<Rightarrow> int64 \<Rightarrow> int64 list" where
  "entry_ids_of d i = map l_id (filter (\<lambda>l. l_account_id l = i) (ledger_entries d))"

definition event_ids_of :: "db \<Rightarrow> string \<Rightarrow> int64 list" where
  "event_ids_of d k = map o_id (filter (\<lambda>r. o_partition_key r = k) (outbox d))"

definition commit_ordered :: "db \<Rightarrow> bool" where
  "commit_ordered d \<longleftrightarrow>
     (\<forall>i \<in> l_account_id ` set (ledger_entries d). sorted_wrt (<) (entry_ids_of d i)) \<and>
     (\<forall>k \<in> o_partition_key ` set (outbox d). sorted_wrt (<) (event_ids_of d k))"

definition sound :: "db \<Rightarrow> bool" where
  "sound d \<longleftrightarrow>
     paired d \<and> commit_ordered d \<and>
     distinct (map t_id (transactions d)) \<and> distinct (map l_id (ledger_entries d)) \<and>
     distinct (map o_id (outbox d)) \<and> distinct (map a_id (accounts d)) \<and>
     keys_ok d \<and> (\<forall>t \<in> set (transactions d). tx_ok d t) \<and> reversal_links d \<and> reversal_marks d"

text \<open>Every committed id came from its sequence.\<close>

definition ids_drawn :: "db \<Rightarrow> bool" where
  "ids_drawn d \<longleftrightarrow>
     (\<forall>t \<in> set (transactions d). t_id t \<le> transactions_seq d) \<and>
     (\<forall>l \<in> set (ledger_entries d). l_id l \<le> ledger_entries_seq d) \<and>
     (\<forall>r \<in> set (outbox d). o_id r \<le> outbox_seq d)"

section \<open>A transaction in flight\<close>

record flight =
  f_base :: db
  f_own :: writes
  f_stmts :: nat
  f_locks :: "resource list"

definition taking_off :: "db \<Rightarrow> flight" where
  "taking_off d = \<lparr>f_base = d, f_own = no_writes, f_stmts = 0, f_locks = []\<rparr>"

definition view :: "flight \<Rightarrow> db" where
  "view f = apply_writes (f_own f) (f_base f)"

definition session_of :: "flight \<Rightarrow> session" where
  "session_of f = \<lparr>s_db = view f, s_stmts = f_stmts f, s_locks = f_locks f\<rparr>"

text \<open>
  A statement of its own: it works on what the transaction sees; what it writes stays with the
  transaction, the ids it takes are gone from the sequences.
\<close>

definition own_statement :: "'a query \<Rightarrow> (flight, 'a) action" where
  "own_statement m f =
     (case m (session_of f) of
        (r, s) \<Rightarrow>
          (r, \<lparr>f_base = restore (f_base f) (s_db s), f_own = further_writes (view f) (s_db s) (f_own f),
               f_stmts = s_stmts s, f_locks = s_locks s\<rparr>))"

text \<open>The commit of another transaction, and how many ids others have taken meanwhile.\<close>

record arrival =
  ar_writes :: writes
  ar_transaction_ids :: nat
  ar_entry_ids :: nat
  ar_outbox_ids :: nat

definition arrive :: "arrival \<Rightarrow> db \<Rightarrow> db" where
  "arrive a d =
     (apply_writes (ar_writes a) d)
       \<lparr>transactions_seq := transactions_seq d + int (ar_transaction_ids a),
        ledger_entries_seq := ledger_entries_seq d + int (ar_entry_ids a),
        outbox_seq := outbox_seq d + int (ar_outbox_ids a)\<rparr>"

text \<open>A sequence never hands out an id twice.\<close>

definition apart :: "writes \<Rightarrow> writes \<Rightarrow> bool" where
  "apart w u \<longleftrightarrow>
     t_id ` set (w_transactions w) \<inter> t_id ` set (w_transactions u) = {} \<and>
     l_id ` set (w_entries w) \<inter> l_id ` set (w_entries u) = {} \<and>
     o_id ` set (w_outbox w) \<inter> o_id ` set (w_outbox u) = {}"

text \<open>Events are written with the entries they announce.\<close>

definition announced :: "writes \<Rightarrow> bool" where
  "announced w \<longleftrightarrow>
     o_partition_key ` set (w_outbox w) \<subseteq> (\<lambda>l. FormatInt (l_account_id l)) ` set (w_entries w)"

text \<open>
  Another transaction can commit now: the locks the database makes it hold are compatible with those
  of this one, and it leaves a sound ledger. Two transactions that share an account for their foreign
  keys do not stop each other; only \<^verbatim>\<open>FOR UPDATE\<close> does.
\<close>

definition permitted :: "arrival \<Rightarrow> flight \<Rightarrow> bool" where
  "permitted a f \<longleftrightarrow>
     compatible (touched (ar_writes a)) (f_locks f) \<and> apart (ar_writes a) (f_own f) \<and>
     announced (ar_writes a) \<and>
     sound (arrive a (f_base f)) \<and> ids_drawn (arrive a (f_base f))"

fun overheard :: "arrival list \<Rightarrow> flight \<Rightarrow> flight" where
  "overheard [] f = f"
| "overheard (a # as) f =
     (if permitted a f then overheard as (f\<lparr>f_base := arrive a (f_base f)\<rparr>) else overheard as f)"

definition amidst :: "(nat \<Rightarrow> arrival list) \<Rightarrow> 'a query \<Rightarrow> (flight, 'a) action" where
  "amidst others m f = own_statement m (overheard (others (f_stmts f)) f)"

text \<open>The interface on a transaction in flight.\<close>

definition amid :: "env \<Rightarrow> (nat \<Rightarrow> arrival list) \<Rightarrow> flight querier" where
  "amid env others =
     \<lparr>q_GetAccount = (\<lambda>i. amidst others (GetAccount env i)),
      q_GetAccountForUpdate = (\<lambda>i. amidst others (GetAccountForUpdate env i)),
      q_GetAccountBalance = (\<lambda>i. amidst others (GetAccountBalance env i)),
      q_GetAccountHistory = (\<lambda>i lim before. amidst others (GetAccountHistory env i lim before)),
      q_GetSystemAccountByCode = (\<lambda>c. amidst others (GetSystemAccountByCode env c)),
      q_CreateTransaction = (\<lambda>t. amidst others (CreateTransaction env t)),
      q_GetTransaction = (\<lambda>k. amidst others (GetTransaction env k)),
      q_GetTransactionByID = (\<lambda>i. amidst others (GetTransactionByID env i)),
      q_CreateLedgerEntry = (\<lambda>i a n. amidst others (CreateLedgerEntry env i a n)),
      q_UpdateTransactionStatus = (\<lambda>i st. amidst others (UpdateTransactionStatus env i st)),
      q_CreateOutboxEvent = (\<lambda>ty k e. amidst others (CreateOutboxEvent env ty k e)),
      q_TryLockOutbox = amidst others (TryLockOutbox env),
      q_GetUnpublishedOutboxEvents = (\<lambda>lim. amidst others (GetUnpublishedOutboxEvents env lim)),
      q_MarkOutboxEventsPublished = (\<lambda>ids. amidst others (MarkOutboxEventsPublished env ids)),
      q_OldestUnpublishedOutboxAge = amidst others (OldestUnpublishedOutboxAge env)\<rparr>"

text \<open>A request's transaction, up to the moment of its commit.\<close>

definition fly ::
  "env \<Rightarrow> (nat \<Rightarrow> arrival list) \<Rightarrow> request \<Rightarrow> db \<Rightarrow> (result_t option \<times> go_error option) \<times> flight" where
  "fly env others req d =
     (case closure_of (amid env others) req (taking_off d) of
        (out, f) \<Rightarrow> (out, overheard (others (f_stmts f)) f))"

end
