(* ===== verification/Interference_Facts.thy ===== *)
theory Interference_Facts
  imports Interference
begin

text \<open>
  The facts about transactions in flight: what the commits of others leave alone (\<open>later\<close>), and what
  each statement of the service reads and writes under them.
\<close>

section \<open>Ledgers of the serial theories are sound\<close>

lemma paired_double_entry:
  assumes "double_entry d" "distinct (map t_id (transactions d))"
  shows "paired d"
proof -
  have own: "map posting_of (filter (\<lambda>l. l_transaction_id l = i) ls) = filter (\<lambda>p. fst p = i) (map posting_of ls)" for i ls
    by (induction ls) (auto simp: posting_of_def)
  have tx: "filter (\<lambda>p. fst p = i) (concat (map tx_postings ts)) = concat (map tx_postings (filter (\<lambda>t. t_id t = i) ts))" for i ts
    by (induction ts) (auto simp: tx_postings_def)
  have single: "filter (\<lambda>t'. t_id t' = t_id t) ts = [t]" if "distinct (map t_id ts)" "t \<in> set ts" for t ts
    using that
  proof (induction ts)
    case (Cons x ts)
    show ?case
    proof (cases "t = x")
      case True
      with Cons.prems have "filter (\<lambda>t'. t_id t' = t_id t) ts = []"
        by (auto simp: filter_empty_conv) (metis image_eqI)
      with True show ?thesis by simp
    next
      case False
      with Cons show ?thesis by auto
    qed
  qed simp
  have "map posting_of (filter (\<lambda>l. l_transaction_id l = t_id t) (ledger_entries d)) = tx_postings t"
    if "t \<in> set (transactions d)" for t
    using assms(1) single [OF assms(2) that] by (simp add: own tx double_entry_def)
  moreover have "l_transaction_id l \<in> t_id ` set (transactions d)" if "l \<in> set (ledger_entries d)" for l
  proof -
    have "posting_of l \<in> set (concat (map tx_postings (transactions d)))"
      using that assms(1) by (metis double_entry_def image_eqI set_map)
    then show ?thesis by (auto simp: tx_postings_def posting_of_def)
  qed
  ultimately show ?thesis by (simp add: paired_def)
qed

lemma sorted_filter_ids: "sorted_wrt (<) (map f xs) \<Longrightarrow> sorted_wrt (<) (map f (filter P xs))"
  for f :: "'a \<Rightarrow> int"
  by (simp add: sorted_wrt_map sorted_wrt_filter)

lemma ledger_inv_sound:
  assumes "ledger_inv d"
  shows "sound d" "ids_drawn d"
proof -
  have ids: "ids_below (map t_id (transactions d)) (transactions_seq d)"
    "ids_below (map l_id (ledger_entries d)) (ledger_entries_seq d)"
    "ids_below (map o_id (outbox d)) (outbox_seq d)" "distinct (map a_id (accounts d))"
    and inv: "double_entry d" "keys_ok d" "\<forall>t \<in> set (transactions d). tx_ok d t" "reversal_links d" "reversal_marks d"
    using assms by (auto simp: ledger_inv_def ledger_base_def ids_ok_def)
  from ids show "ids_drawn d" by (auto simp: ids_drawn_def ids_below_def)
  have "commit_ordered d"
    using ids(2,3) by (auto simp: commit_ordered_def entry_ids_of_def event_ids_of_def ids_below_def intro: sorted_filter_ids)
  moreover have "paired d" using inv(1) ids(1) by (intro paired_double_entry ids_below_distinct)
  ultimately show "sound d" using ids inv by (auto simp: sound_def dest: ids_below_distinct)
qed

section \<open>Applying writes\<close>

lemma FormatInt_injective: "FormatInt i = FormatInt j \<Longrightarrow> i = j"
proof -
  assume eq: "FormatInt i = FormatInt j"
  have inj: "m = n" if "dec_text m = dec_text n" "0 \<le> m" "0 \<le> n" for m n
    using that by (metis option.inject parse_digits_dec_text)
  have neg: "dec_text n \<noteq> CHR ''-'' # cs" if "0 \<le> n" for n cs
    using dec_text_digits [OF that, of "CHR ''-''"] by auto
  show ?thesis
  proof (cases "i < 0")
    case True
    with eq neg [of j "dec_text (- i)"] have "j < 0" by (cases "j < 0") (auto simp: FormatInt_def)
    with True eq inj [of "- i" "- j"] show ?thesis by (simp add: FormatInt_def)
  next
    case False
    with eq neg [of i "dec_text (- j)"] have "\<not> j < 0" by (auto simp: FormatInt_def)
    with False eq inj [of i j] show ?thesis by (simp add: FormatInt_def)
  qed
qed

lemma fold_mark_sel [simp]:
  "t_id (fold mark ms t) = t_id t" "t_idempotency_key (fold mark ms t) = t_idempotency_key t"
  "t_source_id (fold mark ms t) = t_source_id t" "t_destination_id (fold mark ms t) = t_destination_id t"
  "t_amount (fold mark ms t) = t_amount t" "t_type (fold mark ms t) = t_type t"
  "t_reversal_of (fold mark ms t) = t_reversal_of t"
  by (induction ms arbitrary: t) (simp_all add: mark_def)

lemma fold_mark_other: "t_id t \<notin> fst ` set ms \<Longrightarrow> fold mark ms t = t"
  by (induction ms arbitrary: t) (auto simp: mark_def)

lemma unmarked_fold_mark [simp]: "unmarked (fold mark ms t) = unmarked t"
  by (induction ms arbitrary: t) (simp_all add: mark_def unmarked_def)

lemma fold_stamp_sel [simp]:
  "o_id (fold stamp ps r) = o_id r" "o_partition_key (fold stamp ps r) = o_partition_key r"
  "o_event_id (fold stamp ps r) = o_event_id r"
  by (induction ps arbitrary: r) (simp_all add: stamp_def)

lemma apply_writes_sel [simp]:
  "accounts (apply_writes w d) = accounts d"
  "ledger_entries (apply_writes w d) = ledger_entries d @ w_entries w"
  "transactions_seq (apply_writes w d) = transactions_seq d"
  "ledger_entries_seq (apply_writes w d) = ledger_entries_seq d"
  "outbox_seq (apply_writes w d) = outbox_seq d"
  "account_of (apply_writes w d) = account_of d"
  by (simp_all add: apply_writes_def account_of_def fun_eq_iff)

lemma apply_writes_same: "same_tables d d' \<Longrightarrow> same_tables (apply_writes w d) (apply_writes w d')"
  by (simp add: same_tables_def apply_writes_def)

lemma keyed_apply:
  "keyed (apply_writes w d) k =
     map_option (fold mark (w_marks w)) (find (\<lambda>t. t_idempotency_key t = k) (transactions d @ w_transactions w))"
  by (simp add: keyed_def apply_writes_def find_map comp_def del: map_append)

lemma transaction_of_apply:
  "transaction_of (apply_writes w d) i =
     map_option (fold mark (w_marks w)) (find (\<lambda>t. t_id t = i) (transactions d @ w_transactions w))"
  by (simp add: transaction_of_def apply_writes_def find_map comp_def del: map_append)

lemma balance_apply:
  "balance_of (apply_writes w d) i =
     balance_of d i + (\<Sum>l\<leftarrow>filter (\<lambda>l. l_account_id l = i) (w_entries w). l_amount l)"
  by (simp add: balance_of_def)

lemma reversed_ids_apply:
  "reversed_ids (apply_writes w d) = reversed_ids d \<union> {i. Some i \<in> t_reversal_of ` set (w_transactions w)}"
  by (auto simp: reversed_ids_def apply_writes_def image_Un image_image)

lemma entry_ids_apply:
  "entry_ids_of (apply_writes w d) i =
     entry_ids_of d i @ map l_id (filter (\<lambda>l. l_account_id l = i) (w_entries w))"
  by (simp add: entry_ids_of_def)

lemma event_ids_apply:
  "event_ids_of (apply_writes w d) k =
     event_ids_of d k @ map o_id (filter (\<lambda>r. o_partition_key r = k) (w_outbox w))"
proof -
  have "map o_id (filter (\<lambda>r. o_partition_key r = k) (map (fold stamp ps) rs)) =
      map o_id (filter (\<lambda>r. o_partition_key r = k) rs)" for ps rs
    by (induction rs) simp_all
  then show ?thesis by (simp add: event_ids_of_def apply_writes_def del: map_append) simp
qed

text \<open>What \<open>arrive\<close> does to the tables is what its writes do.\<close>

lemma arrive_same: "same_tables (apply_writes (ar_writes a) d) (arrive a d)"
  by (simp add: arrive_def same_tables_def)

lemma arrive_reads:
  "accounts (arrive a d) = accounts d" "account_of (arrive a d) = account_of d"
  "keyed (arrive a d) = keyed (apply_writes (ar_writes a) d)"
  "transaction_of (arrive a d) = transaction_of (apply_writes (ar_writes a) d)"
  "balance_of (arrive a d) = balance_of (apply_writes (ar_writes a) d)"
  "reversed_ids (arrive a d) = reversed_ids (apply_writes (ar_writes a) d)"
  "entry_ids_of (arrive a d) = entry_ids_of (apply_writes (ar_writes a) d)"
  "event_ids_of (arrive a d) = event_ids_of (apply_writes (ar_writes a) d)"
  "seq_le d (arrive a d)"
  by (simp_all add: arrive_def fun_eq_iff keyed_def transaction_of_def balance_of_def reversed_ids_def
      entry_ids_of_def event_ids_of_def account_of_def seq_le_def)

section \<open>What a flight can rely on\<close>

text \<open>None of these ids is among the committed ones.\<close>

definition fresh_for :: "writes \<Rightarrow> db \<Rightarrow> bool" where
  "fresh_for w d \<longleftrightarrow>
     t_id ` set (w_transactions w) \<inter> t_id ` set (transactions d) = {} \<and>
     l_id ` set (w_entries w) \<inter> l_id ` set (ledger_entries d) = {} \<and>
     o_id ` set (w_outbox w) \<inter> o_id ` set (outbox d) = {}"

definition steady :: "flight \<Rightarrow> bool" where
  "steady f \<longleftrightarrow> sound (f_base f) \<and> ids_drawn (f_base f) \<and> fresh_for (f_own f) (f_base f)"

text \<open>\<open>g\<close> comes after \<open>f\<close> in one flight: what the locks of \<open>f\<close> protect is as it was.\<close>

definition keeps :: "flight \<Rightarrow> flight \<Rightarrow> bool" where
  "keeps f g \<longleftrightarrow>
     set (f_locks f) \<subseteq> set (f_locks g) \<and>
     accounts (f_base g) = accounts (f_base f) \<and> seq_le (f_base f) (f_base g) \<and>
     (\<forall>i. AccountRow i \<in> set (f_locks f) \<longrightarrow>
        balance_of (f_base g) i = balance_of (f_base f) i \<and>
        entry_ids_of (f_base g) i = entry_ids_of (f_base f) i \<and>
        event_ids_of (f_base g) (FormatInt i) = event_ids_of (f_base f) (FormatInt i)) \<and>
     (\<forall>k. IdempotencyKey k \<in> set (f_locks f) \<longrightarrow>
        map_option unmarked (keyed (f_base g) k) = map_option unmarked (keyed (f_base f) k)) \<and>
     (\<forall>i t. TxRow i \<in> set (f_locks f) \<longrightarrow> transaction_of (f_base f) i = Some t \<longrightarrow>
        transaction_of (f_base g) i = Some t) \<and>
     (\<forall>i. ReversalKey i \<in> set (f_locks f) \<longrightarrow> (i \<in> reversed_ids (f_base g)) = (i \<in> reversed_ids (f_base f)))"

lemma keeps_refl: "keeps f f"
  by (simp add: keeps_def)

lemma keeps_trans:
  assumes "keeps f g" "keeps g h"
  shows "keeps f h"
  using assms unfolding keeps_def by (auto simp: subset_iff intro: seq_le_trans)

text \<open>What the transaction itself writes is its own; the committed tables stay.\<close>

lemma keeps_same_tables:
  assumes "same_tables (f_base f) (f_base g)" "seq_le (f_base f) (f_base g)" "set (f_locks f) \<subseteq> set (f_locks g)"
  shows "keeps f g"
  using assms
  by (simp add: keeps_def same_tables_def balance_of_def entry_ids_of_def event_ids_of_def keyed_def
      transaction_of_def reversed_ids_def)

section \<open>The commits of others\<close>

lemma touched_lists:
  "l \<in> set (w_entries w) \<Longrightarrow> AccountShare (l_account_id l) \<in> set (touched w)"
  "t \<in> set (w_transactions w) \<Longrightarrow> IdempotencyKey (t_idempotency_key t) \<in> set (touched w)"
  "t \<in> set (w_transactions w) \<Longrightarrow> t_reversal_of t = Some i \<Longrightarrow> ReversalKey i \<in> set (touched w)"
  "m \<in> set (w_marks w) \<Longrightarrow> TxUpdate (fst m) \<in> set (touched w)"
  by (fastforce simp: touched_def reversal_key_def)+

lemma arrival_keeps:
  assumes "permitted a f"
  shows "keeps f (f\<lparr>f_base := arrive a (f_base f)\<rparr>)"
proof -
  let ?w = "ar_writes a" and ?d = "f_base f"
  have free: "r \<notin> set (touched ?w)" if "h \<in> set (f_locks f)" "conflicts r h" for r h
    using assms that by (auto simp: permitted_def compatible_def list_ex_iff)
  have acc: "filter (\<lambda>l. l_account_id l = i) (w_entries ?w) = []" if "AccountRow i \<in> set (f_locks f)" for i
    using free [OF that, of "AccountShare i"] touched_lists(1) [of _ ?w] by (auto simp: conflicts_def filter_empty_conv)
  have evs: "filter (\<lambda>r. o_partition_key r = FormatInt i) (w_outbox ?w) = []" if "AccountRow i \<in> set (f_locks f)" for i
  proof -
    have "FormatInt i \<notin> o_partition_key ` set (w_outbox ?w)"
      using free [OF that, of "AccountShare i"] assms touched_lists(1) [of _ ?w]
      by (auto simp: conflicts_def permitted_def announced_def dest!: subsetD FormatInt_injective)
    then show ?thesis by (force simp: filter_empty_conv)
  qed
  have key: "map_option unmarked (keyed (apply_writes ?w ?d) k) = map_option unmarked (keyed ?d k)"
    if "IdempotencyKey k \<in> set (f_locks f)" for k
  proof -
    have "find (\<lambda>t. t_idempotency_key t = k) (w_transactions ?w) = None"
      using free [OF that, of "IdempotencyKey k"] touched_lists(2) [of _ ?w] by (auto simp: conflicts_def find_None_iff)
    then show ?thesis
      unfolding keyed_apply find_append by (simp add: keyed_def option.map_comp comp_def split: option.split)
  qed
  have row: "transaction_of (apply_writes ?w ?d) i = Some t"
    if "TxRow i \<in> set (f_locks f)" "transaction_of ?d i = Some t" for i t
  proof -
    have "t_id t \<notin> fst ` set (w_marks ?w)"
      using free [OF that(1), of "TxUpdate i"] touched_lists(4) [of _ ?w] transaction_of_SomeD [OF that(2)]
      by (auto simp: conflicts_def)
    with that(2) show ?thesis
      unfolding transaction_of_apply find_append by (simp add: transaction_of_def fold_mark_other)
  qed
  have rev: "(i \<in> reversed_ids (apply_writes ?w ?d)) = (i \<in> reversed_ids ?d)"
    if "ReversalKey i \<in> set (f_locks f)" for i
    using free [OF that, of "ReversalKey i"] touched_lists(3) [of _ ?w] by (force simp: conflicts_def reversed_ids_apply)
  show ?thesis
    using acc evs key row rev
    by (simp add: keeps_def arrive_reads balance_apply entry_ids_apply event_ids_apply)
qed

lemma arrival_steady:
  assumes "permitted a f" "steady f"
  shows "steady (f\<lparr>f_base := arrive a (f_base f)\<rparr>)"
proof -
  have ids: "t_id ` set (transactions (arrive a d)) = t_id ` set (transactions d) \<union> t_id ` set (w_transactions (ar_writes a))"
    "l_id ` set (ledger_entries (arrive a d)) = l_id ` set (ledger_entries d) \<union> l_id ` set (w_entries (ar_writes a))"
    "o_id ` set (outbox (arrive a d)) = o_id ` set (outbox d) \<union> o_id ` set (w_outbox (ar_writes a))" for d
    by (auto simp: arrive_def apply_writes_def image_Un image_image)
  show ?thesis
    using assms by (auto simp: steady_def permitted_def fresh_for_def ids apart_def)
qed

lemma overheard_keeps:
  assumes "steady f"
  shows "keeps f (overheard as f) \<and> steady (overheard as f) \<and>
    f_own (overheard as f) = f_own f \<and> f_locks (overheard as f) = f_locks f \<and> f_stmts (overheard as f) = f_stmts f"
  using assms
proof (induction as arbitrary: f)
  case (Cons a as)
  show ?case
  proof (cases "permitted a f")
    case True
    let ?g = "f\<lparr>f_base := arrive a (f_base f)\<rparr>"
    have "keeps f ?g" "steady ?g" using True Cons.prems by (blast intro: arrival_keeps arrival_steady)+
    with Cons.IH [of ?g] True show ?thesis by (auto intro: keeps_trans)
  next
    case False
    with Cons show ?thesis by simp
  qed
qed (simp add: keeps_refl)

end
