(* ===== verification/In_Flight.thy ===== *)
theory In_Flight
  imports Interference_Facts
begin

text \<open>
  Each statement of the service on a transaction in flight: what it has read is so in the committed
  tables and its own writes when it returns, what it has locked stays so (\<open>keeps\<close>), and what it writes
  is appended to its own writes.
\<close>

named_theorems flight_elims \<open>inversion of a successful statement in flight\<close>

section \<open>Running a statement\<close>

text \<open>Time passes, others commit, nothing is written.\<close>

definition onward :: "flight \<Rightarrow> flight \<Rightarrow> bool" where
  "onward f g \<longleftrightarrow> keeps f g \<and> steady g \<and> f_own g = f_own f"

lemma onward_trans: "onward f g \<Longrightarrow> onward g h \<Longrightarrow> onward f h"
  by (auto simp: onward_def intro: keeps_trans)

lemma onward_overheard: "steady f \<Longrightarrow> onward f (overheard as f)"
  using overheard_keeps by (simp add: onward_def)

lemma view_sel [simp]:
  "accounts (view f) = accounts (f_base f)" "account_of (view f) = account_of (f_base f)"
  "ledger_entries (view f) = ledger_entries (f_base f) @ w_entries (f_own f)"
  "transactions_seq (view f) = transactions_seq (f_base f)"
  "ledger_entries_seq (view f) = ledger_entries_seq (f_base f)"
  "outbox_seq (view f) = outbox_seq (f_base f)"
  by (simp_all add: view_def)

lemma restore_sel [simp]:
  "accounts (restore d d') = accounts d" "transactions (restore d d') = transactions d"
  "ledger_entries (restore d d') = ledger_entries d" "outbox (restore d d') = outbox d"
  "transactions_seq (restore d d') = transactions_seq d'"
  "ledger_entries_seq (restore d d') = ledger_entries_seq d'" "outbox_seq (restore d d') = outbox_seq d'"
  by (simp_all add: restore_def)

lemma view_ids:
  "t_id ` set (transactions (view f)) = t_id ` set (transactions (f_base f)) \<union> t_id ` set (w_transactions (f_own f))"
  "o_id ` set (outbox (view f)) = o_id ` set (outbox (f_base f)) \<union> o_id ` set (w_outbox (f_own f))"
  by (auto simp: view_def apply_writes_def image_Un image_image)

lemma session_of_sel [simp]:
  "s_db (session_of f) = view f" "s_locks (session_of f) = f_locks f" "s_stmts (session_of f) = f_stmts f"
  by (simp_all add: session_of_def)

lemma sound_same_tables: "same_tables d d' \<Longrightarrow> sound d \<Longrightarrow> sound d'"
  by (simp add: sound_def paired_def commit_ordered_def entry_ids_of_def event_ids_of_def keys_ok_def
      tx_ok_def account_of_def reversal_links_def reversal_marks_def same_tables_def)

lemma ids_drawn_same_tables: "same_tables d d' \<Longrightarrow> seq_le d d' \<Longrightarrow> ids_drawn d \<Longrightarrow> ids_drawn d'"
  by (fastforce simp: ids_drawn_def same_tables_def seq_le_def)

text \<open>Every statement starts after some commits of others.\<close>

lemma amidst_run:
  assumes "amidst others m f = (r, f')" "steady f"
  obtains g s where "onward f g" "f_locks g = f_locks f" "m (session_of g) = (r, s)"
    "f' = \<lparr>f_base = restore (f_base g) (s_db s), f_own = further_writes (view g) (s_db s) (f_own g),
           f_stmts = s_stmts s, f_locks = s_locks s\<rparr>"
proof -
  let ?g = "overheard (others (f_stmts f)) f"
  obtain s where s: "m (session_of ?g) = (r, s)"
    "f' = \<lparr>f_base = restore (f_base ?g) (s_db s), f_own = further_writes (view ?g) (s_db s) (f_own ?g),
           f_stmts = s_stmts s, f_locks = s_locks s\<rparr>"
    using assms(1) by (auto simp: amidst_def own_statement_def split: prod.splits)
  show thesis
    by (rule that [OF _ _ s]) (use assms(2) onward_overheard overheard_keeps in blast)+
qed

lemma status_changes_same [simp]: "status_changes ts ts = []"
proof -
  have "status_changes ts (ts @ us) = []" for us by (induction ts) (auto simp: status_changes_def)
  from this [of "[]"] show ?thesis by simp
qed

lemma status_changes_append [simp]: "status_changes ts (ts @ us) = []"
  by (induction ts) (auto simp: status_changes_def)

lemma publications_append [simp]: "publications rs (rs @ qs) = []"
  by (induction rs) (auto simp: publications_def)

lemma publications_same [simp]: "publications rs rs = []"
  using publications_append [of rs "[]"] by simp

text \<open>A statement that changes no table.\<close>

lemma further_writes_same: "same_tables v v' \<Longrightarrow> further_writes v v' w = w"
  by (simp add: further_writes_def same_tables_def)

lemma keeps_own:
  assumes "seq_le (view g) (s_db s)" "set (f_locks g) \<subseteq> set (s_locks s)"
  shows "keeps g \<lparr>f_base = restore (f_base g) (s_db s), f_own = w, f_stmts = n, f_locks = s_locks s\<rparr>"
  using assms by (intro keeps_same_tables) (simp_all add: seq_le_def)

lemma steady_own:
  assumes "steady g" "seq_le (view g) (s_db s)"
    and "fresh_for w (f_base g)"
  shows "steady \<lparr>f_base = restore (f_base g) (s_db s), f_own = w, f_stmts = n, f_locks = L\<rparr>"
proof -
  have same: "same_tables (f_base g) (restore (f_base g) (s_db s))" by (rule same_tables_restore)
  have le: "seq_le (f_base g) (restore (f_base g) (s_db s))" using assms(2) by (simp add: seq_le_def)
  have "sound (restore (f_base g) (s_db s))" "ids_drawn (restore (f_base g) (s_db s))"
    using assms(1) sound_same_tables [OF same] ids_drawn_same_tables [OF same le] by (auto simp: steady_def)
  then show ?thesis using assms(3-) by (simp add: steady_def fresh_for_def restore_def)
qed

lemma idle_statement:
  assumes run: "amidst others m f = (r, f')" and f: "steady f" and m: "growing m" "seq_mono m"
    and same: "\<And>s s'. m s = (r, s') \<Longrightarrow> same_tables (s_db s) (s_db s')"
  obtains s0 s where "onward f f'" "m s0 = (r, s)" "same_tables (s_db s0) (view f')" "f_locks f' = s_locks s"
proof -
  obtain g s where g: "onward f g" "f_locks g = f_locks f" "m (session_of g) = (r, s)"
    "f' = \<lparr>f_base = restore (f_base g) (s_db s), f_own = further_writes (view g) (s_db s) (f_own g),
           f_stmts = s_stmts s, f_locks = s_locks s\<rparr>"
    using run f by (rule amidst_run)
  from g(3) same have "same_tables (view g) (s_db s)" by fastforce
  with g(4) have f': "f' = \<lparr>f_base = restore (f_base g) (s_db s), f_own = f_own g,
      f_stmts = s_stmts s, f_locks = s_locks s\<rparr>"
    by (simp add: further_writes_same)
  have le: "seq_le (view g) (s_db s)" using seq_monoD [OF m(2) g(3)] by simp
  have locks: "set (f_locks g) \<subseteq> set (s_locks s)" using growingD [OF m(1) g(3)] by simp
  have st: "steady g" using g(1) by (simp add: onward_def)
  then have "steady f'" unfolding f' by (intro steady_own le) (auto simp: steady_def fresh_for_def)
  moreover have "keeps g f'" unfolding f' using le locks by (rule keeps_own)
  ultimately have "onward g f'" by (simp add: onward_def f')
  with g(1) have "onward f f'" by (rule onward_trans)
  moreover have "same_tables (view g) (view f')"
    by (simp add: f' view_def) (intro apply_writes_same same_tables_restore)
  ultimately show thesis
    using g(3) by (intro that [of "session_of g" s]) (simp_all add: f')
qed

section \<open>Reading\<close>

lemma reading:
  assumes "amidst others m f = (r, f')" "steady f" "read_only m" "growing m"
  obtains s0 s where "onward f f'" "m s0 = (r, s)" "same_tables (s_db s0) (view f')" "f_locks f' = s_locks s"
proof -
  have "same_tables (s_db s) (s_db s')" if "m s = (r, s')" for s s'
    using read_onlyD [OF assms(3) that] by simp
  with assms that show thesis
    by (elim idle_statement) (auto intro: read_only_seq_mono)
qed

lemma amid_sel [simp]:
  "q_GetAccount (amid env others) i = amidst others (GetAccount env i)"
  "q_GetAccountForUpdate (amid env others) i = amidst others (GetAccountForUpdate env i)"
  "q_GetAccountBalance (amid env others) i = amidst others (GetAccountBalance env i)"
  "q_GetSystemAccountByCode (amid env others) c = amidst others (GetSystemAccountByCode env c)"
  "q_CreateTransaction (amid env others) t = amidst others (CreateTransaction env t)"
  "q_GetTransaction (amid env others) k = amidst others (GetTransaction env k)"
  "q_GetTransactionByID (amid env others) i = amidst others (GetTransactionByID env i)"
  "q_CreateLedgerEntry (amid env others) i a n = amidst others (CreateLedgerEntry env i a n)"
  "q_UpdateTransactionStatus (amid env others) i st = amidst others (UpdateTransactionStatus env i st)"
  "q_CreateOutboxEvent (amid env others) ty k e = amidst others (CreateOutboxEvent env ty k e)"
  "q_TryLockOutbox (amid env others) = amidst others (TryLockOutbox env)"
  "q_GetUnpublishedOutboxEvents (amid env others) n = amidst others (GetUnpublishedOutboxEvents env n)"
  "q_MarkOutboxEventsPublished (amid env others) ids = amidst others (MarkOutboxEventsPublished env ids)"
  by (simp_all add: amid_def)

lemma GetAccount_flight [flight_elims]:
  assumes "amidst others (GetAccount env i) f = (Inr a, f')" "steady f"
  obtains row where "onward f f'" "account_of (f_base f') i = Some row" "a = scan_account row"
proof -
  obtain s0 s where s: "onward f f'" "GetAccount env i s0 = (Inr a, s)" "same_tables (s_db s0) (view f')"
    using assms read_only_GetAccount growing_GetAccount by (rule reading)
  from s(2) show thesis
    by (rule GetAccount_InrE) (rule that; use s(1,3) account_of_same_tables in fastforce)
qed

lemma GetSystemAccountByCode_flight [flight_elims]:
  assumes "amidst others (GetSystemAccountByCode env c) f = (Inr a, f')" "steady f"
  obtains row where "onward f f'" "row \<in> set (accounts (f_base f'))" "a_code row = Some c" "a = scan_account row"
proof -
  obtain s0 s where s: "onward f f'" "GetSystemAccountByCode env c s0 = (Inr a, s)" "same_tables (s_db s0) (view f')"
    using assms read_only_GetSystemAccountByCode growing_GetSystemAccountByCode by (rule reading)
  from s(2) show thesis
    by (rule GetSystemAccountByCode_InrE) (rule that; use s(1,3) in \<open>simp add: same_tables_def\<close>)
qed

lemma GetAccountForUpdate_locks:
  "GetAccountForUpdate env i s = (Inr a, s') \<Longrightarrow> AccountRow i \<in> set (s_locks s')"
  using secures_GetAccountForUpdate unfolding secures_def by blast

lemma GetAccountForUpdate_flight [flight_elims]:
  assumes "amidst others (GetAccountForUpdate env i) f = (Inr a, f')" "steady f"
  obtains row where "onward f f'" "account_of (f_base f') i = Some row" "a = scan_account row"
    "AccountRow i \<in> set (f_locks f')"
proof -
  obtain s0 s where s: "onward f f'" "GetAccountForUpdate env i s0 = (Inr a, s)"
    "same_tables (s_db s0) (view f')" "f_locks f' = s_locks s"
    using assms read_only_GetAccountForUpdate growing_GetAccountForUpdate by (rule reading)
  note lock = GetAccountForUpdate_locks [OF s(2)]
  from s(2) show thesis
    by (rule GetAccountForUpdate_InrE) (rule that; use s(1,3,4) lock account_of_same_tables in fastforce)
qed

lemma GetAccountBalance_flight [flight_elims]:
  assumes "amidst others (GetAccountBalance env i) f = (Inr b, f')" "steady f"
  obtains "onward f f'" "b = balance_of (view f') i" "in_int64 b"
proof -
  obtain s0 s where s: "onward f f'" "GetAccountBalance env i s0 = (Inr b, s)" "same_tables (s_db s0) (view f')"
    using assms read_only_GetAccountBalance growing_GetAccountBalance by (rule reading)
  from s(2) show thesis
    by (rule GetAccountBalance_InrE) (rule that; use s(1,3) balance_of_same_tables in fastforce)
qed

lemma GetTransaction_flight [flight_elims]:
  assumes "amidst others (GetTransaction env k) f = (Inr t, f')" "steady f"
  obtains row where "onward f f'" "keyed (view f') k = Some row" "t = scan_transaction row"
proof -
  obtain s0 s where s: "onward f f'" "GetTransaction env k s0 = (Inr t, s)" "same_tables (s_db s0) (view f')"
    using assms read_only_GetTransaction growing_GetTransaction by (rule reading)
  from s(2) show thesis
    by (rule GetTransaction_InrE) (rule that; use s(1,3) in \<open>simp add: same_tables_def keyed_def\<close>)
qed

lemma GetTransactionByID_locks:
  "GetTransactionByID env i s = (Inr a, s') \<Longrightarrow> TxRow i \<in> set (s_locks s')"
  using secures_GetTransactionByID unfolding secures_def by blast

lemma GetTransactionByID_flight [flight_elims]:
  assumes "amidst others (GetTransactionByID env i) f = (Inr t, f')" "steady f"
  obtains row where "onward f f'" "transaction_of (view f') i = Some row" "t = scan_transaction row"
    "TxRow i \<in> set (f_locks f')"
proof -
  obtain s0 s where s: "onward f f'" "GetTransactionByID env i s0 = (Inr t, s)"
    "same_tables (s_db s0) (view f')" "f_locks f' = s_locks s"
    using assms read_only_GetTransactionByID growing_GetTransactionByID by (rule reading)
  note lock = GetTransactionByID_locks [OF s(2)]
  from s(2) show thesis
    by (rule GetTransactionByID_InrE)
      (rule that; use s(1,3,4) lock in \<open>simp add: same_tables_def transaction_of_def\<close>)
qed

section \<open>Creating the transaction\<close>

lemma view_no_writes: "f_own f = no_writes \<Longrightarrow> view f = f_base f"
proof -
  have "map (\<lambda>x. x) xs = xs" for xs :: "'a list" by (rule list.map_ident)
  then show "f_own f = no_writes \<Longrightarrow> view f = f_base f"
    by (simp add: view_def apply_writes_def no_writes_def id_def)
qed

lemma CreateTransaction_held:
  assumes "CreateTransaction env t s = (r, s')"
  shows "IdempotencyKey (tx_IdempotencyKey t) \<in> set (s_locks s')"
    and "r = Inr c \<Longrightarrow> set (reversal_key (tx_ReversalOf t)) \<subseteq> set (s_locks s')"
proof -
  obtain s1 where s1: "acquire (IdempotencyKey (tx_IdempotencyKey t)) s = (Inr (), s1)"
    "IdempotencyKey (tx_IdempotencyKey t) \<in> set (s_locks s1)"
    using acquire_IdempotencyKey [of "tx_IdempotencyKey t" s] by auto
  obtain r2 s2 where s2: "exec_sql env (insert_transaction env t) s1 = (r2, s2)" by fastforce
  then have locks: "s_locks s2 = s_locks s1"
    by (auto simp: exec_sql_def Let_def split: option.splits prod.splits)
  obtain s3 where s3: "lock_references t s2 = (Inr (), s3)"
    "set (s_locks s2) \<union> set (reversal_key (tx_ReversalOf t)) \<subseteq> set (s_locks s3)"
    using lock_references_run by blast
  have "s' = (case r2 of Inl _ \<Rightarrow> s2 | Inr _ \<Rightarrow> s3)"
    using assms s1(1) s2 s3(1) by (auto simp: CreateTransaction_def bindQ_def ret_def split: sum.splits)
  moreover have "r2 = Inl e \<Longrightarrow> r = Inl e" for e
    using assms s1(1) s2 by (simp add: CreateTransaction_def bindQ_def)
  ultimately show "IdempotencyKey (tx_IdempotencyKey t) \<in> set (s_locks s')"
    "r = Inr c \<Longrightarrow> set (reversal_key (tx_ReversalOf t)) \<subseteq> set (s_locks s')"
    using s1(2) s3(2) locks by (auto split: sum.splits)
qed

text \<open>The key is taken, by a committed transaction.\<close>

lemma CreateTransaction_refused_flight:
  assumes "amidst others (CreateTransaction env t) f = (Inl err, f')" "steady f"
  shows "onward f f'" "IdempotencyKey (tx_IdempotencyKey t) \<in> set (f_locks f')"
proof -
  obtain s0 s where s: "onward f f'" "CreateTransaction env t s0 = (Inl err, s)" "f_locks f' = s_locks s"
    using assms growing_CreateTransaction seq_mono_CreateTransaction
    by (rule idle_statement) (auto intro: CreateTransaction_error)
  from s(1) show "onward f f'" .
  show "IdempotencyKey (tx_IdempotencyKey t) \<in> set (f_locks f')"
    using CreateTransaction_held(1) [OF s(2)] s(3) by simp
qed

lemma CreateTransaction_flight:
  assumes run: "amidst others (CreateTransaction env t) f = (Inr c, f')" "steady f"
    and own: "f_own f = no_writes"
  obtains n where "keeps f f'" "steady f'"
    "f_own f' = no_writes\<lparr>w_transactions := [inserted_transaction env t n]\<rparr>"
    "c = t\<lparr>tx_Status := ''completed'', tx_ID := n, tx_CreatedAt := tx_now env\<rparr>"
    "keyed (f_base f') (tx_IdempotencyKey t) = None" "\<not> reversal_taken (f_base f') t"
    "\<not> missing_reference (f_base f') t" "0 < tx_Amount t" "tx_Type t \<in> set transaction_types"
    "IdempotencyKey (tx_IdempotencyKey t) \<in> set (f_locks f')"
    "set (reversal_key (tx_ReversalOf t)) \<subseteq> set (f_locks f')"
proof -
  obtain g s where g: "onward f g" "f_locks g = f_locks f" "CreateTransaction env t (session_of g) = (Inr c, s)"
    and f': "f' = \<lparr>f_base = restore (f_base g) (s_db s), f_own = further_writes (view g) (s_db s) (f_own g),
           f_stmts = s_stmts s, f_locks = s_locks s\<rparr>"
    using run by (rule amidst_run)
  have st: "steady g" and own_g: "f_own g = no_writes" using g(1) own by (auto simp: onward_def)
  then have view: "view g = f_base g" by (simp add: view_no_writes)
  let ?n = "transactions_seq (f_base g) + 1"
  have le: "seq_le (view g) (s_db s)" using seq_monoD [OF seq_mono_CreateTransaction g(3)] by simp
  have locks: "set (f_locks g) \<subseteq> set (s_locks s)" using growingD [OF growing_CreateTransaction g(3)] by simp
  from g(3) show thesis
  proof (rule CreateTransaction_InrE)
    assume c: "keyed (s_db (session_of g)) (tx_IdempotencyKey t) = None" "\<not> reversal_taken (s_db (session_of g)) t"
      "\<not> missing_reference (s_db (session_of g)) t" "0 < tx_Amount t" "tx_Type t \<in> set transaction_types"
      "c = t\<lparr>tx_Status := ''completed'', tx_ID := transactions_seq (s_db (session_of g)) + 1, tx_CreatedAt := tx_now env\<rparr>"
      and d': "s_db s = (s_db (session_of g))\<lparr>transactions_seq := transactions_seq (s_db (session_of g)) + 1,
        transactions := transactions (s_db (session_of g)) @
          [inserted_transaction env t (transactions_seq (s_db (session_of g)) + 1)]\<rparr>"
    have own': "f_own f' = no_writes\<lparr>w_transactions := [inserted_transaction env t ?n]\<rparr>"
      by (simp add: f' d' own_g view further_writes_def no_writes_def)
    have "?n \<notin> t_id ` set (transactions (f_base g))"
      using st by (auto simp: steady_def ids_drawn_def dest!: bspec)
    then have "steady f'"
      using own' unfolding f'
      by (intro steady_own [OF st le]) (auto simp: fresh_for_def no_writes_def inserted_transaction_def)
    moreover have "keeps f f'"
      using g(1) keeps_own [OF le locks] unfolding f' by (auto simp: onward_def intro: keeps_trans)
    moreover have "same_tables (f_base g) (f_base f')" by (simp add: f')
    moreover note CreateTransaction_held [OF g(3)]
    ultimately show thesis
      using c own' view
      by (intro that [of ?n])
        (auto simp: f' keyed_def reversal_taken_def missing_reference_def account_of_def transaction_of_def same_tables_def
          split: option.splits)
  qed
qed

section \<open>Writing entries and events\<close>

lemma writing:
  assumes "amidst others m f = (r, f')" "steady f" "growing m" "seq_mono m"
  obtains g s where "onward f g" "m (session_of g) = (r, s)" "keeps f f'"
    "f_base f' = restore (f_base g) (s_db s)" "f_own f' = further_writes (view g) (s_db s) (f_own g)"
    "fresh_for (f_own f') (f_base g) \<longrightarrow> steady f'"
proof -
  obtain g s where g: "onward f g" "m (session_of g) = (r, s)"
    and f': "f' = \<lparr>f_base = restore (f_base g) (s_db s), f_own = further_writes (view g) (s_db s) (f_own g),
           f_stmts = s_stmts s, f_locks = s_locks s\<rparr>"
    using assms(1,2) by (rule amidst_run)
  have le: "seq_le (view g) (s_db s)" using seq_monoD [OF assms(4) g(2)] by simp
  have locks: "set (f_locks g) \<subseteq> set (s_locks s)" using growingD [OF assms(3) g(2)] by simp
  have st: "steady g" using g(1) by (simp add: onward_def)
  have "keeps f f'" using g(1) keeps_own [OF le locks] unfolding f' by (auto simp: onward_def intro: keeps_trans)
  then show thesis
    by (rule that [OF g]) (simp_all add: f' steady_own [OF st le])
qed

lemma CreateLedgerEntry_fresh:
  assumes "CreateLedgerEntry env i a n s = (Inr u, s')"
  shows "ledger_entries_seq (s_db s) + 1 \<notin> l_id ` set (ledger_entries (s_db s))"
proof -
  have "insert_ledger_entry env i a n (s_db s) = (Inr u, s_db s')"
    using assms unfolding CreateLedgerEntry_def by (auto elim!: query_elims dest!: exec_sql_InrD)
  then show ?thesis by (simp add: insert_ledger_entry_def Let_def split: if_splits)
qed

lemma CreateLedgerEntry_flight [flight_elims]:
  assumes "amidst others (CreateLedgerEntry env i a amount) f = (Inr u, f')" "steady f"
  obtains n where "keeps f f'" "steady f'"
    "f_own f' = (f_own f)\<lparr>w_entries := w_entries (f_own f) @ [new_entry env n i a amount]\<rparr>"
    "n \<notin> l_id ` set (w_entries (f_own f))" "\<forall>l \<in> set (ledger_entries (f_base f')). l_id l < n"
proof -
  obtain g s where g: "onward f g" "CreateLedgerEntry env i a amount (session_of g) = (Inr u, s)" "keeps f f'"
    "f_base f' = restore (f_base g) (s_db s)" "f_own f' = further_writes (view g) (s_db s) (f_own g)"
    and st: "fresh_for (f_own f') (f_base g) \<longrightarrow> steady f'"
    using assms growing_CreateLedgerEntry seq_mono_CreateLedgerEntry by (rule writing)
  have own: "f_own g = f_own f" and old: "steady g" using g(1) by (simp_all add: onward_def)
  let ?n = "ledger_entries_seq (f_base g) + 1"
  from g(2) show thesis
  proof (rule CreateLedgerEntry_InrE)
    assume d': "s_db s = (s_db (session_of g))\<lparr>ledger_entries_seq := ledger_entries_seq (s_db (session_of g)) + 1,
        ledger_entries := ledger_entries (s_db (session_of g)) @
          [\<lparr>l_id = ledger_entries_seq (s_db (session_of g)) + 1, l_transaction_id = i, l_account_id = a,
            l_amount = amount, l_created_at = tx_now env\<rparr>]\<rparr>"
    have own': "f_own f' = (f_own f)\<lparr>w_entries := w_entries (f_own f) @ [new_entry env ?n i a amount]\<rparr>"
      by (simp add: g(5) d' own further_writes_def new_entry_def)
    have fresh: "?n \<notin> l_id ` set (w_entries (f_own f))"
      using CreateLedgerEntry_fresh [OF g(2)] by (auto simp: own)
    have above: "\<forall>l \<in> set (ledger_entries (f_base g)). l_id l < ?n"
      using old by (fastforce simp: steady_def ids_drawn_def)
    have "steady f'"
      using old above by (intro st [rule_format]) (auto simp: own' own steady_def fresh_for_def new_entry_def)
    then show thesis
      using g(3) own' fresh above by (intro that [of ?n]) (simp_all add: g(4))
  qed
qed

lemma CreateOutboxEvent_fresh:
  assumes "CreateOutboxEvent env ty k e s = (Inr u, s')"
  shows "outbox_seq (s_db s) + 1 \<notin> o_id ` set (outbox (s_db s))"
  using assms unfolding CreateOutboxEvent_def
  by (cases "marshal_entry e")
    (auto simp: insert_outbox_event_def Let_def split: if_splits option.splits elim!: query_elims dest!: exec_sql_InrD)

lemma CreateOutboxEvent_flight [flight_elims]:
  assumes "amidst others (CreateOutboxEvent env ty k e) f = (Inr u, f')" "steady f"
  obtains n doc where "keeps f f'" "steady f'"
    "f_own f' = (f_own f)\<lparr>w_outbox := w_outbox (f_own f) @ [new_outbox_row env ty k doc n]\<rparr>"
    "n \<notin> o_id ` set (w_outbox (f_own f))" "\<forall>r \<in> set (outbox (f_base f')). o_id r < n" "event_stored env e doc"
proof -
  obtain g s where g: "onward f g" "CreateOutboxEvent env ty k e (session_of g) = (Inr u, s)" "keeps f f'"
    "f_base f' = restore (f_base g) (s_db s)" "f_own f' = further_writes (view g) (s_db s) (f_own g)"
    and st: "fresh_for (f_own f') (f_base g) \<longrightarrow> steady f'"
    using assms growing_CreateOutboxEvent seq_mono_CreateOutboxEvent by (rule writing)
  have own: "f_own g = f_own f" and old: "steady g" using g(1) by (simp_all add: onward_def)
  let ?n = "outbox_seq (f_base g) + 1"
  from g(2) show thesis
  proof (rule CreateOutboxEvent_InrE)
    fix js doc
    assume doc: "marshal_entry e = Inr js" "jsonb_text env js = Some doc"
      and d': "s_db s = (s_db (session_of g))\<lparr>outbox_seq := outbox_seq (s_db (session_of g)) + 1,
        outbox := outbox (s_db (session_of g)) @
          [new_outbox_row env ty k doc (outbox_seq (s_db (session_of g)) + 1)]\<rparr>"
    have own': "f_own f' = (f_own f)\<lparr>w_outbox := w_outbox (f_own f) @ [new_outbox_row env ty k doc ?n]\<rparr>"
      by (simp add: g(5) d' own further_writes_def)
    have fresh: "?n \<notin> o_id ` set (w_outbox (f_own f))"
      using CreateOutboxEvent_fresh [OF g(2)] by (simp add: own view_ids)
    have above: "\<forall>r \<in> set (outbox (f_base g)). o_id r < ?n"
      using old by (fastforce simp: steady_def ids_drawn_def)
    have "steady f'"
      using old above by (intro st [rule_format]) (auto simp: own' own steady_def fresh_for_def new_outbox_row_def)
    then show thesis
      using g(3) own' fresh above doc by (intro that [of doc ?n]) (auto simp: g(4) event_stored_def)
  qed
qed

section \<open>Changing rows\<close>

lemma status_changes_set_status:
  assumes "st \<noteq> ''completed''"
  shows "status_changes ts (map (set_status i st) ts) =
    replicate (length (filter (\<lambda>t. t_id t = i \<and> t_status t = ''completed'') ts)) (i, st)"
proof -
  have "concat (map (\<lambda>(t, t'). if t_status t' = t_status t then [] else [(t_id t, t_status t')])
      (zip ts (map (set_status i st) ts))) =
    replicate (length (filter (\<lambda>t. t_id t = i \<and> t_status t = ''completed'') ts)) (i, st)"
    using assms by (induction ts) (simp_all add: set_status_def)
  then show ?thesis by (simp add: status_changes_def)
qed

lemma UpdateTransactionStatus_flight [flight_elims]:
  assumes "amidst others (UpdateTransactionStatus env i st) f = (Inr u, f')" "steady f" "st \<noteq> ''completed''"
  obtains n where "keeps f f'" "steady f'"
    "f_own f' = (f_own f)\<lparr>w_marks := w_marks (f_own f) @ replicate (Suc n) (i, st)\<rparr>"
proof -
  obtain g s where g: "onward f g" "UpdateTransactionStatus env i st (session_of g) = (Inr u, s)" "keeps f f'"
    "f_base f' = restore (f_base g) (s_db s)" "f_own f' = further_writes (view g) (s_db s) (f_own g)"
    and st: "fresh_for (f_own f') (f_base g) \<longrightarrow> steady f'"
    using assms(1,2) growing_UpdateTransactionStatus seq_mono_UpdateTransactionStatus by (rule writing)
  have own: "f_own g = f_own f" and old: "steady g" using g(1) by (simp_all add: onward_def)
  from g(2) show thesis
  proof (rule UpdateTransactionStatus_InrE)
    fix t
    let ?ts = "transactions (view g)"
    let ?m = "length (filter (\<lambda>t. t_id t = i \<and> t_status t = ''completed'') ?ts)"
    assume t: "t \<in> set (transactions (s_db (session_of g)))" "t_id t = i" "t_status t = ''completed''"
      and d': "s_db s = (s_db (session_of g))\<lparr>transactions := map (set_status i st) (transactions (s_db (session_of g)))\<rparr>"
    have own': "f_own f' = (f_own f)\<lparr>w_marks := w_marks (f_own f) @ replicate ?m (i, st)\<rparr>"
      by (simp add: g(5) d' own further_writes_def status_changes_set_status [OF assms(3)])
    from t have "?m \<noteq> 0" by (auto simp: filter_empty_conv)
    then obtain n where "?m = Suc n" by (cases ?m) auto
    moreover have "steady f'"
      using old by (intro st [rule_format]) (auto simp: own' own steady_def fresh_for_def)
    ultimately show thesis using g(3) own' by (intro that [of n]) simp_all
  qed
qed

end
