(* ===== verification/Flights.thy ===== *)
theory Flights
  imports In_Flight
begin

text \<open>
  The service's operations on a transaction in flight, whatever commits between their statements: a
  transfer that returns a result has replayed a committed transaction, or has claimed its key and
  written its rows, and everything it was decided on still holds.
\<close>

section \<open>A posting in flight\<close>

text \<open>The transaction \<open>t\<close> for \<open>p\<close> is there, and nobody else can use what it uses.\<close>

definition claimed :: "transfer_params \<Rightarrow> transaction_row \<Rightarrow> flight \<Rightarrow> bool" where
  "claimed p t f \<longleftrightarrow>
     steady f \<and> w_transactions (f_own f) = [t] \<and> w_published (f_own f) = [] \<and>
     {AccountRow (p_From p), AccountRow (p_To p), IdempotencyKey (p_IdempotencyKey p)} \<subseteq> set (f_locks f) \<and>
     set (reversal_key (p_ReversalOf p)) \<subseteq> set (f_locks f) \<and>
     t_source_id t = p_From p \<and> t_destination_id t = p_To p \<and> t_amount t = p_Amount p \<and>
     t_idempotency_key t = p_IdempotencyKey p \<and> t_type t = p_Type p \<and> t_reversal_of t = p_ReversalOf p \<and>
     t_status t = txStatusCompleted \<and> 0 < p_Amount p \<and> p_Type p \<in> set transaction_types \<and>
     keyed (f_base f) (p_IdempotencyKey p) = None \<and>
     (\<forall>i. p_ReversalOf p = Some i \<longrightarrow> i \<notin> reversed_ids (f_base f))"

text \<open>Both accounts are there.\<close>

definition between :: "transfer_params \<Rightarrow> account_row \<Rightarrow> account_row \<Rightarrow> flight \<Rightarrow> bool" where
  "between p a b f \<longleftrightarrow>
     account_of (f_base f) (p_From p) = Some a \<and> account_of (f_base f) (p_To p) = Some b \<and>
     a_currency a = a_currency b"

text \<open>The source can pay.\<close>

definition funded :: "transfer_params \<Rightarrow> account_row \<Rightarrow> flight \<Rightarrow> bool" where
  "funded p a f \<longleftrightarrow>
     in_int64 (balance_of (f_base f) (p_From p)) \<and>
     (0 \<le> sub64 (balance_of (f_base f) (p_From p)) (p_Amount p) \<or>
      a_type a = accountTypeSystem \<or> p_Type p = TxTypeReversal)"

text \<open>Its rows come after all committed rows of their accounts.\<close>

definition in_line :: "flight \<Rightarrow> bool" where
  "in_line f \<longleftrightarrow>
     (\<forall>l \<in> set (w_entries (f_own f)). AccountRow (l_account_id l) \<in> set (f_locks f) \<and>
        (\<forall>j \<in> set (entry_ids_of (f_base f) (l_account_id l)). j < l_id l)) \<and>
     (\<forall>r \<in> set (w_outbox (f_own f)). \<exists>i. o_partition_key r = FormatInt i \<and> AccountRow i \<in> set (f_locks f) \<and>
        (\<forall>j \<in> set (event_ids_of (f_base f) (FormatInt i)). j < o_id r)) \<and>
     distinct (map l_id (w_entries (f_own f))) \<and> distinct (map o_id (w_outbox (f_own f)))"

definition posting_in_flight :: "transfer_params \<Rightarrow> transaction_row \<Rightarrow> flight \<Rightarrow> bool" where
  "posting_in_flight p t f \<longleftrightarrow>
     claimed p t f \<and> (\<exists>a b. between p a b f \<and> funded p a f) \<and> in_line f \<and>
     map posting_of (w_entries (f_own f)) = tx_postings t \<and> announced (f_own f) \<and>
     distinct (map l_account_id (w_entries (f_own f))) \<and> distinct (map o_partition_key (w_outbox (f_own f)))"

text \<open>All of this is stable: it holds as long as the transaction keeps its locks.\<close>

lemma keeps_account_of: "keeps f g \<Longrightarrow> account_of (f_base g) = account_of (f_base f)"
  by (simp add: keeps_def account_of_def fun_eq_iff)

lemma keeps_locks: "keeps f g \<Longrightarrow> r \<in> set (f_locks f) \<Longrightarrow> r \<in> set (f_locks g)"
  by (auto simp: keeps_def)

lemma keeps_claimed:
  assumes "claimed p t f" "keeps f g" "steady g" "w_transactions (f_own g) = w_transactions (f_own f)"
    "w_published (f_own g) = w_published (f_own f)"
  shows "claimed p t g"
proof -
  have "map_option unmarked (keyed (f_base g) (p_IdempotencyKey p)) = map_option unmarked (keyed (f_base f) (p_IdempotencyKey p))"
    using assms(1,2) by (simp add: claimed_def keeps_def)
  moreover have "(i \<in> reversed_ids (f_base g)) = (i \<in> reversed_ids (f_base f))" if "p_ReversalOf p = Some i" for i
    using assms(1,2) that by (simp add: claimed_def keeps_def reversal_key_def)
  moreover have "set (f_locks f) \<subseteq> set (f_locks g)" using assms(2) by (simp add: keeps_def)
  ultimately show ?thesis using assms(1,3-) by (auto simp: claimed_def)
qed

lemma keeps_between: "between p a b f \<Longrightarrow> keeps f g \<Longrightarrow> between p a b g"
  by (simp add: between_def keeps_account_of)

lemma keeps_funded: "funded p a f \<Longrightarrow> keeps f g \<Longrightarrow> AccountRow (p_From p) \<in> set (f_locks f) \<Longrightarrow> funded p a g"
  by (simp add: funded_def keeps_def)

lemma keeps_in_line:
  assumes "in_line f" "keeps f g" "w_entries (f_own g) = w_entries (f_own f)" "w_outbox (f_own g) = w_outbox (f_own f)"
  shows "in_line g"
proof -
  have "entry_ids_of (f_base g) i = entry_ids_of (f_base f) i"
    "event_ids_of (f_base g) (FormatInt i) = event_ids_of (f_base f) (FormatInt i)"
    if "AccountRow i \<in> set (f_locks f)" for i
    using assms(2) that by (simp_all add: keeps_def)
  with assms(1,3,4) keeps_locks [OF assms(2)] show ?thesis by (fastforce simp: in_line_def)
qed

lemma keeps_posting:
  assumes "posting_in_flight p t f" "keeps f g" "steady g" "w_transactions (f_own g) = w_transactions (f_own f)"
    "w_published (f_own g) = w_published (f_own f)" "w_entries (f_own g) = w_entries (f_own f)"
    "w_outbox (f_own g) = w_outbox (f_own f)"
  shows "posting_in_flight p t g"
proof -
  obtain a b where ab: "between p a b f" "funded p a f" "claimed p t f" "in_line f"
    using assms(1) by (auto simp: posting_in_flight_def)
  have "AccountRow (p_From p) \<in> set (f_locks f)" using ab(3) by (simp add: claimed_def)
  with ab assms(2) have "between p a b g" "funded p a g" by (auto intro: keeps_between keeps_funded)
  moreover have "claimed p t g" using ab(3) assms(2-5) by (rule keeps_claimed)
  moreover have "in_line g" using ab(4) assms(2,6,7) by (rule keeps_in_line)
  ultimately show ?thesis using assms(1,6,7) by (auto simp: posting_in_flight_def announced_def)
qed

section \<open>The transfer core\<close>

lemma entry_above:
  "\<forall>l \<in> set (ledger_entries (f_base g)). l_id l < n \<Longrightarrow> keeps g h \<Longrightarrow> AccountRow i \<in> set (f_locks g) \<Longrightarrow>
   j \<in> set (entry_ids_of (f_base h) i) \<Longrightarrow> j < n"
  by (auto simp: keeps_def entry_ids_of_def)

lemma event_above:
  "\<forall>r \<in> set (outbox (f_base g)). o_id r < n \<Longrightarrow> keeps g h \<Longrightarrow> AccountRow i \<in> set (f_locks g) \<Longrightarrow>
   j \<in> set (event_ids_of (f_base h) (FormatInt i)) \<Longrightarrow> j < n"
  by (auto simp: keeps_def event_ids_of_def)

lemma write_entries_flight:
  assumes run: "write_entries (amid env others) p sa da created f = (Inr r, f')"
    and t: "claimed p t f" "tx_ID created = t_id t" and ab: "between p a b f" "funded p a f"
    and own: "w_entries (f_own f) = []" "w_outbox (f_own f) = []" "w_marks (f_own f) = []"
    and amount: "in_int64 (p_Amount p)" "p_From p \<noteq> p_To p"
  shows "posting_in_flight p t f' \<and> keeps f f' \<and> r = newResult created \<and> w_marks (f_own f') = []"
proof -
  obtain f1 f2 f3 where
    e1: "amidst others (CreateLedgerEntry env (tx_ID created) (p_From p) (neg64 (p_Amount p))) f = (Inr (), f1)" and
    e2: "amidst others (CreateLedgerEntry env (tx_ID created) (p_To p) (p_Amount p)) f1 = (Inr (), f2)" and
    o1: "amidst others (CreateOutboxEvent env EntryTypePosted (FormatInt (p_To p))
           (credit_event p created (acc_Currency da))) f2 = (Inr (), f3)" and
    o2: "amidst others (CreateOutboxEvent env EntryTypePosted (FormatInt (p_From p))
           (debit_event p created (acc_Currency sa))) f3 = (Inr (), f')" and
    r: "r = newResult created"
    using run unfolding write_entries_def Let_def Key_credit_event Key_debit_event amid_sel
    by (elim bindQ_InrE ret_InrE) (metis (full_types) old.unit.exhaust)
  have st: "steady f" and locks: "AccountRow (p_From p) \<in> set (f_locks f)" "AccountRow (p_To p) \<in> set (f_locks f)"
    using t(1) by (simp_all add: claimed_def)
  from e1 st obtain n1 where f1: "keeps f f1" "steady f1" "\<forall>l \<in> set (ledger_entries (f_base f1)). l_id l < n1"
    "f_own f1 = (f_own f)\<lparr>w_entries := [new_entry env n1 (t_id t) (p_From p) (neg64 (p_Amount p))]\<rparr>"
    by (rule CreateLedgerEntry_flight) (simp add: own t(2))
  from e2 f1(2) obtain n2 where f2: "keeps f1 f2" "steady f2" "\<forall>l \<in> set (ledger_entries (f_base f2)). l_id l < n2"
    "n2 \<noteq> n1"
    "f_own f2 = (f_own f)\<lparr>w_entries := [new_entry env n1 (t_id t) (p_From p) (neg64 (p_Amount p)),
                                       new_entry env n2 (t_id t) (p_To p) (p_Amount p)]\<rparr>"
    by (rule CreateLedgerEntry_flight) (simp add: f1(4) t(2) new_entry_def)
  from o1 f2(2) obtain m1 doc1 where f3: "keeps f2 f3" "steady f3" "\<forall>r \<in> set (outbox (f_base f3)). o_id r < m1"
    "f_own f3 = (f_own f2)\<lparr>w_outbox := [new_outbox_row env EntryTypePosted (FormatInt (p_To p)) doc1 m1]\<rparr>"
    by (rule CreateOutboxEvent_flight) (simp add: own f2(5))
  from o2 f3(2) obtain m2 doc2 where f4: "keeps f3 f'" "steady f'" "\<forall>r \<in> set (outbox (f_base f')). o_id r < m2"
    "m2 \<noteq> m1"
    "f_own f' = (f_own f2)\<lparr>w_outbox := [new_outbox_row env EntryTypePosted (FormatInt (p_To p)) doc1 m1,
                                        new_outbox_row env EntryTypePosted (FormatInt (p_From p)) doc2 m2]\<rparr>"
    by (rule CreateOutboxEvent_flight) (simp add: f3(4) new_outbox_row_def)
  have k3: "keeps f3 f'" "keeps f2 f'" "keeps f1 f'" "keeps f f'"
    using f1(1) f2(1) f3(1) f4(1) by (blast intro: keeps_trans)+
  have held: "AccountRow i \<in> set (f_locks g)" if "keeps f g" "i = p_From p \<or> i = p_To p" for g i
    using that locks keeps_locks by blast
  have kf: "keeps f f2" "keeps f f3" using f1(1) f2(1) f3(1) by (blast intro: keeps_trans)+
  have ev: "\<exists>i. FormatInt x = FormatInt i \<and> AccountRow i \<in> set (f_locks f') \<and>
      (\<forall>j \<in> set (event_ids_of (f_base f') (FormatInt i)). j < m)"
    if "x = p_From p \<or> x = p_To p" "m = m1 \<or> m = m2" for x m
    using event_above [OF f3(3) k3(1) held [OF kf(2)]] event_above [OF f4(3) keeps_refl held [OF k3(4)]]
      held [OF k3(4)] that by (intro exI [of _ x]) blast
  have "in_line f'"
    using entry_above [OF f1(3) k3(3) held [OF f1(1)]] entry_above [OF f2(3) k3(2) held [OF kf(1)]]
      held [OF k3(4)] f2(4) f4(4) ev
    by (simp add: in_line_def f4(5) f2(5) new_entry_def new_outbox_row_def) blast
  moreover have "claimed p t f'"
    using t(1) k3(4) f4(2) by (rule keeps_claimed) (simp_all add: f4(5) f2(5))
  moreover have "between p a b f'" "funded p a f'"
    using ab k3(4) locks by (blast intro: keeps_between keeps_funded)+
  moreover have "0 < p_Amount p" "t_source_id t = p_From p" "t_destination_id t = p_To p" "t_amount t = p_Amount p"
    using t(1) by (simp_all add: claimed_def)
  moreover have "FormatInt (p_To p) \<noteq> FormatInt (p_From p)" using amount(2) FormatInt_injective by metis
  ultimately have "posting_in_flight p t f'"
    using amount by (auto simp: posting_in_flight_def announced_def f4(5) f2(5) new_entry_def new_outbox_row_def posting_of_def tx_postings_def)
  with k3(4) r own(3) show ?thesis by (simp add: f4(5) f2(5))
qed

lemma post_entries_flight:
  assumes run: "post_entries (amid env others) p (scan_account a) da created f = (Inr r, f')"
    and t: "claimed p t f" "tx_ID created = t_id t" and ab: "between p a b f"
    and own: "w_entries (f_own f) = []" "w_outbox (f_own f) = []" "w_marks (f_own f) = []"
    and amount: "in_int64 (p_Amount p)" "p_From p \<noteq> p_To p"
  shows "posting_in_flight p t f' \<and> keeps f f' \<and> r = newResult created \<and> w_marks (f_own f') = []"
proof -
  obtain bal f1 where bal: "amidst others (GetAccountBalance env (p_From p)) f = (Inr bal, f1)"
    and rest: "(if sub64 bal (p_Amount p) < 0 \<and>
        \<not> (acc_Type (scan_account a) = accountTypeSystem \<or> p_Type p = TxTypeReversal)
      then throw (ServiceError ErrNotEnough) else write_entries (amid env others) p (scan_account a) da created) f1 = (Inr r, f')"
    using run unfolding post_entries_def amid_sel by (rule bindQ_InrE)
  have st: "steady f" using t(1) by (simp add: claimed_def)
  from bal st have f1: "onward f f1 \<and> bal = balance_of (view f1) (p_From p) \<and> in_int64 bal"
    by (rule GetAccountBalance_flight) simp
  then have k: "keeps f f1" "steady f1" "f_own f1 = f_own f" by (simp_all add: onward_def)
  have b: "bal = balance_of (f_base f1) (p_From p)" using f1 by (simp add: view_def balance_apply k(3) own(1))
  have go: "\<not> (sub64 bal (p_Amount p) < 0 \<and> \<not> (a_type a = accountTypeSystem \<or> p_Type p = TxTypeReversal)) \<and>
      write_entries (amid env others) p (scan_account a) da created f1 = (Inr r, f')"
    using rest by (simp add: throw_def scan_account_def split: if_splits)
  then have "funded p a f1" using f1 unfolding b by (auto simp: funded_def)
  moreover have "claimed p t f1" by (rule keeps_claimed [OF t(1) k(1,2)]) (simp_all add: k(3))
  ultimately have "posting_in_flight p t f' \<and> keeps f1 f' \<and> r = newResult created \<and> w_marks (f_own f') = []"
    using t(2) keeps_between [OF ab k(1)] own amount
    by (intro write_entries_flight [OF go [THEN conjunct2]]) (simp_all add: k(3))
  with k(1) show ?thesis by (blast intro: keeps_trans)
qed

text \<open>The transaction a replay answers with: committed under the key, with the same arguments.\<close>

definition replayed_from :: "transfer_params \<Rightarrow> result_t \<Rightarrow> flight \<Rightarrow> bool" where
  "replayed_from p r f \<longleftrightarrow>
     (\<exists>x. map_option unmarked (keyed (f_base f) (p_IdempotencyKey p)) = Some (unmarked x) \<and>
        key_args x = (p_From p, p_To p, p_Amount p) \<and> r = replayed_result x)"

lemma replay_flight:
  assumes run: "replay (amid env others) p f = (Inr r, f')" and f: "steady f" "f_own f = no_writes"
  shows "onward f f' \<and> replayed_from p r f'"
proof -
  obtain tx f1 where g: "amidst others (GetTransaction env (p_IdempotencyKey p)) f = (Inr tx, f1)"
    and rest: "(if compareTransactions (requested p) tx then ret ((newResult tx)\<lparr>r_Replayed := True\<rparr>)
      else throw (ServiceError ErrTransactionsMismatch)) f1 = (Inr r, f')"
    using run unfolding replay_def amid_sel by (rule bindQ_InrE)
  from g f(1) obtain x where x: "onward f f1" "keyed (view f1) (p_IdempotencyKey p) = Some x" "tx = scan_transaction x"
    by (rule GetTransaction_flight)
  from rest have "compareTransactions (requested p) tx" "r = (newResult tx)\<lparr>r_Replayed := True\<rparr>" "f' = f1"
    by (auto simp: ret_def throw_def split: if_splits)
  moreover have "view f1 = f_base f1" using x(1) f(2) by (simp add: onward_def view_no_writes)
  ultimately show ?thesis
    using x by (auto simp: replayed_from_def key_args_def compareTransactions_def requested_def
        scan_transaction_def replayed_result_def)
qed

text \<open>What a transfer has done that returned a result.\<close>

definition transferred :: "transfer_params \<Rightarrow> result_t \<Rightarrow> flight \<Rightarrow> bool" where
  "transferred p r f \<longleftrightarrow>
     steady f \<and> w_marks (f_own f) = [] \<and>
     (f_own f = no_writes \<and> IdempotencyKey (p_IdempotencyKey p) \<in> set (f_locks f) \<and> replayed_from p r f \<or>
      (\<exists>t. posting_in_flight p t f \<and> r = newResult (scan_transaction t)))"

lemma keeps_replayed_from:
  assumes "replayed_from p r f" "keeps f g" "IdempotencyKey (p_IdempotencyKey p) \<in> set (f_locks f)"
  shows "replayed_from p r g"
  using assms by (simp add: replayed_from_def keeps_def)

lemma post_or_replay_flight:
  assumes run: "post_or_replay (amid env others) p (scan_account a) da f = (Inr r, f')"
    and f: "steady f" "f_own f = no_writes" and ab: "between p a b f"
    and locks: "AccountRow (p_From p) \<in> set (f_locks f)" "AccountRow (p_To p) \<in> set (f_locks f)"
    and amount: "in_int64 (p_Amount p)" "p_From p \<noteq> p_To p"
  shows "transferred p r f' \<and> keeps f f'"
proof (cases "amidst others (CreateTransaction env (requested p)) f")
  case (Pair res f1)
  have key: "tx_IdempotencyKey (requested p) = p_IdempotencyKey p" by (simp add: requested_def)
  show ?thesis
  proof (cases res)
    case (Inl err)
    with run Pair have go: "replay (amid env others) p f1 = (Inr r, f')"
      by (auto simp: post_or_replay_def split: if_splits)
    have 1: "onward f f1" "IdempotencyKey (p_IdempotencyKey p) \<in> set (f_locks f1)"
      using CreateTransaction_refused_flight [OF Pair [unfolded Inl] f(1)] by (simp_all add: key)
    then have "onward f1 f' \<and> replayed_from p r f'" using f(2) by (intro replay_flight [OF go]) (simp_all add: onward_def)
    with 1 f(2) show ?thesis
      by (auto simp: transferred_def onward_def no_writes_def intro: keeps_trans keeps_locks)
  next
    case (Inr created)
    with run Pair have go: "post_entries (amid env others) p (scan_account a) da created f1 = (Inr r, f')"
      by (simp add: post_or_replay_def)
    from Pair [unfolded Inr] f obtain n where n: "keeps f f1" "steady f1"
      "f_own f1 = no_writes\<lparr>w_transactions := [inserted_transaction env (requested p) n]\<rparr>"
      "created = (requested p)\<lparr>tx_Status := ''completed'', tx_ID := n, tx_CreatedAt := tx_now env\<rparr>"
      "keyed (f_base f1) (p_IdempotencyKey p) = None" "\<not> reversal_taken (f_base f1) (requested p)"
      "0 < tx_Amount (requested p)" "tx_Type (requested p) \<in> set transaction_types"
      "IdempotencyKey (p_IdempotencyKey p) \<in> set (f_locks f1)"
      "set (reversal_key (tx_ReversalOf (requested p))) \<subseteq> set (f_locks f1)"
      unfolding key [symmetric] by (rule CreateTransaction_flight)
    let ?t = "inserted_transaction env (requested p) n"
    have rev: "i \<notin> reversed_ids (f_base f1)" if "p_ReversalOf p = Some i" for i
      using n(6) that by (auto simp: reversal_taken_def requested_def reversed_ids_def list_ex_iff)
    have "claimed p ?t f1"
      using n(2,3,5,7-10) locks rev keeps_locks [OF n(1)]
      by (simp add: claimed_def inserted_transaction_def requested_def no_writes_def txStatusCompleted_def)
    moreover have "tx_ID created = t_id ?t" by (simp add: n(4) inserted_transaction_def)
    ultimately have "posting_in_flight p ?t f' \<and> keeps f1 f' \<and> r = newResult created \<and> w_marks (f_own f') = []"
      using keeps_between [OF ab n(1)] amount
      by (intro post_entries_flight [OF go]) (simp_all add: n(3) no_writes_def)
    moreover have "created = scan_transaction ?t"
      by (simp add: n(4) scan_transaction_def inserted_transaction_def requested_def)
    ultimately show ?thesis
      using n(1) by (auto simp: transferred_def posting_in_flight_def claimed_def intro: keeps_trans)
  qed
qed

lemma lock_account_flight:
  assumes "lock_account (amid env others) i from f = (Inr a, f')" "steady f"
  obtains row where "onward f f'" "account_of (f_base f') i = Some row" "a = scan_account row"
    "AccountRow i \<in> set (f_locks f')"
proof -
  have "amidst others (GetAccountForUpdate env i) f = (Inr a, f')"
    using assms(1) unfolding lock_account_def amid_sel
    by (elim onErr_InrE) (auto simp: throw_def split: if_splits)
  then show thesis using assms(2) by (rule GetAccountForUpdate_flight) (rule that)
qed

lemma transfer_flight:
  assumes run: "transfer (amid env others) p f = (Inr r, f')" and f: "steady f" "f_own f = no_writes"
    and amount: "in_int64 (p_Amount p)" "p_From p \<noteq> p_To p"
  shows "transferred p r f' \<and> keeps f f'"
proof -
  let ?first = "min (p_From p) (p_To p)" and ?second = "max (p_From p) (p_To p)"
  obtain a1 f1 a2 f2 where
    l1: "lock_account (amid env others) ?first (p_From p) f = (Inr a1, f1)" and
    l2: "lock_account (amid env others) ?second (p_From p) f1 = (Inr a2, f2)" and
    rest: "(case (if ?first \<noteq> p_From p then (a2, a1) else (a1, a2)) of (sa, da) \<Rightarrow>
        if acc_Currency sa \<noteq> acc_Currency da then throw (ServiceError ErrCurrencyMismatch)
        else post_or_replay (amid env others) p sa da) f2 = (Inr r, f')"
    using run unfolding transfer_def Let_def by (elim bindQ_InrE) blast
  from l1 f(1) obtain r1 where r1: "onward f f1" "account_of (f_base f1) ?first = Some r1" "a1 = scan_account r1"
    "AccountRow ?first \<in> set (f_locks f1)" by (rule lock_account_flight)
  then have "steady f1" by (simp add: onward_def)
  with l2 obtain r2 where r2: "onward f1 f2" "account_of (f_base f2) ?second = Some r2" "a2 = scan_account r2"
    "AccountRow ?second \<in> set (f_locks f2)" by (rule lock_account_flight)
  have k: "keeps f1 f2" "onward f f2" using r1(1) r2(1) by (auto simp: onward_def intro: keeps_trans)
  define a where "a = (if ?first \<noteq> p_From p then r2 else r1)"
  define b where "b = (if ?first \<noteq> p_From p then r1 else r2)"
  have ab: "account_of (f_base f2) (p_From p) = Some a" "account_of (f_base f2) (p_To p) = Some b"
    and locks: "AccountRow (p_From p) \<in> set (f_locks f2)" "AccountRow (p_To p) \<in> set (f_locks f2)"
    using r1(2,4) r2(2,4) keeps_account_of [OF k(1)] keeps_locks [OF k(1)]
    by (auto simp: a_def b_def min_def max_def split: if_splits)
  have "(if ?first \<noteq> p_From p then (a2, a1) else (a1, a2)) = (scan_account a, scan_account b)"
    by (simp add: r1 r2 a_def b_def)
  with rest have "(if acc_Currency (scan_account a) \<noteq> acc_Currency (scan_account b)
      then throw (ServiceError ErrCurrencyMismatch)
      else post_or_replay (amid env others) p (scan_account a) (scan_account b)) f2 = (Inr r, f')"
    by (simp only: case_prod_conv)
  then have "between p a b f2"
    and go: "post_or_replay (amid env others) p (scan_account a) (scan_account b) f2 = (Inr r, f')"
    using ab by (auto simp: between_def throw_def scan_account_def split: if_splits)
  then have "transferred p r f' \<and> keeps f2 f'"
    using k(2) f(2) locks amount by (intro post_or_replay_flight [OF go]) (simp_all add: onward_def)
  with k(2) show ?thesis by (auto simp: onward_def intro: keeps_trans)
qed

end
