(* ===== verification/Landing.thy ===== *)
theory Landing
  imports Flights
begin

text \<open>
  From the closures to the commit: what a request's transaction is when it commits, and that the ledger
  with it is sound again.
\<close>

section \<open>The closures\<close>

lemma onward_account_of: "onward f g \<Longrightarrow> account_of (f_base g) = account_of (f_base f)"
  by (simp only: onward_def keeps_account_of)

lemma transfer_closure_flight:
  assumes run: "transfer_closure (amid env others) from to amount key f = (Inr r, f')" and f: "steady f"
  obtains a b f1 where "onward f f1" "account_of (f_base f1) from = Some a" "account_of (f_base f1) to = Some b"
    "a_type a = accountTypeUser" "a_type b = accountTypeUser"
    "transfer (amid env others) \<lparr>p_From = from, p_To = to, p_Amount = amount, p_Type = TxTypeTransfer,
       p_IdempotencyKey = key, p_ReversalOf = None\<rparr> f1 = (Inr r, f')"
proof -
  obtain fa f1 ta f2 where
    g: "amidst others (GetAccount env from) f = (Inr fa, f1)" "amidst others (GetAccount env to) f1 = (Inr ta, f2)" and
    rest: "(if acc_Type fa \<noteq> accountTypeUser \<or> acc_Type ta \<noteq> accountTypeUser
      then throw (ServiceError ErrSystemAccountNotAllowed)
      else transfer (amid env others) \<lparr>p_From = from, p_To = to, p_Amount = amount, p_Type = TxTypeTransfer,
        p_IdempotencyKey = key, p_ReversalOf = None\<rparr>) f2 = (Inr r, f')"
    using run unfolding transfer_closure_def amid_sel
    by (elim bindQ_InrE onErr_not_found_InrE) blast
  from g(1) f obtain a where a: "onward f f1" "account_of (f_base f1) from = Some a" "fa = scan_account a"
    by (rule GetAccount_flight)
  then have "steady f1" by (simp add: onward_def)
  with g(2) obtain b where b: "onward f1 f2" "account_of (f_base f2) to = Some b" "ta = scan_account b"
    by (rule GetAccount_flight)
  have "account_of (f_base f2) from = Some a" using a(2) onward_account_of [OF b(1)] by simp
  with rest a(3) b that [OF onward_trans [OF a(1) b(1)]] show thesis
    by (auto simp: throw_def scan_account_def split: if_splits)
qed

text \<open>A deposit and a withdrawal find their system account in the same way.\<close>

lemma system_account_flight:
  assumes run: "bindQ (onErr (amidst others (GetAccount env i)) (not_found_as e1)) (\<lambda>account.
       if acc_Type account \<noteq> accountTypeUser then throw e2
       else
       bindQ (onErr (amidst others (GetSystemAccountByCode env (code @ acc_Currency account)))
                (not_found_as e3)) (\<lambda>sysAccount.
       if acc_Type sysAccount \<noteq> accountTypeSystem then throw e4
       else if acc_ID account = acc_ID sysAccount then throw e5
       else K (acc_ID sysAccount))) f = (Inr r, f')"
    and f: "steady f"
  obtains a y f1 where "onward f f1" "account_of (f_base f1) i = Some a" "a_type a = accountTypeUser"
    "y \<in> set (accounts (f_base f1))" "a_code y = Some (code @ a_currency a)"
    "a_type y = accountTypeSystem" "a_id y \<noteq> i" "K (a_id y) f1 = (Inr r, f')"
proof -
  obtain da f1 where da: "amidst others (GetAccount env i) f = (Inr da, f1)" and
    rest: "(if acc_Type da \<noteq> accountTypeUser then throw e2
     else
     bindQ (onErr (amidst others (GetSystemAccountByCode env (code @ acc_Currency da)))
              (not_found_as e3)) (\<lambda>y.
     if acc_Type y \<noteq> accountTypeSystem then throw e4
     else if acc_ID da = acc_ID y then throw e5 else K (acc_ID y))) f1 = (Inr r, f')"
    using run by (elim bindQ_InrE onErr_not_found_InrE)
  from da f obtain a where a: "onward f f1" "account_of (f_base f1) i = Some a" "da = scan_account a"
    by (rule GetAccount_flight)
  from rest obtain ya f2 where user: "acc_Type da = accountTypeUser" and
    ya: "amidst others (GetSystemAccountByCode env (code @ acc_Currency da)) f1 = (Inr ya, f2)" and
    rest2: "(if acc_Type ya \<noteq> accountTypeSystem then throw e4
     else if acc_ID da = acc_ID ya then throw e5 else K (acc_ID ya)) f2 = (Inr r, f')"
    by (auto simp: throw_def split: if_splits elim!: bindQ_InrE onErr_not_found_InrE)
  have "steady f1" using a(1) by (simp add: onward_def)
  with ya obtain y where y: "onward f1 f2" "y \<in> set (accounts (f_base f2))" "ya = scan_account y"
    "a_code y = Some (code @ acc_Currency da)"
    by (rule GetSystemAccountByCode_flight)
  have "account_of (f_base f2) i = Some a" using a(2) onward_account_of [OF y(1)] by simp
  with rest2 user a(3) y(2-) that [OF onward_trans [OF a(1) y(1)]] show thesis
    by (auto simp: throw_def scan_account_def dest: account_of_SomeD split: if_splits)
qed

section \<open>What commits\<close>

fun finishing :: "request \<Rightarrow> (int64 \<times> string) list \<Rightarrow> bool" where
  "finishing (Reverse_req txid key) ms \<longleftrightarrow> (\<exists>n. ms = replicate (Suc n) (txid, txStatusReversed))"
| "finishing (Transfer_req from to amount key) ms \<longleftrightarrow> ms = []"
| "finishing (Deposit_req dest amount source key) ms \<longleftrightarrow> ms = []"
| "finishing (Withdraw_req source amount dest key) ms \<longleftrightarrow> ms = []"

text \<open>
  A request's transaction at its commit: it stands for a transfer in the ledger as it is committed by
  then, and has replayed it or written its rows.
\<close>

definition landed :: "request \<Rightarrow> transfer_params \<Rightarrow> result_t \<Rightarrow> flight \<Rightarrow> bool" where
  "landed req p r f \<longleftrightarrow>
     steady f \<and> stands_for req (f_base f) p \<and> finishing req (w_marks (f_own f)) \<and>
     (\<forall>m \<in> set (w_marks (f_own f)). TxRow (fst m) \<in> set (f_locks f)) \<and>
     (f_own f = no_writes\<lparr>w_marks := w_marks (f_own f)\<rparr> \<and> replayed_from p r f \<or>
      (\<exists>t. posting_in_flight p t f \<and> r = newResult (scan_transaction t)))"

lemma stands_for_accounts:
  "accounts d' = accounts d \<Longrightarrow> \<not> is_reversal req \<Longrightarrow> stands_for req d' p = stands_for req d p"
  by (cases req) (simp_all add: account_of_def)

text \<open>Nothing of it changes while the last commits of others come in.\<close>

lemma transferred_onward:
  assumes "transferred p r f" "onward f g"
  shows "transferred p r g"
proof -
  have k: "keeps f g" "steady g" "f_own g = f_own f" using assms(2) by (simp_all add: onward_def)
  have "posting_in_flight p t g" if "posting_in_flight p t f" for t
    using that k(1,2) by (rule keeps_posting) (simp_all add: k(3))
  with assms(1) k show ?thesis
    by (auto simp: transferred_def intro: keeps_replayed_from keeps_locks)
qed

lemma landed_plain:
  assumes "\<not> is_reversal req" "stands_for req (f_base f1) p" "keeps f1 f" "transferred p r f"
  shows "landed req p r f"
proof -
  have "accounts (f_base f) = accounts (f_base f1)" using assms(3) by (simp add: keeps_def)
  with assms(1,2) have "stands_for req (f_base f) p" using stands_for_accounts by blast
  moreover have "finishing req (w_marks (f_own f))" using assms(1,4) by (cases req) (simp_all add: transferred_def)
  ultimately show ?thesis using assms(4) by (auto simp: landed_def transferred_def no_writes_def)
qed

text \<open>Each request, up to any moment after its closure has returned.\<close>

lemma plain_landed:
  assumes go: "transfer (amid env others) p f1 = (Inr r, f')" and f1: "onward f f1" "f_own f = no_writes"
    and g: "steady f' \<longrightarrow> onward f' g" and p: "\<not> is_reversal req" "stands_for req (f_base f1) p"
    and amount: "in_int64 (p_Amount p)" "p_From p \<noteq> p_To p"
  shows "landed req p r g"
proof -
  have tr: "transferred p r f'" "keeps f1 f'"
    using transfer_flight [OF go] f1 amount by (simp_all add: onward_def)
  then have g: "onward f' g" using g by (simp add: transferred_def)
  then have "keeps f1 g" using tr(2) by (auto simp: onward_def intro: keeps_trans)
  with transferred_onward [OF tr(1) g] show ?thesis using p by (intro landed_plain) simp_all
qed

lemma Transfer_landed:
  assumes "transfer_closure (amid env others) from to amount key f = (Inr r, f')" "steady f" "f_own f = no_writes"
    and "steady f' \<longrightarrow> onward f' g" "0 < amount" "from \<noteq> to" "in_int64 amount"
  shows "\<exists>p. landed (Transfer_req from to amount key) p r g"
  using assms(1,2)
proof (rule transfer_closure_flight)
  fix a b :: account_row and f1
  let ?p = "\<lparr>p_From = from, p_To = to, p_Amount = amount, p_Type = TxTypeTransfer,
       p_IdempotencyKey = key, p_ReversalOf = None\<rparr>"
  assume f1: "onward f f1" and go: "transfer (amid env others) ?p f1 = (Inr r, f')"
    and "account_of (f_base f1) from = Some a" "account_of (f_base f1) to = Some b"
    "a_type a = accountTypeUser" "a_type b = accountTypeUser"
  then have "landed (Transfer_req from to amount key) ?p r g"
    using assms by (intro plain_landed [OF go f1 assms(3,4)]) simp_all
  then show ?thesis ..
qed

lemma Deposit_landed:
  assumes "deposit_closure (amid env others) dest amount source key f = (Inr r, f')" "steady f" "f_own f = no_writes"
    and "steady f' \<longrightarrow> onward f' g" "0 < amount" "in_int64 amount"
  shows "\<exists>p. landed (Deposit_req dest amount source key) p r g"
  using assms(1) unfolding deposit_closure_def amid_sel append_assoc [symmetric]
proof (rule system_account_flight [OF _ assms(2)])
  fix a y :: account_row and f1
  let ?p = "\<lparr>p_From = a_id y, p_To = dest, p_Amount = amount, p_Type = TxTypeDeposit,
       p_IdempotencyKey = key, p_ReversalOf = None\<rparr>"
  assume f1: "onward f f1" and go: "transfer (amid env others) ?p f1 = (Inr r, f')"
    and "account_of (f_base f1) dest = Some a" "a_type a = accountTypeUser" "y \<in> set (accounts (f_base f1))"
    "a_code y = Some ((source @ ''_IN_'') @ a_currency a)" "a_type y = accountTypeSystem" "a_id y \<noteq> dest"
  then have "landed (Deposit_req dest amount source key) ?p r g"
    using assms by (intro plain_landed [OF go f1 assms(3,4)]) auto
  then show ?thesis ..
qed

lemma Withdraw_landed:
  assumes "withdraw_closure (amid env others) source amount dest key f = (Inr r, f')" "steady f" "f_own f = no_writes"
    and "steady f' \<longrightarrow> onward f' g" "0 < amount" "in_int64 amount"
  shows "\<exists>p. landed (Withdraw_req source amount dest key) p r g"
  using assms(1) unfolding withdraw_closure_def amid_sel append_assoc [symmetric]
proof (rule system_account_flight [OF _ assms(2)])
  fix a y :: account_row and f1
  let ?p = "\<lparr>p_From = source, p_To = a_id y, p_Amount = amount, p_Type = TxTypeWithdrawal,
       p_IdempotencyKey = key, p_ReversalOf = None\<rparr>"
  assume f1: "onward f f1" and go: "transfer (amid env others) ?p f1 = (Inr r, f')"
    and "account_of (f_base f1) source = Some a" "a_type a = accountTypeUser" "y \<in> set (accounts (f_base f1))"
    "a_code y = Some ((dest @ ''_OUT_'') @ a_currency a)" "a_type y = accountTypeSystem" "a_id y \<noteq> source"
  then have "landed (Withdraw_req source amount dest key) ?p r g"
    using assms by (intro plain_landed [OF go f1 assms(3,4)]) auto
  then show ?thesis ..
qed

lemma Reverse_landed:
  assumes run: "reverse_closure (amid env others) txid key f = ((res, None), f')" and f: "steady f" "f_own f = no_writes"
    and g: "steady f' \<longrightarrow> onward f' g"
  shows "\<exists>p r. res = Some r \<and> landed (Reverse_req txid key) p r g"
proof -
  obtain r f2 u where
    go: "bindQ (reversible (amid env others) txid) (\<lambda>tx. transfer (amid env others) (reversal_params tx key)) f = (Inr r, f2)"
    and upd: "amidst others (UpdateTransactionStatus env txid txStatusReversed) f2 = (Inr u, f')" and res: "res = Some r"
    using run by (auto simp: reverse_closure_def split: sum.splits prod.splits)
  from go obtain tx f1 where rv: "reversible (amid env others) txid f = (Inr tx, f1)"
    and tr: "transfer (amid env others) (reversal_params tx key) f1 = (Inr r, f2)" by (rule bindQ_InrE)
  obtain tx' f1' where get: "amidst others (GetTransactionByID env txid) f = (Inr tx', f1')"
    and rest: "(if tx_Status tx' \<noteq> txStatusCompleted then throw (ServiceError ErrReverseIncompletedTx)
      else if tx_Type tx' = TxTypeReversal then throw (ServiceError ErrReverseReversalTx) else ret tx') f1' = (Inr tx, f1)"
    using rv unfolding reversible_def amid_sel by (elim bindQ_InrE onErr_not_found_InrE) blast
  from rest have eq: "tx' = tx" "f1' = f1" and ok: "tx_Status tx = txStatusCompleted" "tx_Type tx \<noteq> TxTypeReversal"
    by (auto simp: throw_def ret_def split: if_splits)
  from get f(1) obtain x where x: "onward f f1" "transaction_of (view f1) txid = Some x" "tx = scan_transaction x"
    "TxRow txid \<in> set (f_locks f1)"
    unfolding eq by (rule GetTransactionByID_flight)
  have 1: "steady f1" "f_own f1 = no_writes" using x(1) f(2) by (simp_all add: onward_def)
  then have row: "transaction_of (f_base f1) txid = Some x" using x(2) by (simp add: view_no_writes)
  let ?p = "reversal_params tx key"
  have "tx_ok (f_base f1) x" using 1(1) transaction_of_SomeD [OF row] by (simp add: steady_def sound_def)
  then have amount: "in_int64 (p_Amount ?p)" "p_From ?p \<noteq> p_To ?p"
    by (auto simp: tx_ok_def reversal_params_def x(3) scan_transaction_def)
  have 2: "transferred ?p r f2" "keeps f1 f2" using transfer_flight [OF tr 1 amount] by simp_all
  then have st2: "steady f2" by (simp add: transferred_def)
  have "txStatusReversed \<noteq> ''completed''" by (simp add: txStatusReversed_def)
  with upd st2 obtain n where 3: "keeps f2 f'" "steady f'"
    "f_own f' = (f_own f2)\<lparr>w_marks := w_marks (f_own f2) @ replicate (Suc n) (txid, txStatusReversed)\<rparr>"
    by (rule UpdateTransactionStatus_flight)
  have k: "keeps f1 g" "keeps f2 g" "steady g" "f_own g = f_own f'"
    using 2(2) 3(1,2) g by (auto simp: onward_def intro: keeps_trans)
  have own: "f_own g = (f_own f2)\<lparr>w_marks := replicate (Suc n) (txid, txStatusReversed)\<rparr>"
    using 2(1) by (simp add: k(4) 3(3) transferred_def)
  have "transaction_of (f_base g) txid = Some x" using k(1) x(4) row by (simp add: keeps_def)
  then have "stands_for (Reverse_req txid key) (f_base g) ?p"
    using ok by (auto simp: x(3) scan_transaction_def)
  moreover have "posting_in_flight ?p t g" if "posting_in_flight ?p t f2" for t
    using that k(2,3) by (rule keeps_posting) (simp_all add: own)
  moreover have "replayed_from ?p r g" if "replayed_from ?p r f2" "IdempotencyKey (p_IdempotencyKey ?p) \<in> set (f_locks f2)"
    using that(1) k(2) that(2) by (rule keeps_replayed_from)
  moreover have "\<forall>m \<in> set (w_marks (f_own g)). TxRow (fst m) \<in> set (f_locks g)"
    using keeps_locks [OF k(1) x(4)] by (auto simp: own in_set_replicate simp del: replicate_Suc)
  moreover have "finishing (Reverse_req txid key) (w_marks (f_own g))"
    unfolding own finishing.simps by (intro exI [of _ n]) simp
  ultimately have "landed (Reverse_req txid key) ?p r g"
    using 2(1) k(3) unfolding landed_def transferred_def by (auto simp: own)
  with res show ?thesis by blast
qed

lemma fly_landed:
  assumes run: "fly env others req d = ((res, None), f)" and d: "sound d" "ids_drawn d"
    and req: "typed req" "begins_transaction req"
  shows "\<exists>p r. res = Some r \<and> landed req p r f"
proof -
  let ?f = "taking_off d"
  have f0: "steady ?f" "f_own ?f = no_writes"
    using d by (simp_all add: taking_off_def steady_def fresh_for_def no_writes_def)
  obtain f' where cl: "closure_of (amid env others) req ?f = ((res, None), f')"
    and fin: "f = overheard (others (f_stmts f')) f'"
    using run by (auto simp: fly_def split: prod.splits)
  have upto: "steady f' \<longrightarrow> onward f' f" by (simp add: fin onward_overheard)
  show ?thesis
  proof (cases req)
    case (Transfer_req a b amount key)
    with cl obtain r where "res = Some r" "transfer_closure (amid env others) a b amount key ?f = (Inr r, f')"
      by (auto dest: capture_NoneD)
    with f0 upto req show ?thesis unfolding Transfer_req by (auto intro: Transfer_landed)
  next
    case (Deposit_req dest amount source key)
    with cl obtain r where "res = Some r" "deposit_closure (amid env others) dest amount source key ?f = (Inr r, f')"
      by (auto dest: capture_NoneD)
    with f0 upto req show ?thesis unfolding Deposit_req by (auto intro: Deposit_landed)
  next
    case (Withdraw_req source amount dest key)
    with cl obtain r where "res = Some r" "withdraw_closure (amid env others) source amount dest key ?f = (Inr r, f')"
      by (auto dest: capture_NoneD)
    with f0 upto req show ?thesis unfolding Withdraw_req by (auto intro: Withdraw_landed)
  next
    case (Reverse_req txid key)
    with cl have rv: "reverse_closure (amid env others) txid key ?f = ((res, None), f')" by simp
    show ?thesis unfolding Reverse_req by (rule Reverse_landed [OF rv f0 upto])
  qed
qed

end
