(* ===== verification/Sound_Commits.thy ===== *)
theory Sound_Commits
  imports Landing
begin

text \<open>
  The commit of a transaction in flight leaves a sound ledger, and to a client it is a stutter of the
  abstract ledger or one posting, at the moment of the commit.
\<close>

section \<open>Marks alone\<close>

text \<open>What is sound about the rows, whatever is marked as reversed.\<close>

definition sound_rows :: "db \<Rightarrow> bool" where
  "sound_rows d \<longleftrightarrow>
     paired d \<and> commit_ordered d \<and>
     distinct (map t_id (transactions d)) \<and> distinct (map l_id (ledger_entries d)) \<and>
     distinct (map o_id (outbox d)) \<and> distinct (map a_id (accounts d)) \<and>
     keys_ok d \<and> (\<forall>t \<in> set (transactions d). tx_ok d t) \<and> reversal_links d"

lemma sound_split: "sound d \<longleftrightarrow> sound_rows d \<and> reversal_marks d"
  by (auto simp: sound_def sound_rows_def)

definition only_marks :: "writes \<Rightarrow> writes" where
  "only_marks w = no_writes\<lparr>w_marks := w_marks w, w_published := w_published w\<rparr>"

definition without_marks :: "writes \<Rightarrow> writes" where
  "without_marks w = w\<lparr>w_marks := [], w_published := []\<rparr>"

lemma without_marks_sel [simp]:
  "w_transactions (without_marks w) = w_transactions w" "w_entries (without_marks w) = w_entries w"
  "w_outbox (without_marks w) = w_outbox w"
  by (simp_all add: without_marks_def)

lemma apply_without_marks:
  "apply_writes (without_marks w) d =
     d\<lparr>transactions := transactions d @ w_transactions w, ledger_entries := ledger_entries d @ w_entries w,
       outbox := outbox d @ w_outbox w\<rparr>"
  by (simp add: apply_writes_def without_marks_def id_def)

lemma apply_split: "apply_writes w d = apply_writes (only_marks w) (apply_writes (without_marks w) d)"
  unfolding apply_without_marks by (simp add: apply_writes_def only_marks_def no_writes_def)

lemma apply_only_marks:
  "apply_writes (only_marks w) d =
     d\<lparr>transactions := map (fold mark (w_marks w)) (transactions d),
       outbox := map (fold stamp (w_published w)) (outbox d)\<rparr>"
  by (simp add: apply_writes_def only_marks_def no_writes_def)

lemma only_marks_sel [simp]:
  "w_transactions (only_marks w) = []" "w_entries (only_marks w) = []" "w_outbox (only_marks w) = []"
  "w_marks (only_marks w) = w_marks w" "w_published (only_marks w) = w_published w"
  by (simp_all add: only_marks_def no_writes_def)

lemma tx_postings_mark [simp]: "tx_postings (fold mark ms t) = tx_postings t"
  by (simp add: tx_postings_def)

lemma reverses_mark [simp]: "reverses (fold mark ms r) (fold mark ms' t) = reverses r t"
  by (simp add: reverses_def)

lemma key_args_mark [simp]: "key_args (fold mark ms t) = key_args t"
  by (simp add: key_args_def)

definition marks_reversed :: "(int64 \<times> string) list \<Rightarrow> bool" where
  "marks_reversed ms \<longleftrightarrow> (\<forall>m \<in> set ms. snd m = txStatusReversed)"

lemma fold_mark_status:
  "marks_reversed ms \<Longrightarrow> t_status (fold mark ms t) = (if t_id t \<in> fst ` set ms then txStatusReversed else t_status t)"
  by (induction ms arbitrary: t) (auto simp: marks_reversed_def mark_def)

lemma mapped_ids [simp]:
  "map t_id (map (fold mark ms) ts) = map t_id ts"
  "map t_idempotency_key (map (fold mark ms) ts) = map t_idempotency_key ts"
  "map t_reversal_of (map (fold mark ms) ts) = map t_reversal_of ts"
  "map o_id (map (fold stamp ps) rs) = map o_id rs"
  by simp_all

lemma sound_rows_marked:
  assumes d: "sound_rows d" and ms: "marks_reversed (w_marks w)"
  shows "sound_rows (apply_writes (only_marks w) d)"
proof -
  let ?v = "apply_writes (only_marks w) d" and ?m = "fold mark (w_marks w)"
  have txs: "transactions ?v = map ?m (transactions d)" and es: "ledger_entries ?v = ledger_entries d"
    and os: "outbox ?v = map (fold stamp (w_published w)) (outbox d)"
    by (simp_all add: apply_only_marks)
  have "paired ?v" using d by (simp add: sound_rows_def paired_def txs es image_image)
  moreover have "commit_ordered ?v"
  proof -
    have "event_ids_of ?v k = event_ids_of d k" for k
      by (simp add: event_ids_apply only_marks_def no_writes_def)
    moreover have "entry_ids_of ?v i = entry_ids_of d i" for i by (simp add: entry_ids_of_def es)
    ultimately show ?thesis using d by (simp add: sound_rows_def commit_ordered_def es os image_image)
  qed
  moreover have "tx_ok ?v (?m t)" if "t \<in> set (transactions d)" for t
    using d that fold_mark_status [OF ms, of t] by (auto simp: sound_rows_def tx_ok_def)
  moreover have "reversal_links ?v"
    using d unfolding sound_rows_def reversal_links_def txs mapped_ids by auto
  moreover have "distinct (map t_id (transactions ?v))" "distinct (map o_id (outbox ?v))" "keys_ok ?v"
    using d unfolding sound_rows_def keys_ok_def txs os mapped_ids by blast+
  ultimately show ?thesis using d by (auto simp: sound_rows_def txs es)
qed

section \<open>A posting\<close>

lemma filter_new_entries:
  assumes "map posting_of es = tx_postings t"
  shows "filter (\<lambda>l. l_transaction_id l = i) es = (if i = t_id t then es else [])"
proof -
  have "l_transaction_id l = t_id t" if "l \<in> set es" for l
  proof -
    have "posting_of l \<in> set (tx_postings t)" using that assms by (metis image_eqI set_map)
    then show ?thesis by (auto simp: tx_postings_def posting_of_def)
  qed
  then show ?thesis by (auto simp: filter_empty_conv filter_id_conv)
qed

lemma paired_append:
  assumes d: "paired d" and t: "t_id t \<notin> t_id ` set (transactions d)" "map posting_of es = tx_postings t"
    and v: "transactions v = transactions d @ [t]" "ledger_entries v = ledger_entries d @ es"
  shows "paired v"
proof -
  have old: "filter (\<lambda>l. l_transaction_id l = t_id t) (ledger_entries d) = []"
    using d t(1) unfolding paired_def filter_empty_conv by metis
  have own: "l_transaction_id l = t_id t" if "l \<in> set es" for l
    using that filter_new_entries [OF t(2), of "l_transaction_id l"] by (auto simp: filter_empty_conv split: if_splits)
  have "map posting_of (filter (\<lambda>l. l_transaction_id l = t_id x) (ledger_entries d @ es)) = tx_postings x"
    if "x \<in> set (transactions d)" for x
    using d t that by (auto simp: paired_def filter_new_entries) (metis image_eqI)+
  then show ?thesis
    using d old own t(2) by (auto simp: paired_def v filter_new_entries)
qed

lemma reversal_links_append:
  assumes d: "reversal_links d"
    and t: "t_reversal_of t = None \<or> (\<exists>x \<in> set (transactions d). reverses t x)"
      "\<And>i. t_reversal_of t = Some i \<Longrightarrow> i \<notin> reversed_ids d"
    and v: "transactions v = transactions d @ [t]"
  shows "reversal_links v"
proof -
  have "t_reversal_of x \<noteq> t_reversal_of t" if "t_reversal_of t \<noteq> None" "x \<in> set (transactions d)" for x
  proof
    assume "t_reversal_of x = t_reversal_of t"
    with that t(2) show False by (cases "t_reversal_of t") (force simp: reversed_ids_def image_iff)+
  qed
  then have "t_reversal_of t \<noteq> None \<Longrightarrow> t_reversal_of t \<notin> set (filter (\<lambda>x. x \<noteq> None) (map t_reversal_of (transactions d)))"
    by fastforce
  with d t(1) show ?thesis unfolding reversal_links_def v by (cases "t_reversal_of t") auto
qed

lemma reversed_among_committed:
  assumes "reversal_links d" "r \<in> set (transactions d)" "t_reversal_of r = Some i"
  shows "i \<in> t_id ` set (transactions d)"
proof -
  obtain t where "t \<in> set (transactions d)" "reverses r t"
    using assms by (fastforce simp: reversal_links_def)
  with assms(3) show ?thesis by (auto simp: reverses_def)
qed

lemma reversal_marks_posted:
  assumes d: "reversal_links d" "reversal_marks d" and ms: "marks_reversed ms"
    and t: "t_id t \<notin> t_id ` set (transactions d)" "\<And>i. t_reversal_of t = Some i \<Longrightarrow> i \<in> fst ` set ms"
      "t_reversal_of t = None \<or> (\<exists>x \<in> set (transactions d). reverses t x)"
    and v: "transactions v = map (fold mark ms) (transactions d @ [t])"
  shows "reversal_marks v"
  unfolding reversal_marks_def
proof (intro ballI impI)
  fix r' x'
  assume "r' \<in> set (transactions v)" "x' \<in> set (transactions v)" and link: "t_reversal_of r' = Some (t_id x')"
  then obtain r x where rx: "r' = fold mark ms r" "x' = fold mark ms x"
    "r = t \<or> r \<in> set (transactions d)" "x = t \<or> x \<in> set (transactions d)"
    by (auto simp: v)
  with link have link: "t_reversal_of r = Some (t_id x)" by simp
  show "t_status x' = txStatusReversed"
  proof (cases "r = t")
    case True
    with t(2) link have "t_id x \<in> fst ` set ms" by blast
    then show ?thesis by (simp add: rx(2) fold_mark_status [OF ms])
  next
    case False
    then have r: "r \<in> set (transactions d)" using rx(3) by blast
    with link d(1) have "t_id x \<in> t_id ` set (transactions d)" by (blast intro: reversed_among_committed)
    with t(1) rx(4) have "x \<in> set (transactions d)" by auto
    with d(2) r link have "t_status x = txStatusReversed" by (auto simp: reversal_marks_def)
    then show ?thesis by (simp add: rx(2) fold_mark_status [OF ms])
  qed
qed

text \<open>The order of the commits on each account.\<close>

lemma filter_distinct_single:
  assumes "distinct (map k xs)"
  shows "filter (\<lambda>x. k x = i) xs = [] \<or> (\<exists>x \<in> set xs. k x = i \<and> filter (\<lambda>x. k x = i) xs = [x])"
  using assms
proof (induction xs)
  case (Cons x xs)
  show ?case
  proof (cases "k x = i")
    case True
    with Cons.prems have "filter (\<lambda>y. k y = i) xs = []" by (auto simp: filter_empty_conv) (metis image_eqI)
    with True show ?thesis by simp
  qed (use Cons in auto)
qed simp

lemma commit_orderedD:
  assumes "commit_ordered d"
  shows "sorted_wrt (<) (entry_ids_of d i)" "sorted_wrt (<) (event_ids_of d k)"
proof -
  have "entry_ids_of d i = []" if "i \<notin> l_account_id ` set (ledger_entries d)"
    using that by (auto simp: entry_ids_of_def filter_empty_conv)
  with assms show "sorted_wrt (<) (entry_ids_of d i)"
    by (cases "i \<in> l_account_id ` set (ledger_entries d)") (auto simp: commit_ordered_def)
  have "event_ids_of d k = []" if "k \<notin> o_partition_key ` set (outbox d)"
    using that by (auto simp: event_ids_of_def filter_empty_conv)
  with assms show "sorted_wrt (<) (event_ids_of d k)"
    by (cases "k \<in> o_partition_key ` set (outbox d)") (auto simp: commit_ordered_def)
qed

lemma commit_ordered_view:
  assumes d: "commit_ordered (f_base f)" and l: "in_line f"
    and one: "distinct (map l_account_id (w_entries (f_own f)))" "distinct (map o_partition_key (w_outbox (f_own f)))"
  shows "commit_ordered (view f)"
proof -
  let ?d = "f_base f" and ?w = "f_own f"
  note e = commit_orderedD(1) [OF d] and o' = commit_orderedD(2) [OF d]
  have "sorted_wrt (<) (entry_ids_of (view f) i)" for i
    using e [of i] filter_distinct_single [OF one(1), of i] l
    by (auto simp: view_def entry_ids_apply sorted_wrt_append in_line_def)
  moreover have "sorted_wrt (<) (event_ids_of (view f) k)" for k
    using filter_distinct_single [OF one(2), of k]
  proof (elim disjE bexE conjE)
    fix r
    assume r: "r \<in> set (w_outbox ?w)" "o_partition_key r = k" "filter (\<lambda>r. o_partition_key r = k) (w_outbox ?w) = [r]"
    then obtain i where "k = FormatInt i" "\<forall>j \<in> set (event_ids_of ?d (FormatInt i)). j < o_id r"
      using l by (auto simp: in_line_def)
    with r o' [of k] show ?thesis by (simp add: view_def event_ids_apply sorted_wrt_append)
  qed (use o' [of k] in \<open>simp add: view_def event_ids_apply\<close>)
  ultimately show ?thesis by (simp add: commit_ordered_def)
qed

section \<open>What landed is sound\<close>

lemma landed_marks:
  assumes "landed req p r f"
  shows "marks_reversed (w_marks (f_own f))"
  using assms by (cases req) (auto simp: landed_def marks_reversed_def in_set_replicate simp del: replicate_Suc)

lemma landed_well_formed:
  assumes "landed req p r f" "typed req"
  shows "well_formed (f_base f) p"
proof -
  have "\<forall>t \<in> set (transactions (f_base f)). tx_ok (f_base f) t"
    using assms(1) by (simp add: landed_def steady_def sound_def)
  moreover have "stands_for req (f_base f) p" using assms(1) unfolding landed_def by blast
  ultimately show ?thesis using assms(2) by (intro stands_for_well_formed_ok)
qed

lemma stands_for_reversal:
  "stands_for req d p \<Longrightarrow> p_ReversalOf p = Some i \<Longrightarrow> \<exists>key. req = Reverse_req i key"
  by (cases req; cases p) (auto simp: reversal_params_def scan_transaction_def dest: transaction_of_SomeD)

lemma landed_target:
  assumes "landed req p r f" "p_ReversalOf p = Some i"
  shows "i \<in> fst ` set (w_marks (f_own f))"
proof -
  obtain key where req: "req = Reverse_req i key"
    using assms stands_for_reversal unfolding landed_def by blast
  then have "finishing (Reverse_req i key) (w_marks (f_own f))" using assms(1) unfolding landed_def by blast
  then show ?thesis by auto
qed

lemma landed_sound_rows:
  assumes f: "landed req p r f" and ty: "typed req" and post: "posting_in_flight p t f"
  shows "sound_rows (apply_writes (without_marks (f_own f)) (f_base f)) \<and> reversal_marks (view f)"
proof -
  let ?d = "f_base f" and ?w = "f_own f" let ?v = "apply_writes (without_marks ?w) ?d"
  have cl: "claimed p t f" and il: "in_line f" and es: "map posting_of (w_entries ?w) = tx_postings t"
    and one: "distinct (map l_account_id (w_entries ?w))" "distinct (map o_partition_key (w_outbox ?w))"
    using post by (simp_all add: posting_in_flight_def)
  obtain a b where ab: "account_of ?d (p_From p) = Some a" "account_of ?d (p_To p) = Some b" "a_currency a = a_currency b"
    using post by (auto simp: posting_in_flight_def between_def)
  have st: "sound_rows ?d" "reversal_marks ?d" "fresh_for ?w ?d"
    using f by (simp_all add: landed_def steady_def sound_split)
  have wf: "well_formed ?d p" using f ty by (rule landed_well_formed)
  have t: "w_transactions ?w = [t]" "t_id t \<notin> t_id ` set (transactions ?d)"
    using cl st(3) by (auto simp: claimed_def fresh_for_def)
  have v: "transactions ?v = transactions ?d @ [t]" "ledger_entries ?v = ledger_entries ?d @ w_entries ?w"
    "outbox ?v = outbox ?d @ w_outbox ?w" "accounts ?v = accounts ?d"
    by (simp_all add: apply_without_marks t(1))
  have rev: "t_reversal_of t = None \<or> (\<exists>x \<in> set (transactions ?d). reverses t x)"
    using wf cl by (auto simp: well_formed_def claimed_def reverses_def)
  have rev': "i \<notin> reversed_ids ?d" if "t_reversal_of t = Some i" for i
    using cl that by (simp add: claimed_def)
  have "paired ?v" by (rule paired_append [of ?d t "w_entries ?w"]) (use st(1) t(2) es v(1,2) in \<open>simp_all add: sound_rows_def\<close>)
  moreover have "commit_ordered ?v"
  proof -
    have "commit_ordered (view (f\<lparr>f_own := without_marks ?w\<rparr>))"
      by (rule commit_ordered_view) (use st(1) il one in \<open>simp_all add: sound_rows_def in_line_def without_marks_def\<close>)
    then show ?thesis by (simp add: view_def)
  qed
  moreover have "distinct (map t_id (transactions ?v))" "distinct (map l_id (ledger_entries ?v))" "distinct (map o_id (outbox ?v))"
    using st t il by (auto simp: v sound_rows_def in_line_def fresh_for_def)
  moreover have "keys_ok ?v"
    using st(1) cl keyed_NoneD [of ?d "p_IdempotencyKey p"] by (auto simp: sound_rows_def keys_ok_def v(1) claimed_def)
  moreover have "tx_ok ?v x" if "x \<in> set (transactions ?v)" for x
  proof -
    have "tx_ok ?v t" using cl ab wf by (simp add: tx_ok_def claimed_def well_formed_def)
    with that st(1) show ?thesis by (auto simp: v(1) sound_rows_def tx_ok_def)
  qed
  moreover have "reversal_links ?v"
    by (rule reversal_links_append [of ?d t]) (use st(1) rev rev' v(1) in \<open>simp_all add: sound_rows_def\<close>)
  moreover have "reversal_marks (view f)"
  proof (rule reversal_marks_posted [of ?d "w_marks ?w" t])
    show "i \<in> fst ` set (w_marks ?w)" if "t_reversal_of t = Some i" for i
      using landed_target [OF f] cl that by (simp add: claimed_def)
  qed (use st landed_marks [OF f] t rev in \<open>simp_all add: sound_rows_def view_def apply_writes_def\<close>)
  ultimately show ?thesis using st(1) by (simp add: sound_rows_def v(4))
qed

lemma marks_alone_keep_reversals:
  assumes "reversal_marks d" "marks_reversed (w_marks w)"
  shows "reversal_marks (apply_writes (only_marks w) d)"
  using assms fold_mark_status [OF assms(2)] by (auto simp: reversal_marks_def apply_only_marks)

lemma landed_sound:
  assumes f: "landed req p r f" and ty: "typed req"
  shows "sound (view f)"
proof -
  have d: "sound (f_base f)" using f by (simp add: landed_def steady_def)
  consider "f_own f = no_writes\<lparr>w_marks := w_marks (f_own f)\<rparr>" | t where "posting_in_flight p t f"
    using f by (auto simp: landed_def)
  then show ?thesis
  proof cases
    case 1
    then have "only_marks (f_own f) = f_own f" by (simp add: only_marks_def no_writes_def)
    with d landed_marks [OF f] show ?thesis
      using sound_rows_marked [of "f_base f" "f_own f"] marks_alone_keep_reversals [of "f_base f" "f_own f"]
      by (simp add: sound_split view_def)
  next
    case (2 t)
    from landed_sound_rows [OF f ty this] landed_marks [OF f] show ?thesis
      by (simp add: sound_split view_def apply_split [of "f_own f"] sound_rows_marked)
  qed
qed

section \<open>To a client\<close>

text \<open>The commit is a stutter or one posting under a key that nobody has used by then.\<close>

lemma landed_balance:
  assumes f: "landed req p r f" and ty: "typed req" and post: "posting_in_flight p t f"
  shows "balance_of (view f) = moved p (balance_of (f_base f))"
proof
  fix i
  have "p_From p \<noteq> p_To p" using landed_well_formed [OF f ty] by (simp add: well_formed_def)
  moreover have "t_source_id t = p_From p" "t_destination_id t = p_To p" "t_amount t = p_Amount p"
    and es: "map posting_of (w_entries (f_own f)) = tx_postings t"
    using post by (simp_all add: posting_in_flight_def claimed_def)
  moreover have "balance_of (view f) i = balance_of (f_base f) i + posting_sum i (map posting_of (w_entries (f_own f)))"
    by (simp add: balance_of_postings)
  ultimately show "balance_of (view f) i = moved p (balance_of (f_base f)) i"
    by (simp add: es net_effect_def moved_def)
qed

lemma landed_keys:
  assumes "posting_in_flight p t f"
  shows "map_option key_args (keyed (view f) k) =
    (if k = p_IdempotencyKey p then Some (p_From p, p_To p, p_Amount p)
     else map_option key_args (keyed (f_base f) k))"
proof -
  have t: "w_transactions (f_own f) = [t]" "t_idempotency_key t = p_IdempotencyKey p"
    "key_args t = (p_From p, p_To p, p_Amount p)" "keyed (f_base f) (p_IdempotencyKey p) = None"
    using assms by (simp_all add: posting_in_flight_def claimed_def key_args_def)
  have "map_option key_args (keyed (view f) k) =
      map_option key_args (find (\<lambda>t. t_idempotency_key t = k) (transactions (f_base f) @ [t]))"
    by (simp add: view_def keyed_apply option.map_comp comp_def t(1))
  with t(2-) show ?thesis by (auto simp: find_append keyed_def split: option.splits)
qed

text \<open>Without rows of its own a transaction changes nothing a client can see.\<close>

lemma rowless_view:
  assumes "w_entries (f_own f) = []" "w_transactions (f_own f) = []"
  shows "balance_of (view f) = balance_of (f_base f)" "abs_ledger (view f) = abs_ledger (f_base f)"
proof -
  show bal: "balance_of (view f) = balance_of (f_base f)"
    by (simp add: fun_eq_iff view_def balance_apply assms)
  have "map_option key_args (keyed (view f) k) = map_option key_args (keyed (f_base f) k)" for k
    unfolding view_def keyed_apply assms append_Nil2 by (simp add: keyed_def option.map_comp comp_def)
  then show "abs_ledger (view f) = abs_ledger (f_base f)" by (simp add: abs_ledger_def bal)
qed

lemma landed_cases:
  assumes "landed req p r f"
  obtains "w_entries (f_own f) = []" "w_transactions (f_own f) = []" "w_outbox (f_own f) = []" | t where "posting_in_flight p t f"
proof -
  consider "f_own f = no_writes\<lparr>w_marks := w_marks (f_own f)\<rparr>" | t where "posting_in_flight p t f"
    using assms by (auto simp: landed_def)
  then show thesis
  proof cases
    case 1
    show thesis by (rule that(1); subst 1; simp add: no_writes_def)
  qed (rule that(2))
qed

text \<open>
  It holds the locks \<^verbatim>\<open>FOR UPDATE\<close> of everything it has written, so whoever is compatible with it is
  compatible with its writes.
\<close>

lemma dominates_conflicts: "dominates h r \<Longrightarrow> conflicts r x \<Longrightarrow> conflicts h x"
  by (auto simp: dominates_def conflicts_def)

lemma landed_holds:
  assumes f: "landed req p r f" and r: "x \<in> set (touched (f_own f))"
  shows "\<exists>h \<in> set (f_locks f). dominates h x"
proof -
  have marks: "TxRow (fst m) \<in> set (f_locks f)" if "m \<in> set (w_marks (f_own f))" for m
    using f that by (simp add: landed_def)
  have marked: "\<exists>h \<in> set (f_locks f). dominates h (TxUpdate (fst m))" if "m \<in> set (w_marks (f_own f))" for m
    using marks [OF that] by (intro bexI [of _ "TxRow (fst m)"]) (simp_all add: dominates_def)
  show ?thesis
    using f
  proof (cases rule: landed_cases)
    case 1
    with r marked show ?thesis by (auto simp: touched_def)
  next
    case (2 t)
    then have t: "claimed p t f" "in_line f" by (simp_all add: posting_in_flight_def)
    have entry: "\<exists>h \<in> set (f_locks f). dominates h (AccountShare (l_account_id l))" if "l \<in> set (w_entries (f_own f))" for l
      using t(2) that
      by (intro bexI [of _ "AccountRow (l_account_id l)"]) (simp_all add: dominates_def in_line_def)
    have key: "x \<in> set (f_locks f)"
      if "x = IdempotencyKey (t_idempotency_key t) \<or> x \<in> set (reversal_key (t_reversal_of t))"
      using t(1) that by (auto simp: claimed_def)
    have "w_transactions (f_own f) = [t]" using t(1) by (simp add: claimed_def)
    with r consider l where "l \<in> set (w_entries (f_own f))" "x = AccountShare (l_account_id l)"
      | "x = IdempotencyKey (t_idempotency_key t) \<or> x \<in> set (reversal_key (t_reversal_of t))"
      | m where "m \<in> set (w_marks (f_own f))" "x = TxUpdate (fst m)"
      unfolding touched_def by auto
    then show ?thesis by cases (use entry key marked in \<open>blast intro: dominates_refl\<close>)+
  qed
qed

lemma landed_compatible:
  assumes "landed req p r g" "compatible (f_locks g) hs"
  shows "compatible (touched (f_own g)) hs"
  using assms landed_holds dominates_conflicts unfolding compatible_def list_ex_iff by meson

lemma landed_refines:
  assumes f: "landed req p r f" and ty: "typed req"
  shows "abs_ledger (view f) = abs_ledger (f_base f) \<or>
    sp_keys (abs_ledger (f_base f)) (p_IdempotencyKey p) = None \<and>
    abs_ledger (view f) = spec_post p (abs_ledger (f_base f))"
  using f
proof (cases rule: landed_cases)
  case 1
  then show ?thesis by (simp add: rowless_view)
next
  case (2 t)
  then have "sp_keys (abs_ledger (f_base f)) (p_IdempotencyKey p) = None"
    by (simp add: posting_in_flight_def claimed_def abs_ledger_def)
  with landed_balance [OF f ty 2] landed_keys [OF 2] show ?thesis
    by (simp add: abs_ledger_def spec_post_def fun_eq_iff)
qed

end
