(* ===== verification/Concurrency.thy ===== *)
theory Concurrency
  imports Sound_Commits Relay_Facts
begin

text \<open>
  Concurrent histories: the write sets of the transactions in the order of their commits, where each
  transaction ran while others committed. Also the relay's batches on transactions in flight.
\<close>

section \<open>A batch in flight\<close>

definition fly_batch ::
  "env \<Rightarrow> (nat \<Rightarrow> arrival list) \<Rightarrow> 'b publisher \<Rightarrow> int64 \<Rightarrow> 'b \<Rightarrow> relay_metrics \<Rightarrow> db \<Rightarrow>
   ('b batch_state option \<times> go_error option) \<times> flight" where
  "fly_batch env others publish batchSize b m d =
     (case batch_closure (amid env others) publish batchSize b m (taking_off d) of
        (out, f) \<Rightarrow> (out, overheard (others (f_stmts f)) f))"

lemma growing_TryLockOutbox: "growing (TryLockOutbox env)"
  unfolding TryLockOutbox_def by (rule query_growing)

lemma growing_GetUnpublishedOutboxEvents: "growing (GetUnpublishedOutboxEvents env n)"
  unfolding GetUnpublishedOutboxEvents_def by (rule query_growing)

lemma growing_MarkOutboxEventsPublished: "growing (MarkOutboxEventsPublished env ids)"
  unfolding MarkOutboxEventsPublished_def
  by (rule query_growing)

lemma MarkOutboxEventsPublished_flight [flight_elims]:
  assumes "amidst others (MarkOutboxEventsPublished env ids) f = (Inr u, f')" "steady f"
  obtains ps where "keeps f f'" "steady f'" "f_own f' = (f_own f)\<lparr>w_published := w_published (f_own f) @ ps\<rparr>"
proof -
  obtain g s where g: "onward f g" "MarkOutboxEventsPublished env ids (session_of g) = (Inr u, s)" "keeps f f'"
    "f_base f' = restore (f_base g) (s_db s)" "f_own f' = further_writes (view g) (s_db s) (f_own g)"
    and st: "fresh_for (f_own f') (f_base g) \<longrightarrow> steady f'"
    using assms growing_MarkOutboxEventsPublished seq_mono_MarkOutboxEventsPublished by (rule writing)
  have own: "f_own g = f_own f" and old: "steady g" using g(1) by (simp_all add: onward_def)
  from g(2) show thesis
  proof (rule MarkOutboxEventsPublished_InrE)
    assume d': "s_db s = (s_db (session_of g))\<lparr>outbox := map (mark_published (tx_now env) ids) (outbox (s_db (session_of g)))\<rparr>"
    let ?ps = "publications (outbox (view g)) (outbox (s_db s))"
    have own': "f_own f' = (f_own f)\<lparr>w_published := w_published (f_own f) @ ?ps\<rparr>"
      by (simp add: g(5) own further_writes_def d')
    have "steady f'" using old by (intro st [rule_format]) (auto simp: own' own steady_def fresh_for_def)
    then show thesis by (rule that [OF g(3) _ own'])
  qed
qed

text \<open>A batch that commits has only published.\<close>

definition only_published :: "writes \<Rightarrow> bool" where
  "only_published w \<longleftrightarrow> w = no_writes\<lparr>w_published := w_published w\<rparr>"

lemma batch_closure_flight:
  assumes run: "batch_closure (amid env others) publish n b m f = ((cap, None), f')"
    and f: "steady f" "f_own f = no_writes"
  shows "steady f' \<and> only_published (f_own f')"
proof -
  have idle: "only_published no_writes" by (simp add: only_published_def no_writes_def)
  obtain isOpen f1 where lock: "amidst others (TryLockOutbox env) f = (Inr isOpen, f1)"
    using run by (auto simp: batch_closure_def split: sum.splits prod.splits)
  obtain "onward f f1"
    using lock f(1) read_only_TryLockOutbox growing_TryLockOutbox by (rule reading)
  then have 1: "steady f1" "f_own f1 = no_writes" using f(2) by (simp_all add: onward_def)
  obtain events f2 where get: "amidst others (GetUnpublishedOutboxEvents env n) f1 = (Inr events, f2)"
    and rest: "(if events = [] then ((Some (0, b, m), None), f2)
      else publish_events (amid env others) publish events b m f2) = ((cap, None), f')"
    using run lock by (auto simp: batch_closure_def split: sum.splits prod.splits if_splits)
  obtain "onward f1 f2"
    using get 1(1) read_only_GetUnpublishedOutboxEvents growing_GetUnpublishedOutboxEvents by (rule reading)
  then have 2: "steady f2" "f_own f2 = no_writes" using 1(2) by (simp_all add: onward_def)
  show ?thesis
  proof (cases "events = []")
    case True
    with rest 2 idle show ?thesis by auto
  next
    case False
    with rest obtain ids where "amidst others (MarkOutboxEventsPublished env ids) f2 = (Inr (), f')"
      by (auto simp: publish_events_def Let_def split: prod.splits option.splits sum.splits)
    then obtain ps where "steady f'" "f_own f' = (f_own f2)\<lparr>w_published := w_published (f_own f2) @ ps\<rparr>"
      using 2(1) by (rule MarkOutboxEventsPublished_flight)
    then show ?thesis by (simp add: only_published_def 2(2) no_writes_def)
  qed
qed

lemma steady_taking_off: "sound d \<Longrightarrow> ids_drawn d \<Longrightarrow> steady (taking_off d)"
  by (simp add: taking_off_def steady_def fresh_for_def no_writes_def)

lemma fly_batch_published:
  assumes "fly_batch env others publish n b m d = ((cap, None), f)" "sound d" "ids_drawn d"
  shows "steady f \<and> only_published (f_own f)"
proof -
  obtain f' where f': "batch_closure (amid env others) publish n b m (taking_off d) = ((cap, None), f')"
    "f = overheard (others (f_stmts f')) f'"
    using assms(1) by (auto simp: fly_batch_def split: prod.splits)
  have "steady f' \<and> only_published (f_own f')"
    using f'(1) steady_taking_off [OF assms(2,3)] by (rule batch_closure_flight) (simp add: taking_off_def)
  then show ?thesis using overheard_keeps [of f' "others (f_stmts f')"] by (simp add: f'(2))
qed

section \<open>Histories\<close>

definition committed :: "db \<Rightarrow> writes list \<Rightarrow> db" where
  "committed d0 ws = fold apply_writes ws d0"

text \<open>
  A transaction takes off from what is committed at some moment, with the sequences wherever they are by
  then; others commit meanwhile, and when it commits the committed tables are those of all commits
  before it.
\<close>

definition flies_between :: "db \<Rightarrow> writes list \<Rightarrow> db \<Rightarrow> flight \<Rightarrow> bool" where
  "flies_between d0 ws d f \<longleftrightarrow>
     (\<exists>n. same_tables (committed d0 (take n ws)) d) \<and> ids_drawn d \<and> same_tables (committed d0 ws) (f_base f)"

inductive concurrent :: "(request \<Rightarrow> bool) \<Rightarrow> 'b publisher \<Rightarrow> db \<Rightarrow> writes list \<Rightarrow> bool"
  for admit publish d0
where
  start: "concurrent admit publish d0 []"
| request: "concurrent admit publish d0 ws \<Longrightarrow> admit req \<Longrightarrow> typed req \<Longrightarrow> begins_transaction req \<Longrightarrow>
     fly env others req d = ((res, None), f) \<Longrightarrow> flies_between d0 ws d f \<Longrightarrow>
     concurrent admit publish d0 (ws @ [f_own f])"
| batch: "concurrent admit publish d0 ws \<Longrightarrow>
     fly_batch env others publish batchSize b m d = ((cap, None), f) \<Longrightarrow> flies_between d0 ws d f \<Longrightarrow>
     concurrent admit publish d0 (ws @ [f_own f])"

lemma committed_snoc: "committed d0 (ws @ [w]) = apply_writes w (committed d0 ws)"
  by (simp add: committed_def)

lemma committed_view:
  "same_tables (committed d0 ws) (f_base f) \<Longrightarrow> same_tables (view f) (committed d0 (ws @ [f_own f]))"
  unfolding committed_snoc view_def by (intro apply_writes_same) (simp add: same_tables_def)

lemma take_snoc: "take n (ws @ [w]) = (if n \<le> length ws then take n ws else ws @ [w])"
  by simp

text \<open>What a batch commits is nothing to the ledger.\<close>

lemma only_published_rowless:
  assumes "only_published w"
  shows "w_marks w = []" "w_entries w = []" "w_transactions w = []" "w_outbox w = []"
  by (subst assms [unfolded only_published_def], simp add: no_writes_def)+

lemma published_view:
  assumes "only_published (f_own f)"
  shows "sound (f_base f) \<Longrightarrow> sound (view f)" "abs_ledger (view f) = abs_ledger (f_base f)"
    "balance_of (view f) = balance_of (f_base f)"
proof -
  note own = only_published_rowless [OF assms]
  have eq: "only_marks (f_own f) = f_own f"
    using assms by (simp add: only_published_def only_marks_def own(1) no_writes_def)
  show "sound (f_base f) \<Longrightarrow> sound (view f)"
    using sound_rows_marked [of "f_base f" "f_own f"] marks_alone_keep_reversals [of "f_base f" "f_own f"]
    by (simp add: eq sound_split view_def own marks_reversed_def)
qed (simp_all add: rowless_view only_published_rowless assms)

section \<open>Every prefix is sound\<close>

lemma commit_facts:
  assumes w: "flies_between d0 ws d f" and view: "sound (view f)"
  shows "sound (committed d0 (ws @ [f_own f]))"
  using committed_view w view sound_same_tables unfolding flies_between_def by blast

lemma prefixes_sound:
  assumes "concurrent admit publish d0 ws" "sound d0"
  shows "\<forall>n. sound (committed d0 (take n ws))"
  using assms
proof (induction rule: concurrent.induct)
  case start
  then show ?case by (simp add: committed_def)
next
  case (request ws req env others d res f)
  have d: "sound d" "ids_drawn d"
    using request.IH [OF request.prems] request.hyps(6) sound_same_tables by (auto simp: flies_between_def)
  with request.hyps obtain p r where "landed req p r f" using fly_landed by blast
  then have "sound (committed d0 (ws @ [f_own f]))"
    using landed_sound request.hyps(3) commit_facts [OF request.hyps(6)] by blast
  with request.IH [OF request.prems] show ?case by (simp add: take_snoc del: take_append)
next
  case (batch ws env others batchSize b m d cap f)
  have d: "sound d" "ids_drawn d"
    using batch.IH [OF batch.prems] batch.hyps(3) sound_same_tables by (auto simp: flies_between_def)
  have "steady f \<and> only_published (f_own f)" using batch.hyps(2) d by (rule fly_batch_published)
  then have "sound (committed d0 (ws @ [f_own f]))"
    using published_view(1) commit_facts [OF batch.hyps(3)] by (simp add: steady_def)
  with batch.IH [OF batch.prems] show ?case by (simp add: take_snoc del: take_append)
qed

text \<open>So a commit of a concurrent history can be taken apart.\<close>

lemma flight_landed:
  assumes "concurrent admit publish d0 ws" "sound d0" "flies_between d0 ws d f"
    and "fly env others req d = ((res, None), f)" "typed req" "begins_transaction req"
  obtains p r where "res = Some r" "landed req p r f"
proof -
  have "sound d" "ids_drawn d"
    using prefixes_sound [OF assms(1,2)] assms(3) sound_same_tables by (auto simp: flies_between_def)
  with assms(4-6) that show thesis using fly_landed by blast
qed

lemma flight_published:
  assumes "concurrent admit publish d0 ws" "sound d0" "flies_between d0 ws d f"
    and "fly_batch env others publish batchSize b m d = ((cap, None), f)"
  shows "only_published (f_own f)"
proof -
  have "sound d" "ids_drawn d"
    using prefixes_sound [OF assms(1,2)] assms(3) sound_same_tables by (auto simp: flies_between_def)
  with fly_batch_published [OF assms(4)] show ?thesis by blast
qed

text \<open>
  What a flight relies on is what the others guarantee: the next commit of a history is permitted unless
  it needs a lock the flight holds, provided the sequences never hand out an id twice.
\<close>

lemma commits_announced:
  assumes "concurrent admit publish d0 ws" "sound d0"
  shows "\<forall>w \<in> set ws. announced w"
  using assms
proof (induction rule: concurrent.induct)
  case (request ws req env others d res f)
  obtain p r where f: "landed req p r f"
    using flight_landed [OF request.hyps(1) request.prems request.hyps(6,5,3,4)] by metis
  have "announced (f_own f)"
    using f
  proof (cases rule: landed_cases)
    case 1
    then show ?thesis by (simp add: announced_def)
  qed (simp add: posting_in_flight_def)
  with request show ?case by simp
next
  case (batch ws env others batchSize b m d cap f)
  have "only_published (f_own f)"
    by (rule flight_published [OF batch.hyps(1) batch.prems batch.hyps(3,2)])
  then have "announced (f_own f)" by (simp add: announced_def only_published_rowless)
  with batch show ?case by simp
qed simp

lemma next_commit_permitted:
  assumes hist: "concurrent admit publish d0 (ws @ w # us)" "sound d0"
    and f: "same_tables (committed d0 ws) (f_base f)" and a: "ar_writes a = w"
    and free: "compatible (touched w) (f_locks f)" "apart w (f_own f)" "ids_drawn (arrive a (f_base f))"
  shows "permitted a f"
proof -
  have "sound (committed d0 (take (Suc (length ws)) (ws @ w # us)))"
    using prefixes_sound [OF hist] ..
  then have "sound (apply_writes w (committed d0 ws))" by (simp add: committed_def)
  moreover have "same_tables (apply_writes w (committed d0 ws)) (arrive a (f_base f))"
    using apply_writes_same [OF f, of w] arrive_same [of a "f_base f"] a by (auto intro: same_tables_trans)
  ultimately have "sound (arrive a (f_base f))" using sound_same_tables by blast
  moreover have "announced w" using commits_announced [OF hist] by simp
  ultimately show ?thesis using free a by (simp add: permitted_def)
qed

text \<open>
  In particular when it comes from a request whose transaction holds, at that moment, no lock that
  conflicts with one of the flight's: what the database sees to.
\<close>

lemma next_request_permitted:
  assumes hist: "concurrent admit publish d0 (ws @ f_own g # us)" "concurrent admit publish d0 ws" "sound d0"
    and g: "fly env others req d = ((res, None), g)" "flies_between d0 ws d g" "typed req" "begins_transaction req"
    and f: "same_tables (committed d0 ws) (f_base f)" and a: "ar_writes a = f_own g"
    and free: "compatible (f_locks g) (f_locks f)" "apart (f_own g) (f_own f)" "ids_drawn (arrive a (f_base f))"
  shows "permitted a f"
proof -
  obtain p r where "landed req p r g" using flight_landed [OF hist(2,3) g(2,1,3,4)] by metis
  then have "compatible (touched (f_own g)) (f_locks f)" using free(1) by (rule landed_compatible)
  with hist(1,3) f a show ?thesis using free(2,3) by (rule next_commit_permitted)
qed

section \<open>Solvency\<close>

lemma affordable:
  assumes "in_int64 b" "0 \<le> b" "0 < n" "in_int64 n" "0 \<le> sub64 b n"
  shows "n \<le> b"
  using assms by (subst (asm) sub64_id) (auto simp: in_int64_def)

lemma landed_solvent:
  assumes f: "landed req p r f" and ty: "typed req" and plain: "\<not> is_reversal req" and sol: "solvent (f_base f)"
  shows "solvent (view f)"
  using f
proof (cases rule: landed_cases)
  case 1
  with sol show ?thesis by (simp add: solvent_def rowless_view)
next
  case (2 t)
  let ?d = "f_base f"
  obtain a b where ab: "between p a b f" "funded p a f" using 2 by (auto simp: posting_in_flight_def)
  have amt: "0 < p_Amount p" using 2 by (simp add: posting_in_flight_def claimed_def)
  have wf: "well_formed ?d p" using f ty by (rule landed_well_formed)
  have ty_p: "p_Type p \<noteq> TxTypeReversal"
    using f plain stands_for_plain unfolding landed_def by blast
  have "0 \<le> moved p (balance_of ?d) (a_id x)" if x: "x \<in> set (accounts ?d)" "a_type x \<noteq> accountTypeSystem" for x
  proof -
    have nonneg: "0 \<le> balance_of ?d (a_id x)" using sol x by (simp add: solvent_def)
    have "p_Amount p \<le> balance_of ?d (a_id x)" if src: "a_id x = p_From p"
    proof -
      have "distinct (map a_id (accounts ?d))" using f by (simp add: landed_def steady_def sound_def)
      then have "account_of ?d (a_id x) = Some x" unfolding account_of_def using x(1) by (rule find_key)
      with ab(1) src have eq: "a = x" by (simp add: between_def)
      show ?thesis
        by (rule affordable) (use eq ab(2) x(2) ty_p nonneg amt wf src in \<open>auto simp: funded_def well_formed_def\<close>)
    qed
    with nonneg amt wf show ?thesis by (auto simp: moved_def well_formed_def)
  qed
  then show ?thesis by (simp add: solvent_def landed_balance [OF f ty 2])
qed

end
