(* ===== verification/Concurrency_Properties.thy ===== *)
theory Concurrency_Properties
  imports Concurrency Samples
begin

text \<open>Properties of requests and batches that run side by side, statement by statement.\<close>

section \<open>Serial histories of the abstract ledger\<close>

text \<open>Postings one after another, each under a key that is unused by then.\<close>

fun admissible :: "ledger_spec \<Rightarrow> transfer_params list \<Rightarrow> bool" where
  "admissible l [] = True"
| "admissible l (p # ps) = (sp_keys l (p_IdempotencyKey p) = None \<and> admissible (spec_post p l) ps)"

lemma admissible_snoc:
  "admissible l (ps @ [p]) \<longleftrightarrow> admissible l ps \<and> sp_keys (fold spec_post ps l) (p_IdempotencyKey p) = None"
  by (induction ps arbitrary: l) auto

text \<open>Each of them is what an admitted request stands for in what is committed at some moment.\<close>

definition asked_for :: "(request \<Rightarrow> bool) \<Rightarrow> db \<Rightarrow> writes list \<Rightarrow> transfer_params \<Rightarrow> bool" where
  "asked_for admit d0 ws p \<longleftrightarrow> (\<exists>req n. admit req \<and> stands_for req (committed d0 (take n ws)) p)"

lemma asked_for_later: "asked_for admit d0 ws p \<Longrightarrow> asked_for admit d0 (ws @ us) p"
proof -
  assume "asked_for admit d0 ws p"
  then obtain req n where "admit req" "stands_for req (committed d0 (take n ws)) p" by (auto simp: asked_for_def)
  moreover have "take n ws = take (min n (length ws)) (ws @ us)" by (simp add: min_def)
  ultimately show ?thesis unfolding asked_for_def by metis
qed

lemma serial_history:
  assumes "concurrent admit publish d0 ws" "sound d0"
  shows "\<exists>ps. admissible (abs_ledger d0) ps \<and> length ps \<le> length ws \<and>
    (\<forall>p \<in> set ps. asked_for admit d0 ws p) \<and> abs_ledger (committed d0 ws) = fold spec_post ps (abs_ledger d0)"
  using assms
proof (induction rule: concurrent.induct)
  case start
  show ?case by (rule exI [of _ "[]"]) (simp add: committed_def)
next
  case (request ws req env others d res f)
  obtain ps where ps: "admissible (abs_ledger d0) ps" "length ps \<le> length ws" "\<forall>p \<in> set ps. asked_for admit d0 ws p"
    "abs_ledger (committed d0 ws) = fold spec_post ps (abs_ledger d0)"
    using request.IH [OF request.prems] by blast
  obtain p r where f: "landed req p r f"
    using flight_landed [OF request.hyps(1) request.prems request.hyps(6,5,3,4)] by metis
  have base: "same_tables (committed d0 ws) (f_base f)" using request.hyps(6) by (simp add: flies_between_def)
  note abs = abs_ledger_same_tables [OF committed_view [OF base]] abs_ledger_same_tables [OF base]
  have later: "\<forall>p \<in> set ps. asked_for admit d0 (ws @ [f_own f]) p" using ps(3) asked_for_later by blast
  from landed_refines [OF f request.hyps(3)] show ?case
  proof (elim disjE conjE)
    assume "abs_ledger (view f) = abs_ledger (f_base f)"
    with ps later show ?thesis by (intro exI [of _ ps]) (simp add: abs)
  next
    assume new: "sp_keys (abs_ledger (f_base f)) (p_IdempotencyKey p) = None"
      "abs_ledger (view f) = spec_post p (abs_ledger (f_base f))"
    have "stands_for req (committed d0 (take (length ws) (ws @ [f_own f]))) p"
      using f stands_for_tables [OF base] by (simp add: landed_def)
    with request.hyps(2) have "asked_for admit d0 (ws @ [f_own f]) p" unfolding asked_for_def by blast
    with ps later new show ?thesis by (intro exI [of _ "ps @ [p]"]) (simp add: abs admissible_snoc)
  qed
next
  case (batch ws env others batchSize b m d cap f)
  obtain ps where ps: "admissible (abs_ledger d0) ps" "length ps \<le> length ws" "\<forall>p \<in> set ps. asked_for admit d0 ws p"
    "abs_ledger (committed d0 ws) = fold spec_post ps (abs_ledger d0)"
    using batch.IH [OF batch.prems] by blast
  have base: "same_tables (committed d0 ws) (f_base f)" using batch.hyps(3) by (simp add: flies_between_def)
  have "only_published (f_own f)"
    by (rule flight_published [OF batch.hyps(1) batch.prems batch.hyps(3,2)])
  then have "abs_ledger (committed d0 (ws @ [f_own f])) = abs_ledger (committed d0 ws)"
    using abs_ledger_same_tables [OF committed_view [OF base]] abs_ledger_same_tables [OF base] published_view(2) by simp
  with ps show ?case by (intro exI [of _ ps]) (auto intro: asked_for_later)
qed

section \<open>The properties\<close>

text \<open>
  C4: Serializability. However the statements of requests and of the relay's batches interleave, the
  committed tables are at every moment a sound double-entry ledger, and what has been committed is a
  series of postings of the abstract ledger, at most one per commit, each under a key unused by then and
  each the transfer a request asked for.
\<close>

theorem concurrent_histories_are_serial:
  assumes "concurrent admit publish d0 ws" "ledger_inv d0"
  shows "(\<forall>n. sound (committed d0 (take n ws))) \<and>
    (\<exists>ps. admissible (abs_ledger d0) ps \<and> length ps \<le> length ws \<and> (\<forall>p \<in> set ps. asked_for admit d0 ws p) \<and>
       abs_ledger (committed d0 ws) = fold spec_post ps (abs_ledger d0))"
  using assms prefixes_sound serial_history ledger_inv_sound(1) by blast

text \<open>
  A transfer takes off while its source is still empty; the deposit that pays for it commits after the
  transfer's first statement.
\<close>

definition terse_env :: env where
  "terse_env = quiet_env\<lparr>jsonb_text := \<lambda>_. Some ''{}''\<rparr>"

definition deposit_writes :: writes where
  "deposit_writes = \<lparr>w_transactions = [sample_transaction 1 ''k1'' 1 3 100 ''deposit''],
     w_entries = [sample_entry 1 1 1 (-100), sample_entry 2 1 3 100],
     w_outbox = [sample_event 1 ''3'' None, sample_event 2 ''1'' None], w_marks = [], w_published = []\<rparr>"

definition deposit_arrival :: arrival where
  "deposit_arrival =
     \<lparr>ar_writes = deposit_writes, ar_transaction_ids = 1, ar_entry_ids = 2, ar_outbox_ids = 2\<rparr>"

definition transfer_writes :: writes where
  "transfer_writes = \<lparr>w_transactions = [sample_transaction 2 ''k2'' 3 4 50 ''transfer''],
     w_entries = [sample_entry 3 2 3 (-50), sample_entry 4 2 4 50],
     w_outbox = [sample_event 3 ''4'' None, sample_event 4 ''3'' None], w_marks = [], w_published = []\<rparr>"

lemma deposit_flight:
  "case fly terse_env (\<lambda>_. []) (Deposit_req 3 100 ''ATM'' ''k1'') bank_db of
     ((res, err), f) \<Rightarrow> err = None \<and> f_own f = deposit_writes \<and> same_tables bank_db (f_base f)"
  by code_simp

lemma transfer_overtaken:
  "case fly terse_env (\<lambda>n. if n = 1 then [deposit_arrival] else []) (Transfer_req 3 4 50 ''k2'') bank_db of
     ((res, err), f) \<Rightarrow> err = None \<and> f_own f = transfer_writes \<and>
       same_tables (apply_writes deposit_writes bank_db) (f_base f)"
  by code_simp

definition discard :: "unit publisher" where
  "discard ms b = (None, b)"

lemma overtaken_history:
  "concurrent (\<lambda>req. \<not> is_reversal req) discard bank_db [deposit_writes, transfer_writes]"
proof -
  have ids: "ids_drawn bank_db" by code_simp
  obtain res f where f: "fly terse_env (\<lambda>_. []) (Deposit_req 3 100 ''ATM'' ''k1'') bank_db = ((res, None), f)"
    "f_own f = deposit_writes" "same_tables bank_db (f_base f)"
    using deposit_flight by (auto split: prod.splits)
  obtain res' g where g: "fly terse_env (\<lambda>n. if n = 1 then [deposit_arrival] else []) (Transfer_req 3 4 50 ''k2'') bank_db =
      ((res', None), g)" "f_own g = transfer_writes" "same_tables (apply_writes deposit_writes bank_db) (f_base g)"
    using transfer_overtaken by (auto split: prod.splits)
  have "flies_between bank_db [] bank_db f" using ids f(3) by (simp add: flies_between_def committed_def)
  then have "concurrent (\<lambda>req. \<not> is_reversal req) discard bank_db ([] @ [f_own f])"
    by (intro concurrent.request [OF concurrent.start _ _ _ f(1)]) (simp_all add: in_int64_def)
  then have first: "concurrent (\<lambda>req. \<not> is_reversal req) discard bank_db [deposit_writes]" by (simp add: f(2))
  have "flies_between bank_db [deposit_writes] bank_db g"
    using ids g(3) unfolding flies_between_def by (intro conjI exI [of _ 0]) (simp_all add: committed_def)
  then have "concurrent (\<lambda>req. \<not> is_reversal req) discard bank_db ([deposit_writes] @ [f_own g])"
    by (intro concurrent.request [OF first _ _ _ g(1)]) (simp_all add: in_int64_def)
  then show ?thesis by (simp add: g(2))
qed

theorem concurrent_histories_are_serial_witness:
  "\<exists>ps. admissible (abs_ledger bank_db) ps \<and> length ps \<le> 2 \<and>
     abs_ledger (committed bank_db [deposit_writes, transfer_writes]) = fold spec_post ps (abs_ledger bank_db)"
  using concurrent_histories_are_serial [OF overtaken_history] genesis_ledger_inv [OF bank_db_genesis] by fastforce

text \<open>
  C11: No overdraft, under concurrency. As long as nothing is reversed, no account but the system's is
  ever below zero, however many requests draw on it at the same time: no money is spent twice.
\<close>

theorem no_double_spending:
  assumes "concurrent (\<lambda>req. \<not> is_reversal req) publish d0 ws" "ledger_inv d0" "solvent d0"
  shows "solvent (committed d0 ws)"
  using assms(1,3)
proof (induction rule: concurrent.induct)
  case start
  then show ?case by (simp add: committed_def)
next
  case (request ws req env others d res f)
  obtain p r where f: "landed req p r f"
    using flight_landed [OF request.hyps(1) ledger_inv_sound(1) [OF assms(2)] request.hyps(6,5,3,4)] by metis
  have base: "same_tables (committed d0 ws) (f_base f)" using request.hyps(6) by (simp add: flies_between_def)
  have "solvent (f_base f)" using base request.IH [OF request.prems] by (rule solvent_same_tables)
  with f request.hyps(3,2) have "solvent (view f)" by (rule landed_solvent)
  with committed_view [OF base] show ?case by (rule solvent_same_tables)
next
  case (batch ws env others batchSize b m d cap f)
  have base: "same_tables (committed d0 ws) (f_base f)" using batch.hyps(3) by (simp add: flies_between_def)
  have "only_published (f_own f)"
    by (rule flight_published [OF batch.hyps(1) ledger_inv_sound(1) [OF assms(2)] batch.hyps(3,2)])
  then have "balance_of (view f) = balance_of (f_base f)" by (rule published_view(3))
  with solvent_same_tables [OF base batch.IH [OF batch.prems]] have "solvent (view f)" by (simp add: solvent_def)
  with committed_view [OF base] show ?case by (rule solvent_same_tables)
qed

theorem no_double_spending_witness:
  "solvent (committed bank_db [deposit_writes, transfer_writes]) \<and>
   balance_of (committed bank_db [deposit_writes, transfer_writes]) 3 = 50"
proof -
  have "solvent bank_db" "balance_of (committed bank_db [deposit_writes, transfer_writes]) 3 = 50" by code_simp+
  with no_double_spending [OF overtaken_history] genesis_ledger_inv [OF bank_db_genesis] show ?thesis by blast
qed

text \<open>
  C21: Ids follow commits. Ids are handed out before commits, so over the whole ledger they need not rise
  with them. On each account they do, and for each partition key of the outbox too: what is committed
  later comes after what was committed before. So no entry slips in behind a page that was read, and the
  relay, which publishes by id, never overtakes an event of the same account.
\<close>

theorem ids_follow_commits:
  assumes "concurrent admit publish d0 (ws @ us)" "ledger_inv d0"
  shows "(\<exists>later. entry_ids_of (committed d0 (ws @ us)) i = entry_ids_of (committed d0 ws) i @ later \<and>
      (\<forall>j \<in> set (entry_ids_of (committed d0 ws) i). \<forall>j' \<in> set later. j < j')) \<and>
    (\<exists>later. event_ids_of (committed d0 (ws @ us)) k = event_ids_of (committed d0 ws) k @ later \<and>
      (\<forall>j \<in> set (event_ids_of (committed d0 ws) k). \<forall>j' \<in> set later. j < j'))"
proof -
  have "sound (committed d0 (take (length (ws @ us)) (ws @ us)))"
    using prefixes_sound [OF assms(1) ledger_inv_sound(1) [OF assms(2)]] ..
  then have ord: "commit_ordered (committed d0 (ws @ us))" by (simp add: sound_def)
  have grow: "\<exists>later. entry_ids_of (committed d (vs @ us)) i = entry_ids_of (committed d vs) i @ later"
    "\<exists>later. event_ids_of (committed d (vs @ us)) k = event_ids_of (committed d vs) k @ later" for d vs us
    by (induction us rule: rev_induct) (auto simp: committed_def entry_ids_apply event_ids_apply)
  obtain es os where es: "entry_ids_of (committed d0 (ws @ us)) i = entry_ids_of (committed d0 ws) i @ es"
    and os: "event_ids_of (committed d0 (ws @ us)) k = event_ids_of (committed d0 ws) k @ os"
    using grow by blast
  show ?thesis
    using commit_orderedD(1) [OF ord, of i] commit_orderedD(2) [OF ord, of k] unfolding es os
    by (auto simp: sorted_wrt_append)
qed

theorem ids_follow_commits_witness:
  "\<exists>later. entry_ids_of (committed bank_db [deposit_writes, transfer_writes]) 3 = [2] @ later \<and>
     later = [3] \<and> (\<forall>j' \<in> set later. 2 < j')"
proof -
  have "entry_ids_of (committed bank_db [deposit_writes]) 3 = [2]"
    "entry_ids_of (committed bank_db ([deposit_writes] @ [transfer_writes])) 3 = [2, 3]" by code_simp+
  with ids_follow_commits [of _ _ bank_db "[deposit_writes]" "[transfer_writes]" 3] overtaken_history
    genesis_ledger_inv [OF bank_db_genesis] show ?thesis by fastforce
qed

end
