(* ===== verification/Spec2Isabelle.thy ===== *)
theory Spec2Isabelle
  imports Ledger_Properties Reversal_Properties Outbox_Properties Reading_Properties
    Notification_Properties Handler_Properties History_Properties
    Lock_Properties Isolation_Properties Pipeline_Properties
    Command_Properties Assembly Concurrency_Properties
begin

text \<open>
  A verification library for Equilibra, a double-entry ledger with a transactional outbox and
  notifications over WebSocket, written in Go.

  \<^bold>\<open>The program.\<close> An HTTP interface (\<^verbatim>\<open>internal/handler\<close>) validates requests and calls the service
  (\<^verbatim>\<open>internal/service\<close>), which runs every operation in one PostgreSQL transaction
  (\<^verbatim>\<open>internal/storage\<close>) and writes, with each ledger entry, an event into an outbox table. The relay
  (\<^verbatim>\<open>internal/relay\<close>, \<^verbatim>\<open>internal/publisher\<close>) publishes the outbox to Kafka. Copies of the notification
  service (\<^verbatim>\<open>internal/notification\<close>) consume the topic, claim each event in Redis, publish a
  notification on a Redis channel, and every copy passes what it receives from that channel to the
  WebSocket connections of the account.

  \<^bold>\<open>Foundations.\<close> \<open>Prelude\<close> has Go's \<^verbatim>\<open>int64\<close> (an integer whose arithmetic is written with
  \<open>wrap64\<close>, defined through 64-bit words) and the named collections of rules; \<open>Go_Errors\<close> the error
  values of all packages as one datatype; \<open>Go_Text\<close> and \<open>Go_Json\<close> what the program uses of
  \<^verbatim>\<open>strconv\<close>, \<^verbatim>\<open>time\<close> and \<^verbatim>\<open>encoding/json\<close>, the JSON scanner as a state machine over bytes with a
  stack of containers; \<open>Http\<close> what it uses of \<^verbatim>\<open>net/http\<close> and the decoder that takes one value off a
  stream.

  \<^bold>\<open>The ledger.\<close> \<open>Events\<close> models \<^verbatim>\<open>internal/events\<close>. \<open>Schema\<close> has the tables as lists of rows, \<open>Session\<close>
  statements as functions on a session that may fail at any statement, \<open>Storage\<close> each method of
  \<^verbatim>\<open>querier.go\<close> with its SQL and the constraints of the migrations, \<open>Transaction\<close> \<^verbatim>\<open>Storage.WithTx\<close>,
  \<open>Querier\<close> the interface of that name as a record of operations and its implementation \<^verbatim>\<open>queries\<close>,
  \<open>Service\<close> the operations of \<^verbatim>\<open>service.go\<close>, whose functions are given a \<^verbatim>\<open>Querier\<close> as in the code. The
  environment of a transaction (a fault at any
  statement, a commit that fails or whose outcome is unknown, the clock, the ids PostgreSQL
  generates, the advisory lock) is an argument of every operation; theorems hold for all of them
  unless they ask for a healthy one. \<open>Storage_Facts\<close> and \<open>Service_Facts\<close> invert successful runs,
  \<open>Ledger\<close> states the invariant of the tables, \<open>Operations\<close> that every request is a refusal, a replay
  or a posting and keeps the invariant, \<open>Decision\<close> evaluates requests in a ready environment by cases,
  \<open>Effects\<close> the contract of money operations (a locale, interpreted on the service) with the abstract
  ledger it refines, \<open>Error_Origins\<close> which sentinels each operation can return. \<open>Evolution\<close> has the
  histories of requests and relay batches, \<open>Samples\<close> concrete ledgers for the witnesses.

  \<^bold>\<open>Concurrency.\<close> \<open>Locks\<close> follows the locks a request takes: with the row of a reversed transaction
  first, then the accounts by id, then the unique keys, every request climbs one linear order of
  resources, and a system of requests that wait for each other's locks always gets on. Locks have
  PostgreSQL's modes (\<open>conflicts\<close> in \<open>Session\<close>): \<^verbatim>\<open>FOR UPDATE\<close>, the update of a status, and the key share
  of a foreign key, which does not keep another such share out. \<open>Isolation\<close>
  shows that every change is covered by an exclusive lock the request has taken, \<open>Independence\<close> that its
  answer depends only on what its locks protect. \<open>Interference\<close> runs the same functions statement by
  statement, as READ COMMITTED does, on an implementation of \<^verbatim>\<open>Querier\<close> that lets other transactions
  commit between any two statements, except where the locks that the database makes the other one hold
  for what it writes (\<open>touched\<close>) conflict with one this transaction holds. The argument is
  rely and guarantee: \<open>Interference_Facts\<close> has what the commits of others leave alone (\<open>keeps\<close>), \<open>In_Flight\<close>
  each statement under them, \<open>Flights\<close> the transfer core, \<open>Landing\<close> the closures up to the commit,
  \<open>Sound_Commits\<close> that the commit leaves a sound ledger and is a stutter or one posting of the abstract
  ledger at that moment, \<open>Concurrency\<close> whole histories of commits and that what a flight relies on is
  what the others guarantee (\<open>next_commit_permitted\<close>, \<open>next_request_permitted\<close>). This is why the histories of the other theories
  may run one transaction after the other. \<open>Typing\<close> has the types of the columns.

  \<^bold>\<open>The relay.\<close> \<open>Relay\<close> models \<^verbatim>\<open>publishBatch\<close>, \<^verbatim>\<open>Run\<close> and \<^verbatim>\<open>KafkaProducer.Publish\<close> over a producer with
  the documented behaviour of \<^verbatim>\<open>ProduceSync\<close> (the locale \<open>kafka_client\<close>); \<open>Relay_Facts\<close> delivery and
  order, \<open>Relay_Progress\<close> that the backlog drains.

  \<^bold>\<open>Reading.\<close> \<open>Reading\<close> proves the answers of \<^verbatim>\<open>AccountBalance\<close> and \<^verbatim>\<open>AccountTransactionsHistory\<close> and that
  following the cursors visits every entry once.

  \<^bold>\<open>The HTTP interface.\<close> \<open>Requests\<close> models \<^verbatim>\<open>validator.go\<close> and \<^verbatim>\<open>requests.go\<close>, \<open>Handler\<close> \<^verbatim>\<open>errors.go\<close> and
  \<^verbatim>\<open>handler.go\<close>, \<open>Http\<close> \<^verbatim>\<open>helpers.go\<close>. A handler is a function of a request, a service (a record of
  operations, as the interface \<^verbatim>\<open>Service\<close>) and its state. \<open>Body_Facts\<close> relates the streaming decoder to
  the whole text, \<open>Handler_Facts\<close> splits the handlers into what a request asks for and the call it
  leads to; its locale \<open>money_service\<close> is interpreted on the ledger's operations. The router is a
  parameter that picks a route of the table \<open>routes\<close>.

  \<^bold>\<open>Notifications.\<close> \<open>Hub\<close> models \<^verbatim>\<open>hub.go\<close> (clients in a heap, channels as lists of at most 16 messages),
  \<open>Ws\<close> the connection's loop of \<^verbatim>\<open>ws.go\<close>, \<open>Hub_System\<close> the interleavings of all goroutines on one hub as
  steps with a history of what was sent and received. \<open>Messages\<close> has the JSON of events, notifications
  and envelopes, \<open>Dedup\<close> \<^verbatim>\<open>dedup.go\<close> over Redis commands with their documented behaviour, \<open>Processor\<close>,
  \<open>Pubsub\<close> and \<open>Consumer\<close> the files of those names. \<open>Handle\<close> is the run of its steps (\<open>handle_step\<close>), one
  call of an interface each; \<open>Notification_Facts\<close> interleaves the same steps of the copies of the service
  that work on one event. A run of the consumer is also run with a history of its calls and commits
  (\<open>logged\<close>), by which a commit is tied to the calls of its poll. \<open>Json_Facts\<close> shows that what the
  program writes is read back.

  \<^bold>\<open>Commands.\<close> \<open>Commands\<close> models \<^verbatim>\<open>internal/config\<close> (structs, tags, loaders), \<^verbatim>\<open>storage.Open\<close> and the start-up
  of the three commands as sequences of openings and deferred closings; \<open>Supervision\<close> the goroutines of
  the API and the groups of the relay and of the notification service as state machines over what ends
  when, with the contract of \<^verbatim>\<open>errgroup\<close> as a locale; \<open>Assembly\<close> the constructors, servers, muxes and metric
  registries and how \<^verbatim>\<open>run\<close> composes them, with the contract of a registry as a locale.

  \<^bold>\<open>Properties.\<close> \<open>Ledger_Properties\<close> and \<open>Reversal_Properties\<close>: the invariant, conservation of money,
  refinement of the abstract ledger, atomicity, exactly-once under retries, no overdraft, the decision
  tables, reversals. \<open>Outbox_Properties\<close>: the outbox mirrors the ledger, at-least-once and ordered
  delivery, progress. \<open>Reading_Properties\<close> and \<open>History_Properties\<close>: exact balances and pages, on the
  wire too. \<open>Handler_Properties\<close>: what the status codes mean, refusal of bad input before the ledger is
  asked, the decoder. \<open>Hub_Properties\<close> and \<open>Notification_Properties\<close>: what
  connections hear, deduplication, commits of offsets. \<open>Lock_Properties\<close> and \<open>Isolation_Properties\<close>:
  no deadlock, changes only under locks, independent requests commute. \<open>Concurrency_Properties\<close>:
  interleaved histories are serial histories of the abstract ledger, nothing is spent twice, ids rise in
  the order of the commits on each account. \<open>Pipeline_Properties\<close>: typed
  tables, and what a posting becomes all the way to the envelope of its notification.
  \<open>Command_Properties\<close>: what is opened is closed, but for a client that fails its first ping, and
  goroutines stop together.

  \<^bold>\<open>Loops and bounds.\<close> Loops that wait for the outside world (the relay, the claim loop, the consumer, the
  subscriber, a connection) are recursions over the finite list of what the outside world does; when
  the list ends the loop is still running, which is a result of its own. Nothing else needs fuel: the
  scanner recurses on its text, the decimal printer on its number, with a measure.

  \<^bold>\<open>Assumptions.\<close> In the histories of \<open>Evolution\<close> transactions take effect one after another. In \<open>Concurrency\<close>
  they interleave: a statement sees what is committed when it runs and what its transaction has written;
  no transaction commits a change whose own locks (the key shares of its foreign keys, its unique keys, the
  rows it updates) conflict with a lock another one holds; a sequence never hands out an id
  twice; accounts change only by migrations. That two shares of one row do not conflict is part of the
  model, so the lock that orders two postings on an account is the one \<^verbatim>\<open>FOR UPDATE\<close>. Kafka, Redis, the WebSocket
  library, the router, \<^verbatim>\<open>errgroup\<close>, the metric registry and the library that reads the environment are
  parameters with the behaviour their documentation promises. Times are nanoseconds with a zone offset.

  \<^bold>\<open>Not modelled.\<close> Logging, loading of the \<^verbatim>\<open>.env\<close> file, the parsing of environment variables, the inside of
  the libraries, and timeouts other than as failures that may happen at any statement.
\<close>

end
